(* ===== verification/Go_Prelude.thy ===== *)
theory Go_Prelude
  imports Main "HOL-Library.Word" "HOL-Library.AList" "HOL-Library.Multiset"
begin

text \<open>
  What every component of the model shares: the Go notions the sources use and the generic
  lemmas about them.

  \<^item> Bytes are 8-bit words and byte slices are lists of them; Go strings are HOL strings (both
    are byte sequences). A Go \<open>int\<close> is an \<open>int\<close> or, for a length, a \<open>nat\<close>; the conversions that
    narrow a value (\<open>int32\<close>, \<open>uint32\<close>, \<open>byte\<close>) are written out.
  \<^item> Errors are the values of \<open>go_error\<close>; \<open>Errorf p e\<close> is \<open>fmt.Errorf(p + "%w", e)\<close> and
    \<open>Errorw e p\<close> is \<open>fmt.Errorf("%w" + p, e)\<close>, so that \<open>err == io.EOF\<close> is equality and \<open>errors.Is\<close>
    unwraps.
  \<^item> A call that may panic returns a value of \<open>'a go\<close>.
  \<^item> A \<open>select\<close> statement yields the list of the results of its ready cases: Go picks any one of
    them, and the empty list means that the statement blocks. Code that goes through a \<open>select\<close> is
    a function into lists, one element per possible outcome.
\<close>

section \<open>Types\<close>

type_synonym byte = "8 word"
type_synonym bytes = "byte list"

datatype ctx_err = Canceled | DeadlineExceeded

datatype go_error =
    EOF
  | ErrUnexpectedEOF
  | ErrClosedPipe
  | CtxErr ctx_err
  | ErrNew string
  | Errorf string go_error
  | Errorw go_error string

fun errors_Is :: "go_error \<Rightarrow> go_error \<Rightarrow> bool" where
  "errors_Is (Errorf p e) t = (Errorf p e = t \<or> errors_Is e t)"
| "errors_Is (Errorw e p) t = (Errorw e p = t \<or> errors_Is e t)"
| "errors_Is e t = (e = t)"

fun error_string :: "go_error \<Rightarrow> string" where
  "error_string EOF = ''EOF''"
| "error_string ErrUnexpectedEOF = ''unexpected EOF''"
| "error_string ErrClosedPipe = ''io: read/write on closed pipe''"
| "error_string (CtxErr Canceled) = ''context canceled''"
| "error_string (CtxErr DeadlineExceeded) = ''context deadline exceeded''"
| "error_string (ErrNew m) = m"
| "error_string (Errorf p e) = p @ error_string e"
| "error_string (Errorw e p) = error_string e @ p"

datatype 'a go = Returns 'a | Panics string

section \<open>Named collections\<close>

named_theorems go_simps \<open>unfolding rules of the Go constructs shared by all components\<close>
named_theorems wire_simps \<open>big-endian prefixes and byte slices\<close>

section \<open>The select statement\<close>

definition select :: "(bool \<times> 'a) list \<Rightarrow> 'a list" where
  "select cs = map snd (filter fst cs)"

definition select_default :: "(bool \<times> 'a) list \<Rightarrow> 'a \<Rightarrow> 'a list" where
  "select_default cs d = (if select cs = [] then [d] else select cs)"

lemma select_Nil [simp]: "select [] = []"
  by (simp add: select_def)

lemma select_Cons [simp]: "select ((b, x) # cs) = (if b then x # select cs else select cs)"
  by (simp add: select_def)

lemma set_select: "set (select cs) = {x. (True, x) \<in> set cs}"
  by (force simp: select_def)

lemma select_default_blocked [simp]: "\<not> b \<Longrightarrow> select_default [(b, x)] d = [d]"
  by (simp add: select_default_def)

lemma select_default_ready [simp]: "b \<Longrightarrow> select_default [(b, x)] d = [x]"
  by (simp add: select_default_def)

section \<open>Conversions that narrow\<close>

definition int32 :: "int \<Rightarrow> int" where
  "int32 n = signed_take_bit 31 n"

lemma int32_id: "- (2 ^ 31) \<le> n \<Longrightarrow> n < 2 ^ 31 \<Longrightarrow> int32 n = n"
  by (simp add: int32_def signed_take_bit_int_eq_self)

lemma int32_range: "- (2 ^ 31) \<le> int32 n \<and> int32 n < 2 ^ 31"
  using signed_take_bit_int_greater_eq_minus_exp [of 31 n] signed_take_bit_int_less_exp [of 31 n]
  by (simp add: int32_def)

section \<open>Big-endian 32-bit integers\<close>

definition put_be32 :: "32 word \<Rightarrow> bytes" where
  "put_be32 w = [ucast (drop_bit 24 w), ucast (drop_bit 16 w), ucast (drop_bit 8 w), ucast w]"

unbundle bit_operations_syntax

definition be32 :: "byte \<Rightarrow> byte \<Rightarrow> byte \<Rightarrow> byte \<Rightarrow> 32 word" where
  "be32 a b c d = push_bit 24 (ucast a) OR push_bit 16 (ucast b) OR push_bit 8 (ucast c) OR ucast d"

lemma length_put_be32 [simp]: "length (put_be32 w) = 4"
  by (simp add: put_be32_def)

lemma be32_put_be32:
  "be32 (ucast (drop_bit 24 w)) (ucast (drop_bit 16 w)) (ucast (drop_bit 8 w)) (ucast w) = w"
proof (rule bit_word_eqI)
  fix n assume "n < LENGTH(32)"
  then show "bit (be32 (ucast (drop_bit 24 w)) (ucast (drop_bit 16 w))
      (ucast (drop_bit 8 w)) (ucast w)) n = bit w n"
    by (cases "n < 8"; cases "n < 16"; cases "n < 24") (auto simp: be32_def bit_simps)
qed

text \<open>The inverse of \<open>put_be32\<close> on a slice: \<open>binary.BigEndian.Uint32(b[:4])\<close>.\<close>

definition get_be32 :: "bytes \<Rightarrow> 32 word" where
  "get_be32 b = be32 (b ! 0) (b ! 1) (b ! 2) (b ! 3)"

lemma get_put_be32 [simp]: "get_be32 (put_be32 w @ r) = w"
  by (simp add: get_be32_def put_be32_def be32_put_be32)

lemma get_put_be32_Nil [simp]: "get_be32 (put_be32 w) = w"
  using get_put_be32 [of w "[]"] by simp

lemma put_be32_of_nat:
  "put_be32 (word_of_nat n) =
     [word_of_nat (drop_bit 24 n), word_of_nat (drop_bit 16 n),
      word_of_nat (drop_bit 8 n), word_of_nat n]"
  by (auto simp: put_be32_def intro!: bit_word_eqI simp: bit_simps)

lemma unat_be32_nat: "n < 2 ^ 32 \<Longrightarrow> unat (word_of_nat n :: 32 word) = n"
  by (simp add: unat_of_nat take_bit_nat_eq_self)

lemma byte_bound: "unat (x :: byte) < 256"
  using unsigned_less [of x] by simp

section \<open>Slices\<close>

text \<open>\<open>copy(buf[off:off+len(data)], data)\<close>.\<close>

definition overwrite :: "'a list \<Rightarrow> nat \<Rightarrow> 'a list \<Rightarrow> 'a list" where
  "overwrite buf off dat = take off buf @ dat @ drop (off + length dat) buf"

lemma length_overwrite [simp]:
  "off + length dat \<le> length buf \<Longrightarrow> length (overwrite buf off dat) = length buf"
  by (simp add: overwrite_def)

lemma nth_overwrite:
  assumes "off + length dat \<le> length buf" and "i < length buf"
  shows "overwrite buf off dat ! i =
    (if off \<le> i \<and> i < off + length dat then dat ! (i - off) else buf ! i)"
  using assms by (auto simp: overwrite_def nth_append min_def)

section \<open>Runs\<close>

text \<open>
  A system is given by the outcomes \<open>out s e\<close> of event \<open>e\<close> in state \<open>s\<close>. A run takes any outcome of
  each event; a schedule fixes the choice, and a schedule that can be played is a run, so concrete runs
  are found by evaluation.
\<close>

inductive runs :: "('s \<Rightarrow> 'e \<Rightarrow> 's list) \<Rightarrow> 's \<Rightarrow> 'e list \<Rightarrow> 's \<Rightarrow> bool" for out where
  run_nil: "runs out s [] s"
| run_step: "runs out s evs s1 \<Longrightarrow> s2 \<in> set (out s1 ev) \<Longrightarrow> runs out s (evs @ [ev]) s2"

fun play :: "('s \<Rightarrow> 'e \<Rightarrow> 's list) \<Rightarrow> 's \<Rightarrow> ('e \<times> nat) list \<Rightarrow> 's option" where
  "play out s [] = Some s"
| "play out s ((ev, n) # rest) =
     (let ss = out s ev in if n < length ss then play out (ss ! n) rest else None)"

lemma runs_Cons:
  assumes "runs out s1 evs s2" and "s1 \<in> set (out s ev)"
  shows "runs out s (ev # evs) s2"
  using assms
proof (induction rule: runs.induct)
  case (run_nil s1)
  with run_step [OF runs.run_nil, of s1 out s ev] show ?case by simp
next
  case (run_step s1 evs s2 s3 e)
  with runs.run_step [of out s "ev # evs" s2 s3 e] show ?case by simp
qed

lemma play_runs: "play out s sched = Some s' \<Longrightarrow> runs out s (map fst sched) s'"
proof (induction sched arbitrary: s)
  case Nil
  then show ?case by (simp add: run_nil)
next
  case (Cons p sched)
  then show ?case by (cases p) (auto simp: Let_def split: if_splits intro!: runs_Cons)
qed

lemma runs_one: "s' \<in> set (out s ev) \<Longrightarrow> runs out s [ev] s'"
  using run_step [OF run_nil, of s' out s ev] by simp

lemma runs_invariant:
  assumes "runs out s evs s'" and "P s"
    and "\<And>s1 s2 ev. P s1 \<Longrightarrow> ev \<in> set evs \<Longrightarrow> s2 \<in> set (out s1 ev) \<Longrightarrow> P s2"
  shows "P s'"
  using assms
proof (induction rule: runs.induct)
  case (run_nil s)
  then show ?case by simp
next
  case (run_step s evs s1 s2 ev)
  have "P s1"
  proof (rule run_step.IH)
    show "P s" by (fact run_step.prems)
    show "P b" if "P a" "e \<in> set evs" "b \<in> set (out a e)" for a b e
      using that(1) _ that(3) by (rule run_step.prems(2)) (use that(2) in simp)
  qed
  then show ?case using _ run_step.hyps(2) by (rule run_step.prems(2)) simp
qed

text \<open>All final states of the runs over a sequence of events.\<close>

fun finals :: "('s \<Rightarrow> 'e \<Rightarrow> 's list) \<Rightarrow> 's \<Rightarrow> 'e list \<Rightarrow> 's list" where
  "finals out s [] = [s]"
| "finals out s (ev # evs) = concat (map (\<lambda>s1. finals out s1 evs) (out s ev))"

lemma concat_map_concat_map:
  "concat (map f (concat (map g xs))) = concat (map (\<lambda>x. concat (map f (g x))) xs)"
  by (induction xs) simp_all

lemma finals_append:
  "finals out s (evs @ evs') = concat (map (\<lambda>s1. finals out s1 evs') (finals out s evs))"
  by (induction evs arbitrary: s) (simp_all add: concat_map_concat_map)

lemma finals_append_one [simp]:
  "finals out s evs = [s1] \<Longrightarrow> finals out s (evs @ evs') = finals out s1 evs'"
  by (simp add: finals_append)

lemma finals_map: "finals out s (map f evs) = finals (\<lambda>s e. out s (f e)) s evs"
  by (induction evs arbitrary: s) simp_all

lemma finals_runs: "s' \<in> set (finals out s evs) \<longleftrightarrow> runs out s evs s'"
proof
  show "s' \<in> set (finals out s evs) \<Longrightarrow> runs out s evs s'"
    by (induction evs arbitrary: s) (auto intro: run_nil runs_Cons)
  show "runs out s evs s' \<Longrightarrow> s' \<in> set (finals out s evs)"
    by (induction rule: runs.induct) (auto simp: finals_append)
qed

end
