(* ===== verification/Wire.thy ===== *)
theory Wire
  imports Go_Prelude
begin

text \<open>
  The messages of the wire protocol and the length-prefixed framing under them.

  The message types are those of \<open>gen/proto/peerrpc/peerrpc.pb.go\<close>: a nil pointer or an unset
  \<open>oneof\<close> is \<open>None\<close>, an \<open>int32\<close> field is an \<open>int\<close>. Marshalling is the protobuf runtime's: the
  components that marshal take it as a parameter. The framing is \<open>protocol/codec.go\<close> over an
  \<open>io.Reader\<close>/\<open>io.Writer\<close> and \<open>lengthPrefix\<close>/\<open>stripLengthPrefix\<close> of \<open>transport/channel.go\<close>.
\<close>

section \<open>Messages\<close>

type_synonym metadata = "string \<rightharpoonup> string list"

record rpc_status =
  st_code :: int
  st_message :: string

record call =
  c_method :: string
  c_metadata :: "metadata option"
  c_deadline_ms :: int
  c_inline_data :: "bytes option"
  c_protocol_version :: int

record chunk =
  ch_total_size :: int
  ch_offset :: int
  ch_data :: bytes

datatype data_content = Data_Message bytes | Data_Chunk chunk

record end_msg =
  e_close_send :: bool
  e_status :: "rpc_status option"
  e_trailer :: "metadata option"

record begin_msg =
  b_header :: "metadata option"
  b_inline_data :: "bytes option"

datatype frame_type =
    Frame_Call "call option"
  | Frame_Data "data_content option option"
  | Frame_End "end_msg option"

record frame =
  f_routing :: "int option"
  f_type :: "frame_type option"

datatype response_type =
    ResponseFrame_Begin "begin_msg option"
  | ResponseFrame_Data "data_content option option"
  | ResponseFrame_End "end_msg option"

record response_frame =
  r_routing :: "int option"
  r_type :: "response_type option"

text \<open>\<open>f.Routing.Sequence\<close>, 0 for a nil \<open>Routing\<close>.\<close>

definition routing_seq :: "int option \<Rightarrow> int" where
  "routing_seq r = (case r of None \<Rightarrow> 0 | Some s \<Rightarrow> s)"

lemma routing_seq_simps [simp]: "routing_seq None = 0" "routing_seq (Some s) = s"
  by (simp_all add: routing_seq_def)

section \<open>The stream codec\<close>

definition MaxFrameSize :: nat where
  "MaxFrameSize = 256 * 1024"

definition ErrOversizedFrame :: go_error where
  "ErrOversizedFrame = ErrNew ''peerrpc/protocol: frame exceeds MaxFrameSize''"

text \<open>
  The writer is a parameter: one write call on a writer state gives the next state and an error.
\<close>

definition WriteFrame ::
  "('w \<Rightarrow> bytes \<Rightarrow> 'w \<times> go_error option) \<Rightarrow> 'w \<Rightarrow> bytes \<Rightarrow> 'w \<times> go_error option" where
  "WriteFrame wr w payload =
     (let header = put_be32 (word_of_nat (length payload))
      in case wr w header of
           (w1, Some err) \<Rightarrow> (w1, Some (Errorf ''peerrpc/protocol: write length: '' err))
         | (w1, None) \<Rightarrow>
             (case wr w1 payload of
                (w2, Some err) \<Rightarrow> (w2, Some (Errorf ''peerrpc/protocol: write payload: '' err))
              | (w2, None) \<Rightarrow> (w2, None)))"

text \<open>
  A reader is the bytes it will still deliver and the error it reports after them. \<open>ReadFull\<close> is
  \<open>io.ReadFull\<close>: \<open>EOF\<close> only when nothing was read, \<open>ErrUnexpectedEOF\<close> for an \<open>EOF\<close> in the middle.
\<close>

record reader =
  rd_bytes :: bytes
  rd_err :: go_error

definition ReadFull :: "reader \<Rightarrow> nat \<Rightarrow> reader \<times> (go_error + bytes)" where
  "ReadFull r n =
     (if n \<le> length (rd_bytes r)
      then (r\<lparr>rd_bytes := drop n (rd_bytes r)\<rparr>, Inr (take n (rd_bytes r)))
      else (r\<lparr>rd_bytes := []\<rparr>,
            Inl (if rd_err r = EOF \<and> rd_bytes r \<noteq> [] then ErrUnexpectedEOF else rd_err r)))"

definition decimal_suffix :: "(nat \<Rightarrow> string) \<Rightarrow> nat \<Rightarrow> string" where
  "decimal_suffix fmt n = '': '' @ fmt n @ '' bytes''"

definition ReadFrame :: "(nat \<Rightarrow> string) \<Rightarrow> reader \<Rightarrow> reader \<times> (go_error + bytes)" where
  "ReadFrame fmt r =
     (case ReadFull r 4 of
        (r1, Inl err) \<Rightarrow>
          (r1, Inl (if errors_Is err ErrUnexpectedEOF then ErrUnexpectedEOF
                    else if errors_Is err EOF then EOF
                    else Errorf ''peerrpc/protocol: read length: '' err))
      | (r1, Inr header) \<Rightarrow>
          (let size = unat (get_be32 header)
           in if size = 0 then (r1, Inr [])
              else if size > MaxFrameSize
                then (r1, Inl (Errorw ErrOversizedFrame (decimal_suffix fmt size)))
              else (case ReadFull r1 size of
                      (r2, Inl err) \<Rightarrow> (r2, Inl (Errorf ''peerrpc/protocol: read payload: '' err))
                    | (r2, Inr buf) \<Rightarrow> (r2, Inr buf))))"

section \<open>The message prefix of the transport\<close>

definition lengthPrefix :: "bytes \<Rightarrow> bytes" where
  "lengthPrefix payload =
     [word_of_nat (drop_bit 24 (length payload)), word_of_nat (drop_bit 16 (length payload)),
      word_of_nat (drop_bit 8 (length payload)), word_of_nat (length payload)] @ payload"

unbundle bit_operations_syntax

definition stripLengthPrefix :: "bytes \<Rightarrow> bytes" where
  "stripLengthPrefix b =
     (if length b < 4 then b
      else let len = push_bit 24 (uint (b ! 0)) OR push_bit 16 (uint (b ! 1))
                       OR push_bit 8 (uint (b ! 2)) OR uint (b ! 3)
           in if len \<le> 0 \<or> 4 + len > int (length b) then b
              else take (nat len) (drop 4 b))"

section \<open>Lemmas\<close>

lemma lengthPrefix_put: "lengthPrefix p = put_be32 (word_of_nat (length p)) @ p"
  by (simp add: lengthPrefix_def put_be32_of_nat)

lemma length_lengthPrefix [simp]: "length (lengthPrefix p) = 4 + length p"
  by (simp add: lengthPrefix_put)

lemma uint_be32:
  "uint (be32 a b c d) =
     push_bit 24 (uint a) OR push_bit 16 (uint b) OR push_bit 8 (uint c) OR uint d"
proof -
  have small: "take_bit 32 (push_bit k (uint x)) = push_bit k (uint x)"
    if "k \<le> 24" for x :: byte and k :: nat
  proof -
    have "(2::int) ^ k \<le> 2 ^ 24"
      using that by (intro power_increasing) simp_all
    moreover have "uint x < 2 ^ 8"
      using uint_lt2p [of x] by simp
    ultimately have "uint x * 2 ^ k < 2 ^ 8 * 2 ^ 24"
      by (intro mult_less_le_imp_less) simp_all
    then show ?thesis
      by (simp add: push_bit_eq_mult take_bit_int_eq_self_iff)
  qed
  have "uint (ucast x :: 32 word) = uint x" for x :: byte
    using small [of 0 x] by (simp add: unsigned_ucast_eq)
  then show ?thesis
    by (simp add: be32_def unsigned_or_eq unsigned_push_bit_eq small)
qed

lemma stripLengthPrefix_get:
  "stripLengthPrefix b =
     (if length b < 4 then b
      else let len = unat (get_be32 b)
           in if len = 0 \<or> 4 + len > length b then b else take len (drop 4 b))"
proof -
  define n where "n = unat (get_be32 b)"
  have len: "push_bit 24 (uint (b ! 0)) OR push_bit 16 (uint (b ! 1)) OR push_bit 8 (uint (b ! 2))
      OR uint (b ! 3) = int n"
    by (simp only: n_def get_be32_def uint_be32 uint_nat [symmetric])
  show ?thesis
    unfolding stripLengthPrefix_def Let_def len n_def [symmetric] by auto
qed

lemma strip_put_be32:
  assumes "length p < 2 ^ 32"
  shows "stripLengthPrefix (put_be32 (word_of_nat (length p)) @ p @ r) =
    (if p = [] then put_be32 0 @ r else p)"
  using assms by (auto simp: stripLengthPrefix_get Let_def unat_be32_nat)

lemma ReadFull_append:
  "n = length p \<Longrightarrow> rd_bytes r = p @ rest \<Longrightarrow> ReadFull r n = (r\<lparr>rd_bytes := rest\<rparr>, Inr p)"
  by (simp add: ReadFull_def)

lemma ReadFull_short:
  "length (rd_bytes r) < n \<Longrightarrow> \<exists>e. ReadFull r n = (r\<lparr>rd_bytes := []\<rparr>, Inl e)"
  by (simp add: ReadFull_def)

lemma ReadFull_InrD:
  "ReadFull r n = (r', Inr p) \<Longrightarrow>
     rd_bytes r = p @ rd_bytes r' \<and> length p = n \<and> r' = r\<lparr>rd_bytes := rd_bytes r'\<rparr>"
  by (auto simp: ReadFull_def split: if_splits)

text \<open>An in-memory writer: every write succeeds and appends.\<close>

definition buf_write :: "bytes \<Rightarrow> bytes \<Rightarrow> bytes \<times> go_error option" where
  "buf_write w b = (w @ b, None)"

lemma WriteFrame_buf [simp]:
  "WriteFrame buf_write w p = (w @ put_be32 (word_of_nat (length p)) @ p, None)"
  by (simp add: WriteFrame_def buf_write_def)

lemma put_get_be32:
  assumes "length h = 4"
  shows "put_be32 (get_be32 h) = h"
proof -
  obtain a b c d where h: "h = [a, b, c, d]"
    using assms by (auto simp: numeral_eq_Suc length_Suc_conv)
  have "put_be32 (be32 a b c d) = [a, b, c, d]"
    unfolding put_be32_def list.inject be32_def
    by (intro conjI bit_word_eqI) (auto simp: bit_simps dest: bit_imp_le_length)
  then show ?thesis by (simp add: h get_be32_def)
qed

lemma ReadFrame_written:
  assumes "length p \<le> MaxFrameSize"
    and "rd_bytes r = put_be32 (word_of_nat (length p)) @ p @ rest"
  shows "ReadFrame fmt r = (r\<lparr>rd_bytes := rest\<rparr>, Inr p)"
proof -
  have hd: "ReadFull r 4 = (r\<lparr>rd_bytes := p @ rest\<rparr>, Inr (put_be32 (word_of_nat (length p))))"
    using assms(2) by (intro ReadFull_append) simp_all
  have len: "unat (word_of_nat (length p) :: 32 word) = length p"
    using assms(1) by (intro unat_be32_nat) (simp add: MaxFrameSize_def)
  show ?thesis
    using assms(1)
    by (cases "p = []") (simp_all add: ReadFrame_def hd len ReadFull_append Let_def)
qed

lemma ReadFrame_InrD:
  assumes "ReadFrame fmt r = (r', Inr p)"
  shows "length p \<le> MaxFrameSize \<and>
    rd_bytes r = put_be32 (word_of_nat (length p)) @ p @ rd_bytes r' \<and>
    r' = r\<lparr>rd_bytes := rd_bytes r'\<rparr>"
proof -
  obtain r1 h where h: "ReadFull r 4 = (r1, Inr h)"
    using assms by (auto simp: ReadFrame_def split: prod.splits sum.splits)
  note hd = ReadFull_InrD [OF h]
  have len: "put_be32 (word_of_nat (unat (get_be32 h))) = h"
    using hd by (simp add: put_get_be32)
  show ?thesis
  proof (cases "unat (get_be32 h) = 0")
    case True
    with assms h have "p = []" "r' = r1" by (auto simp: ReadFrame_def Let_def)
    with hd len True show ?thesis by simp
  next
    case False
    with assms h have le: "unat (get_be32 h) \<le> MaxFrameSize"
      and rd: "ReadFull r1 (unat (get_be32 h)) = (r', Inr p)"
      by (auto simp: ReadFrame_def Let_def split: if_splits prod.splits sum.splits)
    from ReadFull_InrD [OF rd] hd len le show ?thesis by (metis append.assoc reader.update_convs(1) reader.surjective reader.select_convs)
  qed
qed

section \<open>Properties\<close>

text \<open>
  C5: \<open>ReadFrame\<close> inverts \<open>WriteFrame\<close> and accepts nothing else. Reading succeeds with a payload
  exactly when the input starts with what \<open>WriteFrame\<close> writes for that payload and the payload is no
  longer than \<open>MaxFrameSize\<close>; the reader is then left right behind that frame, so a concatenation
  of frames is split back into the same frames.
\<close>

theorem ReadFrame_iff_WriteFrame:
  "ReadFrame fmt r = (r', Inr p) \<longleftrightarrow>
     length p \<le> MaxFrameSize \<and>
     rd_bytes r = fst (WriteFrame buf_write [] p) @ rd_bytes r' \<and>
     r' = r\<lparr>rd_bytes := rd_bytes r'\<rparr>"
  using ReadFrame_InrD [of fmt r r' p] ReadFrame_written [of p r "rd_bytes r'" fmt] by auto

text \<open>
  A frame whose announced length exceeds \<open>MaxFrameSize\<close> is refused with \<open>ErrOversizedFrame\<close>
  before any payload byte is consumed, although \<open>WriteFrame\<close> writes such a frame without an error.
\<close>

theorem ReadFrame_oversized:
  assumes "MaxFrameSize < length p" and "length p < 2 ^ 32"
    and "rd_bytes r = fst (WriteFrame buf_write [] p) @ rest"
  shows "\<exists>e. ReadFrame fmt r = (r\<lparr>rd_bytes := p @ rest\<rparr>, Inl e) \<and> errors_Is e ErrOversizedFrame
    \<and> snd (WriteFrame buf_write [] p) = None"
proof -
  have "ReadFull r 4 = (r\<lparr>rd_bytes := p @ rest\<rparr>, Inr (put_be32 (word_of_nat (length p))))"
    using assms(3) by (intro ReadFull_append) simp_all
  moreover have "unat (word_of_nat (length p) :: 32 word) = length p"
    using assms(2) by (rule unat_be32_nat)
  ultimately show ?thesis
    using assms(1) by (auto simp: ReadFrame_def Let_def MaxFrameSize_def ErrOversizedFrame_def)
qed

theorem ReadFrame_oversized_witness:
  "\<exists>e. ReadFrame (\<lambda>_. ''300000'')
      \<lparr>rd_bytes = fst (WriteFrame buf_write [] (replicate 300000 7)), rd_err = EOF\<rparr> =
      (\<lparr>rd_bytes = replicate 300000 7, rd_err = EOF\<rparr>, Inl e) \<and> errors_Is e ErrOversizedFrame
      \<and> snd (WriteFrame buf_write [] (replicate 300000 7)) = None"
  using ReadFrame_oversized [of "replicate 300000 7"
      "\<lparr>rd_bytes = fst (WriteFrame buf_write [] (replicate 300000 7)), rd_err = EOF\<rparr>" "[]"
      "\<lambda>_. ''300000''"]
  by (simp add: MaxFrameSize_def del: WriteFrame_buf)

text \<open>
  Stripping the transport's prefix gives the payload back, whatever follows it, for every payload
  of 1 to \<open>2^32 - 1\<close> bytes; the empty payload is the one exception: its message is returned with
  the four zero bytes of the prefix still on it.
\<close>

theorem stripLengthPrefix_lengthPrefix:
  assumes "length p < 2 ^ 32"
  shows "stripLengthPrefix (lengthPrefix p) = (if p = [] then [0, 0, 0, 0] else p)"
  using strip_put_be32 [OF assms, of "[]"] by (simp add: lengthPrefix_put put_be32_def)

theorem stripLengthPrefix_lengthPrefix_witness:
  "stripLengthPrefix (lengthPrefix [1, 2, 3]) = [1, 2, 3]
   \<and> stripLengthPrefix (lengthPrefix []) = [0, 0, 0, 0]"
  using stripLengthPrefix_lengthPrefix [of "[1, 2, 3]"] stripLengthPrefix_lengthPrefix [of "[]"]
  by simp

end
