(* ===== verification/Transport.thy ===== *)
theory Transport
  imports Wire
begin

text \<open>
  \<open>transport/channel.go\<close>: the duplex pipe over a DataChannel and the chunk reassembler, and the
  fragmentation loop that \<open>rpc.Client.sendPayload\<close> and \<open>rpc.ServerStream.Send\<close> share.

  \<^item> \<open>channel\<close> is the state of \<open>Channel\<close>: the bounded inbound queue, the close state, the
    low-watermark signal. The DataChannel itself is third-party code; its callbacks are the
    operations \<open>OnMessage\<close>, \<open>OnBufferedAmountLow\<close>, \<open>OnClose\<close>, and what \<open>dc.Send\<close> and
    \<open>dc.BufferedAmount\<close> answer are arguments.
  \<^item> \<open>reassembler\<close> is \<open>Reassembler.chunks\<close>. The field \<open>lastSeen\<close> is written and never read; it
    is left out. \<open>make\<close> with a negative length and a slice expression with a negative bound panic.
\<close>

section \<open>Thresholds\<close>

definition maxFrameBytes :: nat where "maxFrameBytes = 256 * 1024"
definition frameOverhead :: nat where "frameOverhead = 1 * 1024"
definition InlineMax :: nat where "InlineMax = 16 * 1024"
definition MessageMax :: nat where "MessageMax = maxFrameBytes - frameOverhead"
definition ChunkSize :: nat where "ChunkSize = maxFrameBytes - frameOverhead"
definition BufferedAmountHigh :: nat where "BufferedAmountHigh = 1048576"

lemmas thresholds = maxFrameBytes_def frameOverhead_def InlineMax_def MessageMax_def ChunkSize_def

lemma ChunkSize_pos [simp]: "0 < ChunkSize"
  by (simp add: thresholds)

section \<open>The channel\<close>

record channel =
  ch_recv :: "bytes list"
  ch_closed :: bool
  ch_closeErr :: "go_error option"
  ch_shutdownDone :: bool
  ch_dcClosed :: bool
  ch_bufferedLow :: bool
  ch_bufferedLowActive :: bool
  ch_sent :: "bytes list"

definition recvCap :: nat where "recvCap = 256"

definition NewChannel :: channel where
  "NewChannel = \<lparr>ch_recv = [], ch_closed = False, ch_closeErr = None, ch_shutdownDone = False,
     ch_dcClosed = False, ch_bufferedLow = False, ch_bufferedLowActive = False, ch_sent = []\<rparr>"

definition OnBufferedAmountLow :: "channel \<Rightarrow> channel" where
  "OnBufferedAmountLow c = c\<lparr>ch_bufferedLowActive := False, ch_bufferedLow := True\<rparr>"

definition OnMessage :: "channel \<Rightarrow> bytes \<Rightarrow> channel list" where
  "OnMessage c msg = select
     [(length (ch_recv c) < recvCap, c\<lparr>ch_recv := ch_recv c @ [msg]\<rparr>),
      (ch_closed c, c)]"

definition shutdown :: "channel \<Rightarrow> go_error \<Rightarrow> channel" where
  "shutdown c reason =
     (if ch_shutdownDone c then c
      else c\<lparr>ch_shutdownDone := True, ch_closeErr := Some reason, ch_closed := True\<rparr>)"

definition OnClose :: "channel \<Rightarrow> channel" where
  "OnClose c = shutdown c ErrClosedPipe"

definition Close :: "channel \<Rightarrow> channel" where
  "Close c = shutdown (c\<lparr>ch_dcClosed := True\<rparr>) (ErrNew ''channel closed by Close'')"

text \<open>\<open>fmt.Errorf(p + "%w", c.closeErr)\<close>; \<open>%w\<close> of a nil error is a formatting mistake, not a wrap.\<close>

definition wrap_closeErr :: "string \<Rightarrow> channel \<Rightarrow> go_error" where
  "wrap_closeErr p c =
     (case ch_closeErr c of None \<Rightarrow> ErrNew (p @ ''%!w(<nil>)'') | Some e \<Rightarrow> Errorf p e)"

text \<open>
  \<open>awaitBufferLow\<close> reads the buffered amount and, above the watermark, arms the callback and waits
  for one of three wake-ups. The observations are the readings with the wake-up that ended each
  wait; when they run out the call is still waiting.
\<close>

datatype await_wake = WakeLow | WakeClosed | WakeCtx ctx_err
datatype await_result = AwaitOk | AwaitErr go_error | AwaitPending

fun awaitBufferLow :: "channel \<Rightarrow> (nat \<times> await_wake) list \<Rightarrow> channel \<times> await_result" where
  "awaitBufferLow c [] = (c, AwaitPending)"
| "awaitBufferLow c ((amount, wake) # obs) =
     (if amount < BufferedAmountHigh then (c, AwaitOk)
      else let c1 = c\<lparr>ch_bufferedLowActive := True\<rparr>
           in case wake of
                WakeLow \<Rightarrow> awaitBufferLow (c1\<lparr>ch_bufferedLow := False\<rparr>) obs
              | WakeClosed \<Rightarrow>
                  (c1, AwaitErr (wrap_closeErr ''transport: channel closed while waiting: '' c1))
              | WakeCtx e \<Rightarrow> (c1, AwaitErr (CtxErr e)))"

definition SendRaw ::
  "channel \<Rightarrow> (nat \<times> await_wake) list \<Rightarrow> go_error option \<Rightarrow> bytes \<Rightarrow> channel \<times> await_result" where
  "SendRaw c obs dcSend payload =
     (if ch_closed c then (c, AwaitErr (wrap_closeErr ''transport: channel closed: '' c))
      else case awaitBufferLow c obs of
             (c1, AwaitOk) \<Rightarrow>
               (case dcSend of
                  Some err \<Rightarrow> (c1, AwaitErr (Errorf ''transport: send: '' err))
                | None \<Rightarrow> (c1\<lparr>ch_sent := ch_sent c1 @ [payload]\<rparr>, AwaitOk))
           | (c1, r) \<Rightarrow> (c1, r))"

text \<open>\<open>proto.Marshal\<close> is a parameter: it gives the payload or an error.\<close>

definition SendFrame ::
  "('m \<Rightarrow> go_error + bytes) \<Rightarrow> channel \<Rightarrow> (nat \<times> await_wake) list \<Rightarrow> go_error option \<Rightarrow> 'm
     \<Rightarrow> channel \<times> await_result" where
  "SendFrame marshal c obs dcSend msg =
     (case marshal msg of
        Inl err \<Rightarrow> (c, AwaitErr (Errorf ''transport: marshal: '' err))
      | Inr payload \<Rightarrow> SendRaw c obs dcSend (lengthPrefix payload))"

definition Recv :: "channel \<Rightarrow> ctx_err option \<Rightarrow> (channel \<times> (go_error + bytes)) list" where
  "Recv c ctx = select
     [(ch_recv c \<noteq> [],
         (c\<lparr>ch_recv := tl (ch_recv c)\<rparr>, Inr (stripLengthPrefix (hd (ch_recv c))))),
      (ch_closed c, (c, Inl (wrap_closeErr ''transport: channel closed: '' c))),
      (ctx \<noteq> None, (c, Inl (CtxErr (the ctx))))]"

section \<open>The reassembler\<close>

record assembler =
  a_buf :: bytes
  a_got :: nat
  a_total :: int

type_synonym reassembler = "int \<rightharpoonup> assembler"

definition NewReassembler :: reassembler where
  "NewReassembler = Map.empty"

text \<open>Whether the first branch of \<open>Reassemble\<close> allocates a new assembler.\<close>

definition needs_fresh :: "reassembler \<Rightarrow> int \<Rightarrow> int \<Rightarrow> bool" where
  "needs_fresh r seq tot = (case r seq of None \<Rightarrow> True | Some a \<Rightarrow> tot \<noteq> a_total a)"

definition acquire :: "reassembler \<Rightarrow> int \<Rightarrow> int \<Rightarrow> assembler" where
  "acquire r seq tot =
     (if needs_fresh r seq tot
      then \<lparr>a_buf = replicate (nat tot) 0, a_got = 0, a_total = tot\<rparr>
      else the (r seq))"

definition Reassemble ::
  "reassembler \<Rightarrow> int \<Rightarrow> int \<Rightarrow> int \<Rightarrow> bytes \<Rightarrow> (reassembler \<times> bytes option) go" where
  "Reassemble r seq tot offset dat =
     (if needs_fresh r seq tot \<and> tot < 0
      then Panics ''makeslice: len out of range''
      else let a = acquire r seq tot;
               r1 = r(seq \<mapsto> a);
               ende = offset + int (length dat)
           in if ende > int (length (a_buf a)) then Returns (r1, None)
              else if offset < 0 then Panics ''slice bounds out of range''
              else let a1 = a\<lparr>a_buf := overwrite (a_buf a) (nat offset) dat,
                              a_got := a_got a + length dat\<rparr>
                   in if int (a_got a1) \<ge> a_total a1
                      then Returns (r1(seq := None), Some (a_buf a1))
                      else Returns (r1(seq \<mapsto> a1), None))"

section \<open>Fragmentation\<close>

text \<open>The loop \<open>for offset := 0; offset < len(b); offset += ChunkSize\<close>.\<close>

function chunk_loop :: "bytes \<Rightarrow> nat \<Rightarrow> chunk list" where
  "chunk_loop b offset =
     (if offset < length b
      then let ende = (if offset + ChunkSize > length b then length b else offset + ChunkSize)
           in \<lparr>ch_total_size = int32 (int (length b)), ch_offset = int32 (int offset),
                ch_data = take (ende - offset) (drop offset b)\<rparr>
              # chunk_loop b (offset + ChunkSize)
      else [])"
  by pat_completeness auto
termination
  by (relation "measure (\<lambda>(b, offset). length b - offset)") (auto simp: thresholds)

declare chunk_loop.simps [simp del]

text \<open>The contents of the Data frames that carry \<open>b\<close>, in the order they are sent.\<close>

definition payload_contents :: "bytes \<Rightarrow> data_content list" where
  "payload_contents b =
     (if length b \<le> MessageMax then [Data_Message b] else map Data_Chunk (chunk_loop b 0))"

text \<open>
  What a receiver makes of a sequence of contents on one stream: \<open>Data_Message\<close> is delivered as it
  is, a chunk goes to the reassembler, whose completed payloads are delivered.
\<close>

definition receive_content ::
  "reassembler \<Rightarrow> int \<Rightarrow> data_content \<Rightarrow> (reassembler \<times> bytes list) go" where
  "receive_content r seq c =
     (case c of
        Data_Message m \<Rightarrow> Returns (r, [m])
      | Data_Chunk k \<Rightarrow>
          (case Reassemble r seq (ch_total_size k) (ch_offset k) (ch_data k) of
             Panics e \<Rightarrow> Panics e
           | Returns (r1, None) \<Rightarrow> Returns (r1, [])
           | Returns (r1, Some full) \<Rightarrow> Returns (r1, [full])))"

fun receive_contents ::
  "reassembler \<Rightarrow> (int \<times> data_content) list \<Rightarrow> (reassembler \<times> (int \<times> bytes) list) go" where
  "receive_contents r [] = Returns (r, [])"
| "receive_contents r ((seq, c) # cs) =
     (case receive_content r seq c of
        Panics e \<Rightarrow> Panics e
      | Returns (r1, out1) \<Rightarrow>
          (case receive_contents r1 cs of
             Panics e \<Rightarrow> Panics e
           | Returns (r2, out2) \<Rightarrow> Returns (r2, map (Pair seq) out1 @ out2)))"

section \<open>Lemmas: the channel\<close>

text \<open>The operations that may touch the close state, as events of a run.\<close>

datatype close_event = EvClose | EvOnClose | EvOnMessage bytes | EvLow

fun close_step :: "channel \<Rightarrow> close_event \<Rightarrow> channel list" where
  "close_step c EvClose = [Close c]"
| "close_step c EvOnClose = [OnClose c]"
| "close_step c (EvOnMessage m) = OnMessage c m"
| "close_step c EvLow = [OnBufferedAmountLow c]"

fun close_run :: "channel \<Rightarrow> close_event list \<Rightarrow> channel list" where
  "close_run c [] = [c]"
| "close_run c (e # es) = concat (map (\<lambda>c1. close_run c1 es) (close_step c e))"

fun close_reason :: "close_event \<Rightarrow> go_error option" where
  "close_reason EvClose = Some (ErrNew ''channel closed by Close'')"
| "close_reason EvOnClose = Some ErrClosedPipe"
| "close_reason _ = None"

fun first_reason :: "close_event list \<Rightarrow> go_error option" where
  "first_reason [] = None"
| "first_reason (e # es) = (case close_reason e of Some r \<Rightarrow> Some r | None \<Rightarrow> first_reason es)"

text \<open>The type invariant of the close state: the three fields change together.\<close>

definition close_wf :: "channel \<Rightarrow> bool" where
  "close_wf c \<longleftrightarrow> ch_shutdownDone c = ch_closed c \<and> (ch_closeErr c \<noteq> None) = ch_closed c
     \<and> length (ch_recv c) \<le> recvCap"

lemmas channel_defs = shutdown_def OnClose_def Close_def OnMessage_def OnBufferedAmountLow_def

lemma close_step_wf: "close_wf c \<Longrightarrow> c' \<in> set (close_step c e) \<Longrightarrow> close_wf c'"
  by (cases e) (auto simp: channel_defs close_wf_def split: if_splits)

lemma close_step_reason:
  "close_wf c \<Longrightarrow> c' \<in> set (close_step c e) \<Longrightarrow>
     ch_closeErr c' = (case ch_closeErr c of Some r \<Rightarrow> Some r | None \<Rightarrow> close_reason e)"
  by (cases e) (auto simp: channel_defs close_wf_def split: if_splits option.splits)

lemma close_run_closeErr:
  "close_wf c \<Longrightarrow> c' \<in> set (close_run c es) \<Longrightarrow>
     close_wf c' \<and> ch_closeErr c' =
       (case ch_closeErr c of Some r \<Rightarrow> Some r | None \<Rightarrow> first_reason es)"
proof (induction es arbitrary: c)
  case Nil
  then show ?case by (auto split: option.splits)
next
  case (Cons e es)
  from Cons.prems obtain c1 where c1: "c1 \<in> set (close_step c e)" "c' \<in> set (close_run c1 es)"
    by auto
  have "close_wf c1"
    using Cons.prems(1) c1(1) by (rule close_step_wf)
  with Cons.IH c1(2) close_step_reason [OF Cons.prems(1) c1(1)] show ?case
    by (auto split: option.splits)
qed

lemma NewChannel_wf [simp]: "close_wf NewChannel"
  by (simp add: close_wf_def NewChannel_def)

lemma awaitBufferLow_sent [simp]: "ch_sent (fst (awaitBufferLow c obs)) = ch_sent c"
  by (induction c obs rule: awaitBufferLow.induct) (auto simp: Let_def split: await_wake.splits)

lemma awaitBufferLow_sentD: "awaitBufferLow c obs = (c1, r) \<Longrightarrow> ch_sent c1 = ch_sent c"
  using awaitBufferLow_sent [of c obs] by simp

lemma awaitBufferLow_ok:
  "snd (awaitBufferLow c obs) = AwaitOk \<Longrightarrow>
     \<exists>pre amount wake post. obs = pre @ (amount, wake) # post \<and> amount < BufferedAmountHigh
       \<and> (\<forall>(a, w) \<in> set pre. a \<ge> BufferedAmountHigh \<and> w = WakeLow)"
proof (induction c obs rule: awaitBufferLow.induct)
  case (1 c)
  then show ?case by simp
next
  case (2 c amount wake obs)
  show ?case
  proof (cases "amount < BufferedAmountHigh")
    case True
    then show ?thesis by (intro exI [of _ "[]"] exI [of _ amount]) simp
  next
    case False
    with 2 obtain pre a w post where
      "obs = pre @ (a, w) # post" "a < BufferedAmountHigh"
      "\<forall>(a, w) \<in> set pre. a \<ge> BufferedAmountHigh \<and> w = WakeLow" "wake = WakeLow"
      by (auto simp: Let_def split: await_wake.splits)
    with False show ?thesis
      by (intro exI [of _ "(amount, wake) # pre"] exI [of _ a] exI [of _ w] exI [of _ post]) simp
  qed
qed

section \<open>Lemmas: reassembly\<close>

text \<open>\<open>tiles b ks\<close>: the chunks \<open>ks\<close> are non-empty pieces of \<open>b\<close> that add up to its length and cover it.\<close>

definition piece_of :: "bytes \<Rightarrow> chunk \<Rightarrow> bool" where
  "piece_of b k \<longleftrightarrow> ch_total_size k = int (length b) \<and> 0 \<le> ch_offset k \<and> ch_data k \<noteq> [] \<and>
     nat (ch_offset k) + length (ch_data k) \<le> length b \<and>
     ch_data k = take (length (ch_data k)) (drop (nat (ch_offset k)) b)"

definition covers :: "chunk \<Rightarrow> nat \<Rightarrow> bool" where
  "covers k i \<longleftrightarrow> nat (ch_offset k) \<le> i \<and> i < nat (ch_offset k) + length (ch_data k)"

definition tiles :: "bytes \<Rightarrow> chunk list \<Rightarrow> bool" where
  "tiles b ks \<longleftrightarrow> list_all (piece_of b) ks
     \<and> sum_list (map (length \<circ> ch_data) ks) = length b
     \<and> (\<forall>i < length b. \<exists>k \<in> set ks. covers k i)"

lemma tiles_perm: "mset ks = mset ks' \<Longrightarrow> tiles b ks = tiles b ks'"
proof -
  assume m: "mset ks = mset ks'"
  then have "set ks = set ks'" by (rule mset_eq_setD)
  moreover from m have "sum_list (map (length \<circ> ch_data) ks) = sum_list (map (length \<circ> ch_data) ks')"
    by (metis mset_map sum_mset_sum_list)
  ultimately show "tiles b ks = tiles b ks'"
    by (simp add: tiles_def list_all_iff)
qed

text \<open>The state of an assembler after the pieces \<open>ds\<close> of \<open>b\<close>.\<close>

definition partial :: "bytes \<Rightarrow> chunk list \<Rightarrow> assembler \<Rightarrow> bool" where
  "partial b ds a \<longleftrightarrow> a_total a = int (length b) \<and> length (a_buf a) = length b
     \<and> a_got a = sum_list (map (length \<circ> ch_data) ds)
     \<and> (\<forall>i < length b. (\<exists>k \<in> set ds. covers k i) \<longrightarrow> a_buf a ! i = b ! i)"

lemma partial_fresh: "needs_fresh r seq (int (length b)) \<Longrightarrow> partial b [] (acquire r seq (int (length b)))"
  by (simp add: partial_def acquire_def)

lemma partial_step:
  assumes "partial b ds a" and "piece_of b k"
  shows "partial b (ds @ [k]) (a\<lparr>a_buf := overwrite (a_buf a) (nat (ch_offset k)) (ch_data k),
    a_got := a_got a + length (ch_data k)\<rparr>)"
proof -
  have "ch_data k ! (i - nat (ch_offset k)) = b ! i" if "covers k i" "i < length b" for i
  proof -
    have "ch_data k ! (i - nat (ch_offset k)) =
        take (length (ch_data k)) (drop (nat (ch_offset k)) b) ! (i - nat (ch_offset k))"
      using assms(2) by (metis piece_of_def)
    with that show ?thesis by (auto simp: covers_def)
  qed
  with assms show ?thesis
    by (auto simp: partial_def piece_of_def nth_overwrite covers_def)
qed

lemma Reassemble_piece:
  assumes "partial b ds (acquire r seq (int (length b)))" and "piece_of b k"
  defines "got \<equiv> sum_list (map (length \<circ> ch_data) (ds @ [k]))"
  shows "\<exists>a. partial b (ds @ [k]) a \<and>
    Reassemble r seq (ch_total_size k) (ch_offset k) (ch_data k) =
      Returns (if got \<ge> length b then (r(seq := None), Some (a_buf a)) else (r(seq \<mapsto> a), None))"
proof -
  let ?a = "acquire r seq (int (length b))"
  let ?a1 = "?a\<lparr>a_buf := overwrite (a_buf ?a) (nat (ch_offset k)) (ch_data k),
    a_got := a_got ?a + length (ch_data k)\<rparr>"
  have "partial b (ds @ [k]) ?a1"
    using assms(1,2) by (rule partial_step)
  moreover have "Reassemble r seq (ch_total_size k) (ch_offset k) (ch_data k) =
      Returns (if got \<ge> length b then (r(seq := None), Some (a_buf ?a1)) else (r(seq \<mapsto> ?a1), None))"
    using assms by (auto simp: Reassemble_def Let_def partial_def piece_of_def)
  ultimately show ?thesis by blast
qed

lemma partial_complete:
  "partial b ks a \<Longrightarrow> tiles b ks \<Longrightarrow> a_buf a = b"
  by (auto simp: partial_def tiles_def intro: nth_equalityI)

lemma acquire_stored: "r seq = Some a \<Longrightarrow> a_total a = t \<Longrightarrow> acquire r seq t = a"
  by (simp add: acquire_def needs_fresh_def)

lemma receive_pieces:
  assumes "tiles b (ds @ ks)" and "ks \<noteq> []"
    and "partial b ds (acquire r seq (int (length b)))"
  shows "receive_contents r (map (\<lambda>k. (seq, Data_Chunk k)) ks) =
    Returns (r(seq := None), [(seq, b)])"
  using assms
proof (induction ks arbitrary: ds r)
  case Nil
  then show ?case by simp
next
  case (Cons k ks)
  have k: "piece_of b k"
    using Cons.prems(1) by (simp add: tiles_def)
  obtain a where a: "partial b (ds @ [k]) a" and
    step: "Reassemble r seq (ch_total_size k) (ch_offset k) (ch_data k) =
      Returns (if sum_list (map (length \<circ> ch_data) (ds @ [k])) \<ge> length b
        then (r(seq := None), Some (a_buf a)) else (r(seq \<mapsto> a), None))"
    using Reassemble_piece [OF Cons.prems(3) k] by blast
  show ?case
  proof (cases "ks = []")
    case True
    with Cons.prems(1) have all: "tiles b (ds @ [k])" by simp
    then have "sum_list (map (length \<circ> ch_data) (ds @ [k])) = length b"
      by (simp add: tiles_def)
    with True step partial_complete [OF a all] show ?thesis
      by (simp add: receive_content_def fun_eq_iff)
  next
    case False
    then obtain k' ks' where ks: "ks = k' # ks'" by (cases ks) auto
    with Cons.prems(1) have "0 < length (ch_data k')"
      by (simp add: tiles_def piece_of_def)
    moreover from Cons.prems(1) ks have "sum_list (map (length \<circ> ch_data) (ds @ [k])) +
        length (ch_data k') + sum_list (map (length \<circ> ch_data) ks') = length b"
      by (simp add: tiles_def)
    ultimately have "\<not> sum_list (map (length \<circ> ch_data) (ds @ [k])) \<ge> length b"
      by linarith
    with step have "receive_content r seq (Data_Chunk k) = Returns (r(seq \<mapsto> a), [])"
      by (simp add: receive_content_def)
    moreover have "receive_contents (r(seq \<mapsto> a)) (map (\<lambda>k. (seq, Data_Chunk k)) ks) =
        Returns ((r(seq \<mapsto> a))(seq := None), [(seq, b)])"
    proof (rule Cons.IH)
      show "tiles b ((ds @ [k]) @ ks)" "ks \<noteq> []"
        using Cons.prems(1) False by simp_all
      show "partial b (ds @ [k]) (acquire (r(seq \<mapsto> a)) seq (int (length b)))"
        using a by (simp add: acquire_stored partial_def)
    qed
    ultimately show ?thesis by (simp add: fun_eq_iff)
  qed
qed

section \<open>Lemmas: fragmentation\<close>

lemma chunk_loop_done: "length b \<le> off \<Longrightarrow> chunk_loop b off = []"
  by (simp add: chunk_loop.simps)

lemma chunk_loop_step:
  assumes "off < length b" and "length b < 2 ^ 31"
  shows "chunk_loop b off =
    \<lparr>ch_total_size = int (length b), ch_offset = int off, ch_data = take ChunkSize (drop off b)\<rparr>
    # chunk_loop b (off + ChunkSize)"
proof -
  have "int32 (int (length b)) = int (length b)" "int32 (int off) = int off"
    using assms by (simp_all add: int32_id)
  with assms(1) show ?thesis
    by (subst chunk_loop.simps) (simp add: Let_def)
qed

lemma chunk_loop_tiles:
  assumes "length b < 2 ^ 31"
  shows "list_all (piece_of b) (chunk_loop b off)
    \<and> sum_list (map (length \<circ> ch_data) (chunk_loop b off)) = length b - off
    \<and> (\<forall>i. off \<le> i \<and> i < length b \<longrightarrow> (\<exists>k \<in> set (chunk_loop b off). covers k i))
    \<and> (\<forall>k \<in> set (chunk_loop b off). length (ch_data k) \<le> ChunkSize)"
  using assms
proof (induction b off rule: chunk_loop.induct)
  case (1 b off)
  show ?case
  proof (cases "off < length b")
    case False
    then show ?thesis by (simp add: chunk_loop_done)
  next
    case True
    note IH = "1.IH" [OF True refl "1.prems"]
    note step = chunk_loop_step [OF True "1.prems"]
    have "\<exists>k \<in> set (chunk_loop b off). covers k i" if "off \<le> i" "i < length b" for i
      using IH that by (cases "i < off + ChunkSize") (auto simp: step covers_def)
    moreover have "piece_of b \<lparr>ch_total_size = int (length b), ch_offset = int off,
        ch_data = take ChunkSize (drop off b)\<rparr>"
      using True by (auto simp: piece_of_def thresholds min_def)
    moreover have "min (length b - off) ChunkSize + (length b - (off + ChunkSize)) = length b - off"
      by arith
    ultimately show ?thesis
      using IH by (simp add: step)
  qed
qed

lemma tiles_chunk_loop: "length b < 2 ^ 31 \<Longrightarrow> tiles b (chunk_loop b 0)"
  using chunk_loop_tiles [of b 0] by (simp add: tiles_def)

lemma chunk_loop_nonempty: "b \<noteq> [] \<Longrightarrow> length b < 2 ^ 31 \<Longrightarrow> chunk_loop b 0 \<noteq> []"
  by (simp add: chunk_loop_step)

lemma receive_fragments:
  assumes "length b < 2 ^ 31" and "b \<noteq> []" and "mset ks = mset (chunk_loop b 0)"
    and "needs_fresh r seq (int (length b))"
  shows "receive_contents r (map (\<lambda>k. (seq, Data_Chunk k)) ks) =
    Returns (r(seq := None), [(seq, b)])"
proof (rule receive_pieces [where ds = "[]"])
  show "tiles b ([] @ ks)"
    using tiles_perm [OF assms(3)] tiles_chunk_loop [OF assms(1)] by simp
  show "ks \<noteq> []"
    using assms(3) chunk_loop_nonempty [OF assms(2,1)] by auto
  show "partial b [] (acquire r seq (int (length b)))"
    using assms(4) by (rule partial_fresh)
qed

lemma receive_payload:
  assumes "length b < 2 ^ 31" and "needs_fresh r seq (int (length b))"
  shows "receive_contents r (map (Pair seq) (payload_contents b)) =
    Returns (if length b \<le> MessageMax then r else r(seq := None), [(seq, b)])"
proof (cases "length b \<le> MessageMax")
  case True
  then show ?thesis by (simp add: payload_contents_def receive_content_def)
next
  case False
  then have "b \<noteq> []" by auto
  with False assms receive_fragments [of b "chunk_loop b 0" r seq] show ?thesis
    by (simp add: payload_contents_def comp_def)
qed

section \<open>Lemmas: independence of the streams\<close>

lemma receive_content_other:
  "receive_content r seq c = Returns (r', out) \<Longrightarrow> k \<noteq> seq \<Longrightarrow> r' k = r k"
  by (auto simp: receive_content_def Reassemble_def Let_def
      split: data_content.splits go.splits prod.splits option.splits if_splits)

lemma receive_content_local:
  "r seq = r1 seq \<Longrightarrow> receive_content r seq c = Returns (r', out) \<Longrightarrow>
     \<exists>r1'. receive_content r1 seq c = Returns (r1', out) \<and> r1' seq = r' seq"
  by (auto simp: receive_content_def Reassemble_def Let_def acquire_def needs_fresh_def
      split: data_content.splits go.splits prod.splits option.splits if_splits)

lemma receive_contents_local:
  "receive_contents r cs = Returns (r', out) \<Longrightarrow> r k = r1 k \<Longrightarrow>
     \<exists>r1'. receive_contents r1 (filter (\<lambda>p. fst p = k) cs) =
       Returns (r1', filter (\<lambda>p. fst p = k) out) \<and> r1' k = r' k"
proof (induction cs arbitrary: r r1 out)
  case Nil
  then show ?case by simp
next
  case (Cons p cs)
  obtain seq c where p: "p = (seq, c)" by (cases p)
  with Cons.prems obtain r2 out1 out2 where
    c: "receive_content r seq c = Returns (r2, out1)" and
    cs: "receive_contents r2 cs = Returns (r', out2)" and
    out: "out = map (Pair seq) out1 @ out2"
    by (auto split: go.splits prod.splits)
  show ?case
  proof (cases "seq = k")
    case True
    with c Cons.prems(2) obtain r3 where r3: "receive_content r1 seq c = Returns (r3, out1)"
      "r3 k = r2 k"
      using receive_content_local by blast
    from Cons.IH [of r2 out2 r3, OF cs] r3(2) obtain r1' where
      "receive_contents r3 (filter (\<lambda>p. fst p = k) cs) =
         Returns (r1', filter (\<lambda>p. fst p = k) out2)" "r1' k = r' k"
      by auto
    with True r3(1) show ?thesis by (simp add: p out filter_map comp_def)
  next
    case False
    with c have "r2 k = r k"
      using receive_content_other by metis
    with Cons.prems(2) have "r2 k = r1 k" by simp
    from Cons.IH [of r2 out2 r1, OF cs this] False show ?thesis by (simp add: p out filter_map comp_def)
  qed
qed

section \<open>Properties\<close>

text \<open>
  C3: Fragmentation and reassembly are inverse. A payload below 2 GiB sent as one message or as
  chunks is delivered exactly once and unchanged when the chunks arrive in any order, provided the
  receiver holds no half-finished payload of the same stream and the same total size; nothing of it
  stays in the reassembler.
\<close>

theorem fragments_any_order:
  assumes "MessageMax < length b" and "length b < 2 ^ 31"
    and "mset ks = mset (chunk_loop b 0)" and "needs_fresh r seq (int (length b))"
  shows "payload_contents b = map Data_Chunk (chunk_loop b 0)
    \<and> receive_contents r (map (\<lambda>k. (seq, Data_Chunk k)) ks) = Returns (r(seq := None), [(seq, b)])"
proof -
  have "b \<noteq> []" using assms(1) by auto
  with assms receive_fragments [of b ks r seq] show ?thesis
    by (simp add: payload_contents_def)
qed

theorem fragments_any_order_witness:
  "payload_contents (replicate 300000 7) = map Data_Chunk (chunk_loop (replicate 300000 7) 0)
    \<and> receive_contents NewReassembler
        (map (\<lambda>k. (3, Data_Chunk k)) (rev (chunk_loop (replicate 300000 7) 0))) =
      Returns (NewReassembler(3 := None), [(3, replicate 300000 7)])"
  by (rule fragments_any_order)
    (simp_all add: thresholds needs_fresh_def NewReassembler_def)

text \<open>
  C6: Streams do not disturb each other's chunks. For any interleaving of Data contents of any
  streams, what is delivered on one stream, and what the reassembler keeps of it, is what the
  contents of that stream alone produce.
\<close>

theorem reassembly_isolated:
  assumes "receive_contents r cs = Returns (r', out)"
  shows "\<exists>rk. receive_contents r (filter (\<lambda>p. fst p = k) cs) =
    Returns (rk, filter (\<lambda>p. fst p = k) out) \<and> rk k = r' k"
  using assms by (rule receive_contents_local) simp

text \<open>Two chunks of a message of stream 3 with a chunk of a longer message of stream 5 between them.\<close>

definition interleaved_chunks :: "(int \<times> data_content) list" where
  "interleaved_chunks =
     [(3, Data_Chunk \<lparr>ch_total_size = 4, ch_offset = 2, ch_data = [7, 8]\<rparr>),
      (5, Data_Chunk \<lparr>ch_total_size = 3, ch_offset = 0, ch_data = [9]\<rparr>),
      (3, Data_Chunk \<lparr>ch_total_size = 4, ch_offset = 0, ch_data = [5, 6]\<rparr>)]"

theorem reassembly_isolated_witness:
  "\<exists>r' rk. receive_contents NewReassembler interleaved_chunks = Returns (r', [(3, [5, 6, 7, 8])])
     \<and> r' 3 = None \<and> r' 5 \<noteq> None
     \<and> receive_contents NewReassembler (filter (\<lambda>p. fst p = 3) interleaved_chunks) = Returns (rk, [(3, [5, 6, 7, 8])])
     \<and> rk 3 = None
     \<and> (\<exists>r5. receive_contents NewReassembler (filter (\<lambda>p. fst p = 5) interleaved_chunks) = Returns (r5, []) \<and> r5 5 = r' 5)"
proof -
  have "case receive_contents NewReassembler interleaved_chunks of
      Panics e \<Rightarrow> False
    | Returns (r, out) \<Rightarrow> out = [(3, [5, 6, 7, 8])] \<and> Option.is_none (r 3) \<and> \<not> Option.is_none (r 5)"
    by code_simp
  then obtain r' where r': "receive_contents NewReassembler interleaved_chunks = Returns (r', [(3, [5, 6, 7, 8])])"
    "r' 3 = None" "r' 5 \<noteq> None"
    by (auto simp: Option.is_none_def split: go.splits)
  obtain rk where rk: "receive_contents NewReassembler (filter (\<lambda>p. fst p = 3) interleaved_chunks) =
      Returns (rk, filter (\<lambda>p. fst p = 3) [(3, [5, 6, 7, 8])])" "rk 3 = r' 3"
    using reassembly_isolated [OF r'(1), of 3] by blast
  obtain r5 where r5: "receive_contents NewReassembler (filter (\<lambda>p. fst p = 5) interleaved_chunks) =
      Returns (r5, filter (\<lambda>p. fst p = 5) [(3, [5, 6, 7, 8])])" "r5 5 = r' 5"
    using reassembly_isolated [OF r'(1), of 5] by blast
  have "filter (\<lambda>p. fst p = 3) [(3 :: int, [5, 6, 7, 8 :: 8 word])] = [(3, [5, 6, 7, 8])]"
    "filter (\<lambda>p. fst p = 5) [(3 :: int, [5, 6, 7, 8 :: 8 word])] = []" by simp_all
  with r' rk r5 show ?thesis by metis
qed

text \<open>
  The exact condition under which a chunk from the wire crashes the receiving process: a negative
  total size that needs a new buffer, or a negative offset whose end still lies inside the buffer.
  Both fields are attacker-chosen \<open>int32\<close> values that nothing validates.
\<close>

theorem Reassemble_panics_iff:
  "(\<exists>e. Reassemble r seq tot offset dat = Panics e) \<longleftrightarrow>
     (needs_fresh r seq tot \<and> tot < 0) \<or>
     (offset < 0 \<and> offset + int (length dat) \<le> int (length (a_buf (acquire r seq tot))))"
  by (auto simp: Reassemble_def Let_def acquire_def)

text \<open>
  Every chunk of a fragmented payload fits the negotiated SCTP message size with the reserved
  envelope, no chunk is empty, and the chunks add up to the payload.
\<close>

theorem chunk_bounds:
  assumes "length b < 2 ^ 31"
  shows "list_all (\<lambda>k. 0 < length (ch_data k) \<and> length (ch_data k) + frameOverhead \<le> maxFrameBytes
      \<and> ch_offset k + int (length (ch_data k)) \<le> ch_total_size k) (chunk_loop b 0)
    \<and> sum_list (map (length \<circ> ch_data) (chunk_loop b 0)) = length b"
  using chunk_loop_tiles [OF assms, of 0]
  by (auto simp: list_all_iff piece_of_def ChunkSize_def frameOverhead_def maxFrameBytes_def)

theorem chunk_bounds_witness:
  "list_all (\<lambda>k. 0 < length (ch_data k) \<and> length (ch_data k) + frameOverhead \<le> maxFrameBytes
      \<and> ch_offset k + int (length (ch_data k)) \<le> ch_total_size k) (chunk_loop (replicate 300000 7) 0)
    \<and> sum_list (map (length \<circ> ch_data) (chunk_loop (replicate 300000 7) 0)) =
        length (replicate 300000 (7 :: byte))"
  by (rule chunk_bounds) simp

text \<open>
  A channel is shut down once. After any sequence of \<open>Close\<close> calls and DataChannel callbacks on a
  new channel, it is closed exactly when one of them closes it, and the error it reports from then on
  is the reason of the first.
\<close>

theorem channel_closed_once:
  assumes "c \<in> set (close_run NewChannel es)"
  shows "ch_closeErr c = first_reason es \<and> ch_closed c = (first_reason es \<noteq> None)
    \<and> length (ch_recv c) \<le> recvCap"
proof -
  have "close_wf c" and "ch_closeErr c = first_reason es"
    using close_run_closeErr [OF NewChannel_wf assms] by (simp_all add: NewChannel_def)
  then show ?thesis by (simp add: close_wf_def)
qed

theorem channel_closed_once_witness:
  "ch_closeErr (OnClose (Close NewChannel)) = first_reason [EvClose, EvOnClose]
    \<and> ch_closed (OnClose (Close NewChannel)) = (first_reason [EvClose, EvOnClose] \<noteq> None)
    \<and> length (ch_recv (OnClose (Close NewChannel))) \<le> recvCap"
  by (rule channel_closed_once) simp

text \<open>
  C11: Backpressure. A frame reaches the DataChannel only on an open channel and only after a reading
  of the buffered amount below the high watermark, every earlier reading having been above it and
  followed by a low-watermark signal; then exactly the length-prefixed payload is appended.
\<close>

theorem SendFrame_backpressure:
  assumes "SendFrame marshal c obs dcSend msg = (c', AwaitOk)"
  shows "\<not> ch_closed c \<and> dcSend = None \<and>
    (\<exists>p. marshal msg = Inr p \<and> ch_sent c' = ch_sent c @ [lengthPrefix p]) \<and>
    (\<exists>pre amount wake post. obs = pre @ (amount, wake) # post \<and> amount < BufferedAmountHigh
       \<and> (\<forall>(a, w) \<in> set pre. a \<ge> BufferedAmountHigh \<and> w = WakeLow))"
  using assms awaitBufferLow_ok [of c obs]
  by (auto dest: awaitBufferLow_sentD simp: SendFrame_def SendRaw_def split: sum.splits if_splits prod.splits
      await_result.splits option.splits)

theorem SendFrame_backpressure_witness:
  "\<exists>c'. SendFrame (\<lambda>_ :: unit. Inr [5]) NewChannel [(2000000, WakeLow), (10, WakeLow)] None () = (c', AwaitOk)
    \<and> ch_sent c' = ch_sent NewChannel @ [lengthPrefix [5]]"
proof -
  obtain c' where c': "SendFrame (\<lambda>_ :: unit. Inr [5]) NewChannel [(2000000, WakeLow), (10, WakeLow)] None ()
      = (c', AwaitOk)"
    by (simp add: SendFrame_def SendRaw_def BufferedAmountHigh_def NewChannel_def)
  with SendFrame_backpressure [OF c'] show ?thesis by simp
qed

end
