(* ===== verification/Rpc_Types.thy ===== *)
theory Rpc_Types
  imports Transport
begin

text \<open>
  The small types of package \<open>rpc\<close>: statuses (\<open>types.go\<close>), metadata holders (\<open>stream.go\<close> and the
  two converters at the end of \<open>client.go\<close>), and the interceptor chains (\<open>interceptor.go\<close>).

  A metadata map is a partial function from keys to value lists. Ranging over a Go map visits each
  key once in an unspecified order; every loop here treats the keys independently, so it is the
  pointwise function. The chains are polymorphic in the context, stream and result types.
\<close>

section \<open>Statuses\<close>

definition status_OK :: rpc_status where
  "status_OK = \<lparr>st_code = 0, st_message = ''''\<rparr>"

definition Err :: "int \<Rightarrow> go_error option \<Rightarrow> rpc_status" where
  "Err code err =
     (case err of None \<Rightarrow> status_OK | Some e \<Rightarrow> \<lparr>st_code = code, st_message = error_string e\<rparr>)"

text \<open>The method \<open>(*Status).Err\<close>; a nil status is \<open>None\<close>.\<close>

definition status_Err :: "rpc_status option \<Rightarrow> go_error option" where
  "status_Err s =
     (case s of None \<Rightarrow> None
      | Some st \<Rightarrow> if st_code st = 0 then None else Some (ErrNew (st_message st)))"

definition toProto :: "rpc_status option \<Rightarrow> rpc_status" where
  "toProto s =
     (case s of None \<Rightarrow> \<lparr>st_code = 0, st_message = ''''\<rparr>
      | Some st \<Rightarrow> \<lparr>st_code = st_code st, st_message = st_message st\<rparr>)"

definition statusFromProto :: "rpc_status option \<Rightarrow> rpc_status" where
  "statusFromProto p =
     (case p of None \<Rightarrow> status_OK
      | Some st \<Rightarrow> \<lparr>st_code = st_code st, st_message = st_message st\<rparr>)"

text \<open>A duration in nanoseconds; \<open>time.Duration(ms) * time.Millisecond\<close>.\<close>

definition durationFromMs :: "int \<Rightarrow> int" where
  "durationFromMs ms = (if ms \<le> 0 then 0 else ms * 1000000)"

lemma toProto_Some [simp]: "toProto (Some st) = st"
  by (simp add: toProto_def)

lemma statusFromProto_Some [simp]: "statusFromProto (Some st) = st"
  by (simp add: statusFromProto_def)

section \<open>Metadata\<close>

definition md_values :: "metadata \<Rightarrow> string \<Rightarrow> string list" where
  "md_values md k = (case md k of None \<Rightarrow> [] | Some vs \<Rightarrow> vs)"

definition newMetadataHolder :: metadata where
  "newMetadataHolder = Map.empty"

definition mergeMetadata :: "metadata \<Rightarrow> metadata \<Rightarrow> metadata" where
  "mergeMetadata dst kv =
     (\<lambda>k. case kv k of None \<Rightarrow> dst k | Some vs \<Rightarrow> Some (md_values dst k @ vs))"

definition holder_SetHeader :: "metadata \<Rightarrow> metadata \<Rightarrow> metadata" where
  "holder_SetHeader m kv = mergeMetadata m kv"

definition holder_SetTrailer :: "metadata \<Rightarrow> metadata \<Rightarrow> metadata" where
  "holder_SetTrailer m kv = mergeMetadata m kv"

definition Snapshot :: "metadata \<Rightarrow> metadata" where
  "Snapshot m = (\<lambda>k. map_option (\<lambda>vs. vs) (m k))"

definition copyMetadata :: "metadata option \<Rightarrow> metadata" where
  "copyMetadata src = (case src of None \<Rightarrow> Map.empty | Some m \<Rightarrow> (\<lambda>k. map_option (\<lambda>vs. vs) (m k)))"

definition mergeIn :: "metadata \<Rightarrow> metadata \<Rightarrow> metadata" where
  "mergeIn dst src =
     (\<lambda>k. case src k of None \<Rightarrow> dst k | Some vs \<Rightarrow> Some (md_values dst k @ vs))"

text \<open>A nil map ranges over nothing, so the result is an empty, non-nil \<open>Metadata\<close>.\<close>

definition metadataFromKV :: "metadata option \<Rightarrow> metadata" where
  "metadataFromKV hdr = (case hdr of None \<Rightarrow> Map.empty | Some h \<Rightarrow> (\<lambda>k. map_option (\<lambda>vs. vs) (h k)))"

lemma Snapshot_id [simp]: "Snapshot m = m"
  by (simp add: Snapshot_def option.map_ident)

lemma copyMetadata_simps [simp]: "copyMetadata None = Map.empty" "copyMetadata (Some m) = m"
  by (simp_all add: copyMetadata_def option.map_ident)

lemma metadataFromKV_simps [simp]: "metadataFromKV None = Map.empty" "metadataFromKV (Some m) = m"
  by (simp_all add: metadataFromKV_def option.map_ident)

lemma mergeIn_merge: "mergeIn = mergeMetadata"
  by (simp add: fun_eq_iff mergeIn_def mergeMetadata_def)

lemma md_values_merge:
  "md_values (mergeMetadata dst kv) k = md_values dst k @ md_values kv k"
  by (simp add: md_values_def mergeMetadata_def split: option.splits)

lemma dom_mergeMetadata: "dom (mergeMetadata dst kv) = dom dst \<union> dom kv"
  by (auto simp: mergeMetadata_def dom_def split: option.splits)

lemma mergeMetadata_empty [simp]:
  "mergeMetadata m Map.empty = m" "mergeMetadata Map.empty m = m"
  by (auto simp: mergeMetadata_def md_values_def fun_eq_iff split: option.splits)

section \<open>Interceptor chains\<close>

datatype MethodKind = MethodKindUnary | MethodKindServerStreaming | MethodKindClientStreaming
  | MethodKindBidiStreaming

record StreamServerInfo =
  info_Method :: string
  info_Kind :: MethodKind

type_synonym ('ctx, 'r) UnaryHandler = "'ctx \<Rightarrow> bytes \<Rightarrow> 'r"
type_synonym ('ctx, 'r) UnaryServerInterceptor =
  "'ctx \<Rightarrow> string \<Rightarrow> bytes \<Rightarrow> ('ctx, 'r) UnaryHandler \<Rightarrow> 'r"
type_synonym ('ctx, 's, 'r) StreamHandler = "'ctx \<Rightarrow> 's \<Rightarrow> 'r"
type_synonym ('ctx, 's, 'r) StreamServerInterceptor =
  "'ctx \<Rightarrow> 's \<Rightarrow> StreamServerInfo \<Rightarrow> ('ctx, 's, 'r) StreamHandler \<Rightarrow> 'r"
type_synonym ('ctx, 'r) UnaryInvoker = "'ctx \<Rightarrow> string \<Rightarrow> bytes \<Rightarrow> 'r"
type_synonym ('ctx, 'r) UnaryClientInterceptor =
  "'ctx \<Rightarrow> string \<Rightarrow> bytes \<Rightarrow> ('ctx, 'r) UnaryInvoker \<Rightarrow> 'r"

text \<open>
  The three loops \<open>for i := len(is) - 1; i >= 0; i--\<close>: \<open>i\<close> is the number of interceptors still to
  be wrapped around \<open>h\<close>.
\<close>

fun unary_server_loop ::
  "('ctx, 'r) UnaryServerInterceptor list \<Rightarrow> StreamServerInfo \<Rightarrow> nat \<Rightarrow> ('ctx, 'r) UnaryHandler
     \<Rightarrow> ('ctx, 'r) UnaryHandler" where
  "unary_server_loop is info 0 h = h"
| "unary_server_loop is info (Suc i) h =
     unary_server_loop is info i (\<lambda>ctx req. (is ! i) ctx (info_Method info) req h)"

definition chainUnaryServer ::
  "('ctx, 'r) UnaryServerInterceptor list \<Rightarrow> StreamServerInfo \<Rightarrow> ('ctx, 'r) UnaryHandler
     \<Rightarrow> ('ctx, 'r) UnaryHandler" where
  "chainUnaryServer is info fin =
     (if length is = 0 then fin else unary_server_loop is info (length is) fin)"

fun stream_server_loop ::
  "('ctx, 's, 'r) StreamServerInterceptor list \<Rightarrow> StreamServerInfo \<Rightarrow> nat
     \<Rightarrow> ('ctx, 's, 'r) StreamHandler \<Rightarrow> ('ctx, 's, 'r) StreamHandler" where
  "stream_server_loop is info 0 h = h"
| "stream_server_loop is info (Suc i) h =
     stream_server_loop is info i (\<lambda>ctx s. (is ! i) ctx s info h)"

definition chainStreamServer ::
  "('ctx, 's, 'r) StreamServerInterceptor list \<Rightarrow> StreamServerInfo
     \<Rightarrow> ('ctx, 's, 'r) StreamHandler \<Rightarrow> ('ctx, 's, 'r) StreamHandler" where
  "chainStreamServer is info fin =
     (if length is = 0 then fin else stream_server_loop is info (length is) fin)"

fun unary_client_loop ::
  "('ctx, 'r) UnaryClientInterceptor list \<Rightarrow> nat \<Rightarrow> ('ctx, 'r) UnaryInvoker
     \<Rightarrow> ('ctx, 'r) UnaryInvoker" where
  "unary_client_loop is 0 v = v"
| "unary_client_loop is (Suc i) v =
     unary_client_loop is i (\<lambda>ctx method req. (is ! i) ctx method req v)"

definition chainUnaryClient ::
  "('ctx, 'r) UnaryClientInterceptor list \<Rightarrow> ('ctx, 'r) UnaryInvoker \<Rightarrow> ('ctx, 'r) UnaryInvoker"
where
  "chainUnaryClient is invoker =
     (if length is = 0 then invoker else unary_client_loop is (length is) invoker)"

text \<open>
  The three chains share one contract: the loop over \<open>wrap\<close>, from the last element down, is the
  right fold, so the first interceptor is outermost.
\<close>

locale interceptor_loop =
  fixes wrap :: "'i \<Rightarrow> 'h \<Rightarrow> 'h"
    and loop :: "'i list \<Rightarrow> nat \<Rightarrow> 'h \<Rightarrow> 'h"
  assumes loop_0: "loop is 0 h = h"
    and loop_Suc: "loop is (Suc n) h = loop is n (wrap (is ! n) h)"
begin

lemma loop_take: "n \<le> length is \<Longrightarrow> loop is n h = foldr wrap (take n is) h"
proof (induction n arbitrary: h)
  case 0
  then show ?case by (simp add: loop_0)
next
  case (Suc n)
  then have "loop is (Suc n) h = foldr wrap (take n is) (wrap (is ! n) h)"
    by (simp add: loop_Suc)
  with Suc.prems show ?case by (simp add: take_Suc_conv_app_nth)
qed

lemma loop_all: "loop is (length is) h = foldr wrap is h"
  by (simp add: loop_take)

end

interpretation unary_server: interceptor_loop
  "\<lambda>i h ctx req. i ctx (info_Method info) req h" "\<lambda>is. unary_server_loop is info"
  for info
  by unfold_locales simp_all

interpretation stream_server: interceptor_loop
  "\<lambda>i h ctx s. i ctx s info h" "\<lambda>is. stream_server_loop is info"
  for info
  by unfold_locales simp_all

interpretation unary_client: interceptor_loop
  "\<lambda>i v ctx method req. i ctx method req v" unary_client_loop
  by unfold_locales simp_all

lemma chainStreamServer_foldr:
  "chainStreamServer is info fin = foldr (\<lambda>i h ctx s. i ctx s info h) is fin"
  by (cases "is = []") (simp_all add: chainStreamServer_def stream_server.loop_all)

lemma chainUnaryServer_foldr:
  "chainUnaryServer is info fin = foldr (\<lambda>i h ctx req. i ctx (info_Method info) req h) is fin"
  by (cases "is = []") (simp_all add: chainUnaryServer_def unary_server.loop_all)

lemma chainUnaryClient_foldr:
  "chainUnaryClient is v = foldr (\<lambda>i v ctx method req. i ctx method req v) is v"
  by (cases "is = []") (simp_all add: chainUnaryClient_def unary_client.loop_all)

lemmas chain_foldr = chainStreamServer_foldr chainUnaryServer_foldr chainUnaryClient_foldr

lemma chainStreamServer_Nil [simp]: "chainStreamServer [] info fin = fin"
  by (simp add: chain_foldr)

section \<open>Properties\<close>

text \<open>
  In each of the three interceptor chains the first interceptor of the slice is outermost: it is
  called with the chain of the others as its \<open>next\<close>, and an empty chain is the final handler itself.
  Chaining a concatenation is chaining the first part around the chain of the second.
\<close>

theorem interceptors_outermost_first:
  "chainStreamServer (i # is) info fin ctx s = i ctx s info (chainStreamServer is info fin)
    \<and> chainUnaryServer (j # js) info h ctx req =
      j ctx (info_Method info) req (chainUnaryServer js info h)
    \<and> chainUnaryClient (k # ks) v ctx method req = k ctx method req (chainUnaryClient ks v)
    \<and> chainStreamServer (is @ is') info fin = chainStreamServer is info (chainStreamServer is' info fin)
    \<and> chainStreamServer [] info fin = fin \<and> chainUnaryServer [] info h = h
    \<and> chainUnaryClient [] v = v"
  by (simp add: chain_foldr)

end
