(* ===== verification/Rpc_Server.thy ===== *)
theory Rpc_Server
  imports Rpc_Types
begin

text \<open>
  The server side of package \<open>rpc\<close>: \<open>Server\<close>, the multiplexer and the per-RPC goroutines
  (\<open>server.go\<close>) and \<open>ServerStream\<close> (\<open>stream.go\<close>).

  \<^item> A handler is any Go function over the stream; here it is the tree of what it does to the
    stream (\<open>handler\<close>): send, receive, set metadata, return a status, each with a continuation. A
    handler may loop, so the trees are of a codatatype.
  \<^item> Stream objects live in \<open>mx_heap\<close> and \<open>mx_streams\<close> maps sequence numbers to them, as the
    handler goroutine keeps its pointer after the entry is gone. \<open>streamState\<close> and \<open>ServerStream\<close>
    are one record.
  \<^item> \<open>mx_out\<close> is the sequence of response frames handed to the transport by the writer goroutine.
  \<^item> Every operation returns the list of its possible outcomes; a blocked operation has none.
    One operation of a handler or one inbound frame is one step, except that \<open>Recv\<close> is two steps,
    because its two \<open>select\<close> statements can be separated by the arrival of frames.
  \<^item> A panic in the serve loop ends the process: \<open>mx_crashed\<close>.
\<close>

section \<open>Handlers\<close>

codatatype handler =
    HReturn "rpc_status option"
  | HSend bytes "go_error option \<Rightarrow> handler"
  | HRecv "go_error + bytes \<Rightarrow> handler"
  | HSetHeader metadata handler
  | HSetTrailer metadata handler
  | HIncomingHeader "metadata \<Rightarrow> handler"
  | HHeader "metadata \<Rightarrow> handler"

text \<open>Continue with \<open>k\<close> when the tree returns: what an interceptor does after \<open>next\<close>.\<close>

primcorec hbind :: "handler \<Rightarrow> (rpc_status option \<Rightarrow> handler) \<Rightarrow> handler" where
  "hbind h k =
     (case h of
        HReturn st \<Rightarrow> k st
      | HSend b c \<Rightarrow> HSend b (\<lambda>e. hbind (c e) k)
      | HRecv c \<Rightarrow> HRecv (\<lambda>r. hbind (c r) k)
      | HSetHeader kv h1 \<Rightarrow> HSetHeader kv (hbind h1 k)
      | HSetTrailer kv h1 \<Rightarrow> HSetTrailer kv (hbind h1 k)
      | HIncomingHeader c \<Rightarrow> HIncomingHeader (\<lambda>m. hbind (c m) k)
      | HHeader c \<Rightarrow> HHeader (\<lambda>m. hbind (c m) k))"

lemma hbind_simps [simp]:
  "hbind (HReturn st) k = k st"
  "hbind (HSend b c) k = HSend b (\<lambda>e. hbind (c e) k)"
  "hbind (HRecv r) k = HRecv (\<lambda>x. hbind (r x) k)"
  "hbind (HSetHeader kv h) k = HSetHeader kv (hbind h k)"
  "hbind (HSetTrailer kv h) k = HSetTrailer kv (hbind h k)"
  "hbind (HIncomingHeader i) k = HIncomingHeader (\<lambda>m. hbind (i m) k)"
  "hbind (HHeader i) k = HHeader (\<lambda>m. hbind (i m) k)"
  by (subst hbind.code, simp)+

record method_desc =
  md_Method :: string
  md_Kind :: MethodKind
  md_Handler :: handler

record service_desc =
  sd_ServiceName :: string
  sd_Methods :: "method_desc list"

type_synonym stream_interceptor = "(unit, unit, handler) StreamServerInterceptor"
type_synonym unary_interceptor = "(unit, handler) UnaryServerInterceptor"

record server =
  sv_methods :: "string \<rightharpoonup> method_desc"
  sv_unaryInterceptors :: "unary_interceptor list"
  sv_streamInterceptors :: "stream_interceptor list"

section \<open>Construction and registration\<close>

datatype server_option =
    WithUnaryServerInterceptors "unary_interceptor list"
  | WithStreamServerInterceptors "stream_interceptor list"

fun apply_server_option :: "server \<Rightarrow> server_option \<Rightarrow> server" where
  "apply_server_option s (WithUnaryServerInterceptors is) =
     s\<lparr>sv_unaryInterceptors := sv_unaryInterceptors s @ is\<rparr>"
| "apply_server_option s (WithStreamServerInterceptors is) =
     s\<lparr>sv_streamInterceptors := sv_streamInterceptors s @ is\<rparr>"

definition NewServer :: "server_option list \<Rightarrow> server" where
  "NewServer opts = foldl apply_server_option
     \<lparr>sv_methods = Map.empty, sv_unaryInterceptors = [], sv_streamInterceptors = []\<rparr> opts"

definition method_path :: "string \<Rightarrow> string \<Rightarrow> string" where
  "method_path service method = ''/'' @ service @ ''/'' @ method"

fun register_loop :: "server \<Rightarrow> string \<Rightarrow> method_desc list \<Rightarrow> server go" where
  "register_loop s service [] = Returns s"
| "register_loop s service (m # ms) =
     (let path = method_path service (md_Method m)
      in if sv_methods s path \<noteq> None
         then Panics (''rpc: duplicate method registration: '' @ path)
         else register_loop (s\<lparr>sv_methods := (sv_methods s)(path \<mapsto> m\<lparr>md_Method := path\<rparr>)\<rparr>)
                service ms)"

definition RegisterService :: "server \<Rightarrow> service_desc \<Rightarrow> server go" where
  "RegisterService s desc = register_loop s (sd_ServiceName desc) (sd_Methods desc)"

definition findMethod :: "server \<Rightarrow> string \<Rightarrow> method_desc option" where
  "findMethod s path = sv_methods s path"

section \<open>The multiplexer state\<close>

record server_stream =
  ss_method :: string
  ss_desc :: method_desc
  ss_seq :: int
  ss_inbound :: "bytes list"
  ss_halfClose :: bool
  ss_ctx :: "ctx_err option"
  ss_timeout :: int
  ss_hdr :: metadata
  ss_hdrState :: bool
  ss_incoming :: "metadata option"
  ss_headerSent :: bool
  ss_prog :: "handler option"
  ss_waiting :: bool

record mux =
  mx_ctx :: "ctx_err option"
  mx_done :: bool
  mx_streams :: "int \<rightharpoonup> nat"
  mx_heap :: "nat \<Rightarrow> server_stream option"
  mx_next :: nat
  mx_out :: "response_frame list"
  mx_reasm :: reassembler
  mx_crashed :: "string option"

definition inboundCap :: nat where "inboundCap = 16"

definition newMultiplexer :: "ctx_err option \<Rightarrow> mux" where
  "newMultiplexer ctx = \<lparr>mx_ctx = ctx, mx_done = False, mx_streams = Map.empty,
     mx_heap = (\<lambda>_. None), mx_next = 0, mx_out = [], mx_reasm = NewReassembler, mx_crashed = None\<rparr>"

definition newServerStream :: "ctx_err option \<Rightarrow> int \<Rightarrow> string \<Rightarrow> method_desc \<Rightarrow> int \<Rightarrow> server_stream" where
  "newServerStream ctx timeout method desc seq =
     \<lparr>ss_method = method, ss_desc = desc, ss_seq = seq, ss_inbound = [], ss_halfClose = False,
      ss_ctx = ctx, ss_timeout = timeout, ss_hdr = newMetadataHolder, ss_hdrState = False,
      ss_incoming = None, ss_headerSent = False, ss_prog = None, ss_waiting = False\<rparr>"

definition set_stream :: "mux \<Rightarrow> nat \<Rightarrow> server_stream \<Rightarrow> mux" where
  "set_stream m sid st = m\<lparr>mx_heap := (mx_heap m)(sid := Some st)\<rparr>"

definition lookupStream :: "mux \<Rightarrow> int \<Rightarrow> (nat \<times> server_stream) option" where
  "lookupStream m seq =
     (case mx_streams m seq of None \<Rightarrow> None
      | Some sid \<Rightarrow> map_option (Pair sid) (mx_heap m sid))"

section \<open>Writing responses\<close>

definition resp_frame :: "int \<Rightarrow> response_type \<Rightarrow> response_frame" where
  "resp_frame seq t = \<lparr>r_routing = Some (int32 seq), r_type = Some t\<rparr>"

text \<open>
  The cases of \<open>queue\<close> that return: the writer has put the frame on the transport; the multiplexer is
  shut down; the connection's context is done, before or after the writer took the frame.
\<close>

definition queue :: "mux \<Rightarrow> response_frame \<Rightarrow> (mux \<times> go_error option) list" where
  "queue m f =
     (let w = m\<lparr>mx_out := mx_out m @ [f]\<rparr>
      in select
        [(True, (w, None)),
         (mx_done m, (m, Some ErrClosedPipe)),
         (mx_ctx m \<noteq> None, (m, Some (CtxErr (the (mx_ctx m))))),
         (mx_ctx m \<noteq> None, (w, Some (CtxErr (the (mx_ctx m)))))])"

definition begin_frame :: "int \<Rightarrow> metadata \<Rightarrow> response_frame" where
  "begin_frame seq hdr =
     resp_frame seq (ResponseFrame_Begin (Some \<lparr>b_header = Some hdr, b_inline_data = None\<rparr>))"

definition flushBeginOnce :: "mux \<Rightarrow> server_stream \<Rightarrow> (mux \<times> go_error option) list" where
  "flushBeginOnce m s =
     (case lookupStream m (ss_seq s) of
        None \<Rightarrow> [(m, Some ErrClosedPipe)]
      | Some (sid, st) \<Rightarrow>
          (let m1 = set_stream m sid (st\<lparr>ss_headerSent := True\<rparr>)
           in if ss_headerSent st then [(m1, None)]
              else queue m1 (begin_frame (ss_seq s) (Snapshot (ss_hdr s)))))"

fun queue_all :: "mux \<Rightarrow> response_frame list \<Rightarrow> (mux \<times> go_error option) list" where
  "queue_all m [] = [(m, None)]"
| "queue_all m (f # fs) =
     concat (map (\<lambda>(m1, err). case err of Some e \<Rightarrow> [(m1, Some e)] | None \<Rightarrow> queue_all m1 fs)
       (queue m f))"

definition data_frame :: "int \<Rightarrow> data_content \<Rightarrow> response_frame" where
  "data_frame seq c = resp_frame seq (ResponseFrame_Data (Some (Some c)))"

definition Send :: "mux \<Rightarrow> server_stream \<Rightarrow> bytes \<Rightarrow> (mux \<times> go_error option) list" where
  "Send m s b =
     concat (map (\<lambda>(m1, err).
         case err of Some e \<Rightarrow> [(m1, Some e)]
         | None \<Rightarrow> queue_all m1 (map (data_frame (ss_seq s)) (payload_contents b)))
       (flushBeginOnce m s))"

definition end_frame :: "int \<Rightarrow> end_msg \<Rightarrow> response_frame" where
  "end_frame seq e = resp_frame seq (ResponseFrame_End (Some e))"

definition endStream :: "mux \<Rightarrow> int \<Rightarrow> end_msg \<Rightarrow> mux list" where
  "endStream m seq e =
     (let m1s = (case lookupStream m seq of
                   None \<Rightarrow> [m]
                 | Some (sid, st) \<Rightarrow>
                     (let m1 = set_stream m sid (st\<lparr>ss_headerSent := True\<rparr>)
                      in if ss_headerSent st then [m1]
                         else map fst (queue m1 (begin_frame seq (Snapshot (ss_hdr st))))))
      in concat (map (\<lambda>m1.
           map fst (queue (m1\<lparr>mx_streams := (mx_streams m1)(seq := None)\<rparr>) (end_frame seq e))) m1s))"

definition status_end :: "int \<Rightarrow> string \<Rightarrow> end_msg" where
  "status_end code msg =
     \<lparr>e_close_send = False, e_status = Some \<lparr>st_code = code, st_message = msg\<rparr>, e_trailer = None\<rparr>"

section \<open>Inbound frames\<close>

text \<open>The goroutine \<open>runHandler\<close> starts with the chain of the stream interceptors.\<close>

definition handler_chain :: "server \<Rightarrow> method_desc \<Rightarrow> handler" where
  "handler_chain s desc =
     chainStreamServer (sv_streamInterceptors s)
       \<lparr>info_Method = md_Method desc, info_Kind = md_Kind desc\<rparr> (\<lambda>_ _. md_Handler desc) () ()"

definition openStream :: "mux \<Rightarrow> server \<Rightarrow> int \<Rightarrow> call option \<Rightarrow> mux list" where
  "openStream m s seq call =
     (case call of
        None \<Rightarrow> endStream m seq (status_end 13 ''rpc: nil Call'')
      | Some c \<Rightarrow>
          (case findMethod s (c_method c) of
             None \<Rightarrow> endStream m seq (status_end 12 (''rpc: unimplemented method: '' @ c_method c))
           | Some desc \<Rightarrow>
               (let st0 = newServerStream (mx_ctx m) (durationFromMs (c_deadline_ms c)) (c_method c) desc seq;
                    st1 = st0\<lparr>ss_incoming := c_metadata c\<rparr>
                in if mx_streams m seq \<noteq> None
                   then endStream m seq (status_end 13 ''rpc: duplicate sequence'')
                   else
                     (let sid = mx_next m;
                          m1 = m\<lparr>mx_streams := (mx_streams m)(seq \<mapsto> sid), mx_next := Suc sid\<rparr>;
                          run = (\<lambda>st. set_stream m1 sid (st\<lparr>ss_prog := Some (handler_chain s desc)\<rparr>))
                      in case c_inline_data c of
                           None \<Rightarrow> [run st1]
                         | Some dat \<Rightarrow> select
                             [(length (ss_inbound st1) < inboundCap,
                                 run (st1\<lparr>ss_inbound := ss_inbound st1 @ [dat]\<rparr>)),
                              (ss_ctx st1 \<noteq> None, run st1)]))))"

definition deliverPayload :: "mux \<Rightarrow> int \<Rightarrow> bytes \<Rightarrow> mux list" where
  "deliverPayload m seq payload =
     (case lookupStream m seq of
        None \<Rightarrow> [m]
      | Some (sid, st) \<Rightarrow> select
          [(length (ss_inbound st) < inboundCap,
              set_stream m sid (st\<lparr>ss_inbound := ss_inbound st @ [payload]\<rparr>)),
           (ss_ctx st \<noteq> None, m)])"

definition deliverData :: "mux \<Rightarrow> int \<Rightarrow> data_content option option \<Rightarrow> mux list" where
  "deliverData m seq dat =
     (case dat of
        None \<Rightarrow> [m]
      | Some None \<Rightarrow> [m]
      | Some (Some (Data_Message msg)) \<Rightarrow> deliverPayload m seq msg
      | Some (Some (Data_Chunk k)) \<Rightarrow>
          (case Reassemble (mx_reasm m) (int32 seq) (ch_total_size k) (ch_offset k) (ch_data k) of
             Panics e \<Rightarrow> [m\<lparr>mx_crashed := Some e\<rparr>]
           | Returns (r, None) \<Rightarrow> [m\<lparr>mx_reasm := r\<rparr>]
           | Returns (r, Some full) \<Rightarrow> deliverPayload (m\<lparr>mx_reasm := r\<rparr>) seq full))"

text \<open>\<open>cancel()\<close> of a stream context: a context that is done keeps its error.\<close>

definition cancel_stream :: "server_stream \<Rightarrow> server_stream" where
  "cancel_stream st =
     st\<lparr>ss_ctx := (case ss_ctx st of None \<Rightarrow> Some Canceled | Some e \<Rightarrow> Some e)\<rparr>"

definition handleEnd :: "mux \<Rightarrow> int \<Rightarrow> end_msg option \<Rightarrow> mux list" where
  "handleEnd m seq e =
     (case e of
        None \<Rightarrow> [m]
      | Some en \<Rightarrow>
          (case lookupStream m seq of
             None \<Rightarrow> [m]
           | Some (sid, st) \<Rightarrow>
               if e_close_send en then [set_stream m sid (st\<lparr>ss_halfClose := True\<rparr>)]
               else [(set_stream m sid (cancel_stream st))
                       \<lparr>mx_streams := (mx_streams m)(seq := None)\<rparr>]))"

definition handleFrame :: "mux \<Rightarrow> server \<Rightarrow> frame \<Rightarrow> mux list" where
  "handleFrame m s f =
     (let seq = routing_seq (f_routing f)
      in case f_type f of
           None \<Rightarrow> [m]
         | Some (Frame_Call c) \<Rightarrow> openStream m s seq c
         | Some (Frame_Data d) \<Rightarrow> deliverData m seq d
         | Some (Frame_End e) \<Rightarrow> handleEnd m seq e)"

section \<open>The handler goroutine\<close>

text \<open>The two \<open>select\<close> statements of \<open>ServerStream.Recv\<close>: \<open>None\<close> is the \<open>default\<close> of the first.\<close>

definition Recv_poll :: "server_stream \<Rightarrow> (server_stream \<times> (go_error + bytes)) option list" where
  "Recv_poll st = select_default
     [(ss_inbound st \<noteq> [],
         Some (st\<lparr>ss_inbound := tl (ss_inbound st)\<rparr>, Inr (hd (ss_inbound st))))] None"

definition Recv_wait :: "server_stream \<Rightarrow> (server_stream \<times> (go_error + bytes)) list" where
  "Recv_wait st = select
     [(ss_inbound st \<noteq> [], (st\<lparr>ss_inbound := tl (ss_inbound st)\<rparr>, Inr (hd (ss_inbound st)))),
      (ss_halfClose st, (st, Inl EOF)),
      (ss_ctx st \<noteq> None, (st, Inl (CtxErr (the (ss_ctx st)))))]"

text \<open>\<open>SetHeader\<close> panics when \<open>hdrState.headerSent\<close> is set.\<close>

definition SetHeader :: "server_stream \<Rightarrow> metadata \<Rightarrow> server_stream go" where
  "SetHeader st kv =
     (if ss_hdrState st then Panics ''rpc: SetHeader called after header was already sent''
      else Returns (st\<lparr>ss_hdr := holder_SetHeader (ss_hdr st) kv\<rparr>))"

definition SetTrailer :: "server_stream \<Rightarrow> metadata \<Rightarrow> server_stream" where
  "SetTrailer st kv = st\<lparr>ss_hdr := holder_SetTrailer (ss_hdr st) kv\<rparr>"

definition IncomingHeader :: "server_stream \<Rightarrow> metadata" where
  "IncomingHeader st = copyMetadata (ss_incoming st)"

definition set_prog :: "mux \<Rightarrow> nat \<Rightarrow> handler option \<Rightarrow> mux" where
  "set_prog m sid p =
     (case mx_heap m sid of None \<Rightarrow> m
      | Some st \<Rightarrow> set_stream m sid (st\<lparr>ss_prog := p, ss_waiting := False\<rparr>))"

text \<open>What \<open>runHandler\<close> does once the handler has returned.\<close>

definition finishHandler :: "mux \<Rightarrow> nat \<Rightarrow> server_stream \<Rightarrow> rpc_status option \<Rightarrow> mux list" where
  "finishHandler m sid st status =
     (let e = \<lparr>e_close_send = False, e_status = Some (toProto status),
               e_trailer = Some (Snapshot (ss_hdr st))\<rparr>
      in map (\<lambda>m1. case mx_heap m1 sid of None \<Rightarrow> m1
                   | Some st1 \<Rightarrow> set_stream m1 sid (cancel_stream (st1\<lparr>ss_prog := None\<rparr>)))
           (endStream m (ss_seq st) e))"

definition handler_step :: "mux \<Rightarrow> nat \<Rightarrow> mux list" where
  "handler_step m sid =
     (case mx_heap m sid of
        None \<Rightarrow> []
      | Some st \<Rightarrow>
          (case ss_prog st of
             None \<Rightarrow> []
           | Some (HReturn status) \<Rightarrow> finishHandler m sid st status
           | Some (HSend b k) \<Rightarrow> map (\<lambda>(m1, e). set_prog m1 sid (Some (k e))) (Send m st b)
           | Some (HRecv k) \<Rightarrow>
               (if ss_waiting st
                then map (\<lambda>(st1, r). set_stream m sid (st1\<lparr>ss_prog := Some (k r), ss_waiting := False\<rparr>))
                       (Recv_wait st)
                else map (\<lambda>x. case x of
                         Some (st1, r) \<Rightarrow> set_stream m sid (st1\<lparr>ss_prog := Some (k r)\<rparr>)
                       | None \<Rightarrow> set_stream m sid (st\<lparr>ss_waiting := True\<rparr>))
                       (Recv_poll st))
           | Some (HSetHeader kv h) \<Rightarrow>
               (case SetHeader st kv of
                  Panics e \<Rightarrow> [m\<lparr>mx_crashed := Some e\<rparr>]
                | Returns st1 \<Rightarrow> [set_stream m sid (st1\<lparr>ss_prog := Some h\<rparr>)])
           | Some (HSetTrailer kv h) \<Rightarrow> [set_stream m sid ((SetTrailer st kv)\<lparr>ss_prog := Some h\<rparr>)]
           | Some (HIncomingHeader k) \<Rightarrow>
               [set_stream m sid (st\<lparr>ss_prog := Some (k (IncomingHeader st))\<rparr>)]
           | Some (HHeader k) \<Rightarrow>
               [set_stream m sid (st\<lparr>ss_prog := Some (k (copyMetadata (Some (ss_hdr st))))\<rparr>)]))"

section \<open>The serve loop\<close>

text \<open>\<open>isClosed\<close> and what \<open>Serve\<close> returns when \<open>Recv\<close> fails; \<open>None\<close> is the nil error.\<close>

definition isClosed :: "go_error \<Rightarrow> bool" where
  "isClosed err \<longleftrightarrow> err = EOF \<or> err = ErrClosedPipe"

definition serve_exit :: "go_error \<Rightarrow> go_error option" where
  "serve_exit err = (if err = EOF \<or> isClosed err then None else Some err)"

text \<open>
  One round of \<open>Serve\<close>: receive, decode with the protobuf runtime (a parameter), dispatch. The exit
  closes \<open>mx.done\<close> (the deferred \<open>shutdown\<close>).
\<close>

datatype serve_result = Continue channel mux | Exited "go_error option" mux

definition serve_round ::
  "(bytes \<Rightarrow> frame option) \<Rightarrow> server \<Rightarrow> ctx_err option \<Rightarrow> channel \<Rightarrow> mux \<Rightarrow> serve_result list" where
  "serve_round unmarshal s ctx ch m =
     concat (map (\<lambda>(ch1, r).
       case r of
         Inl err \<Rightarrow> [Exited (serve_exit err) (m\<lparr>mx_done := True\<rparr>)]
       | Inr raw \<Rightarrow>
           (case unmarshal raw of
              None \<Rightarrow> [Continue ch1 m]
            | Some f \<Rightarrow> map (Continue ch1) (handleFrame m s f)))
       (Recv ch ctx))"

text \<open>The events of a connection: a frame, a handler step, a deadline, the end of the connection.\<close>

datatype mux_event = EvFrame frame | EvHandler nat | EvDeadline nat | EvCancel ctx_err | EvShutdown

definition expire :: "mux \<Rightarrow> nat \<Rightarrow> mux list" where
  "expire m sid =
     (case mx_heap m sid of
        None \<Rightarrow> []
      | Some st \<Rightarrow> if ss_timeout st > 0 \<and> ss_ctx st = None
                   then [set_stream m sid (st\<lparr>ss_ctx := Some DeadlineExceeded\<rparr>)] else [])"

definition cancel_ctx :: "mux \<Rightarrow> ctx_err \<Rightarrow> mux" where
  "cancel_ctx m e =
     m\<lparr>mx_ctx := (case mx_ctx m of None \<Rightarrow> Some e | Some e' \<Rightarrow> Some e'),
       mx_heap := (\<lambda>sid. map_option (\<lambda>st. st\<lparr>ss_ctx := (case ss_ctx st of None \<Rightarrow> Some e | Some e' \<Rightarrow> Some e')\<rparr>)
                     (mx_heap m sid))\<rparr>"

definition mux_outcomes :: "server \<Rightarrow> mux \<Rightarrow> mux_event \<Rightarrow> mux list" where
  "mux_outcomes s m ev =
     (if mx_crashed m \<noteq> None then []
      else case ev of
             EvFrame f \<Rightarrow> if mx_done m then [] else handleFrame m s f
           | EvHandler sid \<Rightarrow> handler_step m sid
           | EvDeadline sid \<Rightarrow> expire m sid
           | EvCancel e \<Rightarrow> [cancel_ctx m e]
           | EvShutdown \<Rightarrow> [m\<lparr>mx_done := True\<rparr>])"

abbreviation mux_run :: "server \<Rightarrow> mux \<Rightarrow> mux_event list \<Rightarrow> mux \<Rightarrow> bool" where
  "mux_run s \<equiv> runs (mux_outcomes s)"

end
