(* ===== verification/Rpc_Server_Trace.thy ===== *)
theory Rpc_Server_Trace
  imports Rpc_Server
begin

text \<open>
  What a server puts on the wire. The response frames of one sequence number follow a grammar
  (\<open>phase_step\<close>): an optional Begin, Data frames only after Begin, one End, nothing after it. The
  invariant \<open>mux_inv\<close> ties the phase of each stream to the state of its handler goroutine; every
  event of a live connection keeps it.
\<close>

section \<open>The grammar of responses\<close>

datatype phase = PIdle | POpen | PClosed

fun phase_step :: "phase option \<Rightarrow> response_frame \<Rightarrow> phase option" where
  "phase_step (Some PIdle) f =
     (case r_type f of
        Some (ResponseFrame_Begin _) \<Rightarrow> Some POpen
      | Some (ResponseFrame_End _) \<Rightarrow> Some PClosed
      | _ \<Rightarrow> None)"
| "phase_step (Some POpen) f =
     (case r_type f of
        Some (ResponseFrame_Data _) \<Rightarrow> Some POpen
      | Some (ResponseFrame_End _) \<Rightarrow> Some PClosed
      | _ \<Rightarrow> None)"
| "phase_step _ f = None"

definition frames_of :: "int \<Rightarrow> response_frame list \<Rightarrow> response_frame list" where
  "frames_of seq out = filter (\<lambda>f. routing_seq (r_routing f) = seq) out"

definition seq_phase :: "int \<Rightarrow> response_frame list \<Rightarrow> phase option" where
  "seq_phase seq out = foldl phase_step (Some PIdle) (frames_of seq out)"

lemma seq_phase_Nil [simp]: "seq_phase seq [] = Some PIdle"
  by (simp add: seq_phase_def frames_of_def)

lemma seq_phase_append:
  "seq_phase seq (out @ fs) = foldl phase_step (seq_phase seq out) (frames_of seq fs)"
  by (simp add: seq_phase_def frames_of_def)

lemmas frame_defs = begin_frame_def data_frame_def end_frame_def resp_frame_def

lemma frames_of_own [simp]:
  "int32 s = s \<Longrightarrow> frames_of s (begin_frame s h # fs) = begin_frame s h # frames_of s fs"
  "int32 s = s \<Longrightarrow> frames_of s (end_frame s e # fs) = end_frame s e # frames_of s fs"
  "int32 s = s \<Longrightarrow> frames_of s (map (data_frame s) cs) = map (data_frame s) cs"
  "int32 s = s \<Longrightarrow> frames_of s (map (data_frame s) cs @ fs) = map (data_frame s) cs @ frames_of s fs"
  "frames_of s [] = []"
  by (simp_all add: frames_of_def frame_defs filter_map comp_def)

lemma frames_of_other [simp]:
  "s \<noteq> seq \<Longrightarrow> int32 s = s \<Longrightarrow> frames_of seq (begin_frame s h # fs) = frames_of seq fs"
  "s \<noteq> seq \<Longrightarrow> int32 s = s \<Longrightarrow> frames_of seq (end_frame s e # fs) = frames_of seq fs"
  "s \<noteq> seq \<Longrightarrow> int32 s = s \<Longrightarrow> frames_of seq (map (data_frame s) cs @ fs) = frames_of seq fs"
  "s \<noteq> seq \<Longrightarrow> int32 s = s \<Longrightarrow> frames_of seq (map (data_frame s) cs) = []"
  by (simp_all add: frames_of_def frame_defs filter_map comp_def)

lemma phase_step_frames [simp]:
  "phase_step (Some PIdle) (begin_frame s h) = Some POpen"
  "phase_step (Some POpen) (end_frame s e) = Some PClosed"
  "phase_step (Some PIdle) (end_frame s e) = Some PClosed"
  "phase_step (Some POpen) (data_frame s c) = Some POpen"
  by (simp_all add: frame_defs)

declare phase_step.simps [simp del]

lemma phase_data [simp]: "foldl phase_step (Some POpen) (map (data_frame s) cs) = Some POpen"
  by (induction cs) simp_all

section \<open>A live connection\<close>

definition live :: "mux \<Rightarrow> bool" where
  "live m \<longleftrightarrow> \<not> mx_done m \<and> mx_ctx m = None"

lemma live_fields [simp]:
  "live (m\<lparr>mx_heap := h\<rparr>) = live m" "live (m\<lparr>mx_out := out\<rparr>) = live m"
  "live (m\<lparr>mx_streams := f\<rparr>) = live m" "live (m\<lparr>mx_reasm := r\<rparr>) = live m"
  "live (m\<lparr>mx_crashed := c\<rparr>) = live m" "live (m\<lparr>mx_next := n\<rparr>) = live m"
  "live (set_stream m sid st) = live m"
  by (simp_all add: live_def set_stream_def)

lemma queue_live: "live m \<Longrightarrow> queue m f = [(m\<lparr>mx_out := mx_out m @ [f]\<rparr>, None)]"
  by (simp add: queue_def live_def Let_def)

lemma queue_all_live: "live m \<Longrightarrow> queue_all m fs = [(m\<lparr>mx_out := mx_out m @ fs\<rparr>, None)]"
proof (induction fs arbitrary: m)
  case Nil
  then show ?case by simp
next
  case (Cons f fs)
  then show ?case by (simp add: queue_live)
qed

definition lead :: "server_stream \<Rightarrow> metadata \<Rightarrow> response_frame list" where
  "lead st hdr = (if ss_headerSent st then [] else [begin_frame (ss_seq st) hdr])"

lemma Send_live:
  assumes "live m" and "lookupStream m (ss_seq s) = Some (sid, st)" and "ss_seq st = ss_seq s"
  shows "Send m s b =
    [((set_stream m sid (st\<lparr>ss_headerSent := True\<rparr>))
        \<lparr>mx_out := mx_out m @ lead st (ss_hdr s) @ map (data_frame (ss_seq s)) (payload_contents b)\<rparr>,
      None)]"
  using assms
  by (simp add: Send_def flushBeginOnce_def queue_live queue_all_live lead_def set_stream_def)

lemma Send_detached:
  "lookupStream m (ss_seq s) = None \<Longrightarrow> Send m s b = [(m, Some ErrClosedPipe)]"
  by (simp add: Send_def flushBeginOnce_def)

lemma endStream_detached:
  assumes "live m" and "lookupStream m seq = None"
  shows "endStream m seq e =
    [m\<lparr>mx_streams := (mx_streams m)(seq := None), mx_out := mx_out m @ [end_frame seq e]\<rparr>]"
  using assms by (simp add: endStream_def queue_live)

lemma endStream_live:
  assumes "live m" and "lookupStream m seq = Some (sid, st)" and "ss_seq st = seq"
  shows "endStream m seq e =
    [(set_stream m sid (st\<lparr>ss_headerSent := True\<rparr>))
       \<lparr>mx_streams := (mx_streams m)(seq := None),
        mx_out := mx_out m @ lead st (ss_hdr st) @ [end_frame seq e]\<rparr>]"
  using assms by (simp add: endStream_def queue_live lead_def set_stream_def)

section \<open>The invariant\<close>

definition stream_phase :: "server_stream \<Rightarrow> phase" where
  "stream_phase st =
     (if ss_prog st = None then PClosed else if ss_headerSent st then POpen else PIdle)"

definition mux_inv :: "int set \<Rightarrow> mux \<Rightarrow> bool" where
  "mux_inv used m \<longleftrightarrow> live m
     \<and> (\<forall>sid st. mx_heap m sid = Some st \<longrightarrow>
          sid < mx_next m \<and> ss_seq st \<in> used \<and> int32 (ss_seq st) = ss_seq st \<and> \<not> ss_hdrState st
          \<and> seq_phase (ss_seq st) (mx_out m) = Some (stream_phase st))
     \<and> (\<forall>sid st sid' st'. mx_heap m sid = Some st \<longrightarrow> mx_heap m sid' = Some st' \<longrightarrow>
          ss_seq st = ss_seq st' \<longrightarrow> sid = sid')
     \<and> (\<forall>seq sid. mx_streams m seq = Some sid \<longrightarrow>
          (\<exists>st. mx_heap m sid = Some st \<and> ss_seq st = seq))
     \<and> (\<forall>seq. seq \<notin> used \<longrightarrow> seq_phase seq (mx_out m) = Some PIdle)
     \<and> (\<forall>seq. seq_phase seq (mx_out m) \<noteq> None)"

lemma mux_invI:
  assumes "live m"
    and "\<And>sid st. mx_heap m sid = Some st \<Longrightarrow>
      sid < mx_next m \<and> ss_seq st \<in> used \<and> int32 (ss_seq st) = ss_seq st \<and> \<not> ss_hdrState st
      \<and> seq_phase (ss_seq st) (mx_out m) = Some (stream_phase st)"
    and "\<And>sid st sid' st'. mx_heap m sid = Some st \<Longrightarrow> mx_heap m sid' = Some st' \<Longrightarrow>
      ss_seq st = ss_seq st' \<Longrightarrow> sid = sid'"
    and "\<And>seq sid. mx_streams m seq = Some sid \<Longrightarrow> \<exists>st. mx_heap m sid = Some st \<and> ss_seq st = seq"
    and "\<And>seq. seq \<notin> used \<Longrightarrow> seq_phase seq (mx_out m) = Some PIdle"
    and "\<And>seq. seq_phase seq (mx_out m) \<noteq> None"
  shows "mux_inv used m"
  using assms unfolding mux_inv_def by blast

lemma mux_invD:
  assumes "mux_inv used m"
  shows inv_live: "live m"
    and inv_stream: "mx_heap m sid = Some st \<Longrightarrow>
      sid < mx_next m \<and> ss_seq st \<in> used \<and> int32 (ss_seq st) = ss_seq st \<and> \<not> ss_hdrState st
      \<and> seq_phase (ss_seq st) (mx_out m) = Some (stream_phase st)"
    and inv_unique: "mx_heap m sid = Some st \<Longrightarrow> mx_heap m sid' = Some st' \<Longrightarrow>
      ss_seq st = ss_seq st' \<Longrightarrow> sid = sid'"
    and inv_streams: "mx_streams m seq = Some sid \<Longrightarrow> \<exists>st. mx_heap m sid = Some st \<and> ss_seq st = seq"
    and inv_unused: "seq \<notin> used \<Longrightarrow> seq_phase seq (mx_out m) = Some PIdle"
    and inv_phase: "seq_phase seq (mx_out m) \<noteq> None"
  using assms unfolding mux_inv_def by blast+

lemma mux_inv_new: "mux_inv {} (newMultiplexer None)"
  by (rule mux_invI) (simp_all add: newMultiplexer_def live_def)

lemma lookup_inv:
  "mux_inv used m \<Longrightarrow> lookupStream m seq = Some (sid, st) \<Longrightarrow>
     mx_streams m seq = Some sid \<and> mx_heap m sid = Some st \<and> ss_seq st = seq"
  by (auto simp: lookupStream_def split: option.splits dest!: inv_streams)

lemma lookup_None_inv:
  "mux_inv used m \<Longrightarrow> lookupStream m seq = None \<Longrightarrow> mx_streams m seq = None"
  by (auto simp: lookupStream_def split: option.splits dest!: inv_streams)

lemma unused_lookup: "mux_inv used m \<Longrightarrow> seq \<notin> used \<Longrightarrow> mx_streams m seq = None"
  using inv_streams [of used m seq] inv_stream [of used m] by (cases "mx_streams m seq") auto

text \<open>
  One lemma covers every event: a stream is replaced by one with the same sequence number, frames of
  that sequence number are appended, and the entry of the map may go.
\<close>

lemma mux_inv_update:
  assumes inv: "mux_inv used m" and st: "mx_heap m sid = Some st"
    and same: "ss_seq st' = ss_seq st" "\<not> ss_hdrState st'"
    and out: "\<And>seq. seq \<noteq> ss_seq st \<Longrightarrow> frames_of seq fs = []"
    and ph: "foldl phase_step (Some (stream_phase st)) (frames_of (ss_seq st) fs) = Some (stream_phase st')"
    and heap: "mx_heap m' = (mx_heap m)(sid \<mapsto> st')"
    and rest: "mx_out m' = mx_out m @ fs" "mx_next m' = mx_next m" "live m'"
      "mx_streams m' \<subseteq>\<^sub>m mx_streams m"
  shows "mux_inv used m'"
proof (rule mux_invI)
  have other: "seq_phase seq (mx_out m') = seq_phase seq (mx_out m)" if "seq \<noteq> ss_seq st" for seq
    using that out by (simp add: rest seq_phase_append)
  have own: "seq_phase (ss_seq st) (mx_out m') = Some (stream_phase st')"
    using ph inv_stream [OF inv st] by (simp add: rest seq_phase_append)
  show "live m'" by (fact rest)
  show "sid1 < mx_next m' \<and> ss_seq st1 \<in> used \<and> int32 (ss_seq st1) = ss_seq st1 \<and> \<not> ss_hdrState st1
      \<and> seq_phase (ss_seq st1) (mx_out m') = Some (stream_phase st1)"
    if h: "mx_heap m' sid1 = Some st1" for sid1 st1
  proof (cases "sid1 = sid")
    case True
    with h heap inv_stream [OF inv st] own same show ?thesis by (simp add: rest)
  next
    case False
    with h heap have h1: "mx_heap m sid1 = Some st1" by simp
    with False inv_unique [OF inv h1 st] have "ss_seq st1 \<noteq> ss_seq st" by blast
    with inv_stream [OF inv h1] show ?thesis by (simp add: rest(2) other)
  qed
  show "sid1 = sid2" if "mx_heap m' sid1 = Some st1" "mx_heap m' sid2 = Some st2"
    "ss_seq st1 = ss_seq st2" for sid1 st1 sid2 st2
  proof -
    from that st same obtain t1 t2 where "mx_heap m sid1 = Some t1" "mx_heap m sid2 = Some t2"
      "ss_seq t1 = ss_seq t2"
      by (auto simp: heap split: if_splits)
    then show ?thesis by (rule inv_unique [OF inv])
  qed
  show "\<exists>st1. mx_heap m' sid1 = Some st1 \<and> ss_seq st1 = seq" if "mx_streams m' seq = Some sid1" for seq sid1
  proof -
    from that rest(4) have "mx_streams m seq = Some sid1" by (auto simp: map_le_def dom_def)
    with inv obtain st1 where "mx_heap m sid1 = Some st1" "ss_seq st1 = seq"
      using inv_streams by blast
    with st same show ?thesis by (auto simp: heap)
  qed
  show "seq_phase seq (mx_out m') = Some PIdle" if "seq \<notin> used" for seq
    using that inv_stream [OF inv st] inv_unused [OF inv] other by metis
  show "seq_phase seq (mx_out m') \<noteq> None" for seq
    using own other inv_phase [OF inv] by (cases "seq = ss_seq st") auto
qed

lemma mux_inv_set_stream:
  assumes "mux_inv used m" and "mx_heap m sid = Some st"
    and "ss_seq st' = ss_seq st" "\<not> ss_hdrState st'" "stream_phase st' = stream_phase st"
  shows "mux_inv used (set_stream m sid st')"
  by (rule mux_inv_update [OF assms(1-4), where fs = "[]"])
    (use assms inv_live in \<open>auto simp: set_stream_def live_def\<close>)

lemma mux_inv_fields:
  assumes "mux_inv used m"
  shows "mux_inv used (m\<lparr>mx_reasm := r\<rparr>)" and "mux_inv used (m\<lparr>mx_crashed := c\<rparr>)"
    and "mux_inv used (m\<lparr>mx_streams := (mx_streams m)(seq := None)\<rparr>)"
  using assms by (auto simp: mux_inv_def live_def)

section \<open>Every event keeps the invariant\<close>

lemma deliverPayload_inv:
  assumes inv: "mux_inv used m" and m': "m' \<in> set (deliverPayload m seq p)"
  shows "mux_inv used m'"
proof (cases "lookupStream m seq")
  case None
  with inv m' show ?thesis by (simp add: deliverPayload_def)
next
  case (Some q)
  then obtain sid st where l: "lookupStream m seq = Some (sid, st)" by (cases q) simp
  then have st: "mx_heap m sid = Some st" using lookup_inv [OF inv l] by simp
  have "mux_inv used (set_stream m sid (st\<lparr>ss_inbound := ss_inbound st @ [p]\<rparr>))"
    using inv_stream [OF inv st] by (intro mux_inv_set_stream [OF inv st]) (simp_all add: stream_phase_def)
  with inv m' l show ?thesis by (auto simp: deliverPayload_def split: if_splits)
qed

lemma deliverData_inv:
  "mux_inv used m \<Longrightarrow> m' \<in> set (deliverData m seq d) \<Longrightarrow> mux_inv used m'"
  by (auto simp: deliverData_def split: option.splits data_content.splits go.splits prod.splits
      intro: mux_inv_fields deliverPayload_inv)

lemma handleEnd_inv:
  assumes "mux_inv used m" and "m' \<in> set (handleEnd m seq e)"
  shows "mux_inv used m'"
proof (cases "e = None \<or> lookupStream m seq = None")
  case True
  with assms show ?thesis by (auto simp: handleEnd_def split: option.splits)
next
  case False
  then obtain en sid st where e: "e = Some en" and l: "lookupStream m seq = Some (sid, st)"
    by auto
  note st = lookup_inv [OF assms(1) l]
  have "mux_inv used (set_stream m sid (st\<lparr>ss_halfClose := True\<rparr>))"
    and c: "mux_inv used (set_stream m sid (cancel_stream st))"
    using st inv_stream [OF assms(1)]
    by (auto intro!: mux_inv_set_stream [OF assms(1)] simp: stream_phase_def cancel_stream_def)
  moreover have "(set_stream m sid (cancel_stream st))\<lparr>mx_streams := (mx_streams m)(seq := None)\<rparr> =
      (set_stream m sid (cancel_stream st))
        \<lparr>mx_streams := (mx_streams (set_stream m sid (cancel_stream st)))(seq := None)\<rparr>"
    by (simp add: set_stream_def)
  ultimately show ?thesis
    using assms(2) mux_inv_fields(3) [OF c] by (auto simp: handleEnd_def e l split: if_splits)
qed

lemma reject_inv:
  assumes "mux_inv used m" and "seq \<notin> used" and "int32 seq = seq"
    and "m' \<in> set (endStream m seq e)"
  shows "mux_inv (insert seq used) m'"
proof -
  have none: "mx_streams m seq = None"
    using assms(1,2) by (rule unused_lookup)
  then have m': "m' = m\<lparr>mx_streams := (mx_streams m)(seq := None),
      mx_out := mx_out m @ [end_frame seq e]\<rparr>"
    using assms(4) endStream_detached [OF inv_live [OF assms(1)], of seq e]
    by (simp add: lookupStream_def)
  have "seq_phase s (mx_out m @ [end_frame seq e]) =
      (if s = seq then Some PClosed else seq_phase s (mx_out m))" for s
    using assms(3) inv_unused [OF assms(1,2)] by (auto simp: seq_phase_append)
  moreover have "ss_seq st \<noteq> seq" if "mx_heap m sid = Some st" for sid st
    using inv_stream [OF assms(1) that] assms(2) by auto
  ultimately show ?thesis
    using mux_invD [OF assms(1)] none unfolding m' by (intro mux_invI) (auto split: if_splits)
qed

lemma accept_inv:
  assumes inv: "mux_inv used m" and seq: "seq \<notin> used" "int32 seq = seq"
    and st: "ss_seq st = seq" "\<not> ss_headerSent st" "\<not> ss_hdrState st" "ss_prog st \<noteq> None"
    and heap: "mx_heap m' = (mx_heap m)(mx_next m \<mapsto> st)"
    and rest: "mx_streams m' = (mx_streams m)(seq \<mapsto> mx_next m)" "mx_next m' = Suc (mx_next m)"
      "mx_out m' = mx_out m" "live m'"
  shows "mux_inv (insert seq used) m'"
proof (rule mux_invI)
  have old: "ss_seq st1 \<noteq> seq \<and> sid1 < mx_next m" if "mx_heap m sid1 = Some st1" for sid1 st1
    using inv_stream [OF inv that] seq(1) by auto
  have ph: "stream_phase st = PIdle"
    using st by (simp add: stream_phase_def)
  show "live m'" by (fact rest)
  show "sid1 < mx_next m' \<and> ss_seq st1 \<in> insert seq used \<and> int32 (ss_seq st1) = ss_seq st1
      \<and> \<not> ss_hdrState st1 \<and> seq_phase (ss_seq st1) (mx_out m') = Some (stream_phase st1)"
    if h: "mx_heap m' sid1 = Some st1" for sid1 st1
  proof (cases "sid1 = mx_next m")
    case True
    with h heap have "st1 = st" by simp
    with True st seq ph inv_unused [OF inv seq(1)] show ?thesis by (simp add: rest)
  next
    case False
    with h heap have "mx_heap m sid1 = Some st1" by simp
    from inv_stream [OF inv this] show ?thesis by (simp add: rest)
  qed
  show "sid1 = sid2" if "mx_heap m' sid1 = Some st1" "mx_heap m' sid2 = Some st2"
    "ss_seq st1 = ss_seq st2" for sid1 st1 sid2 st2
    using that old inv_unique [OF inv, of sid1 st1 sid2 st2] st(1)
    by (auto simp: heap split: if_splits)
  show "\<exists>st1. mx_heap m' sid1 = Some st1 \<and> ss_seq st1 = sq" if "mx_streams m' sq = Some sid1" for sq sid1
  proof (cases "sq = seq")
    case True
    with that st show ?thesis by (simp add: heap rest)
  next
    case False
    with that obtain st1 where "mx_heap m sid1 = Some st1" "ss_seq st1 = sq"
      using inv_streams [OF inv, of sq sid1] by (auto simp: rest)
    with old [of sid1 st1] show ?thesis by (auto simp: heap)
  qed
  show "seq_phase sq (mx_out m') = Some PIdle" if "sq \<notin> insert seq used" for sq
    using that inv_unused [OF inv] by (simp add: rest)
  show "seq_phase sq (mx_out m') \<noteq> None" for sq
    using inv_phase [OF inv] by (simp add: rest)
qed

lemma openStream_inv:
  assumes "mux_inv used m" and "seq \<notin> used" and "int32 seq = seq"
    and "m' \<in> set (openStream m s seq c)"
  shows "mux_inv (insert seq used) m'"
proof (cases "c = None \<or> findMethod s (c_method (the c)) = None")
  case True
  with assms(4) obtain e where "m' \<in> set (endStream m seq e)"
    by (auto simp: openStream_def split: option.splits)
  with assms(1-3) show ?thesis by (rule reject_inv)
next
  case False
  have none: "mx_streams m seq = None"
    using assms(1,2) by (rule unused_lookup)
  with False assms(4) obtain st where
    "m' = set_stream (m\<lparr>mx_streams := (mx_streams m)(seq \<mapsto> mx_next m), mx_next := Suc (mx_next m)\<rparr>)
      (mx_next m) st"
    "ss_seq st = seq" "\<not> ss_headerSent st" "\<not> ss_hdrState st" "ss_prog st \<noteq> None"
    by (auto simp: openStream_def newServerStream_def Let_def split: option.splits if_splits)
  then show ?thesis
    using inv_live [OF assms(1)]
    by (intro accept_inv [OF assms(1-3), of st]) (simp_all add: set_stream_def live_def)
qed

lemma finishHandler_inv:
  assumes inv: "mux_inv used m" and st: "mx_heap m sid = Some st" "ss_prog st \<noteq> None"
    and m': "m' \<in> set (finishHandler m sid st status)"
  shows "mux_inv used m'"
proof -
  let ?e = "\<lparr>e_close_send = False, e_status = Some (toProto status), e_trailer = Some (ss_hdr st)\<rparr>"
  note s = inv_stream [OF inv st(1)]
  have "\<exists>m1 st1 fs. endStream m (ss_seq st) ?e = [m1] \<and> mx_heap m1 = (mx_heap m)(sid \<mapsto> st1)
      \<and> ss_seq st1 = ss_seq st \<and> \<not> ss_hdrState st1 \<and> mx_out m1 = mx_out m @ fs
      \<and> (\<forall>seq. seq \<noteq> ss_seq st \<longrightarrow> frames_of seq fs = [])
      \<and> foldl phase_step (Some (stream_phase st)) (frames_of (ss_seq st) fs) = Some PClosed
      \<and> mx_next m1 = mx_next m \<and> live m1 \<and> mx_streams m1 \<subseteq>\<^sub>m mx_streams m"
  proof (cases "lookupStream m (ss_seq st)")
    case None
    from endStream_detached [OF inv_live [OF inv] None] s st inv_live [OF inv] show ?thesis
      by (intro exI [of _ "m\<lparr>mx_streams := (mx_streams m)(ss_seq st := None),
              mx_out := mx_out m @ [end_frame (ss_seq st) ?e]\<rparr>"] exI [of _ st]
            exI [of _ "[end_frame (ss_seq st) ?e]"])
        (auto simp: stream_phase_def fun_upd_idem map_le_def)
  next
    case (Some p)
    then obtain sid1 st1 where l: "lookupStream m (ss_seq st) = Some (sid1, st1)"
      by (cases p) simp
    have "sid1 = sid" "st1 = st"
      using lookup_inv [OF inv l] inv_unique [OF inv _ st(1), of sid1 st1] st(1) by auto
    with endStream_live [OF inv_live [OF inv] l] s st inv_live [OF inv] show ?thesis
      by (intro exI [of _ "(set_stream m sid (st\<lparr>ss_headerSent := True\<rparr>))
              \<lparr>mx_streams := (mx_streams m)(ss_seq st := None),
               mx_out := mx_out m @ lead st (ss_hdr st) @ [end_frame (ss_seq st) ?e]\<rparr>"]
            exI [of _ "st\<lparr>ss_headerSent := True\<rparr>"]
            exI [of _ "lead st (ss_hdr st) @ [end_frame (ss_seq st) ?e]"])
        (auto simp: stream_phase_def lead_def set_stream_def map_le_def)
  qed
  then obtain m1 st1 fs where m1: "endStream m (ss_seq st) ?e = [m1]"
    "mx_heap m1 = (mx_heap m)(sid \<mapsto> st1)" "ss_seq st1 = ss_seq st" "\<not> ss_hdrState st1"
    "mx_out m1 = mx_out m @ fs" "\<And>seq. seq \<noteq> ss_seq st \<Longrightarrow> frames_of seq fs = []"
    "foldl phase_step (Some (stream_phase st)) (frames_of (ss_seq st) fs) = Some PClosed"
    "mx_next m1 = mx_next m" "live m1" "mx_streams m1 \<subseteq>\<^sub>m mx_streams m"
    by blast
  have "m' = set_stream m1 sid (cancel_stream (st1\<lparr>ss_prog := None\<rparr>))"
    using m' m1(1,2) by (simp add: finishHandler_def)
  with m1 show ?thesis
    by (intro mux_inv_update [OF inv st(1), of "cancel_stream (st1\<lparr>ss_prog := None\<rparr>)" fs m'])
      (simp_all add: set_stream_def cancel_stream_def stream_phase_def)
qed

lemma Send_inv:
  assumes inv: "mux_inv used m" and st: "mx_heap m sid = Some st" "ss_prog st \<noteq> None"
    and m': "(m1, e) \<in> set (Send m st b)"
  shows "mux_inv used (set_prog m1 sid (Some h))"
proof (cases "lookupStream m (ss_seq st)")
  case None
  with m' st inv_stream [OF inv st(1)] show ?thesis
    by (auto simp: Send_detached set_prog_def stream_phase_def intro!: mux_inv_set_stream [OF inv])
next
  case (Some p)
  then obtain sid1 st1 where l: "lookupStream m (ss_seq st) = Some (sid1, st1)"
    by (cases p) simp
  have eq: "sid1 = sid" "st1 = st"
    using lookup_inv [OF inv l] inv_unique [OF inv _ st(1), of sid1 st1] st(1) by auto
  let ?fs = "lead st (ss_hdr st) @ map (data_frame (ss_seq st)) (payload_contents b)"
  have m1: "m1 = (set_stream m sid (st\<lparr>ss_headerSent := True\<rparr>))\<lparr>mx_out := mx_out m @ ?fs\<rparr>"
    using m' Send_live [OF inv_live [OF inv] l] by (simp add: eq)
  show ?thesis
    by (rule mux_inv_update [OF inv st(1),
          of "st\<lparr>ss_headerSent := True, ss_prog := Some h, ss_waiting := False\<rparr>" ?fs])
      (use inv_stream [OF inv st(1)] inv_live [OF inv] st in
        \<open>auto simp: m1 set_prog_def set_stream_def lead_def stream_phase_def\<close>)
qed

lemma handler_step_inv:
  assumes inv: "mux_inv used m" and m': "m' \<in> set (handler_step m sid)"
  shows "mux_inv used m'"
proof -
  obtain st h where st: "mx_heap m sid = Some st" "ss_prog st = Some h"
    using m' by (cases "mx_heap m sid"; cases "ss_prog (the (mx_heap m sid))")
      (simp_all add: handler_step_def)
  note s = inv_stream [OF inv st(1)]
  have keep: "mux_inv used (set_stream m sid st')"
    if "ss_seq st' = ss_seq st" "\<not> ss_hdrState st'" "ss_prog st' \<noteq> None"
      "ss_headerSent st' = ss_headerSent st" for st'
    using that st by (intro mux_inv_set_stream [OF inv st(1)]) (simp_all add: stream_phase_def)
  show ?thesis
  proof (cases h)
    case (HReturn status)
    with m' st have "m' \<in> set (finishHandler m sid st status)" by (simp add: handler_step_def)
    with inv st show ?thesis by (intro finishHandler_inv [of used m sid st m' status]) simp_all
  next
    case (HSend b k)
    with m' st obtain m1 e where "(m1, e) \<in> set (Send m st b)" "m' = set_prog m1 sid (Some (k e))"
      by (auto simp: handler_step_def)
    with Send_inv [OF inv st(1)] st show ?thesis by simp
  next
    case (HRecv k)
    with m' st s show ?thesis
      by (auto simp: handler_step_def Recv_wait_def Recv_poll_def select_default_def
          intro!: keep split: if_splits)
  qed (use m' st s in \<open>auto simp: handler_step_def SetHeader_def SetTrailer_def intro!: keep\<close>)
qed

lemma expire_inv:
  assumes inv: "mux_inv used m" and m': "m' \<in> set (expire m sid)"
  shows "mux_inv used m'"
proof -
  obtain st where st: "mx_heap m sid = Some st"
    using m' by (cases "mx_heap m sid") (simp_all add: expire_def)
  have "mux_inv used (set_stream m sid (st\<lparr>ss_ctx := Some DeadlineExceeded\<rparr>))"
    using inv_stream [OF inv st] by (intro mux_inv_set_stream [OF inv st]) (simp_all add: stream_phase_def)
  with m' st show ?thesis by (simp add: expire_def split: if_splits)
qed

section \<open>Runs\<close>

fun event_calls :: "mux_event \<Rightarrow> int list" where
  "event_calls (EvFrame f) =
     (case f_type f of Some (Frame_Call _) \<Rightarrow> [routing_seq (f_routing f)] | _ \<Rightarrow> [])"
| "event_calls _ = []"

definition call_seqs :: "mux_event list \<Rightarrow> int list" where
  "call_seqs evs = concat (map event_calls evs)"

fun alive_event :: "mux_event \<Rightarrow> bool" where
  "alive_event (EvCancel _) = False"
| "alive_event EvShutdown = False"
| "alive_event _ = True"

text \<open>A client that opens each sequence number once, on a connection that is not torn down.\<close>

definition orderly :: "mux_event list \<Rightarrow> bool" where
  "orderly evs \<longleftrightarrow> distinct (call_seqs evs) \<and> list_all (\<lambda>s. int32 s = s) (call_seqs evs)
     \<and> list_all alive_event evs"

lemma orderly_snoc:
  "orderly (evs @ [ev]) \<longleftrightarrow> orderly evs \<and> alive_event ev \<and>
     (\<forall>s \<in> set (event_calls ev). s \<notin> set (call_seqs evs) \<and> int32 s = s)"
  by (cases ev)
    (auto simp: orderly_def call_seqs_def list_all_iff split: option.splits frame_type.splits)

lemma call_seqs_snoc: "call_seqs (evs @ [ev]) = call_seqs evs @ event_calls ev"
  by (simp add: call_seqs_def)

lemma handleFrame_inv:
  assumes "mux_inv used m" and "m' \<in> set (handleFrame m s f)"
    and "\<forall>sq \<in> set (event_calls (EvFrame f)). sq \<notin> used \<and> int32 sq = sq"
  shows "mux_inv (used \<union> set (event_calls (EvFrame f))) m'"
  using assms
  by (auto simp: handleFrame_def Let_def split: option.splits frame_type.splits
      intro: openStream_inv deliverData_inv handleEnd_inv)

lemma mux_run_inv:
  "mux_run s (newMultiplexer None) evs m \<Longrightarrow> orderly evs \<Longrightarrow> mux_inv (set (call_seqs evs)) m"
proof (induction "newMultiplexer None" evs m rule: runs.induct)
  case run_nil
  then show ?case by (simp add: call_seqs_def mux_inv_new)
next
  case (run_step evs m1 m2 ev)
  then have inv: "mux_inv (set (call_seqs evs)) m1" and ok: "alive_event ev"
    "\<forall>sq \<in> set (event_calls ev). sq \<notin> set (call_seqs evs) \<and> int32 sq = sq"
    by (simp_all add: orderly_snoc)
  show ?case
  proof (cases ev)
    case (EvFrame f)
    with run_step.hyps(3) have "m2 \<in> set (handleFrame m1 s f)"
      by (auto simp: mux_outcomes_def split: if_splits)
    from handleFrame_inv [OF inv this ok(2) [unfolded EvFrame]] show ?thesis
      by (simp only: call_seqs_snoc set_append EvFrame)
  qed (use run_step.hyps(3) ok inv in
      \<open>auto simp: mux_outcomes_def call_seqs_snoc split: if_splits intro: handler_step_inv expire_inv\<close>)
qed

section \<open>An example\<close>

text \<open>A server with one method, whose handler echoes the request, and the run of one call on it.\<close>

definition echo_handler :: handler where
  "echo_handler = HRecv (\<lambda>r. case r of
     Inl e \<Rightarrow> HReturn (Some \<lparr>st_code = 13, st_message = error_string e\<rparr>)
   | Inr b \<Rightarrow> HSend b (\<lambda>_. HReturn None))"

definition one_method :: "handler \<Rightarrow> server" where
  "one_method h = \<lparr>sv_methods =
       [''/s/m'' \<mapsto> \<lparr>md_Method = ''/s/m'', md_Kind = MethodKindUnary, md_Handler = h\<rparr>],
     sv_unaryInterceptors = [], sv_streamInterceptors = []\<rparr>"

definition call_frame :: "int \<Rightarrow> bytes option \<Rightarrow> frame" where
  "call_frame seq dat = \<lparr>f_routing = Some seq, f_type = Some (Frame_Call (Some \<lparr>c_method = ''/s/m'',
     c_metadata = None, c_deadline_ms = 0, c_inline_data = dat, c_protocol_version = 1\<rparr>))\<rparr>"

definition echo_run :: "(mux_event \<times> nat) list" where
  "echo_run = [(EvFrame (call_frame 3 (Some [7])), 0), (EvHandler 0, 0), (EvHandler 0, 0), (EvHandler 0, 0)]"

lemmas run_eval = mux_outcomes_def handleFrame_def openStream_def findMethod_def newMultiplexer_def
  newServerStream_def handler_chain_def one_method_def call_frame_def set_stream_def handler_step_def
  Recv_poll_def Recv_wait_def Send_def flushBeginOnce_def lookupStream_def queue_def endStream_def
  finishHandler_def set_prog_def payload_contents_def MessageMax_def inboundCap_def

lemma echo_run_ends:
  "\<exists>m st. play (mux_outcomes (one_method echo_handler)) (newMultiplexer None) echo_run = Some m
     \<and> mx_heap m 0 = Some st \<and> ss_prog st = None \<and> ss_seq st = 3"
  by (simp add: echo_run_def echo_handler_def run_eval Let_def durationFromMs_def cancel_stream_def
      thresholds)

section \<open>Properties\<close>

text \<open>
  C2: The response grammar. Whatever the handlers do and however their steps interleave with inbound
  frames, cancellations and deadlines, on a live connection whose client opens each sequence number
  once the frames of every stream are an optional Begin, Data frames only after that Begin, and at
  most one End with nothing behind it; a stream whose handler has returned is closed by its End, and
  one whose handler still runs is not.
\<close>

theorem server_response_grammar:
  assumes "mux_run s (newMultiplexer None) evs m" and "orderly evs"
  shows "seq_phase seq (mx_out m) \<noteq> None
    \<and> (mx_heap m sid = Some st \<longrightarrow>
        (seq_phase (ss_seq st) (mx_out m) = Some PClosed \<longleftrightarrow> ss_prog st = None))"
proof -
  have inv: "mux_inv (set (call_seqs evs)) m"
    using assms by (rule mux_run_inv)
  then show ?thesis
    using inv_phase [OF inv] inv_stream [OF inv, of sid st] by (auto simp: stream_phase_def)
qed

theorem server_response_grammar_witness:
  "\<exists>m. mux_run (one_method echo_handler) (newMultiplexer None) (map fst echo_run) m
     \<and> orderly (map fst echo_run) \<and> seq_phase 3 (mx_out m) = Some PClosed"
proof -
  obtain m st where m: "play (mux_outcomes (one_method echo_handler)) (newMultiplexer None) echo_run = Some m"
    and st: "mx_heap m 0 = Some st" "ss_prog st = None" "ss_seq st = 3"
    using echo_run_ends by blast
  have run: "mux_run (one_method echo_handler) (newMultiplexer None) (map fst echo_run) m"
    using m by (rule play_runs)
  have "orderly (map fst echo_run)"
    by (simp add: echo_run_def orderly_def call_seqs_def call_frame_def int32_id)
  with server_response_grammar [OF run this, of 3 0 st] st run show ?thesis by auto
qed

end
