(* ===== verification/Rpc_Client.thy ===== *)
theory Rpc_Client
  imports Rpc_Types
begin

text \<open>
  The client side of package \<open>rpc\<close>: \<open>Client\<close>, its streams and \<open>ClientStream\<close> (\<open>client.go\<close>), and the
  outgoing header of a context (\<open>context.go\<close>).

  \<^item> Stream objects live in \<open>cl_heap\<close>; \<open>cl_streams\<close> maps sequence numbers to them, as callers and
    the \<open>watchCancel\<close> goroutine keep their pointer after the entry is deleted.
  \<^item> \<open>cl_sent\<close> is the sequence of frames handed to \<open>transport.SendFrame\<close>; its errors are ignored by
    the code.
  \<^item> A caller's context is what the calls read of it: the outgoing header and, when a deadline is
    set, \<open>time.Until(dl).Milliseconds()\<close>. Whether it is done is an argument of the operations that
    wait on it.
  \<^item> As on the server, an operation that goes through a \<open>select\<close> is a function into the list of its
    outcomes, and a blocked one has none.
\<close>

section \<open>Contexts\<close>

record call_ctx =
  cc_outgoing :: "metadata option"
  cc_until_ms :: "int option"

definition ctxWithOutgoingHeader :: "call_ctx \<Rightarrow> metadata \<Rightarrow> call_ctx" where
  "ctxWithOutgoingHeader ctx hdr = ctx\<lparr>cc_outgoing := Some hdr\<rparr>"

definition OutgoingHeaderFromCtx :: "call_ctx \<Rightarrow> metadata option" where
  "OutgoingHeaderFromCtx ctx = cc_outgoing ctx"

section \<open>State\<close>

record inbound_resp =
  ir_data :: bytes
  ir_err :: "go_error option"

record end_result =
  er_status :: rpc_status
  er_err :: "go_error option"

record client_stream =
  cs_seq :: int
  cs_method :: string
  cs_header :: metadata
  cs_trailer :: metadata
  cs_inbound :: "inbound_resp list"
  cs_end :: bool
  cs_result :: end_result
  cs_closeSent :: bool
  cs_watched :: bool

record client =
  cl_reasm :: reassembler
  cl_seqAlloc :: "32 word"
  cl_streams :: "int \<rightharpoonup> nat"
  cl_heap :: "nat \<rightharpoonup> client_stream"
  cl_next :: nat
  cl_sent :: "frame list"
  cl_failed :: bool
  cl_crashed :: "string option"

definition respCap :: nat where "respCap = 16"

definition NewClient :: client where
  "NewClient = \<lparr>cl_reasm = NewReassembler, cl_seqAlloc = 1, cl_streams = Map.empty,
     cl_heap = Map.empty, cl_next = 0, cl_sent = [], cl_failed = False, cl_crashed = None\<rparr>"

definition set_cs :: "client \<Rightarrow> nat \<Rightarrow> client_stream \<Rightarrow> client" where
  "set_cs c sid cs = c\<lparr>cl_heap := (cl_heap c)(sid \<mapsto> cs)\<rparr>"

section \<open>Sequence numbers\<close>

unbundle bit_operations_syntax

definition nextSeq :: "32 word \<Rightarrow> 32 word \<times> int" where
  "nextSeq a = (let n = a + 2 in (n, uint (n AND 0x7FFFFFFF)))"

section \<open>Dispatching responses\<close>

text \<open>\<open>endOnce.Do\<close>: the first result stands.\<close>

definition finish_cs :: "client_stream \<Rightarrow> end_result \<Rightarrow> client_stream" where
  "finish_cs cs r = (if cs_end cs then cs else cs\<lparr>cs_result := r, cs_end := True\<rparr>)"

definition client_deliver :: "client \<Rightarrow> nat \<Rightarrow> bytes \<Rightarrow> client list" where
  "client_deliver c sid payload =
     (case cl_heap c sid of
        None \<Rightarrow> []
      | Some cs \<Rightarrow> select
          [(length (cs_inbound cs) < respCap,
              set_cs c sid (cs\<lparr>cs_inbound := cs_inbound cs @ [\<lparr>ir_data = payload, ir_err = None\<rparr>]\<rparr>)),
           (cs_end cs, c)])"

definition client_data :: "client \<Rightarrow> nat \<Rightarrow> int \<Rightarrow> data_content option option \<Rightarrow> client list" where
  "client_data c sid seq dat =
     (case dat of
        None \<Rightarrow> [c]
      | Some None \<Rightarrow> [c]
      | Some (Some (Data_Message msg)) \<Rightarrow> client_deliver c sid msg
      | Some (Some (Data_Chunk k)) \<Rightarrow>
          (case Reassemble (cl_reasm c) (int32 seq) (ch_total_size k) (ch_offset k) (ch_data k) of
             Panics e \<Rightarrow> [c\<lparr>cl_crashed := Some e\<rparr>]
           | Returns (r, None) \<Rightarrow> [c\<lparr>cl_reasm := r\<rparr>]
           | Returns (r, Some full) \<Rightarrow> client_deliver (c\<lparr>cl_reasm := r\<rparr>) sid full))"

text \<open>
  The end of a stream. Setting the result and closing \<open>cs.end\<close>, and the removal from the table under the mutex, are one event:
  whatever comes between them finds a stream that has ended, whose entry \<open>failAll\<close> leaves unchanged.
\<close>

definition client_end :: "client \<Rightarrow> nat \<Rightarrow> client_stream \<Rightarrow> int \<Rightarrow> end_msg option \<Rightarrow> client" where
  "client_end c sid cs seq e =
     (let cs1 = (case Option.bind e e_trailer of
                   Some tr \<Rightarrow> cs\<lparr>cs_trailer := mergeIn (cs_trailer cs) tr\<rparr> | None \<Rightarrow> cs);
          st = (case Option.bind e e_status of
                  Some s \<Rightarrow> statusFromProto (Some s) | None \<Rightarrow> status_OK)
      in (set_cs c sid (finish_cs cs1 \<lparr>er_status = st, er_err = status_Err (Some st)\<rparr>))
           \<lparr>cl_streams := (cl_streams c)(seq := None)\<rparr>)"

definition dispatch :: "client \<Rightarrow> response_frame \<Rightarrow> client list" where
  "dispatch c f =
     (let seq = routing_seq (r_routing f)
      in case cl_streams c seq of
           None \<Rightarrow> [c]
         | Some sid \<Rightarrow>
             (case cl_heap c sid of
                None \<Rightarrow> [c]
              | Some cs \<Rightarrow>
                  (case r_type f of
                     None \<Rightarrow> [c]
                   | Some (ResponseFrame_Begin None) \<Rightarrow> [c]
                   | Some (ResponseFrame_Begin (Some b)) \<Rightarrow>
                       (let c1 = (case b_header b of None \<Rightarrow> c
                                  | Some h \<Rightarrow> set_cs c sid (cs\<lparr>cs_header := mergeIn (cs_header cs) h\<rparr>))
                        in case b_inline_data b of
                             None \<Rightarrow> [c1]
                           | Some dat \<Rightarrow> if length dat > 0 then client_deliver c1 sid dat else [c1])
                   | Some (ResponseFrame_Data d) \<Rightarrow> client_data c sid seq d
                   | Some (ResponseFrame_End e) \<Rightarrow> [client_end c sid cs seq e])))"

text \<open>\<open>failAll\<close> works once per client: \<open>closeOnce\<close>.\<close>

definition failAll :: "client \<Rightarrow> go_error \<Rightarrow> client" where
  "failAll c err =
     (if cl_failed c then c
      else c\<lparr>cl_failed := True,
             cl_heap := (\<lambda>sid. if sid \<in> ran (cl_streams c)
               then map_option (\<lambda>cs. finish_cs cs \<lparr>er_status = Err 14 (Some err), er_err = Some err\<rparr>)
                      (cl_heap c sid)
               else cl_heap c sid),
             cl_streams := Map.empty\<rparr>)"

text \<open>One round of \<open>Attach\<close>; the protobuf decoder is a parameter.\<close>

datatype attach_result = Attached channel client | Detached "go_error option" client

definition attach_round ::
  "(bytes \<Rightarrow> response_frame option) \<Rightarrow> ctx_err option \<Rightarrow> channel \<Rightarrow> client \<Rightarrow> attach_result list" where
  "attach_round unmarshal ctx ch c =
     concat (map (\<lambda>(ch1, r).
       case r of
         Inl err \<Rightarrow>
           [Detached (if err = EOF \<or> (err = EOF \<or> err = ErrClosedPipe) then None else Some err)
              (failAll c err)]
       | Inr raw \<Rightarrow>
           (case unmarshal raw of
              None \<Rightarrow> [Attached ch1 c]
            | Some f \<Rightarrow> map (Attached ch1) (dispatch c f)))
       (Recv ch ctx))"

section \<open>Opening a stream and sending\<close>

definition client_openStream :: "client \<Rightarrow> string \<Rightarrow> client \<times> nat \<times> int" where
  "client_openStream c method =
     (let (a, seq) = nextSeq (cl_seqAlloc c);
          sid = cl_next c;
          cs = \<lparr>cs_seq = seq, cs_method = method, cs_header = newMetadataHolder,
                cs_trailer = newMetadataHolder, cs_inbound = [], cs_end = False,
                cs_result = \<lparr>er_status = status_OK, er_err = None\<rparr>, cs_closeSent = False,
                cs_watched = False\<rparr>
      in (c\<lparr>cl_seqAlloc := a, cl_next := Suc sid, cl_heap := (cl_heap c)(sid \<mapsto> cs),
            cl_streams := (cl_streams c)(seq \<mapsto> sid)\<rparr>, sid, seq))"

definition cleanupStream :: "client \<Rightarrow> int \<Rightarrow> client" where
  "cleanupStream c seq = c\<lparr>cl_streams := (cl_streams c)(seq := None)\<rparr>"

definition client_sendFrame :: "client \<Rightarrow> frame \<Rightarrow> client" where
  "client_sendFrame c f = c\<lparr>cl_sent := cl_sent c @ [f]\<rparr>"

definition mk_frame :: "int \<Rightarrow> frame_type \<Rightarrow> frame" where
  "mk_frame seq t = \<lparr>f_routing = Some (int32 seq), f_type = Some t\<rparr>"

definition sendPayload :: "client \<Rightarrow> int \<Rightarrow> bytes \<Rightarrow> client" where
  "sendPayload c seq b =
     foldl client_sendFrame c (map (\<lambda>x. mk_frame seq (Frame_Data (Some (Some x)))) (payload_contents b))"

definition close_send_frame :: "int \<Rightarrow> frame" where
  "close_send_frame seq =
     mk_frame seq (Frame_End (Some \<lparr>e_close_send = True, e_status = None, e_trailer = None\<rparr>))"

text \<open>\<open>watchCancel\<close> starts a goroutine that waits for the context or the end of the stream.\<close>

definition watchCancel :: "client \<Rightarrow> nat \<Rightarrow> client" where
  "watchCancel c sid =
     (case cl_heap c sid of None \<Rightarrow> c | Some cs \<Rightarrow> set_cs c sid (cs\<lparr>cs_watched := True\<rparr>))"

definition cancel_frame :: "int \<Rightarrow> frame" where
  "cancel_frame seq = mk_frame seq (Frame_End (Some \<lparr>e_close_send = False,
     e_status = Some \<lparr>st_code = 1, st_message = ''cancelled by client''\<rparr>, e_trailer = None\<rparr>))"

definition watch_step :: "client \<Rightarrow> nat \<Rightarrow> ctx_err option \<Rightarrow> client list" where
  "watch_step c sid ctx_done =
     (case cl_heap c sid of
        None \<Rightarrow> []
      | Some cs \<Rightarrow>
          if \<not> cs_watched cs then []
          else let c1 = set_cs c sid (cs\<lparr>cs_watched := False\<rparr>)
               in select [(ctx_done \<noteq> None, client_sendFrame c1 (cancel_frame (cs_seq cs))),
                          (cs_end cs, c1)])"

text \<open>
  The \<open>Call\<close> of the four invocations. \<open>append([]byte(nil), req...)\<close> is nil for an empty \<open>req\<close>, so
  an empty request is not inlined and travels as a Data frame.
\<close>

definition append_nil :: "bytes \<Rightarrow> bytes option" where
  "append_nil b = (if b = [] then None else Some b)"

definition deadline_ms :: "call_ctx \<Rightarrow> int" where
  "deadline_ms ctx = (case cc_until_ms ctx of None \<Rightarrow> 0 | Some ms \<Rightarrow> int32 ms)"

definition mk_call :: "string \<Rightarrow> metadata option \<Rightarrow> call_ctx \<Rightarrow> bytes option \<Rightarrow> call" where
  "mk_call method md ctx inl = \<lparr>c_method = method, c_metadata = md, c_deadline_ms = deadline_ms ctx,
     c_inline_data = inl, c_protocol_version = 1\<rparr>"

definition open_half_closed ::
  "client \<Rightarrow> string \<Rightarrow> metadata option \<Rightarrow> call_ctx \<Rightarrow> bytes \<Rightarrow> client \<times> nat" where
  "open_half_closed c method md ctx req =
     (let (c0, sid, seq) = client_openStream c method;
          c1 = watchCancel c0 sid;
          inl = (if length req \<le> InlineMax then append_nil req else None);
          c2 = client_sendFrame c1 (mk_frame seq (Frame_Call (Some (mk_call method md ctx inl))));
          c3 = (if inl = None then sendPayload c2 seq req else c2)
      in (client_sendFrame c3 (close_send_frame seq), sid))"

section \<open>Unary calls\<close>

text \<open>
  \<open>invokeUnary\<close> sends, then waits in a \<open>select\<close>, and after the first message in a second one.
  Other goroutines run in between, so the call is a small machine: \<open>unary_start\<close> and \<open>unary_step\<close>.
  The entry is removed when the call returns.
\<close>

definition unary_start :: "client \<Rightarrow> call_ctx \<Rightarrow> string \<Rightarrow> bytes \<Rightarrow> client \<times> nat" where
  "unary_start c ctx method req =
     open_half_closed c method (map_option (\<lambda>h. metadataFromKV (Some h)) (OutgoingHeaderFromCtx ctx)) ctx req"

datatype unary_state =
    UnaryFirst
  | UnaryEnd bytes
  | UnaryDone "bytes option" rpc_status

definition unary_step ::
  "client \<Rightarrow> nat \<Rightarrow> ctx_err option \<Rightarrow> unary_state \<Rightarrow> (client \<times> unary_state) list" where
  "unary_step c sid ctx_done u =
     (case cl_heap c sid of
        None \<Rightarrow> []
      | Some cs \<Rightarrow>
          let ret = (\<lambda>r s. (cleanupStream c (cs_seq cs), UnaryDone r s));
              pop = set_cs c sid (cs\<lparr>cs_inbound := tl (cs_inbound cs)\<rparr>);
              canceled = ret None (Err 4 (Some (CtxErr (the ctx_done))))
          in case u of
               UnaryDone _ _ \<Rightarrow> []
             | UnaryFirst \<Rightarrow> select
                 [(cs_inbound cs \<noteq> [],
                     case ir_err (hd (cs_inbound cs)) of
                       Some e \<Rightarrow> (cleanupStream pop (cs_seq cs), UnaryDone None (Err 13 (Some e)))
                     | None \<Rightarrow> (pop, UnaryEnd (ir_data (hd (cs_inbound cs))))),
                  (cs_end cs, ret None (er_status (cs_result cs))),
                  (ctx_done \<noteq> None, canceled)]
             | UnaryEnd dat \<Rightarrow> select
                 [(cs_end cs, ret (Some dat) (er_status (cs_result cs))),
                  (ctx_done \<noteq> None, canceled)])"

text \<open>
  \<open>InvokeUnary\<close> around an invoker: \<open>'r\<close> is whatever running the call yields.
\<close>

definition InvokeUnary ::
  "(call_ctx, 'r) UnaryClientInterceptor list \<Rightarrow> (call_ctx, 'r) UnaryInvoker \<Rightarrow> call_ctx \<Rightarrow> string
     \<Rightarrow> bytes \<Rightarrow> metadata option \<Rightarrow> 'r" where
  "InvokeUnary is invoker ctx method req hdr =
     (let ctx1 = (case hdr of None \<Rightarrow> ctx | Some h \<Rightarrow> ctxWithOutgoingHeader ctx h)
      in chainUnaryClient is invoker ctx1 method req)"

section \<open>Streaming calls\<close>

definition InvokeServerStreaming ::
  "client \<Rightarrow> call_ctx \<Rightarrow> string \<Rightarrow> bytes \<Rightarrow> metadata option \<Rightarrow> client \<times> nat" where
  "InvokeServerStreaming c ctx method req hdr =
     open_half_closed c method (Some (metadataFromKV hdr)) ctx req"

definition InvokeClientStreaming ::
  "client \<Rightarrow> call_ctx \<Rightarrow> string \<Rightarrow> bytes option \<Rightarrow> metadata option \<Rightarrow> client \<times> nat" where
  "InvokeClientStreaming c ctx method firstReq hdr =
     (let (c0, sid, seq) = client_openStream c method;
          c1 = watchCancel c0 sid;
          first = (case firstReq of None \<Rightarrow> [] | Some b \<Rightarrow> b);
          inl = (if length first > 0 \<and> length first \<le> InlineMax then append_nil first else None);
          c2 = client_sendFrame c1 (mk_frame seq (Frame_Call
                 (Some (mk_call method (Some (metadataFromKV hdr)) ctx inl))))
      in (if firstReq \<noteq> None \<and> inl = None then sendPayload c2 seq first else c2, sid))"

definition InvokeBidiStreaming ::
  "client \<Rightarrow> call_ctx \<Rightarrow> string \<Rightarrow> bytes option \<Rightarrow> metadata option \<Rightarrow> client \<times> nat" where
  "InvokeBidiStreaming c ctx method firstReq hdr = InvokeClientStreaming c ctx method firstReq hdr"

definition cs_Send :: "client \<Rightarrow> nat \<Rightarrow> bytes \<Rightarrow> client \<times> go_error option" where
  "cs_Send c sid b =
     (case cl_heap c sid of
        None \<Rightarrow> (c, Some ErrClosedPipe)
      | Some cs \<Rightarrow> (sendPayload c (cs_seq cs) b, None))"

definition cs_CloseSend :: "client \<Rightarrow> nat \<Rightarrow> client" where
  "cs_CloseSend c sid =
     (case cl_heap c sid of
        None \<Rightarrow> c
      | Some cs \<Rightarrow>
          if cs_closeSent cs then c
          else client_sendFrame (set_cs c sid (cs\<lparr>cs_closeSent := True\<rparr>)) (close_send_frame (cs_seq cs)))"

text \<open>The two \<open>select\<close> statements of \<open>ClientStream.Recv\<close>: \<open>None\<close> is the \<open>default\<close> of the first.\<close>

type_synonym recv_result = "bytes \<times> go_error option"

definition take_resp :: "client_stream \<Rightarrow> client_stream \<times> recv_result" where
  "take_resp cs = (cs\<lparr>cs_inbound := tl (cs_inbound cs)\<rparr>,
     (ir_data (hd (cs_inbound cs)), ir_err (hd (cs_inbound cs))))"

definition cs_Recv_poll :: "client_stream \<Rightarrow> (client_stream \<times> recv_result) option list" where
  "cs_Recv_poll cs = select_default [(cs_inbound cs \<noteq> [], Some (take_resp cs))] None"

definition cs_Recv_wait :: "client_stream \<Rightarrow> ctx_err option \<Rightarrow> (client_stream \<times> recv_result) list" where
  "cs_Recv_wait cs ctx_done = select
     [(cs_inbound cs \<noteq> [], take_resp cs),
      (cs_end cs, (cs, [],
         if er_err (cs_result cs) \<noteq> None \<and> st_code (er_status (cs_result cs)) \<noteq> 0
         then er_err (cs_result cs) else Some EOF)),
      (ctx_done \<noteq> None, (cs, [], Some (CtxErr (the ctx_done))))]"

definition cs_Header :: "client_stream \<Rightarrow> metadata" where
  "cs_Header cs = copyMetadata (Some (cs_header cs))"

definition cs_Trailer :: "client_stream \<Rightarrow> metadata" where
  "cs_Trailer cs = copyMetadata (Some (cs_trailer cs))"

end
