(* ===== verification/Rpc_Client_Laws.thy ===== *)
theory Rpc_Client_Laws
  imports Rpc_Client
begin

text \<open>
  Laws of the client: the sequence numbers it allocates, the invariant of its stream table over every
  operation and interleaving (\<open>client_run\<close>), that the first terminal result of a stream stands, when
  dispatching blocks, and what happens to calls made after the connection is lost.
\<close>

section \<open>Sequence numbers\<close>

text \<open>The numbers \<open>n\<close> successive calls of \<open>nextSeq\<close> return, from allocator state \<open>a\<close>.\<close>

primrec alloc_seqs :: "nat \<Rightarrow> 32 word \<Rightarrow> int list" where
  "alloc_seqs 0 a = []"
| "alloc_seqs (Suc n) a = snd (nextSeq a) # alloc_seqs n (fst (nextSeq a))"

lemma nextSeq_simps: "fst (nextSeq a) = a + 2" "snd (nextSeq a) = uint (a + 2) mod 2 ^ 31"
proof -
  have m: "(0x7FFFFFFF :: 32 word) = mask 31"
    by (simp add: mask_eq_exp_minus_1)
  show "snd (nextSeq a) = uint (a + 2) mod 2 ^ 31"
    unfolding nextSeq_def Let_def m
    by (simp only: snd_conv take_bit_eq_mask [symmetric] unsigned_take_bit_eq)
      (simp only: take_bit_eq_mod)
qed (simp add: nextSeq_def Let_def)

lemma snd_nextSeq: "snd (nextSeq a) = (uint a + 2) mod 2 ^ 31"
proof -
  have "uint (a + 2) mod 2 ^ 31 = ((uint a + 2) mod 2 ^ 32) mod 2 ^ 31"
    by (simp add: uint_word_ariths)
  also have "\<dots> = (uint a + 2) mod 2 ^ 31"
    by (simp add: mod_mod_cancel)
  finally show ?thesis by (simp add: nextSeq_simps)
qed

lemma alloc_seqs_nth:
  "i < n \<Longrightarrow> alloc_seqs n a ! i = (uint a + 2 * (int i + 1)) mod 2 ^ 31"
proof (induction n arbitrary: a i)
  case 0
  then show ?case by simp
next
  case (Suc n)
  show ?case
  proof (cases i)
    case 0
    then show ?thesis by (simp add: snd_nextSeq)
  next
    case (Suc j)
    then have "alloc_seqs (Suc n) a ! i = (uint (a + 2) + 2 * (int j + 1)) mod 2 ^ 31"
      using Suc.IH [of j "a + 2"] Suc.prems by (simp add: nextSeq_simps)
    also have "\<dots> = (uint (a + 2) mod 2 ^ 31 + 2 * (int j + 1)) mod 2 ^ 31"
      by (simp add: mod_add_left_eq)
    also have "\<dots> = ((uint a + 2) mod 2 ^ 31 + 2 * (int j + 1)) mod 2 ^ 31"
      using snd_nextSeq [of a] by (simp add: nextSeq_simps)
    also have "\<dots> = (uint a + 2 + 2 * (int j + 1)) mod 2 ^ 31"
      by (simp only: mod_add_left_eq)
    also have "uint a + 2 + 2 * (int j + 1) = uint a + 2 * (int i + 1)"
      using Suc by simp
    finally show ?thesis .
  qed
qed

lemma length_alloc_seqs [simp]: "length (alloc_seqs n a) = n"
  by (induction n arbitrary: a) simp_all

lemma odd_mod_pow: "odd (x :: int) \<Longrightarrow> odd (x mod 2 ^ 31)"
  by (simp add: even_mod_exp_div_exp_iff even_iff_mod_2_eq_zero mod_mod_cancel)

lemma nextSeq_range: "odd (uint a) \<Longrightarrow> odd (snd (nextSeq a)) \<and> 0 < snd (nextSeq a) \<and> snd (nextSeq a) < 2 ^ 31"
proof -
  assume "odd (uint a)"
  then have o: "odd ((uint a + 2) mod 2 ^ 31)" by (intro odd_mod_pow) simp
  moreover have "0 \<le> (uint a + 2) mod 2 ^ 31" "(uint a + 2) mod 2 ^ 31 < 2 ^ 31" by simp_all
  moreover from o have "(uint a + 2) mod 2 ^ 31 \<noteq> 0" by (metis even_zero)
  ultimately show ?thesis unfolding snd_nextSeq by linarith
qed

lemma alloc_seqs_distinct:
  assumes "n \<le> 2 ^ 30"
  shows "distinct (alloc_seqs n a)"
proof (unfold distinct_conv_nth, intro allI impI)
  fix i j assume ij: "i < length (alloc_seqs n a)" "j < length (alloc_seqs n a)" "i \<noteq> j"
  then have ne: "\<not> (2 :: int) ^ 30 dvd int i - int j"
    using assms zdvd_imp_le [of "2 ^ 30" "\<bar>int i - int j\<bar>"] by auto
  have "(2 :: int) ^ 31 = 2 * 2 ^ 30" by simp
  with ne have "\<not> (2 :: int) ^ 31 dvd 2 * (int i - int j)"
    by (simp only: dvd_mult_cancel_left) simp
  then show "alloc_seqs n a ! i \<noteq> alloc_seqs n a ! j"
    using ij by (simp add: alloc_seqs_nth mod_eq_dvd_iff algebra_simps)
qed

lemma odd_add2: "odd (uint (a :: 32 word)) \<Longrightarrow> odd (uint (a + 2))"
  by (simp add: uint_word_ariths even_mod_exp_div_exp_iff) (simp add: even_iff_mod_2_eq_zero mod_mod_cancel)

lemma alloc_seqs_all:
  "odd (uint a) \<Longrightarrow> list_all (\<lambda>s. odd s \<and> 0 < s \<and> s < 2 ^ 31) (alloc_seqs n a)"
proof (induction n arbitrary: a)
  case (Suc n)
  then have "odd (uint (a + 2))" by (simp add: odd_add2)
  with Suc nextSeq_range [of a] show ?case by (simp add: nextSeq_simps(1))
qed simp

section \<open>Runs of a client\<close>

text \<open>
  Everything that can happen to a client: an inbound frame, the loss of the connection, the caller's
  operations and the steps of its goroutines.
\<close>

datatype client_event =
    CevFrame response_frame
  | CevFail go_error
  | CevUnary call_ctx string bytes
  | CevUnaryStep nat "ctx_err option" unary_state
  | CevServerStreaming call_ctx string bytes "metadata option"
  | CevClientStreaming call_ctx string "bytes option" "metadata option"
  | CevSend nat bytes
  | CevCloseSend nat
  | CevRecv nat "ctx_err option"
  | CevWatch nat "ctx_err option"

definition recv_outcomes :: "client \<Rightarrow> nat \<Rightarrow> ctx_err option \<Rightarrow> client list" where
  "recv_outcomes c sid ctx_done =
     (case cl_heap c sid of
        None \<Rightarrow> []
      | Some cs \<Rightarrow>
          map (\<lambda>x. case x of None \<Rightarrow> c | Some (cs1, _) \<Rightarrow> set_cs c sid cs1) (cs_Recv_poll cs)
          @ map (\<lambda>(cs1, _). set_cs c sid cs1) (cs_Recv_wait cs ctx_done))"

definition client_outcomes :: "client \<Rightarrow> client_event \<Rightarrow> client list" where
  "client_outcomes c ev =
     (if cl_crashed c \<noteq> None then []
      else case ev of
             CevFrame f \<Rightarrow> if cl_failed c then [] else dispatch c f
           | CevFail err \<Rightarrow> [failAll c err]
           | CevUnary ctx method req \<Rightarrow> [fst (unary_start c ctx method req)]
           | CevUnaryStep sid ctx_done u \<Rightarrow> map fst (unary_step c sid ctx_done u)
           | CevServerStreaming ctx method req hdr \<Rightarrow> [fst (InvokeServerStreaming c ctx method req hdr)]
           | CevClientStreaming ctx method req hdr \<Rightarrow> [fst (InvokeClientStreaming c ctx method req hdr)]
           | CevSend sid b \<Rightarrow> [fst (cs_Send c sid b)]
           | CevCloseSend sid \<Rightarrow> [cs_CloseSend c sid]
           | CevRecv sid ctx_done \<Rightarrow> recv_outcomes c sid ctx_done
           | CevWatch sid ctx_done \<Rightarrow> watch_step c sid ctx_done)"

abbreviation client_run :: "client \<Rightarrow> client_event list \<Rightarrow> client \<Rightarrow> bool" where
  "client_run \<equiv> runs client_outcomes"

section \<open>The invariant of the stream table\<close>

definition stream_ok :: "client \<Rightarrow> nat \<Rightarrow> client_stream \<Rightarrow> bool" where
  "stream_ok c sid cs \<longleftrightarrow> sid < cl_next c \<and> length (cs_inbound cs) \<le> respCap
     \<and> odd (cs_seq cs) \<and> 0 < cs_seq cs \<and> cs_seq cs < 2 ^ 31"

definition client_wf :: "client \<Rightarrow> bool" where
  "client_wf c \<longleftrightarrow> odd (uint (cl_seqAlloc c))
     \<and> (\<forall>sid cs. cl_heap c sid = Some cs \<longrightarrow> stream_ok c sid cs)
     \<and> (\<forall>seq sid. cl_streams c seq = Some sid \<longrightarrow>
          (\<exists>cs. cl_heap c sid = Some cs \<and> cs_seq cs = seq \<and> \<not> cs_end cs))"

lemma client_wfD:
  assumes "client_wf c"
  shows wf_alloc: "odd (uint (cl_seqAlloc c))"
    and wf_stream: "cl_heap c sid = Some cs \<Longrightarrow> stream_ok c sid cs"
    and wf_table: "cl_streams c seq = Some sid \<Longrightarrow> cl_heap c sid = Some cs \<Longrightarrow> cs_seq cs = seq \<and> \<not> cs_end cs"
    and wf_entry: "cl_streams c seq = Some sid \<Longrightarrow> \<exists>cs. cl_heap c sid = Some cs \<and> cs_seq cs = seq \<and> \<not> cs_end cs"
  using assms unfolding client_wf_def by force+

text \<open>What may still change of a stream that has ended: its queue and its two flags.\<close>

definition sealed :: "client_stream \<Rightarrow> client_stream \<Rightarrow> bool" where
  "sealed cs cs' \<longleftrightarrow> cs_end cs' \<and> cs_result cs' = cs_result cs \<and> cs_seq cs' = cs_seq cs
     \<and> cs_header cs' = cs_header cs \<and> cs_trailer cs' = cs_trailer cs"

definition results_stand :: "client \<Rightarrow> client \<Rightarrow> bool" where
  "results_stand c c' \<longleftrightarrow> (\<forall>sid cs. cl_heap c sid = Some cs \<longrightarrow>
     (\<exists>cs'. cl_heap c' sid = Some cs' \<and> (cs_end cs \<longrightarrow> sealed cs cs')))"

definition keeps :: "client \<Rightarrow> client \<Rightarrow> bool" where
  "keeps c c' \<longleftrightarrow> client_wf c' \<and> results_stand c c'"

lemma results_stand_trans: "results_stand c c1 \<Longrightarrow> results_stand c1 c2 \<Longrightarrow> results_stand c c2"
  unfolding results_stand_def sealed_def by (metis (no_types, lifting))

lemma keeps_trans: "keeps c c1 \<Longrightarrow> keeps c1 c2 \<Longrightarrow> keeps c c2"
  unfolding keeps_def using results_stand_trans by blast

lemma keeps_refl: "client_wf c \<Longrightarrow> keeps c c"
  by (simp add: keeps_def results_stand_def sealed_def)

lemma NewClient_wf: "client_wf NewClient"
  by (simp add: client_wf_def NewClient_def)

lemma keeps_fields:
  assumes "client_wf c"
  shows "keeps c (c\<lparr>cl_reasm := r\<rparr>)" "keeps c (c\<lparr>cl_crashed := x\<rparr>)" "keeps c (client_sendFrame c f)"
    "keeps c (cleanupStream c seq)"
  using assms
  by (auto simp: keeps_def client_wf_def results_stand_def sealed_def client_sendFrame_def cleanupStream_def
      stream_ok_def)

lemma wf_heap_update:
  assumes wf: "client_wf c" and cs: "stream_ok c sid cs'"
    and heap: "cl_heap c' = (cl_heap c)(sid \<mapsto> cs')" "cl_seqAlloc c' = cl_seqAlloc c" "cl_next c' = cl_next c"
    and tab: "\<And>seq sid'. cl_streams c' seq = Some sid' \<Longrightarrow>
      (if sid' = sid then cs_seq cs' = seq \<and> \<not> cs_end cs' else cl_streams c seq = Some sid')"
  shows "client_wf c'"
  unfolding client_wf_def
proof (intro conjI allI impI)
  show "odd (uint (cl_seqAlloc c'))" using wf by (simp add: wf_alloc heap)
  show "stream_ok c' sid1 cs1" if "cl_heap c' sid1 = Some cs1" for sid1 cs1
    using that cs wf_stream [OF wf, of sid1 cs1] by (auto simp: heap stream_ok_def split: if_splits)
  show "\<exists>cs. cl_heap c' sid1 = Some cs \<and> cs_seq cs = seq \<and> \<not> cs_end cs"
    if "cl_streams c' seq = Some sid1" for seq sid1
    using tab [OF that] wf_entry [OF wf, of seq sid1] by (auto simp: heap split: if_splits)
qed

lemma keeps_set_cs:
  assumes wf: "client_wf c" and cs: "cl_heap c sid = Some cs"
    and same: "cs_seq cs' = cs_seq cs" "length (cs_inbound cs') \<le> respCap"
    and fin: "cs_end cs' = cs_end cs" "cs_end cs \<Longrightarrow> sealed cs cs'"
  shows "keeps c (set_cs c sid cs')"
  unfolding keeps_def
proof
  show "client_wf (set_cs c sid cs')"
    by (rule wf_heap_update [OF wf, of sid cs'])
      (use wf_stream [OF wf cs] wf_table [OF wf _ cs] same fin in \<open>auto simp: set_cs_def stream_ok_def\<close>)
  from fin cs show "results_stand c (set_cs c sid cs')"
    by (auto simp: results_stand_def set_cs_def sealed_def)
qed

lemma keeps_finish:
  assumes wf: "client_wf c" and cs: "cl_heap c sid = Some cs" "\<not> cs_end cs"
    and same: "cs_seq cs' = cs_seq cs" "cs_inbound cs' = cs_inbound cs"
  shows "keeps c ((set_cs c sid cs')\<lparr>cl_streams := (cl_streams c)(cs_seq cs := None)\<rparr>)"
  unfolding keeps_def
proof
  show "client_wf ((set_cs c sid cs')\<lparr>cl_streams := (cl_streams c)(cs_seq cs := None)\<rparr>)"
    by (rule wf_heap_update [OF wf, of sid cs'])
      (use wf_stream [OF wf cs(1)] wf_table [OF wf _ cs(1)] same cs in
        \<open>auto simp: set_cs_def stream_ok_def split: if_splits\<close>)
  from cs show "results_stand c ((set_cs c sid cs')\<lparr>cl_streams := (cl_streams c)(cs_seq cs := None)\<rparr>)"
    by (auto simp: results_stand_def set_cs_def sealed_def)
qed

section \<open>Every operation keeps it\<close>

lemma client_deliver_keeps:
  assumes wf: "client_wf c" and c': "c' \<in> set (client_deliver c sid p)"
  shows "keeps c c'"
proof -
  obtain cs where cs: "cl_heap c sid = Some cs"
    using c' by (cases "cl_heap c sid") (simp_all add: client_deliver_def)
  have "keeps c (set_cs c sid (cs\<lparr>cs_inbound := cs_inbound cs @ [\<lparr>ir_data = p, ir_err = None\<rparr>]\<rparr>))"
    if "length (cs_inbound cs) < respCap"
    using that by (intro keeps_set_cs [OF wf cs]) (simp_all add: sealed_def)
  with c' cs keeps_refl [OF wf] show ?thesis
    by (auto simp: client_deliver_def split: if_splits)
qed

lemma deliver_after_keeps:
  "keeps c c1 \<Longrightarrow> c2 \<in> set (client_deliver c1 sid p) \<Longrightarrow> keeps c c2"
  using client_deliver_keeps keeps_trans unfolding keeps_def by blast

lemma client_data_keeps:
  assumes wf: "client_wf c" and c': "c' \<in> set (client_data c sid seq d)"
  shows "keeps c c'"
  using c' keeps_refl [OF wf] keeps_fields(1,2) [OF wf]
  by (auto simp: client_data_def split: option.splits data_content.splits go.splits prod.splits
      intro: deliver_after_keeps deliver_after_keeps [OF keeps_fields(1) [OF wf]])

lemma dispatch_keeps:
  assumes wf: "client_wf c" and c': "c' \<in> set (dispatch c f)"
  shows "keeps c c'"
proof (cases "cl_streams c (routing_seq (r_routing f))")
  case None
  with c' keeps_refl [OF wf] show ?thesis by (simp add: dispatch_def Let_def)
next
  case (Some sid)
  then obtain cs where cs: "cl_heap c sid = Some cs" "cs_seq cs = routing_seq (r_routing f)" "\<not> cs_end cs"
    using wf_entry [OF wf] by blast
  have hdr: "keeps c (set_cs c sid (cs\<lparr>cs_header := h\<rparr>))" for h
    using cs wf_stream [OF wf cs(1)] by (intro keeps_set_cs [OF wf cs(1)]) (simp_all add: stream_ok_def)
  have endk: "keeps c (client_end c sid cs (routing_seq (r_routing f)) e)" for e
    unfolding client_end_def Let_def cs(2) [symmetric]
    by (rule keeps_finish [OF wf cs(1,3)]) (simp_all add: finish_cs_def split: option.splits)
  show ?thesis
    using c' keeps_refl [OF wf] hdr endk client_data_keeps [OF wf] Some cs(1)
    by (auto simp: dispatch_def Let_def split: option.splits response_type.splits if_splits
        intro: deliver_after_keeps)
qed

lemma failAll_keeps:
  assumes wf: "client_wf c"
  shows "keeps c (failAll c err)"
proof -
  have "client_wf (failAll c err)"
    using wf wf_alloc [OF wf] wf_stream [OF wf]
    by (cases "cl_failed c")
      (auto simp: failAll_def client_wf_def finish_cs_def stream_ok_def split: if_splits)
  moreover have "results_stand c (failAll c err)"
    by (auto simp: failAll_def results_stand_def sealed_def finish_cs_def)
  ultimately show ?thesis by (simp add: keeps_def)
qed

lemma openStream_keeps:
  assumes wf: "client_wf c"
  shows "keeps c (fst (client_openStream c method))"
proof -
  let ?seq = "snd (nextSeq (cl_seqAlloc c))"
  let ?c = "fst (client_openStream c method)"
  have seq: "odd ?seq \<and> 0 < ?seq \<and> ?seq < 2 ^ 31"
    using wf by (intro nextSeq_range wf_alloc)
  have fresh: "cl_heap c (cl_next c) = None"
    using wf_stream [OF wf, of "cl_next c"] by (cases "cl_heap c (cl_next c)") (auto simp: stream_ok_def)
  have "odd (uint (fst (nextSeq (cl_seqAlloc c))))"
    using wf_alloc [OF wf] by (simp add: nextSeq_simps(1) odd_add2)
  moreover have "stream_ok ?c sid cs" if "cl_heap ?c sid = Some cs" for sid cs
    using that seq wf_stream [OF wf, of sid cs]
    by (auto simp: client_openStream_def Let_def stream_ok_def split: prod.splits if_splits)
  moreover have "\<exists>cs. cl_heap ?c sid = Some cs \<and> cs_seq cs = seq \<and> \<not> cs_end cs"
    if "cl_streams ?c seq = Some sid" for seq sid
    using that wf_entry [OF wf, of seq sid] fresh
    by (auto simp: client_openStream_def Let_def split: prod.splits if_splits)
  ultimately have "client_wf ?c"
    unfolding client_wf_def by (auto simp: client_openStream_def Let_def split: prod.splits)
  moreover have "results_stand c ?c"
    using fresh by (auto simp: results_stand_def sealed_def client_openStream_def Let_def split: prod.splits)
  ultimately show ?thesis by (simp add: keeps_def)
qed

lemma sendFrame_after_keeps: "keeps c c1 \<Longrightarrow> keeps c (client_sendFrame c1 f)"
  using keeps_trans keeps_fields(3) unfolding keeps_def by blast

lemma sendFrames_after_keeps: "keeps c c1 \<Longrightarrow> keeps c (foldl client_sendFrame c1 fs)"
  by (induction fs arbitrary: c1) (simp_all add: sendFrame_after_keeps)

lemma sendPayload_after_keeps: "keeps c c1 \<Longrightarrow> keeps c (sendPayload c1 seq b)"
  by (simp add: sendPayload_def sendFrames_after_keeps)

lemma watchCancel_after_keeps:
  assumes "keeps c c1"
  shows "keeps c (watchCancel c1 sid)"
proof (cases "cl_heap c1 sid")
  case None
  with assms show ?thesis by (simp add: watchCancel_def)
next
  case (Some cs)
  have wf: "client_wf c1" using assms by (simp add: keeps_def)
  have "keeps c1 (set_cs c1 sid (cs\<lparr>cs_watched := True\<rparr>))"
    using wf_stream [OF wf Some] by (intro keeps_set_cs [OF wf Some]) (simp_all add: stream_ok_def sealed_def)
  with assms Some show ?thesis by (auto simp: watchCancel_def intro: keeps_trans)
qed

lemmas after_keeps = sendFrame_after_keeps sendPayload_after_keeps watchCancel_after_keeps

lemma open_half_closed_keeps:
  "client_wf c \<Longrightarrow> keeps c (fst (open_half_closed c method md ctx req))"
  using openStream_keeps [of c "method"]
  by (auto simp: open_half_closed_def Let_def intro!: after_keeps split: prod.splits)

lemma InvokeClientStreaming_keeps:
  "client_wf c \<Longrightarrow> keeps c (fst (InvokeClientStreaming c ctx method req hdr))"
  using openStream_keeps [of c "method"]
  by (auto simp: InvokeClientStreaming_def Let_def intro!: after_keeps split: prod.splits)

lemma pop_keeps:
  assumes "client_wf c" and "cl_heap c sid = Some cs"
  shows "keeps c (set_cs c sid (cs\<lparr>cs_inbound := tl (cs_inbound cs)\<rparr>))"
  using wf_stream [OF assms] by (intro keeps_set_cs [OF assms]) (auto simp: stream_ok_def sealed_def)

lemma unary_step_keeps:
  assumes wf: "client_wf c" and c': "c' \<in> fst ` set (unary_step c sid ctx u)"
  shows "keeps c c'"
proof -
  obtain cs where cs: "cl_heap c sid = Some cs"
    using c' by (cases "cl_heap c sid") (simp_all add: unary_step_def)
  note pop = pop_keeps [OF wf cs]
  moreover from pop have "keeps c (cleanupStream (set_cs c sid (cs\<lparr>cs_inbound := tl (cs_inbound cs)\<rparr>)) seq)" for seq
    using keeps_trans keeps_fields(4) unfolding keeps_def by blast
  ultimately show ?thesis
    using c' cs keeps_fields(4) [OF wf]
    by (cases u) (auto simp: unary_step_def Let_def split: if_splits option.splits)
qed

lemma recv_keeps:
  assumes wf: "client_wf c" and c': "c' \<in> set (recv_outcomes c sid ctx)"
  shows "keeps c c'"
proof -
  obtain cs where cs: "cl_heap c sid = Some cs"
    using c' by (cases "cl_heap c sid") (simp_all add: recv_outcomes_def)
  have "set_cs c sid cs = c"
    using cs by (simp add: set_cs_def fun_upd_idem)
  with c' cs keeps_refl [OF wf] pop_keeps [OF wf cs] show ?thesis
    by (auto simp: recv_outcomes_def cs_Recv_poll_def cs_Recv_wait_def select_default_def take_resp_def
        split: if_splits)
qed

lemma watch_keeps:
  assumes wf: "client_wf c" and c': "c' \<in> set (watch_step c sid ctx)"
  shows "keeps c c'"
proof -
  obtain cs where cs: "cl_heap c sid = Some cs"
    using c' by (cases "cl_heap c sid") (simp_all add: watch_step_def)
  have "keeps c (set_cs c sid (cs\<lparr>cs_watched := False\<rparr>))"
    using wf_stream [OF wf cs] by (intro keeps_set_cs [OF wf cs]) (simp_all add: stream_ok_def sealed_def)
  with c' cs show ?thesis
    by (auto simp: watch_step_def Let_def split: if_splits intro: sendFrame_after_keeps)
qed

lemma CloseSend_keeps:
  assumes wf: "client_wf c"
  shows "keeps c (cs_CloseSend c sid)"
proof (cases "cl_heap c sid")
  case None
  with keeps_refl [OF wf] show ?thesis by (simp add: cs_CloseSend_def)
next
  case (Some cs)
  have "keeps c (set_cs c sid (cs\<lparr>cs_closeSent := True\<rparr>))"
    using wf_stream [OF wf Some] by (intro keeps_set_cs [OF wf Some]) (simp_all add: stream_ok_def sealed_def)
  with Some keeps_refl [OF wf] show ?thesis by (auto simp: cs_CloseSend_def intro: sendFrame_after_keeps)
qed

lemma client_outcomes_keeps:
  assumes wf: "client_wf c" and c': "c' \<in> set (client_outcomes c ev)"
  shows "keeps c c'"
proof -
  have "keeps c (fst (cs_Send c sid b))" for sid b
    using keeps_refl [OF wf] by (auto simp: cs_Send_def split: option.splits intro: sendPayload_after_keeps)
  with c' show ?thesis
    using dispatch_keeps [OF wf] failAll_keeps [OF wf] open_half_closed_keeps [OF wf]
      unary_step_keeps [OF wf] InvokeClientStreaming_keeps [OF wf] CloseSend_keeps [OF wf]
      recv_keeps [OF wf] watch_keeps [OF wf]
    by (cases ev) (simp_all add: client_outcomes_def unary_start_def InvokeServerStreaming_def split: if_splits)
qed

lemma client_run_keeps:
  assumes "client_run c evs c'" and "client_wf c"
  shows "keeps c c'"
  using assms(1) keeps_refl [OF assms(2)]
proof (rule runs_invariant)
  fix c1 c2 ev assume k: "keeps c c1" "c2 \<in> set (client_outcomes c1 ev)"
  then have "keeps c1 c2"
    using client_outcomes_keeps unfolding keeps_def by blast
  with k(1) show "keeps c c2" by (rule keeps_trans)
qed

section \<open>Operations that leave a stream alone\<close>

text \<open>What \<open>deliver\<close> and the waiting caller look at: the queue and the end of one stream.\<close>

definition view :: "client \<Rightarrow> nat \<Rightarrow> (inbound_resp list \<times> bool) option" where
  "view c sid = map_option (\<lambda>cs. (cs_inbound cs, cs_end cs)) (cl_heap c sid)"

lemma view_simps [simp]:
  "view (client_sendFrame c f) sid = view c sid" "view (cleanupStream c seq) sid = view c sid"
  "view (foldl client_sendFrame c fs) sid = view c sid" "view (sendPayload c seq b) sid = view c sid"
  "view (watchCancel c sid') sid = view c sid"
proof -
  have send: "view (client_sendFrame c f) sid = view c sid" for c f
    by (simp add: view_def client_sendFrame_def)
  then show folds: "view (foldl client_sendFrame c fs) sid = view c sid" for fs
    by (induction fs arbitrary: c) simp_all
  show "view (client_sendFrame c f) sid = view c sid" by (fact send)
  show "view (cleanupStream c seq) sid = view c sid" by (simp add: view_def cleanupStream_def)
  show "view (sendPayload c seq b) sid = view c sid" unfolding sendPayload_def by (rule folds)
  show "view (watchCancel c sid') sid = view c sid"
    by (auto simp: view_def watchCancel_def set_cs_def split: option.splits)
qed

lemma view_set_cs:
  "view (set_cs c sid' cs) sid = (if sid = sid' then Some (cs_inbound cs, cs_end cs) else view c sid)"
  by (simp add: view_def set_cs_def)

lemma view_openStream: "sid \<noteq> cl_next c \<Longrightarrow> view (fst (client_openStream c method)) sid = view c sid"
  by (simp add: view_def client_openStream_def Let_def split: prod.splits)

lemma view_invoke:
  assumes "sid \<noteq> cl_next c"
  shows "view (fst (open_half_closed c method md ctx req)) sid = view c sid"
    and "view (fst (InvokeClientStreaming c ctx method first hdr)) sid = view c sid"
  using view_openStream [OF assms, of "method"]
  by (auto simp: open_half_closed_def InvokeClientStreaming_def Let_def split: prod.splits)

text \<open>The events that may take a message from stream \<open>sid\<close> or end it.\<close>

fun touches :: "nat \<Rightarrow> client_event \<Rightarrow> bool" where
  "touches sid (CevFrame _) = True"
| "touches sid (CevFail _) = True"
| "touches sid (CevRecv sid' _) = (sid' = sid)"
| "touches sid (CevUnaryStep sid' _ u) = (sid' = sid \<and> u = UnaryFirst)"
| "touches sid _ = False"

lemma view_untouched:
  assumes wf: "client_wf c" and v: "view c sid \<noteq> None" and c': "c' \<in> set (client_outcomes c ev)"
    and ev: "\<not> touches sid ev"
  shows "view c' sid = view c sid"
proof -
  have sid: "sid \<noteq> cl_next c"
    using v wf_stream [OF wf, of sid] by (auto simp: view_def stream_ok_def)
  show ?thesis
  proof (cases ev)
    case (CevUnaryStep sid' ctx u)
    show ?thesis
    proof (cases "cl_heap c sid'")
      case None
      with c' CevUnaryStep show ?thesis by (simp add: client_outcomes_def unary_step_def split: if_splits)
    next
      case (Some cs)
      with c' ev CevUnaryStep show ?thesis
        by (cases u) (auto simp: client_outcomes_def unary_step_def Let_def view_set_cs
            split: if_splits option.splits)
    qed
  next
    case (CevSend sid' b)
    with c' show ?thesis by (cases "cl_heap c sid'") (auto simp: client_outcomes_def cs_Send_def split: if_splits)
  next
    case (CevCloseSend sid')
    with c' show ?thesis
      by (cases "cl_heap c sid'")
        (auto simp: client_outcomes_def cs_CloseSend_def view_def client_sendFrame_def set_cs_def
          split: if_splits)
  next
    case (CevRecv sid' ctx)
    with c' ev show ?thesis
      by (cases "cl_heap c sid'")
        (auto simp: client_outcomes_def recv_outcomes_def view_set_cs split: if_splits option.splits)
  next
    case (CevWatch sid' ctx)
    with c' show ?thesis
      by (cases "cl_heap c sid'")
        (auto simp: client_outcomes_def watch_step_def Let_def view_def client_sendFrame_def set_cs_def
          split: if_splits)
  qed (use c' ev sid view_invoke in
      \<open>auto simp: client_outcomes_def unary_start_def InvokeServerStreaming_def split: if_splits\<close>)
qed

lemma client_deliver_view:
  "client_deliver c sid p = [] \<longleftrightarrow>
     (case view c sid of None \<Rightarrow> True | Some (inb, fin) \<Rightarrow> length inb \<ge> respCap \<and> \<not> fin)"
  by (auto simp: client_deliver_def view_def split: option.splits)

lemma view_run_untouched:
  assumes "client_run c evs c'" and "client_wf c" and v: "view c sid \<noteq> None"
    and "list_all (\<lambda>ev. \<not> touches sid ev) evs"
  shows "client_wf c' \<and> view c' sid = view c sid"
  using assms(1)
proof (rule runs_invariant)
  show "client_wf c2 \<and> view c2 sid = view c sid"
    if "client_wf c1 \<and> view c1 sid = view c sid" "ev \<in> set evs" "c2 \<in> set (client_outcomes c1 ev)"
    for c1 c2 ev
    using that assms(4) v view_untouched [of c1 sid c2 ev] client_outcomes_keeps [of c1 c2 ev]
    by (auto simp: list_all_iff keeps_def)
qed (use assms(2) in simp)

section \<open>After the connection is lost\<close>

lemma failed_simps [simp]:
  "cl_failed (client_sendFrame c f) = cl_failed c" "cl_failed (cleanupStream c seq) = cl_failed c"
  "cl_failed (set_cs c sid cs) = cl_failed c" "cl_failed (foldl client_sendFrame c fs) = cl_failed c"
  "cl_failed (sendPayload c seq b) = cl_failed c" "cl_failed (watchCancel c sid) = cl_failed c"
  "cl_failed c \<Longrightarrow> failAll c err = c"
proof -
  show folds: "cl_failed (foldl client_sendFrame c fs) = cl_failed c" for fs
    by (induction fs arbitrary: c) (simp_all add: client_sendFrame_def)
  show "cl_failed (sendPayload c seq b) = cl_failed c" unfolding sendPayload_def by (rule folds)
qed (simp_all add: client_sendFrame_def cleanupStream_def set_cs_def watchCancel_def failAll_def
      split: option.splits)

lemma failed_openStream: "cl_failed (fst (client_openStream c method)) = cl_failed c"
  by (simp add: client_openStream_def Let_def split: prod.splits)

lemma failed_invoke:
  "cl_failed (fst (open_half_closed c method md ctx req)) = cl_failed c"
  "cl_failed (fst (InvokeClientStreaming c ctx method first hdr)) = cl_failed c"
  using failed_openStream [of c "method"]
  by (auto simp: open_half_closed_def InvokeClientStreaming_def Let_def split: prod.splits)

lemma failed_unary_step: "x \<in> set (unary_step c sid ctx u) \<Longrightarrow> cl_failed (fst x) = cl_failed c"
  by (cases u) (auto simp: unary_step_def Let_def split: option.splits if_splits)

lemma failed_outcomes:
  assumes "cl_failed c" and "c' \<in> set (client_outcomes c ev)"
  shows "cl_failed c'"
proof (cases ev)
  case (CevUnaryStep sid ctx u)
  with assms failed_unary_step show ?thesis by (auto simp: client_outcomes_def split: if_splits)
next
  case (CevRecv sid ctx)
  with assms show ?thesis
    by (auto simp: client_outcomes_def recv_outcomes_def split: if_splits option.splits)
qed (use assms in \<open>auto simp: client_outcomes_def unary_start_def InvokeServerStreaming_def failed_invoke
      cs_Send_def cs_CloseSend_def watch_step_def Let_def split: if_splits option.splits\<close>)

lemma starved_outcomes:
  assumes wf: "client_wf c" and f: "cl_failed c" and v: "view c sid = Some ([], False)"
    and c': "c' \<in> set (client_outcomes c ev)"
  shows "view c' sid = Some ([], False)"
proof (cases "touches sid ev")
  case False
  with view_untouched [OF wf _ c', of sid] v show ?thesis by simp
next
  case True
  with f v c' show ?thesis
    by (cases ev)
      (auto simp: client_outcomes_def failAll_def recv_outcomes_def unary_step_def Let_def view_def
        cs_Recv_poll_def cs_Recv_wait_def set_cs_def cleanupStream_def split: if_splits option.splits)
qed

lemma starved_run:
  assumes "client_run c evs c'" and "client_wf c" and "cl_failed c" and "view c sid = Some ([], False)"
  shows "client_wf c' \<and> cl_failed c' \<and> view c' sid = Some ([], False)"
  using assms(1)
proof (rule runs_invariant)
  show "client_wf c2 \<and> cl_failed c2 \<and> view c2 sid = Some ([], False)"
    if "client_wf c1 \<and> cl_failed c1 \<and> view c1 sid = Some ([], False)" "c2 \<in> set (client_outcomes c1 ev)"
    for c1 c2 ev
    using that failed_outcomes [of c1 c2 ev] starved_outcomes [of c1 sid c2 ev]
      client_outcomes_keeps [of c1 c2 ev]
    by (simp add: keeps_def)
qed (use assms in simp)

lemma unary_start_view:
  "view (fst (unary_start c ctx method req)) (snd (unary_start c ctx method req)) = Some ([], False)"
proof -
  have "view (fst (client_openStream c method)) (cl_next c) = Some ([], False)"
    "fst (snd (client_openStream c method)) = cl_next c"
    by (simp_all add: view_def client_openStream_def Let_def split: prod.splits)
  then show ?thesis
    by (auto simp: unary_start_def open_half_closed_def Let_def split: prod.splits)
qed

section \<open>Properties\<close>

lemma int32_seq: "0 < s \<Longrightarrow> s < 2 ^ 31 \<Longrightarrow> int32 s = s"
  by (simp add: int32_id)

text \<open>
  C7: Sequence numbers. A new client's first number is 3; any \<open>2 ^ 30\<close> successive numbers are odd,
  positive, inside the wire's \<open>int32\<close> and pairwise distinct, also across the wrap-around of the
  allocator, so streams that overlap within that window never share one.
\<close>

theorem nextSeq_window:
  assumes "n \<le> 2 ^ 30" and "odd (uint a)"
  shows "distinct (alloc_seqs n a)
    \<and> list_all (\<lambda>s. odd s \<and> 0 < s \<and> s < 2 ^ 31 \<and> int32 s = s) (alloc_seqs n a)
    \<and> alloc_seqs 1 (cl_seqAlloc NewClient) = [3]"
proof (intro conjI)
  show "distinct (alloc_seqs n a)" using assms(1) by (rule alloc_seqs_distinct)
  show "list_all (\<lambda>s. odd s \<and> 0 < s \<and> s < 2 ^ 31 \<and> int32 s = s) (alloc_seqs n a)"
    using alloc_seqs_all [OF assms(2), of n] int32_seq unfolding list_all_iff by blast
  show "alloc_seqs 1 (cl_seqAlloc NewClient) = [3]"
    by (simp add: snd_nextSeq NewClient_def)
qed

theorem nextSeq_window_witness:
  "distinct (alloc_seqs 4 0xFFFFFFFB)
    \<and> list_all (\<lambda>s. odd s \<and> 0 < s \<and> s < 2 ^ 31 \<and> int32 s = s) (alloc_seqs 4 0xFFFFFFFB)"
  using nextSeq_window [of 4 "0xFFFFFFFB"] by simp

text \<open>
  C4: The client's stream table, for every run and every interleaving of inbound frames, connection
  loss, callers and cancellation goroutines: an entry leads to a live stream of that very sequence
  number that has not ended, no response queue exceeds its capacity, and a stream that has ended keeps
  its result, header and trailer for ever, whatever frames still arrive and however the connection ends.
\<close>

theorem client_results_final:
  assumes "client_run NewClient evs c" and "client_run c evs' c'"
  shows "(cl_streams c seq = Some sid \<longrightarrow>
      (\<exists>cs. cl_heap c sid = Some cs \<and> cs_seq cs = seq \<and> \<not> cs_end cs))
    \<and> (cl_heap c sid = Some cs \<longrightarrow> length (cs_inbound cs) \<le> respCap)
    \<and> (cl_heap c sid = Some cs \<and> cs_end cs \<longrightarrow>
      (\<exists>cs'. cl_heap c' sid = Some cs' \<and> cs_end cs' \<and> cs_result cs' = cs_result cs
        \<and> cs_header cs' = cs_header cs \<and> cs_trailer cs' = cs_trailer cs))"
proof -
  have wf: "client_wf c"
    using client_run_keeps [OF assms(1) NewClient_wf] by (simp add: keeps_def)
  then have "results_stand c c'"
    using client_run_keeps [OF assms(2)] by (simp add: keeps_def)
  then have "cl_heap c sid = Some cs \<and> cs_end cs \<longrightarrow>
      (\<exists>cs'. cl_heap c' sid = Some cs' \<and> sealed cs cs')"
    by (auto simp: results_stand_def)
  with wf_entry [OF wf, of seq sid] wf_stream [OF wf, of sid cs] show ?thesis
    by (auto simp: sealed_def stream_ok_def)
qed

text \<open>A client with one unary call whose stream the server ends, and the loss of the connection after it.\<close>

definition demo_ctx :: call_ctx where
  "demo_ctx = \<lparr>cc_outgoing = None, cc_until_ms = None\<rparr>"

definition demo_end :: response_frame where
  "demo_end = \<lparr>r_routing = Some 3, r_type = Some (ResponseFrame_End (Some
     \<lparr>e_close_send = False, e_status = Some \<lparr>st_code = 5, st_message = ''no''\<rparr>, e_trailer = None\<rparr>))\<rparr>"

definition demo_run :: "(client_event \<times> nat) list" where
  "demo_run = [(CevUnary demo_ctx ''/s/m'' [7], 0), (CevFrame demo_end, 0)]"

lemma nextSeq_1: "nextSeq 1 = (3, 3)"
  using snd_nextSeq [of 1] nextSeq_simps(1) [of 1] by (simp add: prod_eq_iff)

lemmas client_eval = client_outcomes_def unary_start_def open_half_closed_def client_openStream_def
  nextSeq_1 NewClient_def watchCancel_def set_cs_def client_sendFrame_def OutgoingHeaderFromCtx_def
  newMetadataHolder_def append_nil_def deadline_ms_def Let_def thresholds

lemma demo_run_ends:
  "\<exists>c cs. play client_outcomes NewClient demo_run = Some c \<and> cl_heap c 0 = Some cs \<and> cs_end cs
     \<and> st_code (er_status (cs_result cs)) = 5 \<and> cl_crashed c = None"
  by (simp add: demo_run_def client_eval demo_ctx_def demo_end_def dispatch_def client_end_def finish_cs_def)

theorem client_results_final_witness:
  "\<exists>c cs. client_run NewClient (map fst demo_run) c \<and> client_run c [CevFail EOF] (failAll c EOF)
     \<and> cl_heap (failAll c EOF) 0 = Some cs \<and> cs_end cs \<and> st_code (er_status (cs_result cs)) = 5"
proof -
  obtain c cs where c: "play client_outcomes NewClient demo_run = Some c"
    and cs: "cl_heap c 0 = Some cs" "cs_end cs" "st_code (er_status (cs_result cs)) = 5"
      "cl_crashed c = None"
    using demo_run_ends by blast
  have r: "client_run NewClient (map fst demo_run) c" using c by (rule play_runs)
  have f: "client_run c [CevFail EOF] (failAll c EOF)"
    using cs by (intro runs_one) (simp add: client_outcomes_def)
  from client_results_final [OF r f, of 3 0 cs] cs r f show ?thesis by auto
qed

text \<open>
  Head-of-line blocking. Delivering a payload blocks the client's only reader exactly while the
  stream's queue of 16 is full and the stream has not ended; from then on nothing but that stream's
  own caller taking a message can release it. New calls, sends, and the cancellation goroutine of the
  very stream do not, and neither does a unary caller that has its first message and gives up.
\<close>

theorem deliver_stays_blocked:
  assumes "client_run NewClient evs c" and "cl_heap c sid = Some cs"
    and "length (cs_inbound cs) = respCap" and "\<not> cs_end cs"
    and "client_run c evs' c'" and "list_all (\<lambda>ev. \<not> touches sid ev) evs'"
  shows "client_deliver c' sid p = []"
proof -
  have wf: "client_wf c"
    using client_run_keeps [OF assms(1) NewClient_wf] by (simp add: keeps_def)
  have v: "view c sid = Some (cs_inbound cs, cs_end cs)"
    using assms(2) by (simp add: view_def)
  with view_run_untouched [OF assms(5) wf _ assms(6)] assms(3,4) show ?thesis
    by (simp add: client_deliver_view)
qed

definition demo_msg :: response_frame where
  "demo_msg = \<lparr>r_routing = Some 3, r_type = Some (ResponseFrame_Data (Some (Some (Data_Message [1]))))\<rparr>"

definition flood_run :: "(client_event \<times> nat) list" where
  "flood_run = (CevUnary demo_ctx ''/s/m'' [7], 0) # replicate 16 (CevFrame demo_msg, 0)"

definition flooded :: "client \<Rightarrow> nat \<Rightarrow> bool" where
  "flooded c n \<longleftrightarrow> cl_crashed c = None \<and> \<not> cl_failed c \<and> cl_streams c 3 = Some 0
     \<and> (\<exists>cs. cl_heap c 0 = Some cs \<and> length (cs_inbound cs) = n \<and> \<not> cs_end cs \<and> cs_watched cs)"

lemma flooded_more:
  "flooded c n \<Longrightarrow> n + k \<le> respCap \<Longrightarrow>
     \<exists>c'. play client_outcomes c (replicate k (CevFrame demo_msg, 0)) = Some c' \<and> flooded c' (n + k)"
proof (induction k arbitrary: c n)
  case 0
  then show ?case by simp
next
  case (Suc k)
  then have "\<exists>c1. client_outcomes c (CevFrame demo_msg) = [c1] \<and> flooded c1 (Suc n)"
    by (auto simp: flooded_def client_outcomes_def dispatch_def demo_msg_def client_data_def
        client_deliver_def set_cs_def)
  with Suc.IH [of _ "Suc n"] Suc.prems(2) show ?case by (auto simp: Let_def)
qed

lemma flood_run_full:
  "\<exists>c cs. play client_outcomes NewClient flood_run = Some c \<and> cl_heap c 0 = Some cs
     \<and> length (cs_inbound cs) = respCap \<and> \<not> cs_end cs \<and> cl_crashed c = None \<and> cs_watched cs"
proof -
  have "\<exists>c1. client_outcomes NewClient (CevUnary demo_ctx ''/s/m'' [7]) = [c1] \<and> flooded c1 0"
    by (simp add: client_eval demo_ctx_def flooded_def)
  then obtain c1 where c1: "client_outcomes NewClient (CevUnary demo_ctx ''/s/m'' [7]) = [c1]"
    "flooded c1 0" by blast
  obtain c where "play client_outcomes c1 (replicate 16 (CevFrame demo_msg, 0)) = Some c" "flooded c 16"
    using flooded_more [OF c1(2), of 16] by (auto simp: respCap_def)
  with c1(1) show ?thesis
    by (auto simp: flood_run_def Let_def respCap_def flooded_def)
qed

theorem deliver_stays_blocked_witness:
  "\<exists>c c'. client_run NewClient (map fst flood_run) c
     \<and> client_run c [CevWatch 0 (Some Canceled)] c' \<and> client_deliver c' 0 [9] = []"
proof -
  obtain c cs where c: "play client_outcomes NewClient flood_run = Some c"
    and cs: "cl_heap c 0 = Some cs" "length (cs_inbound cs) = respCap" "\<not> cs_end cs"
      "cl_crashed c = None" "cs_watched cs"
    using flood_run_full by blast
  have r: "client_run NewClient (map fst flood_run) c" using c by (rule play_runs)
  let ?c' = "client_sendFrame (set_cs c 0 (cs\<lparr>cs_watched := False\<rparr>)) (cancel_frame (cs_seq cs))"
  have w: "client_run c [CevWatch 0 (Some Canceled)] ?c'"
    using cs by (intro runs_one) (simp add: client_outcomes_def watch_step_def Let_def)
  have "client_deliver ?c' 0 [9] = []"
    by (rule deliver_stays_blocked [OF r cs(1-3) w]) simp
  with r w show ?thesis by blast
qed

text \<open>
  C10: Calls after the connection is lost. \<open>failAll\<close> ends the streams that are open when the
  connection is lost, once. A unary call made on the client after that never returns while its context
  is not done: in every run its stream stays without message and without end, and the waiting
  \<open>select\<close> has no ready case.
\<close>

theorem call_after_loss_hangs:
  assumes "client_run NewClient evs c" and "cl_failed c"
    and "unary_start c ctx method req = (c1, sid)" and "client_run c1 evs' c'"
  shows "unary_step c' sid None UnaryFirst = []"
proof -
  have wf: "client_wf c"
    using client_run_keeps [OF assms(1) NewClient_wf] by (simp add: keeps_def)
  have c1: "c1 = fst (unary_start c ctx method req)" "sid = snd (unary_start c ctx method req)"
    using assms(3) by simp_all
  have "client_wf c1" "cl_failed c1" "view c1 sid = Some ([], False)"
    using open_half_closed_keeps [OF wf] assms(2) unary_start_view [of c ctx "method" req]
    unfolding c1 by (simp_all add: unary_start_def keeps_def failed_invoke)
  with starved_run [OF assms(4)] have "view c' sid = Some ([], False)" by blast
  then show ?thesis by (auto simp: view_def unary_step_def Let_def)
qed

theorem call_after_loss_hangs_witness:
  "\<exists>c c1 sid. client_run NewClient [CevFail EOF] c \<and> unary_start c demo_ctx ''/s/m'' [7] = (c1, sid)
     \<and> unary_step c1 sid None UnaryFirst = []"
proof -
  let ?c = "failAll NewClient EOF"
  have r: "client_run NewClient [CevFail EOF] ?c"
    by (intro runs_one) (simp add: client_outcomes_def NewClient_def)
  obtain c1 sid where u: "unary_start ?c demo_ctx ''/s/m'' [7] = (c1, sid)"
    by (cases "unary_start ?c demo_ctx ''/s/m'' [7]") simp
  have "cl_failed ?c" by (simp add: failAll_def NewClient_def)
  from call_after_loss_hangs [OF r this u run_nil] r u show ?thesis by blast
qed

lemma sent_foldl: "cl_sent (foldl client_sendFrame c fs) = cl_sent c @ fs"
  by (induction fs arbitrary: c) (simp_all add: client_sendFrame_def)

lemma heap_foldl: "cl_heap (foldl client_sendFrame c fs) = cl_heap c"
  by (induction fs arbitrary: c) (simp_all add: client_sendFrame_def)

text \<open>
  Half-closing. The first \<open>CloseSend\<close> of a stream puts one End frame with \<open>close_send\<close> on the
  wire and every later one nothing; \<open>Send\<close> after it neither panics nor fails: its Data frames follow
  the half-close on the wire.
\<close>

theorem Send_after_CloseSend:
  assumes "cl_heap c sid = Some cs" and "\<not> cs_closeSent cs"
  shows "cl_sent (cs_CloseSend c sid) = cl_sent c @ [close_send_frame (cs_seq cs)]
    \<and> cs_CloseSend (cs_CloseSend c sid) sid = cs_CloseSend c sid
    \<and> snd (cs_Send (cs_CloseSend c sid) sid b) = None
    \<and> cl_sent (fst (cs_Send (cs_CloseSend c sid) sid b)) = cl_sent c @ close_send_frame (cs_seq cs)
        # map (\<lambda>x. mk_frame (cs_seq cs) (Frame_Data (Some (Some x)))) (payload_contents b)"
  using assms
  by (simp add: cs_CloseSend_def client_sendFrame_def set_cs_def cs_Send_def sendPayload_def sent_foldl)

theorem Send_after_CloseSend_witness:
  "\<exists>c cs. cl_heap c 0 = Some cs \<and> \<not> cs_closeSent cs \<and> snd (cs_Send (cs_CloseSend c 0) 0 [1]) = None"
proof -
  obtain c where c: "c = fst (InvokeClientStreaming NewClient demo_ctx ''/s/m'' None None)" by simp
  have "\<exists>cs. cl_heap c 0 = Some cs \<and> \<not> cs_closeSent cs"
    by (simp add: c InvokeClientStreaming_def client_eval demo_ctx_def)
  then obtain cs where "cl_heap c 0 = Some cs" "\<not> cs_closeSent cs" by blast
  with Send_after_CloseSend [of c 0 cs "[1]"] show ?thesis by blast
qed

end
