(* ===== verification/Rpc_EndToEnd.thy ===== *)
theory Rpc_EndToEnd
  imports Rpc_Server_Trace Rpc_Client_Laws
begin

text \<open>
  The two sides of a connection together: the frames a client puts on the wire, given to a server, and
  the frames the server answers with, given to the client. Both sides consume Data contents the same
  way, which the locale \<open>content_sink\<close> states once.
\<close>

section \<open>Consuming Data contents\<close>

locale content_sink =
  fixes seq :: int
    and ready :: "'m \<Rightarrow> bool"
    and reasm :: "'m \<Rightarrow> reassembler"
    and put_reasm :: "'m \<Rightarrow> reassembler \<Rightarrow> 'm"
    and accept :: "'m \<Rightarrow> bytes \<Rightarrow> 'm"
    and room :: "'m \<Rightarrow> nat"
    and on_content :: "'m \<Rightarrow> data_content \<Rightarrow> 'm list"
  assumes message: "ready m \<Longrightarrow> 0 < room m \<Longrightarrow> on_content m (Data_Message b) = [accept m b]"
    and chunk_partial: "ready m \<Longrightarrow>
      Reassemble (reasm m) seq (ch_total_size k) (ch_offset k) (ch_data k) = Returns (r, None) \<Longrightarrow>
      on_content m (Data_Chunk k) = [put_reasm m r]"
    and chunk_full: "ready m \<Longrightarrow> 0 < room m \<Longrightarrow>
      Reassemble (reasm m) seq (ch_total_size k) (ch_offset k) (ch_data k) = Returns (r, Some b) \<Longrightarrow>
      on_content m (Data_Chunk k) = [accept (put_reasm m r) b]"
    and ready_put: "ready m \<Longrightarrow> ready (put_reasm m r)"
    and ready_accept: "ready m \<Longrightarrow> ready (accept m b)"
    and room_put: "room (put_reasm m r) = room m"
    and room_accept: "ready m \<Longrightarrow> 0 < room m \<Longrightarrow> room m = Suc (room (accept m b))"
    and reasm_put: "reasm (put_reasm m r) = r"
    and reasm_accept: "reasm (accept m b) = reasm m"
    and put_same: "put_reasm m (reasm m) = m"
    and put_put: "put_reasm (put_reasm m r) r' = put_reasm m r'"
    and put_accept: "put_reasm (accept m b) r = accept (put_reasm m r) b"
begin

lemma put_foldl: "put_reasm (foldl accept m bs) r = foldl accept (put_reasm m r) bs"
  by (induction bs arbitrary: m) (simp_all add: put_accept)

lemma consume_contents:
  "ready m \<Longrightarrow> receive_contents (reasm m) (map (Pair seq) cs) = Returns (r', out) \<Longrightarrow> length out \<le> room m \<Longrightarrow>
     finals on_content m cs = [put_reasm (foldl accept m (map snd out)) r']"
proof (induction cs arbitrary: m out)
  case Nil
  then show ?case by (auto simp: put_same)
next
  case (Cons c cs)
  from Cons.prems(2) obtain r1 out1 out2 where
    c: "receive_content (reasm m) seq c = Returns (r1, out1)" and
    cs: "receive_contents r1 (map (Pair seq) cs) = Returns (r', out2)" and
    out: "out = map (Pair seq) out1 @ out2"
    by (auto split: go.splits prod.splits)
  consider b where "c = Data_Message b" "out1 = [b]" "r1 = reasm m"
    | k where "c = Data_Chunk k" "out1 = []"
        "Reassemble (reasm m) seq (ch_total_size k) (ch_offset k) (ch_data k) = Returns (r1, None)"
    | k b where "c = Data_Chunk k" "out1 = [b]"
        "Reassemble (reasm m) seq (ch_total_size k) (ch_offset k) (ch_data k) = Returns (r1, Some b)"
    using c by (auto simp: receive_content_def split: data_content.splits go.splits option.splits)
  then show ?case
  proof cases
    case 1
    then have room: "0 < room m" using Cons.prems(3) out by simp
    have "finals on_content (accept m b) cs = [put_reasm (foldl accept (accept m b) (map snd out2)) r']"
      using Cons.prems 1 cs out room_accept [OF Cons.prems(1) room, of b]
      by (intro Cons.IH) (simp_all add: ready_accept reasm_accept)
    with 1 room Cons.prems(1) out show ?thesis by (simp add: message)
  next
    case 2
    then have "finals on_content (put_reasm m r1) cs = [put_reasm (foldl accept (put_reasm m r1) (map snd out2)) r']"
      using Cons.prems cs out by (intro Cons.IH) (simp_all add: ready_put reasm_put room_put)
    with 2 Cons.prems(1) out show ?thesis by (simp add: chunk_partial put_foldl put_put)
  next
    case 3
    then have room: "0 < room m" using Cons.prems(3) out by simp
    have "room m = Suc (room (accept (put_reasm m r1) b))"
      using room_accept [of "put_reasm m r1" b] room Cons.prems(1) by (simp add: room_put ready_put)
    then have "finals on_content (accept (put_reasm m r1) b) cs =
        [put_reasm (foldl accept (accept (put_reasm m r1) b) (map snd out2)) r']"
      using Cons.prems 3 cs out by (intro Cons.IH) (simp_all add: ready_accept ready_put reasm_accept reasm_put)
    with 3 room Cons.prems(1) out show ?thesis by (simp add: chunk_full put_foldl put_put put_accept)
  qed
qed

lemma consume_payload:
  assumes "ready m" and "0 < room m" and "length b < 2 ^ 31" and "needs_fresh (reasm m) seq (int (length b))"
  shows "finals on_content m (payload_contents b) =
    [put_reasm (accept m b) (if length b \<le> MessageMax then reasm m else (reasm m)(seq := None))]"
  using consume_contents [OF assms(1) receive_payload [OF assms(3,4)]] assms(2) by simp

end

section \<open>The server as a sink\<close>

definition server_ready :: "int \<Rightarrow> mux \<Rightarrow> bool" where
  "server_ready seq m \<longleftrightarrow> int32 seq = seq \<and> (\<exists>sid st. lookupStream m seq = Some (sid, st) \<and> ss_ctx st = None)"

definition server_accept :: "int \<Rightarrow> mux \<Rightarrow> bytes \<Rightarrow> mux" where
  "server_accept seq m b =
     (case lookupStream m seq of None \<Rightarrow> m
      | Some (sid, st) \<Rightarrow> set_stream m sid (st\<lparr>ss_inbound := ss_inbound st @ [b]\<rparr>))"

definition server_room :: "int \<Rightarrow> mux \<Rightarrow> nat" where
  "server_room seq m =
     (case lookupStream m seq of None \<Rightarrow> 0 | Some (sid, st) \<Rightarrow> inboundCap - length (ss_inbound st))"

lemma lookup_set_stream:
  "lookupStream m seq = Some (sid, st) \<Longrightarrow> lookupStream (set_stream m sid st') seq = Some (sid, st')"
  by (auto simp: lookupStream_def set_stream_def split: option.splits)

lemma lookup_reasm [simp]: "lookupStream (m\<lparr>mx_reasm := r\<rparr>) seq = lookupStream m seq"
  by (simp add: lookupStream_def split: option.split)

lemma reasm_set_stream:
  "mx_reasm (set_stream m sid st) = mx_reasm m"
  "(set_stream m sid st)\<lparr>mx_reasm := r\<rparr> = set_stream (m\<lparr>mx_reasm := r\<rparr>) sid st"
  by (simp_all add: set_stream_def)

interpretation server_sink: content_sink seq "server_ready seq" mx_reasm "\<lambda>m r. m\<lparr>mx_reasm := r\<rparr>"
  "server_accept seq" "server_room seq" "\<lambda>m c. deliverData m seq (Some (Some c))"
  for seq
proof
  show "deliverData m seq (Some (Some (Data_Message b))) = [server_accept seq m b]"
    if "server_ready seq m" "0 < server_room seq m" for m b
    using that by (auto simp: server_ready_def server_room_def server_accept_def deliverData_def deliverPayload_def)
  show "deliverData m seq (Some (Some (Data_Chunk k))) = [server_accept seq (m\<lparr>mx_reasm := r\<rparr>) b]"
    if "server_ready seq m" "0 < server_room seq m"
      "Reassemble (mx_reasm m) seq (ch_total_size k) (ch_offset k) (ch_data k) = Returns (r, Some b)" for m k r b
    using that by (auto simp: server_ready_def server_room_def server_accept_def deliverData_def deliverPayload_def)
qed (auto simp: server_ready_def server_room_def server_accept_def deliverData_def lookup_set_stream
    reasm_set_stream split: option.splits)

section \<open>The client as a sink\<close>

definition client_ready :: "int \<Rightarrow> nat \<Rightarrow> client \<Rightarrow> bool" where
  "client_ready seq sid c \<longleftrightarrow> int32 seq = seq \<and> (\<exists>cs. cl_heap c sid = Some cs \<and> \<not> cs_end cs)"

definition client_accept :: "nat \<Rightarrow> client \<Rightarrow> bytes \<Rightarrow> client" where
  "client_accept sid c b =
     (case cl_heap c sid of None \<Rightarrow> c
      | Some cs \<Rightarrow> set_cs c sid (cs\<lparr>cs_inbound := cs_inbound cs @ [\<lparr>ir_data = b, ir_err = None\<rparr>]\<rparr>))"

definition client_room :: "nat \<Rightarrow> client \<Rightarrow> nat" where
  "client_room sid c =
     (case cl_heap c sid of None \<Rightarrow> 0 | Some cs \<Rightarrow> respCap - length (cs_inbound cs))"

interpretation client_sink: content_sink seq "client_ready seq sid" cl_reasm "\<lambda>c r. c\<lparr>cl_reasm := r\<rparr>"
  "client_accept sid" "client_room sid" "\<lambda>c x. client_data c sid seq (Some (Some x))"
  for seq sid
  by unfold_locales
    (auto simp: client_ready_def client_room_def client_accept_def client_data_def client_deliver_def set_cs_def
      split: option.splits)

section \<open>What a half-closed call puts on the wire\<close>

definition request_inline :: "bytes \<Rightarrow> bytes option" where
  "request_inline req = (if length req \<le> InlineMax then append_nil req else None)"

definition request_frames ::
  "int \<Rightarrow> string \<Rightarrow> metadata option \<Rightarrow> call_ctx \<Rightarrow> bytes \<Rightarrow> frame list" where
  "request_frames seq method md ctx req =
     mk_frame seq (Frame_Call (Some (mk_call method md ctx (request_inline req))))
     # (if request_inline req = None
        then map (\<lambda>x. mk_frame seq (Frame_Data (Some (Some x)))) (payload_contents req) else [])
     @ [close_send_frame seq]"

lemma open_half_closed_sends:
  assumes "open_half_closed c method md ctx req = (c', sid)"
  shows "cl_sent c' = cl_sent c @ request_frames (snd (nextSeq (cl_seqAlloc c))) method md ctx req"
proof -
  have o: "cl_sent (fst (client_openStream c method)) = cl_sent c"
    "snd (snd (client_openStream c method)) = snd (nextSeq (cl_seqAlloc c))"
    by (simp_all add: client_openStream_def Let_def split: prod.splits)
  have w: "cl_sent (watchCancel c0 k) = cl_sent c0" for c0 k
    by (simp add: watchCancel_def set_cs_def split: option.splits)
  have s: "cl_sent (client_sendFrame c0 f) = cl_sent c0 @ [f]" for c0 f
    by (simp add: client_sendFrame_def)
  show ?thesis
    using assms o
    by (auto simp: open_half_closed_def request_frames_def request_inline_def sendPayload_def Let_def
        sent_foldl w s split: prod.splits if_splits)
qed

text \<open>The stream the call opened, as the caller finds it.\<close>

lemma open_half_closed_stream:
  assumes "open_half_closed c method md ctx req = (c', sid)"
  shows "\<exists>cs. cl_heap c' sid = Some cs \<and> cs_seq cs = snd (nextSeq (cl_seqAlloc c)) \<and> cs_inbound cs = []
      \<and> \<not> cs_end cs \<and> cs_header cs = Map.empty \<and> cs_trailer cs = Map.empty
    \<and> cl_streams c' (cs_seq cs) = Some sid \<and> cl_reasm c' = cl_reasm c"
proof -
  have f: "cl_heap (foldl client_sendFrame c0 fs) = cl_heap c0"
    "cl_streams (foldl client_sendFrame c0 fs) = cl_streams c0"
    "cl_reasm (foldl client_sendFrame c0 fs) = cl_reasm c0" for c0 fs
    by (induction fs arbitrary: c0) (simp_all add: client_sendFrame_def)
  show ?thesis
    using assms
    by (auto simp: open_half_closed_def client_openStream_def Let_def watchCancel_def set_cs_def sendPayload_def
        client_sendFrame_def newMetadataHolder_def f split: prod.splits)
qed

section \<open>A request reaches the server\<close>

definition accepted :: "server \<Rightarrow> method_desc \<Rightarrow> metadata option \<Rightarrow> int \<Rightarrow> mux \<Rightarrow> nat \<Rightarrow> server_stream \<Rightarrow> bool"
where
  "accepted s desc md timeout m sid st \<longleftrightarrow> lookupStream m (ss_seq st) = Some (sid, st)
     \<and> ss_incoming st = md \<and> ss_timeout st = timeout \<and> ss_prog st = Some (handler_chain s desc)
     \<and> ss_ctx st = None \<and> \<not> ss_headerSent st \<and> \<not> ss_hdrState st \<and> \<not> ss_waiting st \<and> ss_hdr st = Map.empty"

lemma call_accepted:
  assumes "live m" and "mx_streams m seq = None" and "int32 seq = seq"
    and "findMethod s method = Some desc"
  shows "\<exists>m1 st. handleFrame m s (mk_frame seq (Frame_Call (Some (mk_call method md ctx inl)))) = [m1]
      \<and> accepted s desc md (durationFromMs (deadline_ms ctx)) m1 (mx_next m) st \<and> ss_seq st = seq
      \<and> ss_inbound st = (case inl of None \<Rightarrow> [] | Some b \<Rightarrow> [b]) \<and> \<not> ss_halfClose st
      \<and> mx_out m1 = mx_out m \<and> live m1 \<and> mx_reasm m1 = mx_reasm m \<and> mx_crashed m1 = mx_crashed m"
proof -
  let ?tmo = "durationFromMs (deadline_ms ctx)"
  let ?st = "(newServerStream None ?tmo method desc seq)\<lparr>ss_incoming := md,
      ss_inbound := (case inl of None \<Rightarrow> [] | Some b \<Rightarrow> [b]), ss_prog := Some (handler_chain s desc)\<rparr>"
  let ?m = "set_stream (m\<lparr>mx_streams := (mx_streams m)(seq \<mapsto> mx_next m), mx_next := Suc (mx_next m)\<rparr>)
      (mx_next m) ?st"
  have ctx: "mx_ctx m = None" using assms(1) by (simp add: live_def)
  have "handleFrame m s (mk_frame seq (Frame_Call (Some (mk_call method md ctx inl)))) = [?m]"
    using assms(2-4) ctx
    by (cases inl) (simp_all add: handleFrame_def mk_frame_def openStream_def mk_call_def newServerStream_def
        inboundCap_def Let_def)
  moreover have "accepted s desc md ?tmo ?m (mx_next m) ?st"
    by (simp add: accepted_def lookupStream_def set_stream_def newServerStream_def newMetadataHolder_def)
  ultimately show ?thesis
    using assms(1)
    by (intro exI [of _ ?m] exI [of _ ?st])
      (simp add: newServerStream_def set_stream_def live_def)
qed

lemma close_send_accepted:
  assumes "accepted s desc md tmo m sid st" and "int32 (ss_seq st) = ss_seq st"
  shows "handleFrame m s (close_send_frame (ss_seq st)) = [set_stream m sid (st\<lparr>ss_halfClose := True\<rparr>)]
    \<and> accepted s desc md tmo (set_stream m sid (st\<lparr>ss_halfClose := True\<rparr>)) sid (st\<lparr>ss_halfClose := True\<rparr>)"
  using assms
  by (auto simp: accepted_def close_send_frame_def mk_frame_def handleFrame_def handleEnd_def
      lookup_set_stream)

lemma server_contents:
  assumes "int32 seq = seq"
  shows "finals (\<lambda>m f. handleFrame m s f) m (map (\<lambda>x. mk_frame seq (Frame_Data (Some (Some x)))) cs) =
    finals (\<lambda>m c. deliverData m seq (Some (Some c))) m cs"
  using assms by (simp add: finals_map handleFrame_def mk_frame_def)

lemma request_delivered:
  assumes m: "live m" "mx_streams m seq = None" "needs_fresh (mx_reasm m) seq (int (length req))"
    and s: "findMethod s method = Some desc"
    and seq: "int32 seq = seq" and req: "length req < 2 ^ 31"
  shows "\<exists>m' sid st. finals (\<lambda>m f. handleFrame m s f) m (request_frames seq method md ctx req) = [m']
    \<and> accepted s desc md (durationFromMs (deadline_ms ctx)) m' sid st \<and> ss_seq st = seq
    \<and> ss_inbound st = [req] \<and> ss_halfClose st \<and> mx_out m' = mx_out m \<and> live m'
    \<and> mx_crashed m' = mx_crashed m"
proof -
  let ?tmo = "durationFromMs (deadline_ms ctx)"
  let ?step = "\<lambda>m f. handleFrame m s f"
  obtain m1 st where m1:
    "?step m (mk_frame seq (Frame_Call (Some (mk_call method md ctx (request_inline req))))) = [m1]"
    "accepted s desc md ?tmo m1 (mx_next m) st" "ss_seq st = seq"
    "ss_inbound st = (case request_inline req of None \<Rightarrow> [] | Some b \<Rightarrow> [b])" "\<not> ss_halfClose st"
    "mx_out m1 = mx_out m" "live m1" "mx_reasm m1 = mx_reasm m" "mx_crashed m1 = mx_crashed m"
    using call_accepted [OF m(1,2) seq s] by blast
  let ?sid = "mx_next m"
  have "\<exists>m2 st2. finals ?step m1 (if request_inline req = None
        then map (\<lambda>x. mk_frame seq (Frame_Data (Some (Some x)))) (payload_contents req) else []) = [m2]
      \<and> accepted s desc md ?tmo m2 ?sid st2 \<and> ss_seq st2 = seq \<and> ss_inbound st2 = [req]
      \<and> mx_out m2 = mx_out m \<and> live m2 \<and> mx_crashed m2 = mx_crashed m"
  proof (cases "request_inline req")
    case (Some b)
    then have "b = req" by (auto simp: request_inline_def append_nil_def split: if_splits)
    with Some m1 show ?thesis by (intro exI [of _ m1] exI [of _ st]) simp
  next
    case None
    have l: "lookupStream m1 seq = Some (?sid, st)" "ss_ctx st = None"
      using m1(2,3) by (simp_all add: accepted_def)
    then have "server_ready seq m1" "0 < server_room seq m1"
      using seq None m1(4) by (simp_all add: server_ready_def server_room_def inboundCap_def)
    from server_sink.consume_payload [OF this req] m(3)
    have "finals (\<lambda>m c. deliverData m seq (Some (Some c))) m1 (payload_contents req) =
        [(server_accept seq m1 req)\<lparr>mx_reasm :=
           if length req \<le> MessageMax then mx_reasm m1 else (mx_reasm m1)(seq := None)\<rparr>]"
      by (simp add: m1(8))
    then have "finals ?step m1 (map (\<lambda>x. mk_frame seq (Frame_Data (Some (Some x)))) (payload_contents req)) =
        [set_stream (m1\<lparr>mx_reasm := if length req \<le> MessageMax then mx_reasm m1 else (mx_reasm m1)(seq := None)\<rparr>)
           ?sid (st\<lparr>ss_inbound := [req]\<rparr>)]"
      using None l m1(4) by (simp add: server_contents [OF seq] server_accept_def reasm_set_stream)
    with None m1 show ?thesis
      by (intro exI [of _ "set_stream (m1\<lparr>mx_reasm := if length req \<le> MessageMax then mx_reasm m1
              else (mx_reasm m1)(seq := None)\<rparr>) ?sid (st\<lparr>ss_inbound := [req]\<rparr>)"]
            exI [of _ "st\<lparr>ss_inbound := [req]\<rparr>"])
        (simp add: accepted_def lookup_set_stream, simp add: set_stream_def)
  qed
  then obtain m2 st2 where m2: "finals ?step m1 (if request_inline req = None
        then map (\<lambda>x. mk_frame seq (Frame_Data (Some (Some x)))) (payload_contents req) else []) = [m2]"
    "accepted s desc md ?tmo m2 ?sid st2" "ss_seq st2 = seq" "ss_inbound st2 = [req]"
    "mx_out m2 = mx_out m" "live m2" "mx_crashed m2 = mx_crashed m" by blast
  from close_send_accepted [OF m2(2)] seq m2(3)
  have "?step m2 (close_send_frame seq) = [set_stream m2 ?sid (st2\<lparr>ss_halfClose := True\<rparr>)]"
    "accepted s desc md ?tmo (set_stream m2 ?sid (st2\<lparr>ss_halfClose := True\<rparr>)) ?sid (st2\<lparr>ss_halfClose := True\<rparr>)"
    by simp_all
  with m1(1) m2 show ?thesis
    by (intro exI [of _ "set_stream m2 ?sid (st2\<lparr>ss_halfClose := True\<rparr>)"] exI [of _ ?sid]
          exI [of _ "st2\<lparr>ss_halfClose := True\<rparr>"])
      (simp add: request_frames_def set_stream_def)
qed

section \<open>The handler answers\<close>

text \<open>A unary handler: one message in, \<open>f\<close> of it out, status OK.\<close>

definition unary_handler :: "(bytes \<Rightarrow> bytes) \<Rightarrow> handler" where
  "unary_handler f = HRecv (\<lambda>r. case r of
     Inl e \<Rightarrow> HReturn (Some \<lparr>st_code = 13, st_message = error_string e\<rparr>)
   | Inr b \<Rightarrow> HSend (f b) (\<lambda>_. HReturn None))"

definition ok_end :: end_msg where
  "ok_end = \<lparr>e_close_send = False, e_status = Some \<lparr>st_code = 0, st_message = ''''\<rparr>, e_trailer = Some Map.empty\<rparr>"

definition response_frames :: "int \<Rightarrow> bytes \<Rightarrow> response_frame list" where
  "response_frames seq b =
     begin_frame seq Map.empty # map (data_frame seq) (payload_contents b) @ [end_frame seq ok_end]"

lemma lookup_heap: "lookupStream m seq = Some (sid, st) \<Longrightarrow> mx_streams m seq = Some sid \<and> mx_heap m sid = Some st"
  by (auto simp: lookupStream_def split: option.splits)

lemma handler_recv_step:
  assumes "mx_crashed m = None" and "lookupStream m (ss_seq st) = Some (sid, st)"
    and "ss_prog st = Some (HRecv k)" and "\<not> ss_waiting st" and "ss_inbound st = b # bs"
  shows "mux_outcomes s m (EvHandler sid) =
    [set_stream m sid (st\<lparr>ss_inbound := bs, ss_prog := Some (k (Inr b))\<rparr>)]"
  using assms lookup_heap [OF assms(2)] by (simp add: mux_outcomes_def handler_step_def Recv_poll_def)

lemma handler_send_step:
  assumes "mx_crashed m = None" and "live m" and "lookupStream m (ss_seq st) = Some (sid, st)"
    and "ss_prog st = Some (HSend b k)"
  shows "mux_outcomes s m (EvHandler sid) =
    [(set_stream m sid (st\<lparr>ss_headerSent := True, ss_prog := Some (k None), ss_waiting := False\<rparr>))
       \<lparr>mx_out := mx_out m @ lead st (ss_hdr st) @ map (data_frame (ss_seq st)) (payload_contents b)\<rparr>]"
  using Send_live [OF assms(2,3) refl, of b] assms lookup_heap [OF assms(3)]
  by (simp add: mux_outcomes_def handler_step_def set_prog_def set_stream_def)

lemma handler_return_step:
  assumes "mx_crashed m = None" and "live m" and "lookupStream m (ss_seq st) = Some (sid, st)"
    and "ss_prog st = Some (HReturn status)"
  shows "\<exists>m'. mux_outcomes s m (EvHandler sid) = [m'] \<and> mx_out m' = mx_out m @ lead st (ss_hdr st) @
    [end_frame (ss_seq st) \<lparr>e_close_send = False, e_status = Some (toProto status), e_trailer = Some (ss_hdr st)\<rparr>]"
  using endStream_live [OF assms(2,3) refl] assms lookup_heap [OF assms(3)]
  by (simp add: mux_outcomes_def handler_step_def finishHandler_def set_stream_def)

lemma lookup_out [simp]: "lookupStream (m\<lparr>mx_out := out\<rparr>) seq = lookupStream m seq"
  by (simp add: lookupStream_def split: option.split)

lemma crashed_set_stream [simp]: "mx_crashed (set_stream m sid st) = mx_crashed m" "mx_out (set_stream m sid st) = mx_out m"
  by (simp_all add: set_stream_def)

lemma unary_handler_answers:
  assumes acc: "accepted s desc md tmo m sid st" and live: "live m" and cr: "mx_crashed m = None"
    and h: "handler_chain s desc = unary_handler f" and inb: "ss_inbound st = [req]"
  shows "\<exists>m'. finals (mux_outcomes s) m [EvHandler sid, EvHandler sid, EvHandler sid] = [m']
    \<and> mx_out m' = mx_out m @ response_frames (ss_seq st) (f req)"
proof -
  let ?st1 = "st\<lparr>ss_inbound := [], ss_prog := Some (HSend (f req) (\<lambda>_. HReturn None))\<rparr>"
  let ?m1 = "set_stream m sid ?st1"
  let ?st2 = "?st1\<lparr>ss_headerSent := True, ss_prog := Some (HReturn None), ss_waiting := False\<rparr>"
  let ?m2 = "(set_stream ?m1 sid ?st2)\<lparr>mx_out := mx_out m @ begin_frame (ss_seq st) Map.empty
      # map (data_frame (ss_seq st)) (payload_contents (f req))\<rparr>"
  have l: "lookupStream m (ss_seq st) = Some (sid, st)" and st: "ss_prog st = Some (unary_handler f)"
    "\<not> ss_waiting st" "\<not> ss_headerSent st" "ss_hdr st = Map.empty"
    using acc h by (simp_all add: accepted_def)
  have l1: "lookupStream ?m1 (ss_seq ?st1) = Some (sid, ?st1)"
    using lookup_set_stream [OF l, of ?st1] by simp
  have l2: "lookupStream ?m2 (ss_seq ?st2) = Some (sid, ?st2)"
    using lookup_set_stream [OF l1, of ?st2] by simp
  have s1: "mux_outcomes s m (EvHandler sid) = [?m1]"
    using handler_recv_step [OF cr l _ st(2) inb, of _ s] st(1) by (simp add: unary_handler_def)
  have s2: "mux_outcomes s ?m1 (EvHandler sid) = [?m2]"
    using handler_send_step [of ?m1 ?st1 sid "f req" "\<lambda>_. HReturn None" s] cr live l1 st
    by (simp add: lead_def)
  obtain m3 where "mux_outcomes s ?m2 (EvHandler sid) = [m3]"
    "mx_out m3 = mx_out ?m2 @ [end_frame (ss_seq st) ok_end]"
    using handler_return_step [of ?m2 ?st2 sid None s] cr live l2 st
    by (auto simp: lead_def ok_end_def toProto_def)
  with s1 s2 show ?thesis by (simp add: response_frames_def)
qed

section \<open>A response reaches the caller\<close>

lemma client_data_frame:
  assumes "cl_streams c seq = Some sid" and "cl_heap c sid = Some cs" and "c1 \<in> set (client_data c sid seq x)"
  shows "cl_streams c1 seq = Some sid \<and> (\<exists>cs1. cl_heap c1 sid = Some cs1)"
proof -
  have "cl_streams c2 seq = Some sid \<and> (\<exists>cs1. cl_heap c2 sid = Some cs1)"
    if "c2 \<in> set (client_deliver c0 sid p)" "cl_streams c0 seq = Some sid" "cl_heap c0 sid = Some cs" for c0 c2 p
    using that by (auto simp: client_deliver_def set_cs_def split: if_splits)
  with assms show ?thesis
    by (auto simp: client_data_def split: option.splits data_content.splits go.splits prod.splits)
qed

lemma client_contents:
  "int32 seq = seq \<Longrightarrow> cl_streams c seq = Some sid \<Longrightarrow> cl_heap c sid = Some cs \<Longrightarrow>
     finals dispatch c (map (data_frame seq) xs) =
     finals (\<lambda>c x. client_data c sid seq (Some (Some x))) c xs"
proof (induction xs arbitrary: c cs)
  case Nil
  then show ?case by simp
next
  case (Cons x xs)
  have "dispatch c (data_frame seq x) = client_data c sid seq (Some (Some x))"
    using Cons.prems by (simp add: dispatch_def data_frame_def resp_frame_def)
  moreover have "finals dispatch c1 (map (data_frame seq) xs) =
      finals (\<lambda>c x. client_data c sid seq (Some (Some x))) c1 xs"
    if "c1 \<in> set (client_data c sid seq (Some (Some x)))" for c1
    using client_data_frame [OF Cons.prems(2,3) that] Cons.IH Cons.prems(1) by blast
  ultimately show ?case by (simp cong: map_cong)
qed

lemma response_delivered:
  assumes c: "cl_streams c seq = Some sid" "cl_heap c sid = Some cs" "cs_inbound cs = []" "\<not> cs_end cs"
    and seq: "int32 seq = seq"
    and b: "length b < 2 ^ 31" "needs_fresh (cl_reasm c) seq (int (length b))"
  shows "\<exists>c' cs'. finals dispatch c (response_frames seq b) = [c'] \<and> cl_heap c' sid = Some cs'
    \<and> cs_inbound cs' = [\<lparr>ir_data = b, ir_err = None\<rparr>] \<and> cs_end cs'
    \<and> cs_result cs' = \<lparr>er_status = status_OK, er_err = None\<rparr> \<and> cl_streams c' seq = None"
proof -
  let ?c1 = "set_cs c sid (cs\<lparr>cs_header := mergeIn (cs_header cs) Map.empty\<rparr>)"
  have s1: "dispatch c (begin_frame seq Map.empty) = [?c1]"
    using c seq by (simp add: dispatch_def begin_frame_def resp_frame_def)
  have c1: "cl_streams ?c1 seq = Some sid" "cl_reasm ?c1 = cl_reasm c"
    "cl_heap ?c1 sid = Some (cs\<lparr>cs_header := mergeIn (cs_header cs) Map.empty\<rparr>)"
    using c by (simp_all add: set_cs_def)
  then have "client_ready seq sid ?c1" "0 < client_room sid ?c1"
    using c seq by (simp_all add: client_ready_def client_room_def respCap_def)
  from client_sink.consume_payload [OF this b(1)] b(2) c1(2)
  obtain r where "finals dispatch ?c1 (map (data_frame seq) (payload_contents b)) =
      [(client_accept sid ?c1 b)\<lparr>cl_reasm := r\<rparr>]"
    using client_contents [OF seq c1(1,3)] by simp
  moreover have "\<exists>c3. dispatch ((client_accept sid ?c1 b)\<lparr>cl_reasm := r\<rparr>) (end_frame seq ok_end) = [c3]
      \<and> (\<exists>cs'. cl_heap c3 sid = Some cs' \<and> cs_inbound cs' = [\<lparr>ir_data = b, ir_err = None\<rparr>] \<and> cs_end cs'
        \<and> cs_result cs' = \<lparr>er_status = status_OK, er_err = None\<rparr>) \<and> cl_streams c3 seq = None"
    using c seq c1
    by (simp add: client_accept_def dispatch_def end_frame_def resp_frame_def client_end_def set_cs_def ok_end_def
        finish_cs_def status_Err_def status_OK_def)
  ultimately show ?thesis
    using s1 by (auto simp: response_frames_def)
qed

section \<open>Properties\<close>

lemma unary_results:
  assumes "cl_heap c sid = Some cs" and "cs_inbound cs = [\<lparr>ir_data = b, ir_err = None\<rparr>]" and "cs_end cs"
    and "cs_result cs = \<lparr>er_status = status_OK, er_err = None\<rparr>"
  shows "map snd (unary_step c sid None UnaryFirst) = [UnaryEnd b, UnaryDone None status_OK]"
    and "(c', UnaryEnd b) \<in> set (unary_step c sid None UnaryFirst) \<Longrightarrow>
      map snd (unary_step c' sid None (UnaryEnd b)) = [UnaryDone (Some b) status_OK]"
  using assms by (auto simp: unary_step_def Let_def set_cs_def)

text \<open>
  The two wires of a unary call: what it sends is accepted, and if the server answers \<open>resp\<close>, the caller's stream
  holds it.
\<close>

lemma unary_round:
  assumes "client_run NewClient evs c" and "unary_start c ctx path req = (c1, sid)"
    and "seq = snd (nextSeq (cl_seqAlloc c))"
    and "live m" and "mx_crashed m = None" and "mx_streams m seq = None" and "findMethod s path = Some desc"
    and "length req < 2 ^ 31" and "length resp < 2 ^ 31"
    and "needs_fresh (mx_reasm m) seq (int (length req))" and "needs_fresh (cl_reasm c) seq (int (length resp))"
  shows "\<exists>m1 hid st c2 md tmo.
      finals (\<lambda>m fr. handleFrame m s fr) m (drop (length (cl_sent c)) (cl_sent c1)) = [m1]
    \<and> accepted s desc md tmo m1 hid st \<and> ss_seq st = seq \<and> ss_inbound st = [req] \<and> ss_halfClose st
    \<and> mx_out m1 = mx_out m \<and> live m1 \<and> mx_crashed m1 = None
    \<and> finals dispatch c1 (response_frames seq resp) = [c2]
    \<and> map snd (unary_step c2 sid None UnaryFirst) = [UnaryEnd resp, UnaryDone None status_OK]
    \<and> (\<forall>c3. (c3, UnaryEnd resp) \<in> set (unary_step c2 sid None UnaryFirst) \<longrightarrow>
        map snd (unary_step c3 sid None (UnaryEnd resp)) = [UnaryDone (Some resp) status_OK])"
proof -
  let ?md = "map_option (\<lambda>h. metadataFromKV (Some h)) (OutgoingHeaderFromCtx ctx)"
  have opn: "open_half_closed c path ?md ctx req = (c1, sid)"
    using assms(2) by (simp add: unary_start_def)
  have "client_wf c"
    using client_run_keeps [OF assms(1) NewClient_wf] by (simp add: keeps_def)
  then have seq: "int32 seq = seq"
    using nextSeq_range [OF wf_alloc] int32_seq assms(3) by blast
  obtain m1 hid st where m1: "finals (\<lambda>m fr. handleFrame m s fr) m (request_frames seq path ?md ctx req) = [m1]"
    "accepted s desc ?md (durationFromMs (deadline_ms ctx)) m1 hid st" "ss_seq st = seq" "ss_inbound st = [req]"
    "ss_halfClose st" "mx_out m1 = mx_out m" "live m1" "mx_crashed m1 = None"
    using request_delivered [OF assms(4,6,10,7) seq assms(8)] assms(5) by force
  obtain cs where cs: "cl_heap c1 sid = Some cs" "cs_inbound cs = []" "\<not> cs_end cs"
    "cl_streams c1 seq = Some sid" "cl_reasm c1 = cl_reasm c"
    using open_half_closed_stream [OF opn] assms(3) by auto
  obtain c2 cs' where c2: "finals dispatch c1 (response_frames seq resp) = [c2]" "cl_heap c2 sid = Some cs'"
    "cs_inbound cs' = [\<lparr>ir_data = resp, ir_err = None\<rparr>]" "cs_end cs'"
    "cs_result cs' = \<lparr>er_status = status_OK, er_err = None\<rparr>"
    using response_delivered [OF cs(4,1-3) seq assms(9)] assms(11) cs(5) by auto
  have "finals (\<lambda>m fr. handleFrame m s fr) m (drop (length (cl_sent c)) (cl_sent c1)) = [m1]"
    using m1(1) open_half_closed_sends [OF opn] assms(3) by simp
  moreover have "\<forall>c3. (c3, UnaryEnd resp) \<in> set (unary_step c2 sid None UnaryFirst) \<longrightarrow>
      map snd (unary_step c3 sid None (UnaryEnd resp)) = [UnaryDone (Some resp) status_OK]"
    using unary_results(2) [OF c2(2-5)] by blast
  ultimately show ?thesis
    using m1(2-) c2(1) unary_results(1) [OF c2(2-5)] by (intro exI conjI) assumption+
qed

text \<open>
  C1: A unary call, end to end. Take any reachable client and any live server connection that does not
  use the sequence number, with a registered method whose handler answers \<open>f\<close> of its request. The frames
  the call puts on the wire, handled by the server in order, deliver the request to the handler as one
  message, whatever its size; three handler steps later the frames the server has produced, dispatched by
  the client, put exactly \<open>f req\<close> and status OK into the caller's stream. If the whole answer is there when
  the caller waits, its \<open>select\<close> may take the message, and then the call returns \<open>f req\<close> with OK; or it
  may take the end of the stream, and then the call returns no data with status OK.
\<close>

theorem unary_end_to_end:
  assumes "client_run NewClient evs c" and "unary_start c ctx method req = (c1, sid)"
    and "seq = snd (nextSeq (cl_seqAlloc c))"
    and "live m" and "mx_crashed m = None" and "mx_streams m seq = None"
    and "findMethod s method = Some desc" and "handler_chain s desc = unary_handler f"
    and "length req < 2 ^ 31" and "length (f req) < 2 ^ 31"
    and "needs_fresh (mx_reasm m) seq (int (length req))"
    and "needs_fresh (cl_reasm c) seq (int (length (f req)))"
  shows "\<exists>m1 hid m2 c2.
      finals (\<lambda>m fr. handleFrame m s fr) m (drop (length (cl_sent c)) (cl_sent c1)) = [m1]
    \<and> finals (mux_outcomes s) m1 [EvHandler hid, EvHandler hid, EvHandler hid] = [m2]
    \<and> finals dispatch c1 (drop (length (mx_out m)) (mx_out m2)) = [c2]
    \<and> map snd (unary_step c2 sid None UnaryFirst) = [UnaryEnd (f req), UnaryDone None status_OK]
    \<and> (\<forall>c3. (c3, UnaryEnd (f req)) \<in> set (unary_step c2 sid None UnaryFirst) \<longrightarrow>
        map snd (unary_step c3 sid None (UnaryEnd (f req))) = [UnaryDone (Some (f req)) status_OK])"
proof -
  obtain m1 hid st c2 md tmo where r: "finals (\<lambda>m fr. handleFrame m s fr) m (drop (length (cl_sent c)) (cl_sent c1)) = [m1]"
    "accepted s desc md tmo m1 hid st" "ss_seq st = seq" "ss_inbound st = [req]" "mx_out m1 = mx_out m" "live m1"
    "mx_crashed m1 = None" "finals dispatch c1 (response_frames seq (f req)) = [c2]"
    "map snd (unary_step c2 sid None UnaryFirst) = [UnaryEnd (f req), UnaryDone None status_OK]"
    "\<forall>c3. (c3, UnaryEnd (f req)) \<in> set (unary_step c2 sid None UnaryFirst) \<longrightarrow>
        map snd (unary_step c3 sid None (UnaryEnd (f req))) = [UnaryDone (Some (f req)) status_OK]"
    using unary_round [OF assms(1-7,9-12)] by (elim exE conjE) (rule that, assumption+)
  obtain m2 where m2: "finals (mux_outcomes s) m1 [EvHandler hid, EvHandler hid, EvHandler hid] = [m2]"
    "mx_out m2 = mx_out m @ response_frames seq (f req)"
    using unary_handler_answers [OF r(2,6,7) assms(8) r(4)] r(3,5) by auto
  then have "finals dispatch c1 (drop (length (mx_out m)) (mx_out m2)) = [c2]" using r(8) by simp
  with r(1,9,10) m2(1) show ?thesis by (intro exI conjI) assumption+
qed

lemma handler_chain_one [simp]:
  "handler_chain (one_method h) \<lparr>md_Method = ''/s/m'', md_Kind = MethodKindUnary, md_Handler = h\<rparr> = h"
  by (simp add: handler_chain_def one_method_def)

lemma demo_start:
  "unary_start NewClient demo_ctx ''/s/m'' req = (fst (unary_start NewClient demo_ctx ''/s/m'' req), 0)"
  by (simp add: prod_eq_iff unary_start_def open_half_closed_def client_openStream_def NewClient_def nextSeq_1 Let_def)

theorem unary_end_to_end_witness:
  "\<exists>m1 hid m2 c2.
      finals (\<lambda>m fr. handleFrame m (one_method (unary_handler rev)) fr) (newMultiplexer None)
        (drop (length (cl_sent NewClient)) (cl_sent (fst (unary_start NewClient demo_ctx ''/s/m'' [1, 2])))) = [m1]
    \<and> finals (mux_outcomes (one_method (unary_handler rev))) m1 [EvHandler hid, EvHandler hid, EvHandler hid] = [m2]
    \<and> finals dispatch (fst (unary_start NewClient demo_ctx ''/s/m'' [1, 2]))
        (drop (length (mx_out (newMultiplexer None))) (mx_out m2)) = [c2]
    \<and> map snd (unary_step c2 0 None UnaryFirst) = [UnaryEnd (rev [1, 2]), UnaryDone None status_OK]
    \<and> (\<forall>c3. (c3, UnaryEnd (rev [1, 2])) \<in> set (unary_step c2 0 None UnaryFirst) \<longrightarrow>
        map snd (unary_step c3 0 None (UnaryEnd (rev [1, 2]))) = [UnaryDone (Some (rev [1, 2])) status_OK])"
  by (rule unary_end_to_end [OF run_nil demo_start refl, where
        desc = "\<lparr>md_Method = ''/s/m'', md_Kind = MethodKindUnary, md_Handler = unary_handler rev\<rparr>"])
    (simp_all add: live_def newMultiplexer_def findMethod_def one_method_def needs_fresh_def
      NewReassembler_def NewClient_def handler_chain_def)

lemma int32_wrap: "2 ^ 31 \<le> n \<Longrightarrow> n < 2 ^ 32 \<Longrightarrow> int32 n = n - 2 ^ 32"
proof -
  assume n: "2 ^ 31 \<le> n" "n < 2 ^ 32"
  have "int32 n = (n + 2 ^ 31) mod 2 ^ 32 - 2 ^ 31"
    by (simp add: int32_def signed_take_bit_eq_take_bit_shift take_bit_eq_mod)
  also have "(n + 2 ^ 31) mod 2 ^ 32 = n + 2 ^ 31 - 2 ^ 32"
    using n by (subst mod_pos_geq) (simp_all add: mod_pos_pos_trivial)
  finally show ?thesis by simp
qed

text \<open>
  C9: Deadlines across the wire. A caller with \<open>ms\<close> milliseconds left opens a server stream with that
  very timeout when \<open>0 < ms < 2 ^ 31\<close>. With less than a millisecond left, with the deadline already
  passed, and with \<open>2 ^ 31 \<le> ms < 2 ^ 32\<close> (24.9 to 49.7 days) the server runs the handler without any
  timeout.
\<close>

theorem deadline_on_server:
  assumes "live m" and "mx_streams m seq = None" and "int32 seq = seq" and "findMethod s method = Some desc"
    and "cc_until_ms ctx = Some ms"
  shows "\<exists>m1 st. handleFrame m s (mk_frame seq (Frame_Call (Some (mk_call method md ctx inl)))) = [m1]
    \<and> lookupStream m1 seq = Some (mx_next m, st)
    \<and> (0 < ms \<and> ms < 2 ^ 31 \<longrightarrow> ss_timeout st = ms * 1000000)
    \<and> (- (2 ^ 31) \<le> ms \<and> ms \<le> 0 \<or> 2 ^ 31 \<le> ms \<and> ms < 2 ^ 32 \<longrightarrow>
        ss_timeout st = 0 \<and> expire m1 (mx_next m) = [])"
proof -
  obtain m1 st where m1: "handleFrame m s (mk_frame seq (Frame_Call (Some (mk_call method md ctx inl)))) = [m1]"
    "accepted s desc md (durationFromMs (deadline_ms ctx)) m1 (mx_next m) st" "ss_seq st = seq"
    using call_accepted [OF assms(1-4)] by blast
  then have st: "lookupStream m1 seq = Some (mx_next m, st)" "ss_timeout st = durationFromMs (int32 ms)"
    using assms(5) by (simp_all add: accepted_def deadline_ms_def)
  have "ss_timeout st = ms * 1000000" if "0 < ms" "ms < 2 ^ 31"
    using that st(2) by (simp add: int32_id durationFromMs_def)
  moreover have "ss_timeout st = 0" if "- (2 ^ 31) \<le> ms \<and> ms \<le> 0 \<or> 2 ^ 31 \<le> ms \<and> ms < 2 ^ 32"
    using that st(2) int32_id [of ms] int32_wrap [of ms] by (auto simp: durationFromMs_def)
  moreover have "expire m1 (mx_next m) = []" if "ss_timeout st = 0"
    using that lookup_heap [OF st(1)] by (simp add: expire_def)
  ultimately show ?thesis using m1(1) st(1) by blast
qed

theorem deadline_on_server_witness:
  "\<exists>m1 st. handleFrame (newMultiplexer None) (one_method (unary_handler rev))
       (mk_frame 3 (Frame_Call (Some (mk_call ''/s/m'' None \<lparr>cc_outgoing = None, cc_until_ms = Some 3000000000\<rparr> None)))) = [m1]
    \<and> lookupStream m1 3 = Some (0, st) \<and> ss_timeout st = 0"
  using deadline_on_server [of "newMultiplexer None" 3 "one_method (unary_handler rev)" "''/s/m''" _
      "\<lparr>cc_outgoing = None, cc_until_ms = Some 3000000000\<rparr>" 3000000000 None None]
  by (auto simp: live_def newMultiplexer_def int32_id findMethod_def one_method_def)

end
