(* ===== verification/Rpc_Server_Laws.thy ===== *)
theory Rpc_Server_Laws
  imports Rpc_Server_Trace
begin

text \<open>
  More laws of the server: registration, the exit of the serve loop, which interceptors run, sequence
  numbers that are reused, metadata, and the order of messages and half-close at a handler.
\<close>

section \<open>Registration\<close>

definition paths :: "service_desc \<Rightarrow> string list" where
  "paths desc = map (\<lambda>m. method_path (sd_ServiceName desc) (md_Method m)) (sd_Methods desc)"

lemma register_loop_iff:
  "register_loop s service ms = Returns s' \<longleftrightarrow>
     distinct (map (\<lambda>m. method_path service (md_Method m)) ms)
     \<and> (\<forall>m \<in> set ms. sv_methods s (method_path service (md_Method m)) = None)
     \<and> s' = s\<lparr>sv_methods := sv_methods s ++ map_of (map (\<lambda>m.
           (method_path service (md_Method m), m\<lparr>md_Method := method_path service (md_Method m)\<rparr>)) ms)\<rparr>"
proof (induction ms arbitrary: s)
  case Nil
  then show ?case by auto
next
  case (Cons m ms)
  let ?p = "method_path service (md_Method m)"
  let ?q = "\<lambda>m. method_path service (md_Method m)"
  let ?kv = "map (\<lambda>m. (?q m, m\<lparr>md_Method := ?q m\<rparr>)) ms"
  have dom: "dom (map_of ?kv) = ?q ` set ms"
    by (simp add: dom_map_of_conv_image_fst image_image)
  let ?s = "s\<lparr>sv_methods := (sv_methods s)(?p \<mapsto> m\<lparr>md_Method := ?p\<rparr>)\<rparr>"
  show ?case
  proof (cases "sv_methods s ?p = None \<and> ?p \<notin> ?q ` set ms")
    case True
    have "sv_methods ?s ++ map_of ?kv = sv_methods s ++ map_of ((?p, m\<lparr>md_Method := ?p\<rparr>) # ?kv)"
      using True dom by (auto simp: fun_eq_iff map_add_def dom_def split: option.splits)
    then have "?s\<lparr>sv_methods := sv_methods ?s ++ map_of ?kv\<rparr> =
        s\<lparr>sv_methods := sv_methods s ++ map_of ((?p, m\<lparr>md_Method := ?p\<rparr>) # ?kv)\<rparr>" by simp
    moreover have "(\<forall>m' \<in> set ms. sv_methods ?s (?q m') = None) \<longleftrightarrow> (\<forall>m' \<in> set (m # ms). sv_methods s (?q m') = None)"
      using True by (simp add: image_iff) metis
    moreover have "distinct (map ?q (m # ms)) \<longleftrightarrow> distinct (map ?q ms)"
      using True by simp
    moreover have "register_loop s service (m # ms) = register_loop ?s service ms"
      using True by (simp add: Let_def)
    ultimately show ?thesis
      by (simp only: Cons.IH list.map)
  next
    case False
    then show ?thesis
      using Cons.IH [of ?s] by (auto simp: Let_def)
  qed
qed

text \<open>
  C8: Registering a service. \<open>RegisterService\<close> returns exactly when its methods have distinct paths
  none of which is registered, and panics otherwise; then every method is found under
  \<open>/ServiceName/Method\<close> with that path as its name, and every other path is found as before.
\<close>

theorem RegisterService_correct:
  "(case RegisterService s desc of
      Panics _ \<Rightarrow> \<not> (distinct (paths desc) \<and> (\<forall>p \<in> set (paths desc). findMethod s p = None))
    | Returns s' \<Rightarrow> distinct (paths desc) \<and> (\<forall>p \<in> set (paths desc). findMethod s p = None)
        \<and> (\<forall>m \<in> set (sd_Methods desc). findMethod s' (method_path (sd_ServiceName desc) (md_Method m)) =
            Some (m\<lparr>md_Method := method_path (sd_ServiceName desc) (md_Method m)\<rparr>))
        \<and> (\<forall>p. p \<notin> set (paths desc) \<longrightarrow> findMethod s' p = findMethod s p)
        \<and> sv_streamInterceptors s' = sv_streamInterceptors s)"
proof (cases "RegisterService s desc")
  case (Panics e)
  have "register_loop s (sd_ServiceName desc) (sd_Methods desc) \<noteq> Returns s'" for s'
    using Panics by (simp add: RegisterService_def)
  then show ?thesis
    unfolding register_loop_iff by (auto simp: Panics paths_def findMethod_def)
next
  case (Returns s')
  let ?q = "\<lambda>m. method_path (sd_ServiceName desc) (md_Method m)"
  let ?kv = "map (\<lambda>m. (?q m, m\<lparr>md_Method := ?q m\<rparr>)) (sd_Methods desc)"
  have r: "distinct (map ?q (sd_Methods desc))" "\<forall>m \<in> set (sd_Methods desc). sv_methods s (?q m) = None"
    "s' = s\<lparr>sv_methods := sv_methods s ++ map_of ?kv\<rparr>"
    using Returns by (simp_all add: RegisterService_def register_loop_iff)
  have d: "distinct (map fst ?kv)" using r(1) by (simp add: comp_def)
  have "map_of ?kv (?q m) = Some (m\<lparr>md_Method := ?q m\<rparr>)" if "m \<in> set (sd_Methods desc)" for m
    using that by (intro map_of_is_SomeI [OF d]) auto
  moreover have "map_of ?kv p = None" if "p \<notin> set (paths desc)" for p
    using that by (auto simp: map_of_eq_None_iff paths_def)
  ultimately show ?thesis
    using r by (simp add: Returns findMethod_def paths_def map_add_def)
qed

theorem RegisterService_correct_witness:
  "\<exists>s'. RegisterService (NewServer []) \<lparr>sd_ServiceName = ''s'', sd_Methods =
       [\<lparr>md_Method = ''m'', md_Kind = MethodKindUnary, md_Handler = HReturn None\<rparr>]\<rparr> = Returns s'
     \<and> findMethod s' ''/s/m'' =
         Some \<lparr>md_Method = ''/s/m'', md_Kind = MethodKindUnary, md_Handler = HReturn None\<rparr>"
proof -
  let ?d = "\<lparr>sd_ServiceName = ''s'', sd_Methods =
      [\<lparr>md_Method = ''m'', md_Kind = MethodKindUnary, md_Handler = HReturn None\<rparr>]\<rparr>"
  obtain s' where s': "RegisterService (NewServer []) ?d = Returns s'"
    by (simp add: RegisterService_def NewServer_def Let_def)
  with RegisterService_correct [where s = "NewServer []" and desc = ?d] show ?thesis by (simp add: method_path_def)
qed

lemma method_path_inject [simp]: "method_path n a = method_path n b \<longleftrightarrow> a = b"
  by (simp add: method_path_def)

lemma register_finds:
  assumes "RegisterService s desc = Returns s'" and "m \<in> set (sd_Methods desc)"
  shows "findMethod s' (method_path (sd_ServiceName desc) (md_Method m)) =
    Some (m\<lparr>md_Method := method_path (sd_ServiceName desc) (md_Method m)\<rparr>)"
proof -
  let ?q = "\<lambda>m. method_path (sd_ServiceName desc) (md_Method m)"
  let ?kv = "map (\<lambda>m. (?q m, m\<lparr>md_Method := ?q m\<rparr>)) (sd_Methods desc)"
  have r: "distinct (map ?q (sd_Methods desc))" "s' = s\<lparr>sv_methods := sv_methods s ++ map_of ?kv\<rparr>"
    using assms(1) by (simp_all add: RegisterService_def register_loop_iff)
  then have "distinct (map fst ?kv)" by (simp add: comp_def)
  with assms(2) have "map_of ?kv (?q m) = Some (m\<lparr>md_Method := ?q m\<rparr>)" by (intro map_of_is_SomeI) auto
  with r show ?thesis by (simp add: findMethod_def map_add_def)
qed

lemma register_interceptors:
  "RegisterService s desc = Returns s' \<Longrightarrow> sv_streamInterceptors s' = sv_streamInterceptors s"
  by (simp add: RegisterService_def register_loop_iff)

section \<open>The serve loop\<close>

text \<open>
  \<open>Serve\<close> never returns nil. Whatever ends the loop, a closed channel or a done context, the error
  of \<open>Recv\<close> is neither \<open>io.EOF\<close> nor \<open>io.ErrClosedPipe\<close> itself (the close reason is wrapped), so the
  comparisons with \<open>==\<close> fail and \<open>Serve\<close> returns that error, also after a graceful close.
\<close>

theorem Serve_never_returns_nil:
  "Exited None m' \<notin> set (serve_round unmarshal s ctx ch m)"
  by (auto simp: serve_round_def serve_exit_def isClosed_def Recv_def wrap_closeErr_def
      split: option.splits if_splits sum.splits)

section \<open>Interceptors\<close>

lemma handler_chain_unary: "handler_chain (s\<lparr>sv_unaryInterceptors := u\<rparr>) desc = handler_chain s desc"
  by (simp add: handler_chain_def)

lemma openStream_unary: "openStream m (s\<lparr>sv_unaryInterceptors := u\<rparr>) seq c = openStream m s seq c"
  by (auto simp: openStream_def findMethod_def handler_chain_unary Let_def split: option.split)

lemma handleFrame_unary: "handleFrame m (s\<lparr>sv_unaryInterceptors := u\<rparr>) f = handleFrame m s f"
  by (simp add: handleFrame_def openStream_unary Let_def cong: option.case_cong frame_type.case_cong)

text \<open>
  Unary server interceptors have no effect. A server with any chain of them behaves on every event
  exactly as one without: only the stream interceptors wrap the handler, outermost first.
\<close>

theorem unary_interceptors_ignored:
  "mux_outcomes (s\<lparr>sv_unaryInterceptors := u\<rparr>) m ev = mux_outcomes s m ev
    \<and> handler_chain (s\<lparr>sv_streamInterceptors := i # is\<rparr>) desc =
        i () () \<lparr>info_Method = md_Method desc, info_Kind = md_Kind desc\<rparr>
          (\<lambda>_ _. handler_chain (s\<lparr>sv_streamInterceptors := is\<rparr>) desc)"
  by (cases ev)
    (simp_all add: mux_outcomes_def handleFrame_unary handler_chain_def chain_foldr)

section \<open>Sequence numbers that are reused\<close>

text \<open>
  A second Call on a sequence number that is in use. It is refused with INTERNAL, but on the
  wire of the stream that is running: the running stream loses its entry, the client sees its End, its
  handler is neither cancelled nor told, and its next \<open>Send\<close> fails with \<open>io.ErrClosedPipe\<close>.
\<close>

theorem duplicate_call_ends_original:
  assumes "mux_inv used m" and "lookupStream m seq = Some (sid, st)"
    and "findMethod s (c_method c) = Some desc"
  shows "\<exists>m'. openStream m s seq (Some c) = [m']
    \<and> mx_out m' = mx_out m @ lead st (ss_hdr st) @ [end_frame seq (status_end 13 ''rpc: duplicate sequence'')]
    \<and> lookupStream m' seq = None
    \<and> (\<exists>st'. mx_heap m' sid = Some st' \<and> ss_ctx st' = ss_ctx st \<and> ss_prog st' = ss_prog st)
    \<and> Send m' st b = [(m', Some ErrClosedPipe)]"
proof -
  have st: "mx_streams m seq = Some sid" "mx_heap m sid = Some st" "ss_seq st = seq"
    using lookup_inv [OF assms(1,2)] by simp_all
  let ?m = "(set_stream m sid (st\<lparr>ss_headerSent := True\<rparr>))\<lparr>mx_streams := (mx_streams m)(seq := None),
      mx_out := mx_out m @ lead st (ss_hdr st) @ [end_frame seq (status_end 13 ''rpc: duplicate sequence'')]\<rparr>"
  have "openStream m s seq (Some c) = [?m]"
    using endStream_live [OF inv_live [OF assms(1)] assms(2) st(3)] assms(3) st(1)
    by (simp add: openStream_def)
  moreover have l: "lookupStream ?m seq = None"
    by (simp add: lookupStream_def)
  moreover have "Send ?m st b = [(?m, Some ErrClosedPipe)]"
    by (rule Send_detached) (simp add: st(3) l)
  ultimately show ?thesis by (auto simp: set_stream_def)
qed

definition parked :: handler where
  "parked = HRecv (\<lambda>_. HReturn None)"

lemma parked_run:
  "\<exists>m st. play (mux_outcomes (one_method parked)) (newMultiplexer None) [(EvFrame (call_frame 3 None), 0)] = Some m
     \<and> lookupStream m 3 = Some (0, st)"
  by (simp add: run_eval Let_def)

theorem duplicate_call_ends_original_witness:
  "\<exists>m m' sid st. lookupStream m 3 = Some (sid, st)
     \<and> openStream m (one_method parked) 3 (Some \<lparr>c_method = ''/s/m'', c_metadata = None, c_deadline_ms = 0,
         c_inline_data = None, c_protocol_version = 1\<rparr>) = [m']
     \<and> Send m' st [1] = [(m', Some ErrClosedPipe)]"
proof -
  obtain m st where m: "play (mux_outcomes (one_method parked)) (newMultiplexer None)
      [(EvFrame (call_frame 3 None), 0)] = Some m" and l: "lookupStream m 3 = Some (0, st)"
    using parked_run by blast
  have "orderly [EvFrame (call_frame 3 None)]"
    by (simp add: orderly_def call_seqs_def call_frame_def int32_id)
  then have inv: "mux_inv (set (call_seqs [EvFrame (call_frame 3 None)])) m"
    using mux_run_inv [OF play_runs [OF m]] by simp
  show ?thesis
    using duplicate_call_ends_original [OF inv l, of "one_method parked"
        "\<lparr>c_method = ''/s/m'', c_metadata = None, c_deadline_ms = 0, c_inline_data = None, c_protocol_version = 1\<rparr>"
        _ "[1]"] l
    by (simp add: findMethod_def one_method_def) blast
qed

section \<open>Messages and half-close\<close>

text \<open>
  A half-close can overtake a message. There is a run in which the client's message is delivered to
  the handler's queue before its half-close is handled, and the handler's pending \<open>Recv\<close> still reports
  \<open>io.EOF\<close> while the message stays in the queue: the second \<open>select\<close> of \<open>Recv\<close> has both cases ready.
\<close>

definition eof_handler :: handler where
  "eof_handler = HRecv (\<lambda>r. HReturn (case r of
     Inl e \<Rightarrow> Some \<lparr>st_code = 13, st_message = error_string e\<rparr> | Inr _ \<Rightarrow> None))"

definition overtake_run :: "(mux_event \<times> nat) list" where
  "overtake_run =
     [(EvFrame (call_frame 3 None), 0), (EvHandler 0, 0),
      (EvFrame \<lparr>f_routing = Some 3, f_type = Some (Frame_Data (Some (Some (Data_Message [7]))))\<rparr>, 0),
      (EvFrame \<lparr>f_routing = Some 3, f_type = Some (Frame_End (Some
         \<lparr>e_close_send = True, e_status = None, e_trailer = None\<rparr>))\<rparr>, 0),
      (EvHandler 0, 1)]"

theorem Recv_EOF_overtakes_message:
  "\<exists>m st. mux_run (one_method eof_handler) (newMultiplexer None) (map fst overtake_run) m
     \<and> mx_heap m 0 = Some st \<and> ss_inbound st = [[7]]
     \<and> ss_prog st = Some (HReturn (Some \<lparr>st_code = 13, st_message = ''EOF''\<rparr>))"
proof -
  have "\<exists>m st. play (mux_outcomes (one_method eof_handler)) (newMultiplexer None) overtake_run = Some m
     \<and> mx_heap m 0 = Some st \<and> ss_inbound st = [[7]]
     \<and> ss_prog st = Some (HReturn (Some \<lparr>st_code = 13, st_message = ''EOF''\<rparr>))"
    by (simp add: overtake_run_def eof_handler_def run_eval Let_def durationFromMs_def deliverData_def
        deliverPayload_def handleEnd_def)
  then show ?thesis by (meson play_runs)
qed

end
