(* ===== verification/Rendezvous.thy ===== *)
theory Rendezvous
  imports Go_Prelude
begin

text \<open>
  The registry of services and peers that \<open>signalserver/store/memory.go\<close> and \<open>signal/local.go\<close> both
  keep: a map from service names to service objects, each with its own map from peer ids to peer
  objects, each with a buffered inbox channel. Objects are heap cells, because a handle keeps its
  pointer after the map entry is gone. Every function here is one critical section of the code.

  The locale \<open>rendezvous\<close> is the contract both backends promise (the comment of \<open>signal.Backend\<close>):
  what joining, leaving and sending do to the inboxes of the members.
\<close>

section \<open>State\<close>

record 'm peer_obj =
  po_id :: string
  po_service :: string
  po_inbox :: "'m list"
  po_closed :: bool

type_synonym 'm peer_heap = "nat \<Rightarrow> 'm peer_obj option"
type_synonym members = "(string \<times> nat) list"

record 'm registry =
  rg_services :: "string \<rightharpoonup> nat"
  rg_svcs :: "nat \<Rightarrow> members"
  rg_peers :: "'m peer_heap"
  rg_nextSvc :: nat
  rg_nextPeer :: nat

definition inboxCap :: nat where "inboxCap = 32"

definition empty_registry :: "'m registry" where
  "empty_registry = \<lparr>rg_services = Map.empty, rg_svcs = (\<lambda>_. []), rg_peers = (\<lambda>_. None),
     rg_nextSvc = 0, rg_nextPeer = 0\<rparr>"

section \<open>Critical sections\<close>

text \<open>Look the service up, creating an empty one.\<close>

definition service_for :: "'m registry \<Rightarrow> string \<Rightarrow> 'm registry \<times> nat" where
  "service_for r name =
     (case rg_services r name of
        Some svc \<Rightarrow> (r, svc)
      | None \<Rightarrow>
          (r\<lparr>rg_services := (rg_services r)(name \<mapsto> rg_nextSvc r),
             rg_svcs := (rg_svcs r)(rg_nextSvc r := []),
             rg_nextSvc := Suc (rg_nextSvc r)\<rparr>, rg_nextSvc r))"

definition add_peer :: "'m registry \<Rightarrow> nat \<Rightarrow> string \<Rightarrow> string \<Rightarrow> 'm registry \<times> nat" where
  "add_peer r svc name pid =
     (let po = rg_nextPeer r
      in (r\<lparr>rg_svcs := (rg_svcs r)(svc := (pid, po) # rg_svcs r svc),
            rg_peers := (rg_peers r)(po := Some \<lparr>po_id = pid, po_service = name, po_inbox = [], po_closed = False\<rparr>),
            rg_nextPeer := Suc po\<rparr>, po))"

definition remove_peer :: "'m registry \<Rightarrow> nat \<Rightarrow> string \<Rightarrow> 'm registry" where
  "remove_peer r svc pid = r\<lparr>rg_svcs := (rg_svcs r)(svc := AList.delete pid (rg_svcs r svc))\<rparr>"

text \<open>Closing guarded by the flag, so that it happens once.\<close>

definition close_inbox :: "'m registry \<Rightarrow> nat \<Rightarrow> 'm registry" where
  "close_inbox r po =
     (case rg_peers r po of
        None \<Rightarrow> r
      | Some p \<Rightarrow> if po_closed p then r
                  else r\<lparr>rg_peers := (rg_peers r)(po := Some (p\<lparr>po_closed := True\<rparr>))\<rparr>)"

definition gc_service :: "'m registry \<Rightarrow> string \<Rightarrow> 'm registry" where
  "gc_service r name =
     (case rg_services r name of
        None \<Rightarrow> r
      | Some svc \<Rightarrow> if length (rg_svcs r svc) = 0
                    then r\<lparr>rg_services := (rg_services r)(name := None)\<rparr> else r)"

definition enq :: "'m \<Rightarrow> 'm list \<Rightarrow> 'm list" where
  "enq m q = (if length q < inboxCap then q @ [m] else q)"

text \<open>The broadcasting loop; sending on a closed channel panics, also in a \<open>select\<close> with default.\<close>

fun broadcast_loop :: "'m peer_heap \<Rightarrow> string \<Rightarrow> 'm \<Rightarrow> members \<Rightarrow> 'm peer_heap go" where
  "broadcast_loop h sender m [] = Returns h"
| "broadcast_loop h sender m ((pid, po) # ps) =
     (if pid = sender then broadcast_loop h sender m ps
      else case h po of
             None \<Rightarrow> broadcast_loop h sender m ps
           | Some p \<Rightarrow> if po_closed p then Panics ''send on closed channel''
                       else broadcast_loop (h(po := Some (p\<lparr>po_inbox := enq m (po_inbox p)\<rparr>))) sender m ps)"

definition broadcast_svc :: "'m registry \<Rightarrow> nat \<Rightarrow> string \<Rightarrow> 'm \<Rightarrow> 'm registry go" where
  "broadcast_svc r svc sender m =
     (case broadcast_loop (rg_peers r) sender m (rg_svcs r svc) of
        Panics e \<Rightarrow> Panics e
      | Returns h \<Rightarrow> Returns (r\<lparr>rg_peers := h\<rparr>))"

section \<open>Well-formed registries\<close>

definition member_of :: "'m registry \<Rightarrow> nat \<Rightarrow> string \<Rightarrow> nat \<Rightarrow> bool" where
  "member_of r svc pid po \<longleftrightarrow> (pid, po) \<in> set (rg_svcs r svc)"

text \<open>
  Every member is an open peer object of that id, belongs to one service only, and the ids of a service
  are distinct; names lead to allocated services, different names to different ones.
\<close>

definition reg_wf :: "'m registry \<Rightarrow> bool" where
  "reg_wf r \<longleftrightarrow>
     (\<forall>svc pid po. member_of r svc pid po \<longrightarrow> svc < rg_nextSvc r \<and> po < rg_nextPeer r
        \<and> (\<exists>p. rg_peers r po = Some p \<and> \<not> po_closed p \<and> po_id p = pid))
     \<and> (\<forall>svc svc' pid pid' po. member_of r svc pid po \<longrightarrow> member_of r svc' pid' po \<longrightarrow> svc = svc' \<and> pid = pid')
     \<and> (\<forall>svc. distinct (map fst (rg_svcs r svc)))
     \<and> (\<forall>name svc. rg_services r name = Some svc \<longrightarrow> svc < rg_nextSvc r)
     \<and> inj_on (rg_services r) (dom (rg_services r))
     \<and> (\<forall>po p. rg_peers r po = Some p \<longrightarrow> po < rg_nextPeer r)"

lemma reg_wfD:
  assumes "reg_wf r"
  shows wf_member: "member_of r svc pid po \<Longrightarrow> svc < rg_nextSvc r \<and> po < rg_nextPeer r
        \<and> (\<exists>p. rg_peers r po = Some p \<and> \<not> po_closed p \<and> po_id p = pid)"
    and wf_unique: "member_of r svc pid po \<Longrightarrow> member_of r svc' pid' po \<Longrightarrow> svc = svc' \<and> pid = pid'"
    and wf_distinct: "distinct (map fst (rg_svcs r svc))"
    and wf_names: "rg_services r name = Some svc \<Longrightarrow> svc < rg_nextSvc r"
    and wf_inj: "rg_services r n1 = Some svc \<Longrightarrow> rg_services r n2 = Some svc \<Longrightarrow> n1 = n2"
    and wf_heap: "rg_peers r po = Some p \<Longrightarrow> po < rg_nextPeer r"
  using assms unfolding reg_wf_def inj_on_def dom_def by auto

lemma reg_wfI:
  assumes "\<And>svc pid po. member_of r svc pid po \<Longrightarrow> svc < rg_nextSvc r \<and> po < rg_nextPeer r
        \<and> (\<exists>p. rg_peers r po = Some p \<and> \<not> po_closed p \<and> po_id p = pid)"
    and "\<And>svc svc' pid pid' po. member_of r svc pid po \<Longrightarrow> member_of r svc' pid' po \<Longrightarrow> svc = svc' \<and> pid = pid'"
    and "\<And>svc. distinct (map fst (rg_svcs r svc))"
    and "\<And>name svc. rg_services r name = Some svc \<Longrightarrow> svc < rg_nextSvc r"
    and "\<And>n1 n2 svc. rg_services r n1 = Some svc \<Longrightarrow> rg_services r n2 = Some svc \<Longrightarrow> n1 = n2"
    and "\<And>po p. rg_peers r po = Some p \<Longrightarrow> po < rg_nextPeer r"
  shows "reg_wf r"
  using assms unfolding reg_wf_def inj_on_def dom_def by (intro conjI allI impI) auto

lemma empty_registry_wf: "reg_wf empty_registry"
  by (simp add: reg_wf_def empty_registry_def member_of_def)

lemma service_for_wf:
  assumes wf: "reg_wf r" and s: "service_for r name = (r', svc)"
  shows "reg_wf r' \<and> svc < rg_nextSvc r' \<and> rg_services r' name = Some svc
    \<and> (\<forall>s pid po. member_of r' s pid po \<longleftrightarrow> member_of r s pid po) \<and> rg_peers r' = rg_peers r
    \<and> (\<forall>n. n \<noteq> name \<longrightarrow> rg_services r' n = rg_services r n)
    \<and> (\<forall>s. s < rg_nextSvc r \<longrightarrow> rg_svcs r' s = rg_svcs r s)"
proof (cases "rg_services r name")
  case (Some v)
  with s wf wf_names [OF wf Some] show ?thesis by (simp add: service_for_def)
next
  case None
  then have r': "r' = r\<lparr>rg_services := (rg_services r)(name \<mapsto> rg_nextSvc r),
      rg_svcs := (rg_svcs r)(rg_nextSvc r := []), rg_nextSvc := Suc (rg_nextSvc r)\<rparr>" "svc = rg_nextSvc r"
    using s by (auto simp: service_for_def)
  have old: "\<not> member_of r (rg_nextSvc r) pid po" for pid po
    using wf_member [OF wf, of "rg_nextSvc r" pid po] by auto
  have mem: "member_of r' s pid po \<longleftrightarrow> member_of r s pid po" for s pid po
    using old by (auto simp: r' member_of_def)
  have "reg_wf r'"
  proof (rule reg_wfI)
    show "v < rg_nextSvc r' \<and> po < rg_nextPeer r' \<and> (\<exists>p. rg_peers r' po = Some p \<and> \<not> po_closed p \<and> po_id p = pid)"
      if "member_of r' v pid po" for v pid po
      using wf_member [OF wf, of v pid po] that unfolding mem by (auto simp: r')
    show "v = v' \<and> pid = pid'" if "member_of r' v pid po" "member_of r' v' pid' po" for v v' pid pid' po
      using wf_unique [OF wf] that unfolding mem by blast
    show "distinct (map fst (rg_svcs r' v))" for v
      using wf_distinct [OF wf] by (simp add: r')
    show "v < rg_nextSvc r'" if "rg_services r' n = Some v" for n v
      using that wf_names [OF wf, of n v] by (auto simp: r' split: if_splits)
    show "n1 = n2" if "rg_services r' n1 = Some v" "rg_services r' n2 = Some v" for n1 n2 v
      using that wf_inj [OF wf, of n1 v n2] wf_names [OF wf, of n1 v] wf_names [OF wf, of n2 v]
      by (auto simp: r' split: if_splits)
    show "po < rg_nextPeer r'" if "rg_peers r' po = Some p" for po p
      using that wf_heap [OF wf, of po p] by (simp add: r')
  qed
  with mem show ?thesis by (simp add: r')
qed

lemma add_peer_wf:
  assumes wf: "reg_wf r" and svc: "svc < rg_nextSvc r" and new: "pid \<notin> fst ` set (rg_svcs r svc)"
    and a: "add_peer r svc name pid = (r', po)"
  shows "reg_wf r' \<and> po = rg_nextPeer r \<and> rg_services r' = rg_services r"
proof -
  have r': "po = rg_nextPeer r" "r' = r\<lparr>rg_svcs := (rg_svcs r)(svc := (pid, po) # rg_svcs r svc),
      rg_peers := (rg_peers r)(po := Some \<lparr>po_id = pid, po_service = name, po_inbox = [], po_closed = False\<rparr>),
      rg_nextPeer := Suc po\<rparr>"
    using a by (auto simp: add_peer_def Let_def)
  have fresh: "\<not> member_of r v i po" for v i
    using wf_member [OF wf, of v i po] by (auto simp: r')
  have mem: "member_of r' v i o1 \<longleftrightarrow> member_of r v i o1 \<or> v = svc \<and> i = pid \<and> o1 = po" for v i o1
    by (auto simp: r' member_of_def)
  have "reg_wf r'"
  proof (rule reg_wfI)
    show "v < rg_nextSvc r' \<and> o1 < rg_nextPeer r' \<and> (\<exists>p. rg_peers r' o1 = Some p \<and> \<not> po_closed p \<and> po_id p = i)"
      if "member_of r' v i o1" for v i o1
      using that wf_member [OF wf, of v i o1] svc unfolding mem by (auto simp: r')
    show "v = v' \<and> i = i'" if "member_of r' v i o1" "member_of r' v' i' o1" for v v' i i' o1
      using that wf_unique [OF wf] fresh unfolding mem by blast
    show "distinct (map fst (rg_svcs r' v))" for v
      using wf_distinct [OF wf, of v] new by (auto simp: r')
    show "v < rg_nextSvc r'" if "rg_services r' n = Some v" for n v
      using that wf_names [OF wf, of n v] by (simp add: r')
    show "n1 = n2" if "rg_services r' n1 = Some v" "rg_services r' n2 = Some v" for n1 n2 v
      using that wf_inj [OF wf, of n1 v n2] by (simp add: r')
    show "o1 < rg_nextPeer r'" if "rg_peers r' o1 = Some p" for o1 p
      using that wf_heap [OF wf, of o1 p] by (auto simp: r' split: if_splits)
  qed
  with r' show ?thesis by simp
qed

lemma member_remove:
  "member_of (remove_peer r svc pid) v i po \<longleftrightarrow> member_of r v i po \<and> \<not> (v = svc \<and> i = pid)"
  by (auto simp: member_of_def remove_peer_def AList.delete_eq)

lemma remove_peer_wf:
  assumes wf: "reg_wf r"
  shows "reg_wf (remove_peer r svc pid)"
proof (rule reg_wfI)
  let ?r = "remove_peer r svc pid"
  have fields: "rg_nextSvc ?r = rg_nextSvc r" "rg_nextPeer ?r = rg_nextPeer r" "rg_peers ?r = rg_peers r"
    "rg_services ?r = rg_services r"
    by (simp_all add: remove_peer_def)
  show "v < rg_nextSvc ?r \<and> po < rg_nextPeer ?r \<and> (\<exists>p. rg_peers ?r po = Some p \<and> \<not> po_closed p \<and> po_id p = i)"
    if "member_of ?r v i po" for v i po
    using that wf_member [OF wf, of v i po] unfolding member_remove fields by blast
  show "v = v' \<and> i = i'" if "member_of ?r v i po" "member_of ?r v' i' po" for v v' i i' po
    using that wf_unique [OF wf] unfolding member_remove by blast
  show "distinct (map fst (rg_svcs ?r v))" for v
    using wf_distinct [OF wf, of v] by (auto simp: remove_peer_def intro: AList.distinct_delete)
qed (use wf_names [OF wf] wf_inj [OF wf] wf_heap [OF wf] in \<open>auto simp: remove_peer_def\<close>)

lemma close_inbox_wf:
  assumes wf: "reg_wf r" and out: "\<And>v i. \<not> member_of r v i po"
  shows "reg_wf (close_inbox r po)"
proof (cases "rg_peers r po")
  case None
  with wf show ?thesis by (simp add: close_inbox_def)
next
  case (Some p)
  let ?r = "r\<lparr>rg_peers := (rg_peers r)(po := Some (p\<lparr>po_closed := True\<rparr>))\<rparr>"
  have mem: "member_of ?r v i o1 \<longleftrightarrow> member_of r v i o1" for v i o1
    by (simp add: member_of_def)
  have "reg_wf ?r"
  proof (rule reg_wfI)
    show "v < rg_nextSvc ?r \<and> o1 < rg_nextPeer ?r \<and> (\<exists>p. rg_peers ?r o1 = Some p \<and> \<not> po_closed p \<and> po_id p = i)"
      if "member_of ?r v i o1" for v i o1
      using that out wf_member [OF wf, of v i o1] unfolding mem by auto
    show "v = v' \<and> i = i'" if "member_of ?r v i o1" "member_of ?r v' i' o1" for v v' i i' o1
      using that wf_unique [OF wf] unfolding mem by blast
  qed (use wf_distinct [OF wf] wf_names [OF wf] wf_inj [OF wf] wf_heap [OF wf] wf_heap [OF wf Some] in
      \<open>auto split: if_splits\<close>)
  with wf Some show ?thesis by (simp add: close_inbox_def)
qed

lemma gc_service_wf:
  assumes wf: "reg_wf r"
  shows "reg_wf (gc_service r name)"
proof -
  have "reg_wf (r\<lparr>rg_services := (rg_services r)(name := None)\<rparr>)"
  proof (rule reg_wfI)
    show "v < rg_nextSvc (r\<lparr>rg_services := (rg_services r)(name := None)\<rparr>)
        \<and> po < rg_nextPeer (r\<lparr>rg_services := (rg_services r)(name := None)\<rparr>)
        \<and> (\<exists>p. rg_peers (r\<lparr>rg_services := (rg_services r)(name := None)\<rparr>) po = Some p \<and> \<not> po_closed p \<and> po_id p = i)"
      if "member_of (r\<lparr>rg_services := (rg_services r)(name := None)\<rparr>) v i po" for v i po
      using that wf_member [OF wf, of v i po] by (simp add: member_of_def)
    show "v = v' \<and> i = i'" if "member_of (r\<lparr>rg_services := (rg_services r)(name := None)\<rparr>) v i po"
      "member_of (r\<lparr>rg_services := (rg_services r)(name := None)\<rparr>) v' i' po" for v v' i i' po
      using that wf_unique [OF wf, of v i po v' i'] by (simp add: member_of_def)
  qed (use wf_distinct [OF wf] wf_names [OF wf] wf_inj [OF wf] wf_heap [OF wf] in \<open>auto split: if_splits\<close>)
  with wf show ?thesis by (auto simp: gc_service_def split: option.splits)
qed

section \<open>Broadcasting\<close>

definition got :: "string \<Rightarrow> 'm \<Rightarrow> members \<Rightarrow> 'm peer_heap \<Rightarrow> 'm peer_heap" where
  "got sender m ps h = (\<lambda>po. if \<exists>pid. (pid, po) \<in> set ps \<and> pid \<noteq> sender
     then map_option (\<lambda>p. p\<lparr>po_inbox := enq m (po_inbox p)\<rparr>) (h po) else h po)"

lemma broadcast_loop_open:
  assumes "\<And>pid po. (pid, po) \<in> set ps \<Longrightarrow> \<exists>p. h po = Some p \<and> \<not> po_closed p" and "distinct (map snd ps)"
  shows "broadcast_loop h sender m ps = Returns (got sender m ps h)"
  using assms
proof (induction ps arbitrary: h)
  case Nil
  then show ?case by (simp add: got_def)
next
  case (Cons x ps)
  obtain pid po where x: "x = (pid, po)" by (cases x)
  obtain p where p: "h po = Some p" "\<not> po_closed p"
    using Cons.prems(1) [of pid po] x by auto
  have fresh: "(i, po) \<notin> set ps" for i
    using Cons.prems(2) x by (force simp: image_iff)
  show ?case
  proof (cases "pid = sender")
    case True
    have "broadcast_loop h sender m ps = Returns (got sender m ps h)"
    proof (rule Cons.IH)
      show "\<exists>p. h o1 = Some p \<and> \<not> po_closed p" if "(i, o1) \<in> set ps" for i o1
        using that by (intro Cons.prems(1) [of i]) simp
    qed (use Cons.prems(2) in \<open>simp add: x\<close>)
    with True have "broadcast_loop h sender m (x # ps) = Returns (got sender m ps h)"
      by (simp add: x)
    also have "got sender m ps h = got sender m (x # ps) h"
      using True by (auto simp: got_def x fun_eq_iff)
    finally show ?thesis .
  next
    case False
    let ?h = "h(po := Some (p\<lparr>po_inbox := enq m (po_inbox p)\<rparr>))"
    have "broadcast_loop ?h sender m ps = Returns (got sender m ps ?h)"
    proof (rule Cons.IH)
      show "\<exists>p. ?h o1 = Some p \<and> \<not> po_closed p" if "(i, o1) \<in> set ps" for i o1
        using Cons.prems(1) [of i o1] that fresh by (cases "o1 = po") (auto simp: x)
    qed (use Cons.prems(2) in \<open>simp add: x\<close>)
    moreover have "got sender m ps ?h = got sender m (x # ps) h"
      using False fresh p by (auto simp: got_def x fun_eq_iff)
    ultimately show ?thesis using False p by (simp add: x)
  qed
qed

lemma members_distinct:
  assumes wf: "reg_wf r"
  shows "distinct (map snd (rg_svcs r svc))"
proof -
  have "distinct (rg_svcs r svc)"
    using wf_distinct [OF wf, of svc] by (simp add: distinct_map)
  moreover have "inj_on snd (set (rg_svcs r svc))"
    using wf_unique [OF wf, of svc _ _ svc] by (auto simp: inj_on_def member_of_def)
  ultimately show ?thesis by (simp add: distinct_map)
qed

lemma broadcast_wf:
  assumes wf: "reg_wf r"
  shows "\<exists>r'. broadcast_svc r svc sender m = Returns r' \<and> reg_wf r'
    \<and> r' = r\<lparr>rg_peers := got sender m (rg_svcs r svc) (rg_peers r)\<rparr>"
proof -
  let ?r = "r\<lparr>rg_peers := got sender m (rg_svcs r svc) (rg_peers r)\<rparr>"
  have "broadcast_loop (rg_peers r) sender m (rg_svcs r svc) =
      Returns (got sender m (rg_svcs r svc) (rg_peers r))"
  proof (rule broadcast_loop_open)
    show "\<exists>p. rg_peers r po = Some p \<and> \<not> po_closed p" if "(i, po) \<in> set (rg_svcs r svc)" for i po
      using wf_member [OF wf, of svc i po] that by (auto simp: member_of_def)
  qed (rule members_distinct [OF wf])
  moreover have "reg_wf ?r"
  proof (rule reg_wfI)
    show "v < rg_nextSvc ?r \<and> o1 < rg_nextPeer ?r \<and> (\<exists>p. rg_peers ?r o1 = Some p \<and> \<not> po_closed p \<and> po_id p = i)"
      if "member_of ?r v i o1" for v i o1
      using that wf_member [OF wf, of v i o1] by (auto simp: member_of_def got_def)
    show "v = v' \<and> i = i'" if "member_of ?r v i o1" "member_of ?r v' i' o1" for v v' i i' o1
      using that wf_unique [OF wf, of v i o1 v' i'] by (simp add: member_of_def)
    show "o1 < rg_nextPeer ?r" if "rg_peers ?r o1 = Some p" for o1 p
      using that wf_heap [OF wf, of o1] by (auto simp: got_def split: if_splits)
  qed (use wf_distinct [OF wf] wf_names [OF wf] wf_inj [OF wf] in \<open>auto\<close>)
  ultimately show ?thesis by (simp add: broadcast_svc_def)
qed

lemma pop_inbox_wf:
  assumes wf: "reg_wf r" and p: "rg_peers r po = Some p"
  shows "reg_wf (r\<lparr>rg_peers := (rg_peers r)(po := Some (p\<lparr>po_inbox := q\<rparr>))\<rparr>)" (is "reg_wf ?r")
proof (rule reg_wfI)
  show "v < rg_nextSvc ?r \<and> o1 < rg_nextPeer ?r \<and> (\<exists>p. rg_peers ?r o1 = Some p \<and> \<not> po_closed p \<and> po_id p = i)"
    if "member_of ?r v i o1" for v i o1
    using that wf_member [OF wf, of v i o1] p by (auto simp: member_of_def)
  show "v = v' \<and> i = i'" if "member_of ?r v i o1" "member_of ?r v' i' o1" for v v' i i' o1
    using that wf_unique [OF wf, of v i o1 v' i'] by (simp add: member_of_def)
  show "o1 < rg_nextPeer ?r" if "rg_peers ?r o1 = Some p'" for o1 p'
    using that wf_heap [OF wf] p by (auto split: if_splits)
qed (use wf_distinct [OF wf] wf_names [OF wf] wf_inj [OF wf] in auto)

lemma enq_set: "set (enq m q) \<subseteq> insert m (set q)"
  by (auto simp: enq_def)

section \<open>The contract of a backend\<close>

definition inbox_of :: "'m registry \<Rightarrow> string \<Rightarrow> string \<Rightarrow> 'm list option" where
  "inbox_of r name pid =
     (case rg_services r name of None \<Rightarrow> None
      | Some svc \<Rightarrow> (case map_of (rg_svcs r svc) pid of None \<Rightarrow> None
                     | Some po \<Rightarrow> map_option po_inbox (rg_peers r po)))"

datatype 'm rv_op = RvJoin string string | RvLeave string string | RvSend nat 'm | RvRecv string string

text \<open>
  One operation. Joining and leaving go by service and id. Every successful join hands out a sender, which
  stays usable for ever: \<open>RvSend h m\<close> is a send through the \<open>h\<close>th of them, whether or not its peer has
  left since. \<open>RvRecv v p\<close> is member \<open>p\<close> of service \<open>v\<close> taking a message out of its inbox.
\<close>

definition rv_step ::
  "('s \<Rightarrow> string \<Rightarrow> string \<Rightarrow> 's option) \<Rightarrow> ('s \<Rightarrow> string \<Rightarrow> string \<Rightarrow> 's)
     \<Rightarrow> ('s \<Rightarrow> nat \<Rightarrow> 'm \<Rightarrow> 's) \<Rightarrow> ('s \<Rightarrow> string \<Rightarrow> string \<Rightarrow> 's) \<Rightarrow> 's \<Rightarrow> 'm rv_op \<Rightarrow> 's" where
  "rv_step join leave send recv s op =
     (case op of
        RvJoin v p \<Rightarrow> (case join s v p of None \<Rightarrow> s | Some s' \<Rightarrow> s')
      | RvLeave v p \<Rightarrow> leave s v p
      | RvSend h m \<Rightarrow> send s h m
      | RvRecv v p \<Rightarrow> recv s v p)"

text \<open>
  For whom a sender speaks: the service and id it was handed out for, as long as that service has had a
  member ever since, and nobody after that. Dropping a service silences its senders.
\<close>

type_synonym speakers = "(string \<times> string) option list"

definition speaks_for :: "speakers \<Rightarrow> nat \<Rightarrow> (string \<times> string) option" where
  "speaks_for sp h = (if h < length sp then sp ! h else None)"

definition silence :: "string \<Rightarrow> speakers \<Rightarrow> speakers" where
  "silence v = map (\<lambda>x. case x of None \<Rightarrow> None | Some (n, i) \<Rightarrow> if n = v then None else Some (n, i))"

text \<open>
  What happens to the inbox of member \<open>q\<close> of service \<open>w\<close>: a message another sender of the service sends is
  heard, a message it receives is taken.
\<close>

datatype 'm notice = Heard 'm | Taken

definition hears ::
  "('s \<Rightarrow> speakers) \<Rightarrow> (string \<Rightarrow> string \<Rightarrow> 'm \<Rightarrow> 'm) \<Rightarrow> string \<Rightarrow> string \<Rightarrow> 's \<Rightarrow> 'm rv_op \<Rightarrow> 'm notice list" where
  "hears speakers tag w q s op =
     (case op of
        RvSend h m \<Rightarrow> (case speaks_for (speakers s) h of
            None \<Rightarrow> []
          | Some (v, p) \<Rightarrow> if v = w \<and> p \<noteq> q then [Heard (tag v p m)] else [])
      | RvRecv v p \<Rightarrow> if v = w \<and> p = q then [Taken] else []
      | _ \<Rightarrow> [])"

fun heard ::
  "('s \<Rightarrow> speakers) \<Rightarrow> ('s \<Rightarrow> 'm rv_op \<Rightarrow> 's) \<Rightarrow> (string \<Rightarrow> string \<Rightarrow> 'm \<Rightarrow> 'm)
     \<Rightarrow> string \<Rightarrow> string \<Rightarrow> 's \<Rightarrow> 'm rv_op list \<Rightarrow> 'm notice list" where
  "heard speakers stp tag w q s [] = []"
| "heard speakers stp tag w q s (op # ops) = hears speakers tag w q s op @ heard speakers stp tag w q (stp s op) ops"

text \<open>The queue a bounded, newest-dropping channel holds after them.\<close>

fun bounded :: "'m list \<Rightarrow> 'm notice list \<Rightarrow> 'm list" where
  "bounded q [] = q"
| "bounded q (Heard m # ns) = bounded (take inboxCap (q @ [m])) ns"
| "bounded q (Taken # ns) = bounded (drop 1 q) ns"

lemma bounded_append: "bounded q (ms @ ns) = bounded (bounded q ms) ns"
  by (induction q ms rule: bounded.induct) simp_all

lemma bounded_length: "length q \<le> inboxCap \<Longrightarrow> length (bounded q ns) \<le> inboxCap"
  by (induction q ns rule: bounded.induct) simp_all

lemma enq_take: "length q \<le> inboxCap \<Longrightarrow> enq m q = take inboxCap (q @ [m])"
  by (auto simp: enq_def)

text \<open>Without reads, the first messages that fit stay and the newer ones are dropped.\<close>

lemma bounded_first: "length q \<le> inboxCap \<Longrightarrow> bounded q (map Heard ms) = take inboxCap (q @ ms)"
proof (induction ms arbitrary: q)
  case (Cons m ms)
  have "take inboxCap (take inboxCap (q @ [m]) @ ms) = take inboxCap (q @ m # ms)"
    using Cons.prems by (cases "length q = inboxCap") auto
  with Cons.IH [of "take inboxCap (q @ [m])"] show ?case by simp
qed simp

definition heard_messages :: "'m notice list \<Rightarrow> 'm list" where
  "heard_messages ns = [m. Heard m \<leftarrow> ns]"

lemma untaken: "Taken \<notin> set ns \<Longrightarrow> ns = map Heard (heard_messages ns)"
  by (induction ns) (auto simp: heard_messages_def split: notice.splits)

lemma heard_untaken: "RvRecv w q \<notin> set ops \<Longrightarrow> Taken \<notin> set (heard speakers stp tag w q s ops)"
  by (induction ops arbitrary: s) (auto simp: hears_def split: rv_op.splits option.splits)

locale rendezvous =
  fixes wf :: "'s \<Rightarrow> bool"
    and inbox :: "'s \<Rightarrow> string \<Rightarrow> string \<Rightarrow> 'm list option"
    and speakers :: "'s \<Rightarrow> speakers"
    and join :: "'s \<Rightarrow> string \<Rightarrow> string \<Rightarrow> 's option"
    and leave :: "'s \<Rightarrow> string \<Rightarrow> string \<Rightarrow> 's"
    and send :: "'s \<Rightarrow> nat \<Rightarrow> 'm \<Rightarrow> 's"
    and recv :: "'s \<Rightarrow> string \<Rightarrow> string \<Rightarrow> 's"
    and tag :: "string \<Rightarrow> string \<Rightarrow> 'm \<Rightarrow> 'm"
  assumes join_wf: "wf s \<Longrightarrow> join s v p = Some s' \<Longrightarrow> wf s'"
    and join_inbox: "wf s \<Longrightarrow> join s v p = Some s' \<Longrightarrow>
      inbox s' w q = (if w = v \<and> q = p then Some [] else inbox s w q)"
    and join_speakers: "wf s \<Longrightarrow> join s v p = Some s' \<Longrightarrow> speakers s' = speakers s @ [Some (v, p)]"
    and join_twice: "wf s \<Longrightarrow> inbox s v p \<noteq> None \<Longrightarrow> join s v p = None"
    and leave_wf: "wf s \<Longrightarrow> wf (leave s v p)"
    and leave_inbox: "wf s \<Longrightarrow> inbox (leave s v p) w q = (if w = v \<and> q = p then None else inbox s w q)"
    and leave_speakers: "wf s \<Longrightarrow> speakers (leave s v p) =
      (if \<exists>q. q \<noteq> p \<and> inbox s v q \<noteq> None then speakers s else silence v (speakers s))"
    and send_wf: "wf s \<Longrightarrow> wf (send s h m)"
    and send_inbox: "wf s \<Longrightarrow> inbox (send s h m) w q =
      (case speaks_for (speakers s) h of
         None \<Rightarrow> inbox s w q
       | Some (v, p) \<Rightarrow> if w = v \<and> q \<noteq> p then map_option (enq (tag v p m)) (inbox s w q) else inbox s w q)"
    and send_speakers: "wf s \<Longrightarrow> speakers (send s h m) = speakers s"
    and recv_wf: "wf s \<Longrightarrow> wf (recv s v p)"
    and recv_inbox: "wf s \<Longrightarrow> inbox (recv s v p) w q =
      (if w = v \<and> q = p then map_option (drop 1) (inbox s w q) else inbox s w q)"
    and recv_speakers: "wf s \<Longrightarrow> speakers (recv s v p) = speakers s"
begin

lemma step_wf: "wf s \<Longrightarrow> wf (rv_step join leave send recv s op)"
  by (auto simp: rv_step_def split: rv_op.splits option.splits intro: join_wf leave_wf send_wf recv_wf)

lemma run_wf: "wf s \<Longrightarrow> wf (foldl (rv_step join leave send recv) s ops)"
  by (induction ops arbitrary: s) (simp_all add: step_wf)

lemma step_inbox:
  assumes "wf s" and "inbox s w q = Some q0" and "length q0 \<le> inboxCap" and "op \<noteq> RvLeave w q"
  shows "inbox (rv_step join leave send recv s op) w q = Some (bounded q0 (hears speakers tag w q s op))"
proof (cases op)
  case (RvJoin v p)
  show ?thesis
  proof (cases "join s v p")
    case (Some s')
    then have "\<not> (w = v \<and> q = p)" using join_twice [OF assms(1), of v p] assms(2) by auto
    with Some RvJoin assms join_inbox [OF assms(1) Some] show ?thesis by (auto simp: rv_step_def hears_def)
  qed (use assms RvJoin in \<open>simp add: rv_step_def hears_def\<close>)
next
  case (RvLeave v p)
  with assms show ?thesis by (auto simp: rv_step_def leave_inbox hears_def)
next
  case (RvSend h m)
  with assms show ?thesis
    by (auto simp: rv_step_def send_inbox hears_def enq_take split: option.splits)
next
  case (RvRecv v p)
  with assms show ?thesis by (auto simp: rv_step_def recv_inbox hears_def)
qed

text \<open>
  The inbox of a member is that of a bounded channel which the senders of its service, itself excepted,
  write to and the member reads from.
\<close>

lemma delivery:
  assumes "wf s" and "inbox s w q = Some q0" and "length q0 \<le> inboxCap" and "RvLeave w q \<notin> set ops"
  shows "inbox (foldl (rv_step join leave send recv) s ops) w q =
    Some (bounded q0 (heard speakers (rv_step join leave send recv) tag w q s ops))"
  using assms
proof (induction ops arbitrary: s q0)
  case Nil
  then show ?case by simp
next
  case (Cons op ops)
  let ?s = "rv_step join leave send recv s op"
  have "op \<noteq> RvLeave w q" using Cons.prems(4) by auto
  note step = step_inbox [OF Cons.prems(1,2,3) this]
  show ?case
    using Cons.IH [OF step_wf [OF Cons.prems(1)] step bounded_length [OF Cons.prems(3)]] Cons.prems(4)
    by (simp add: bounded_append)
qed

text \<open>The sender of a member speaks for it.\<close>

lemma step_speaks:
  assumes "wf s" and "inbox s w q \<noteq> None" and "speaks_for (speakers s) h = Some (w, i)" and "op \<noteq> RvLeave w q"
  shows "speaks_for (speakers (rv_step join leave send recv s op)) h = Some (w, i)"
proof (cases op)
  case (RvJoin v p)
  show ?thesis
  proof (cases "join s v p")
    case (Some s')
    from assms(3) have "h < length (speakers s)" by (simp add: speaks_for_def split: if_splits)
    with assms(3) Some RvJoin join_speakers [OF assms(1) Some] show ?thesis
      by (simp add: rv_step_def speaks_for_def nth_append)
  qed (use assms RvJoin in \<open>simp add: rv_step_def\<close>)
next
  case (RvLeave v p)
  show ?thesis
  proof (cases "w = v")
    case True
    then have "q \<noteq> p \<and> inbox s v q \<noteq> None" using RvLeave assms(2,4) by simp
    then have "\<exists>x. x \<noteq> p \<and> inbox s v x \<noteq> None" by (rule exI)
    with RvLeave assms(3) leave_speakers [OF assms(1), of v p] show ?thesis by (simp add: rv_step_def)
  next
    case False
    with assms(3) have "speaks_for (silence v (speakers s)) h = Some (w, i)"
      by (simp add: silence_def speaks_for_def split: if_splits)
    with RvLeave assms(3) leave_speakers [OF assms(1), of v p] show ?thesis by (simp add: rv_step_def)
  qed
qed (use assms in \<open>simp_all add: rv_step_def send_speakers recv_speakers\<close>)

lemma run_speaks:
  assumes "wf s" and "inbox s w q = Some q0" and "length q0 \<le> inboxCap" and "speaks_for (speakers s) h = Some (w, i)"
    and "RvLeave w q \<notin> set ops"
  shows "speaks_for (speakers (foldl (rv_step join leave send recv) s ops)) h = Some (w, i)"
  using assms
proof (induction ops arbitrary: s q0)
  case (Cons op ops)
  have op: "op \<noteq> RvLeave w q" using Cons.prems(5) by auto
  have "speaks_for (speakers (rv_step join leave send recv s op)) h = Some (w, i)"
    by (rule step_speaks [OF Cons.prems(1) _ Cons.prems(4) op]) (simp add: Cons.prems(2))
  from Cons.IH [OF step_wf [OF Cons.prems(1)] step_inbox [OF Cons.prems(1-3) op] bounded_length [OF Cons.prems(3)] this]
  show ?case using Cons.prems(5) by simp
qed simp

lemma delivery_in_order:
  assumes "wf s" and "join s w q = Some s'" and "RvLeave w q \<notin> set ops"
  shows "inbox (foldl (rv_step join leave send recv) s' ops) w q =
      Some (bounded [] (heard speakers (rv_step join leave send recv) tag w q s' ops))"
    and "RvRecv w q \<notin> set ops \<Longrightarrow> inbox (foldl (rv_step join leave send recv) s' ops) w q =
      Some (take inboxCap (heard_messages (heard speakers (rv_step join leave send recv) tag w q s' ops)))"
    and "speaks_for (speakers (foldl (rv_step join leave send recv) s' ops)) (length (speakers s)) = Some (w, q)"
proof -
  have new: "inbox s' w q = Some []" "wf s'" "speaks_for (speakers s') (length (speakers s)) = Some (w, q)"
    using join_inbox [OF assms(1,2)] join_wf [OF assms(1,2)] join_speakers [OF assms(1,2)]
    by (simp_all add: speaks_for_def)
  show d: "inbox (foldl (rv_step join leave send recv) s' ops) w q =
      Some (bounded [] (heard speakers (rv_step join leave send recv) tag w q s' ops))"
    using delivery [OF new(2,1) _ assms(3)] by simp
  show "speaks_for (speakers (foldl (rv_step join leave send recv) s' ops)) (length (speakers s)) = Some (w, q)"
    using run_speaks [OF new(2,1) _ new(3) assms(3)] by simp
  assume "RvRecv w q \<notin> set ops"
  then have "heard speakers (rv_step join leave send recv) tag w q s' ops =
      map Heard (heard_messages (heard speakers (rv_step join leave send recv) tag w q s' ops))"
    by (intro untaken heard_untaken)
  with d bounded_first [of "[]"] show "inbox (foldl (rv_step join leave send recv) s' ops) w q =
      Some (take inboxCap (heard_messages (heard speakers (rv_step join leave send recv) tag w q s' ops)))"
    by (metis append_Nil le0 list.size(3))
qed

end

section \<open>The registry's view of the contract\<close>

lemma map_of_member: "reg_wf r \<Longrightarrow> map_of (rg_svcs r svc) pid = Some po \<longleftrightarrow> member_of r svc pid po"
  using wf_distinct [of r svc] by (simp add: member_of_def)

lemma inbox_of_member:
  assumes wf: "reg_wf r"
  shows "inbox_of r name pid = Some q \<longleftrightarrow>
    (\<exists>svc po p. rg_services r name = Some svc \<and> member_of r svc pid po \<and> rg_peers r po = Some p \<and> q = po_inbox p)"
  by (auto simp: inbox_of_def map_of_member [OF wf, symmetric] split: option.splits)

lemma inbox_of_None:
  assumes wf: "reg_wf r"
  shows "inbox_of r name pid = None \<longleftrightarrow>
    (\<forall>svc. rg_services r name = Some svc \<longrightarrow> (\<forall>po. \<not> member_of r svc pid po))"
  using wf_member [OF wf]
  by (auto simp: inbox_of_def map_of_member [OF wf, symmetric] split: option.splits) fastforce+

lemma add_peer_inbox:
  assumes wf: "reg_wf r" and svc: "rg_services r v = Some svc" and new: "p \<notin> fst ` set (rg_svcs r svc)"
    and a: "add_peer r svc v p = (r', po)"
  shows "inbox_of r' w q = (if w = v \<and> q = p then Some [] else inbox_of r w q)"
proof -
  have r': "po = rg_nextPeer r" "rg_services r' = rg_services r" "rg_svcs r' = (rg_svcs r)(svc := (p, po) # rg_svcs r svc)"
    "rg_peers r' = (rg_peers r)(po := Some \<lparr>po_id = p, po_service = v, po_inbox = [], po_closed = False\<rparr>)"
    using a by (auto simp: add_peer_def Let_def)
  have old: "o1 \<noteq> po" if "map_of (rg_svcs r x) i = Some o1" for x i o1
    using wf_member [OF wf, of x i o1] that by (auto simp: map_of_member [OF wf] r'(1))
  show ?thesis
  proof (cases "rg_services r w")
    case None
    with svc show ?thesis by (auto simp: inbox_of_def r')
  next
    case (Some x)
    have "w = v" if "x = svc" using wf_inj [OF wf] Some svc that by blast
    with Some svc old [of x q] show ?thesis
      by (auto simp: inbox_of_def r' split: option.splits)
  qed
qed

lemma service_for_inbox:
  assumes wf: "reg_wf r" and s: "service_for r v = (r', svc)"
  shows "inbox_of r' w q = inbox_of r w q"
proof -
  note f = service_for_wf [OF wf s]
  show ?thesis
  proof (cases "rg_services r w")
    case None
    show ?thesis
    proof (cases "w = v")
      case True
      with None s have "rg_svcs r' svc = []" "rg_services r' v = Some svc"
        by (auto simp: service_for_def)
      with True None show ?thesis by (simp add: inbox_of_def)
    qed (use None f in \<open>simp add: inbox_of_def\<close>)
  next
    case (Some x)
    then have "rg_services r' w = Some x"
      using f s by (cases "w = v") (auto simp: service_for_def)
    moreover have "rg_svcs r' x = rg_svcs r x" using f wf_names [OF wf Some] by simp
    ultimately show ?thesis using Some f by (auto simp: inbox_of_def split: option.splits)
  qed
qed

lemma close_inbox_inbox: "inbox_of (close_inbox r po) w q = inbox_of r w q"
  by (auto simp: inbox_of_def close_inbox_def split: option.splits)

lemma gc_service_inbox: "inbox_of (gc_service r v) w q = inbox_of r w q"
  by (auto simp: inbox_of_def gc_service_def split: option.splits)

lemma remove_peer_inbox:
  assumes wf: "reg_wf r" and svc: "rg_services r v = Some svc"
  shows "inbox_of (remove_peer r svc p) w q = (if w = v \<and> q = p then None else inbox_of r w q)"
proof (cases "rg_services r w")
  case None
  with svc show ?thesis by (auto simp: inbox_of_def remove_peer_def)
next
  case (Some x)
  have "w = v" if "x = svc" using wf_inj [OF wf] Some svc that by blast
  with Some svc show ?thesis
    by (auto simp: inbox_of_def remove_peer_def AList.delete_conv' split: option.splits)
qed

lemma broadcast_inbox:
  assumes wf: "reg_wf r"
  shows "inbox_of (r\<lparr>rg_peers := got p m (rg_svcs r svc) (rg_peers r)\<rparr>) w q =
    (if rg_services r w = Some svc \<and> q \<noteq> p then map_option (enq m) (inbox_of r w q) else inbox_of r w q)"
proof (cases "rg_services r w")
  case None
  then show ?thesis by (auto simp: inbox_of_def)
next
  case (Some x)
  show ?thesis
  proof (cases "map_of (rg_svcs r x) q")
    case None
    with Some show ?thesis by (auto simp: inbox_of_def)
  next
    case po: (Some po)
    then have mem: "member_of r x q po" by (simp add: map_of_member [OF wf])
    have "(\<exists>i. (i, po) \<in> set (rg_svcs r svc) \<and> i \<noteq> p) \<longleftrightarrow> x = svc \<and> q \<noteq> p"
    proof
      assume "\<exists>i. (i, po) \<in> set (rg_svcs r svc) \<and> i \<noteq> p"
      then obtain i where "member_of r svc i po" "i \<noteq> p" by (auto simp: member_of_def)
      with wf_unique [OF wf mem] show "x = svc \<and> q \<noteq> p" by blast
    next
      assume "x = svc \<and> q \<noteq> p"
      with mem show "\<exists>i. (i, po) \<in> set (rg_svcs r svc) \<and> i \<noteq> p" unfolding member_of_def by blast
    qed
    with Some po show ?thesis
      by (auto simp: inbox_of_def got_def option.map_comp comp_def)
  qed
qed

section \<open>A registry and the senders it has handed out\<close>

text \<open>A sender keeps the pointers to its service object and its peer object.\<close>

type_synonym sender_ptrs = "(nat \<times> nat) list"

definition speaker :: "'m registry \<Rightarrow> nat \<times> nat \<Rightarrow> (string \<times> string) option" where
  "speaker r sn =
     (case rg_peers r (snd sn) of
        None \<Rightarrow> None
      | Some p \<Rightarrow> if rg_services r (po_service p) = Some (fst sn) then Some (po_service p, po_id p) else None)"

definition senders_ok :: "'m registry \<Rightarrow> sender_ptrs \<Rightarrow> bool" where
  "senders_ok r hs \<longleftrightarrow> (\<forall>(svc, po) \<in> set hs. svc < rg_nextSvc r
     \<and> (\<exists>p. rg_peers r po = Some p \<and> (\<forall>n. rg_services r n = Some svc \<longrightarrow> n = po_service p)))"

text \<open>No service is registered without a member. Interleaved callers can break this, whole operations do not.\<close>

definition no_empty_service :: "'m registry \<Rightarrow> bool" where
  "no_empty_service r \<longleftrightarrow> (\<forall>v svc. rg_services r v = Some svc \<longrightarrow> rg_svcs r svc \<noteq> [])"

definition served_wf :: "'m registry \<times> sender_ptrs \<Rightarrow> bool" where
  "served_wf s \<longleftrightarrow> reg_wf (fst s) \<and> no_empty_service (fst s) \<and> senders_ok (fst s) (snd s)"

definition served_inbox :: "'m registry \<times> sender_ptrs \<Rightarrow> string \<Rightarrow> string \<Rightarrow> 'm list option" where
  "served_inbox s = inbox_of (fst s)"

definition served_speakers :: "'m registry \<times> sender_ptrs \<Rightarrow> speakers" where
  "served_speakers s = map (speaker (fst s)) (snd s)"

text \<open>Member \<open>p\<close> of service \<open>v\<close> takes the oldest message of its inbox.\<close>

definition take_message :: "'m registry \<Rightarrow> string \<Rightarrow> string \<Rightarrow> 'm registry" where
  "take_message r v p =
     (case rg_services r v of
        None \<Rightarrow> r
      | Some svc \<Rightarrow>
          (case map_of (rg_svcs r svc) p of
             None \<Rightarrow> r
           | Some po \<Rightarrow>
               (case rg_peers r po of
                  None \<Rightarrow> r
                | Some pe \<Rightarrow> r\<lparr>rg_peers := (rg_peers r)(po := Some (pe\<lparr>po_inbox := drop 1 (po_inbox pe)\<rparr>))\<rparr>)))"

lemma empty_served_wf: "served_wf (empty_registry, [])"
  by (simp add: served_wf_def empty_registry_wf senders_ok_def no_empty_service_def) (simp add: empty_registry_def)

lemma same_senders:
  assumes "rg_services r' = rg_services r" and "rg_svcs r' = rg_svcs r" and "rg_nextSvc r' = rg_nextSvc r"
    and "\<And>po. map_option (\<lambda>p. (po_id p, po_service p)) (rg_peers r' po) = map_option (\<lambda>p. (po_id p, po_service p)) (rg_peers r po)"
  shows "no_empty_service r' = no_empty_service r" and "senders_ok r hs \<Longrightarrow> senders_ok r' hs" and "speaker r' = speaker r"
proof -
  have eq: "(rg_peers r' po = None) = (rg_peers r po = None)"
      "rg_peers r po = Some p \<Longrightarrow> \<exists>p'. rg_peers r' po = Some p' \<and> po_id p' = po_id p \<and> po_service p' = po_service p" for po p
    using assms(4) [of po] by (cases "rg_peers r' po"; cases "rg_peers r po"; force)+
  show "no_empty_service r' = no_empty_service r" by (simp add: no_empty_service_def assms(1,2))
  show "senders_ok r hs \<Longrightarrow> senders_ok r' hs"
    unfolding senders_ok_def assms(1,3) using eq(2) by fastforce
  show "speaker r' = speaker r"
  proof
    show "speaker r' x = speaker r x" for x
      using eq(1) [of "snd x"] eq(2) [of "snd x"]
      by (cases "rg_peers r (snd x)") (auto simp: speaker_def assms(1))
  qed
qed

lemma service_for_others:
  assumes "reg_wf r" and "no_empty_service r" and "service_for r v = (r1, svc)"
  shows "\<forall>n s. rg_services r1 n = Some s \<longrightarrow> s \<noteq> svc \<longrightarrow> rg_svcs r1 s \<noteq> []"
  using assms wf_names [OF assms(1)]
  by (auto simp: service_for_def no_empty_service_def split: option.splits if_splits)

lemma leaving_no_empty:
  assumes wf: "reg_wf r" and ne: "no_empty_service r" and v: "rg_services r v = Some svc"
    and r1: "r1 = remove_peer r svc p"
  shows "no_empty_service (if length (rg_svcs r1 svc) = 0 then gc_service (close_inbox r1 po) v else close_inbox r1 po)"
proof -
  have c: "rg_services (close_inbox r1 po) = rg_services r" "rg_svcs (close_inbox r1 po) = rg_svcs r1"
    by (auto simp: close_inbox_def r1 remove_peer_def split: option.splits)
  have other: "s \<noteq> svc \<Longrightarrow> rg_svcs r1 s = rg_svcs r s" for s by (simp add: r1 remove_peer_def)
  have inj: "rg_services r n = Some svc \<Longrightarrow> n = v" for n using wf_inj [OF wf _ v] by blast
  show ?thesis
  proof (cases "rg_svcs r1 svc")
    case Nil
    have "rg_svcs r1 s \<noteq> []" if "rg_services r n = Some s" "n \<noteq> v" for n s
    proof -
      have "s \<noteq> svc" using that inj [of n] by blast
      with ne that(1) other [of s] show ?thesis by (simp add: no_empty_service_def)
    qed
    with Nil c v show ?thesis by (simp add: gc_service_def no_empty_service_def)
  next
    case Cons
    have "rg_svcs r1 s \<noteq> []" if "rg_services r n = Some s" for n s
      using that ne other [of s] Cons by (cases "s = svc") (simp_all add: no_empty_service_def)
    with Cons c show ?thesis by (simp add: no_empty_service_def)
  qed
qed

lemma speaker_cong:
  "rg_services r' = rg_services r \<Longrightarrow> rg_peers r' (snd x) = rg_peers r (snd x) \<Longrightarrow> speaker r' x = speaker r x"
  by (cases "rg_peers r (snd x)") (simp_all add: speaker_def)

lemma service_for_senders:
  assumes "reg_wf r" and "senders_ok r hs" and s: "service_for r v = (r1, svc)"
  shows "senders_ok r1 hs \<and> map (speaker r1) hs = map (speaker r) hs"
proof (cases "rg_services r v")
  case (Some x)
  with assms show ?thesis by (simp add: service_for_def)
next
  case None
  then have r1: "r1 = r\<lparr>rg_services := (rg_services r)(v \<mapsto> rg_nextSvc r),
      rg_svcs := (rg_svcs r)(rg_nextSvc r := []), rg_nextSvc := Suc (rg_nextSvc r)\<rparr>"
    using s by (auto simp: service_for_def)
  have "senders_ok r1 hs"
    using assms(2) unfolding senders_ok_def by (fastforce simp: r1 split: if_splits)
  moreover have "speaker r1 x = speaker r x" if "x \<in> set hs" for x
  proof -
    have "fst x \<noteq> rg_nextSvc r" using assms(2) that by (auto simp: senders_ok_def)
    with None show ?thesis by (auto simp: speaker_def r1 split: option.splits)
  qed
  ultimately show ?thesis by simp
qed

lemma add_peer_senders:
  assumes wf: "reg_wf r" and ok: "senders_ok r hs" and v: "rg_services r v = Some svc"
    and a: "add_peer r svc v p = (r', po)"
  shows "senders_ok r' (hs @ [(svc, po)]) \<and> map (speaker r') (hs @ [(svc, po)]) = map (speaker r) hs @ [Some (v, p)]"
proof -
  have r': "po = rg_nextPeer r" "rg_services r' = rg_services r" "rg_nextSvc r' = rg_nextSvc r"
    "rg_peers r' = (rg_peers r)(po := Some \<lparr>po_id = p, po_service = v, po_inbox = [], po_closed = False\<rparr>)"
    using a by (auto simp: add_peer_def Let_def)
  have old: "snd x \<noteq> po" if "x \<in> set hs" for x
    using ok that wf_heap [OF wf, of "snd x"] by (force simp: senders_ok_def r'(1))
  have "senders_ok r' hs"
    using ok old unfolding senders_ok_def by (fastforce simp: r')
  moreover have "map (speaker r') hs = map (speaker r) hs"
    using old by (auto intro!: speaker_cong simp: r'(2,4))
  moreover have "speaker r' (svc, po) = Some (v, p)" using v by (simp add: speaker_def r')
  moreover have "n = v" if "rg_services r n = Some svc" for n using wf_inj [OF wf that v] .
  ultimately show ?thesis
    using wf_names [OF wf v] by (auto simp: senders_ok_def r')
qed

lemma join_served:
  assumes wf: "served_wf (r, hs)" and s: "service_for r v = (r1, svc)"
    and new: "p \<notin> fst ` set (rg_svcs r1 svc)" and a: "add_peer r1 svc v p = (r', po)"
  shows "served_wf (r', hs @ [(svc, po)])"
    and "inbox_of r' w q = (if w = v \<and> q = p then Some [] else inbox_of r w q)"
    and "served_speakers (r', hs @ [(svc, po)]) = served_speakers (r, hs) @ [Some (v, p)]"
proof -
  have rw: "reg_wf r" "no_empty_service r" "senders_ok r hs" using wf by (simp_all add: served_wf_def)
  note f = service_for_wf [OF rw(1) s]
  have w1: "reg_wf r1" "svc < rg_nextSvc r1" "rg_services r1 v = Some svc" using f by blast+
  note g = service_for_senders [OF rw(1,3) s]
  note h = add_peer_senders [OF w1(1) conjunct1 [OF g] w1(3) a]
  have r's: "rg_services r' = rg_services r1" "rg_svcs r' = (rg_svcs r1)(svc := (p, po) # rg_svcs r1 svc)"
    using a by (auto simp: add_peer_def Let_def)
  have "no_empty_service r'"
    unfolding no_empty_service_def r's using service_for_others [OF rw(1,2) s] by simp
  then show "served_wf (r', hs @ [(svc, po)])"
    using add_peer_wf [OF w1(1,2) new a] h by (simp add: served_wf_def)
  show "served_speakers (r', hs @ [(svc, po)]) = served_speakers (r, hs) @ [Some (v, p)]"
    using g h by (simp add: served_speakers_def)
  show "inbox_of r' w q = (if w = v \<and> q = p then Some [] else inbox_of r w q)"
    using add_peer_inbox [OF w1(1,3) new a] service_for_inbox [OF rw(1) s] by simp
qed

lemma absent_silent:
  assumes "served_wf (r, hs)" and "\<And>q. inbox_of r v q = None"
  shows "silence v (served_speakers (r, hs)) = served_speakers (r, hs)"
proof -
  have rw: "reg_wf r" "no_empty_service r" using assms(1) by (simp_all add: served_wf_def)
  have "rg_services r v = None"
  proof (rule ccontr)
    assume "rg_services r v \<noteq> None"
    then obtain svc where v: "rg_services r v = Some svc" by blast
    then obtain i po where "(i, po) \<in> set (rg_svcs r svc)"
      using rw(2) unfolding no_empty_service_def by (cases "rg_svcs r svc") fastforce+
    with v assms(2) [of i] show False unfolding inbox_of_None [OF rw(1)] by (auto simp: member_of_def)
  qed
  then have "speaker r x \<noteq> Some (v, i)" for x i
    by (auto simp: speaker_def split: option.splits)
  then show ?thesis
    by (auto simp: silence_def served_speakers_def split: option.splits)
qed

lemma leave_served:
  assumes wf: "served_wf (r, hs)" and v: "rg_services r v = Some svc" and m: "member_of r svc p po"
    and r1: "r1 = remove_peer r svc p"
    and r': "r' = (if length (rg_svcs r1 svc) = 0 then gc_service (close_inbox r1 po) v else close_inbox r1 po)"
  shows "served_wf (r', hs)"
    and "inbox_of r' w q = (if w = v \<and> q = p then None else inbox_of r w q)"
    and "served_speakers (r', hs) =
      (if \<exists>q. q \<noteq> p \<and> inbox_of r v q \<noteq> None then served_speakers (r, hs) else silence v (served_speakers (r, hs)))"
proof -
  have rw: "reg_wf r" "no_empty_service r" "senders_ok r hs" using wf by (simp_all add: served_wf_def)
  let ?c = "close_inbox r1 po"
  have out: "\<not> member_of r1 x i po" for x i
    using wf_unique [OF rw(1) m] by (auto simp: r1 member_remove)
  have cw: "reg_wf ?c" by (intro close_inbox_wf out) (simp add: r1 remove_peer_wf [OF rw(1)])
  have c: "rg_services ?c = rg_services r" "rg_svcs ?c = rg_svcs r1" "rg_nextSvc ?c = rg_nextSvc r"
    "map_option (\<lambda>p. (po_id p, po_service p)) (rg_peers ?c x) = map_option (\<lambda>p. (po_id p, po_service p)) (rg_peers r x)" for x
    by (auto simp: close_inbox_def r1 remove_peer_def split: option.splits)
  let ?d = "?c\<lparr>rg_svcs := rg_svcs r\<rparr>"
  have d: "senders_ok ?d hs" "speaker ?d = speaker r"
    using same_senders(2,3) [of ?d r] rw(3) c by simp_all
  have cs: "senders_ok ?c hs" "speaker ?c = speaker r"
  proof -
    show "senders_ok ?c hs" using d(1) by (simp add: senders_ok_def)
    have "speaker ?c = speaker ?d" by (rule ext) (rule speaker_cong, simp_all)
    then show "speaker ?c = speaker r" by (simp add: d(2))
  qed
  show i: "inbox_of r' w q = (if w = v \<and> q = p then None else inbox_of r w q)" for w q
  proof -
    have "inbox_of r' w q = inbox_of r1 w q" by (simp add: r' gc_service_inbox close_inbox_inbox)
    then show ?thesis unfolding r1 by (simp only: remove_peer_inbox [OF rw(1) v])
  qed
  have nr': "no_empty_service r'" unfolding r' by (rule leaving_no_empty [OF rw(1,2) v r1])
  have r'w: "reg_wf r'" using cw gc_service_wf [OF cw] by (simp add: r')
  have r's: "senders_ok r' hs"
    using cs(1) unfolding r' gc_service_def senders_ok_def by (fastforce split: option.splits if_splits)
  from r'w nr' r's show "served_wf (r', hs)" by (simp add: served_wf_def)
  show "served_speakers (r', hs) =
      (if \<exists>q. q \<noteq> p \<and> inbox_of r v q \<noteq> None then served_speakers (r, hs) else silence v (served_speakers (r, hs)))"
  proof (cases "rg_svcs r1 svc")
    case Nil
    then have g: "rg_services r' = (rg_services r)(v := None)" "rg_peers r' = rg_peers ?c"
      using c v by (simp_all add: r' gc_service_def)
    have "inbox_of r' v i = None" for i by (simp add: inbox_of_def g)
    then have "\<not> (\<exists>q. q \<noteq> p \<and> inbox_of r v q \<noteq> None)" using i by metis
    moreover have spk: "speaker r' x = (case speaker r x of None \<Rightarrow> None | Some (n, i) \<Rightarrow> if n = v then None else Some (n, i))" for x
      unfolding cs(2) [symmetric] by (auto simp: speaker_def g c(1) split: option.splits)
    from spk have "served_speakers (r', hs) = silence v (served_speakers (r, hs))"
      by (simp add: served_speakers_def silence_def)
    ultimately show ?thesis by (simp only: if_False)
  next
    case (Cons y ys)
    then obtain i o1 where "member_of r1 svc i o1" by (cases y) (auto simp: member_of_def)
    then have "member_of r svc i o1" "i \<noteq> p" by (simp_all add: r1 member_remove)
    then have "i \<noteq> p \<and> inbox_of r v i \<noteq> None" unfolding inbox_of_None [OF rw(1)] using v by blast
    then have "\<exists>q. q \<noteq> p \<and> inbox_of r v q \<noteq> None" by (rule exI)
    moreover have "r' = ?c" using Cons by (simp add: r')
    ultimately show ?thesis using cs(2) by (simp add: served_speakers_def)
  qed
qed

text \<open>
  A sender that has been handed out never fails, and reaches the members of the service it speaks for: what
  a broadcast through it leaves.
\<close>

definition spoken ::
  "'m registry \<Rightarrow> sender_ptrs \<Rightarrow> (string \<times> string) option \<Rightarrow> 'm \<Rightarrow> 'm registry \<Rightarrow> bool" where
  "spoken r hs sp m r' \<longleftrightarrow> served_wf (r', hs) \<and> served_speakers (r', hs) = served_speakers (r, hs)
     \<and> (\<forall>w q. inbox_of r' w q = (case sp of
          None \<Rightarrow> inbox_of r w q
        | Some (v, i) \<Rightarrow> if w = v \<and> q \<noteq> i then map_option (enq m) (inbox_of r w q) else inbox_of r w q))"

lemma send_served:
  assumes wf: "served_wf (r, hs)" and h: "(svc, po) \<in> set hs"
  shows "\<exists>pe. rg_peers r po = Some pe
    \<and> (\<forall>v i. speaker r (svc, po) = Some (v, i) \<longrightarrow> v = po_service pe \<and> i = po_id pe)
    \<and> (\<forall>m. \<exists>r'. broadcast_svc r svc (po_id pe) m = Returns r' \<and> spoken r hs (speaker r (svc, po)) m r')"
proof -
  have rw: "reg_wf r" "no_empty_service r" "senders_ok r hs" using wf by (simp_all add: served_wf_def)
  obtain pe where pe: "rg_peers r po = Some pe" "\<And>n. rg_services r n = Some svc \<Longrightarrow> n = po_service pe"
    using rw(3) h by (fastforce simp: senders_ok_def)
  have sends: "\<exists>r'. broadcast_svc r svc (po_id pe) m = Returns r' \<and> spoken r hs (speaker r (svc, po)) m r'" for m
  proof -
    obtain r' where b: "broadcast_svc r svc (po_id pe) m = Returns r'" "reg_wf r'"
      "r' = r\<lparr>rg_peers := got (po_id pe) m (rg_svcs r svc) (rg_peers r)\<rparr>"
      using broadcast_wf [OF rw(1)] by blast
    have l: "map_option (\<lambda>p. (po_id p, po_service p)) (rg_peers r' x) = map_option (\<lambda>p. (po_id p, po_service p)) (rg_peers r x)" for x
      by (simp add: b(3) got_def option.map_comp comp_def)
    have "no_empty_service r' = no_empty_service r" "senders_ok r' hs" "speaker r' = speaker r"
      using same_senders [OF _ _ _ l] rw(3) by (simp_all add: b(3))
    moreover have "inbox_of r' w q = (case speaker r (svc, po) of
           None \<Rightarrow> inbox_of r w q
         | Some (v, i) \<Rightarrow> if w = v \<and> q \<noteq> i then map_option (enq m) (inbox_of r w q) else inbox_of r w q)" for w q
    proof -
      have i: "inbox_of r' w q =
          (if rg_services r w = Some svc \<and> q \<noteq> po_id pe then map_option (enq m) (inbox_of r w q) else inbox_of r w q)"
        unfolding b(3) by (rule broadcast_inbox [OF rw(1)])
      show ?thesis
      proof (cases "rg_services r (po_service pe) = Some svc")
        case True
        then have "speaker r (svc, po) = Some (po_service pe, po_id pe)" by (simp add: speaker_def pe(1))
        moreover have "rg_services r w = Some svc \<longleftrightarrow> w = po_service pe" using True pe(2) by blast
        ultimately show ?thesis using i by simp
      next
        case False
        then have "speaker r (svc, po) = None" by (simp add: speaker_def pe(1))
        moreover have "rg_services r w \<noteq> Some svc" using False pe(2) by blast
        ultimately show ?thesis using i by simp
      qed
    qed
    ultimately have "spoken r hs (speaker r (svc, po)) m r'"
      unfolding spoken_def using b(2) rw(2) by (simp add: served_wf_def served_speakers_def)
    with b(1) show ?thesis by blast
  qed
  have "v = po_service pe \<and> i = po_id pe" if "speaker r (svc, po) = Some (v, i)" for v i
    using that by (simp add: speaker_def pe(1) split: if_splits)
  with pe(1) sends show ?thesis by blast
qed

lemma take_served:
  assumes wf: "served_wf (r, hs)"
  shows "served_wf (take_message r v p, hs)"
    and "inbox_of (take_message r v p) w q = (if w = v \<and> q = p then map_option (drop 1) (inbox_of r w q) else inbox_of r w q)"
    and "served_speakers (take_message r v p, hs) = served_speakers (r, hs)"
proof -
  have rw: "reg_wf r" "no_empty_service r" "senders_ok r hs" using wf by (simp_all add: served_wf_def)
  have "served_wf (take_message r v p, hs)
    \<and> inbox_of (take_message r v p) w q = (if w = v \<and> q = p then map_option (drop 1) (inbox_of r w q) else inbox_of r w q)
    \<and> served_speakers (take_message r v p, hs) = served_speakers (r, hs)"
  proof (cases "inbox_of r v p")
    case None
    then have "take_message r v p = r" by (auto simp: inbox_of_def take_message_def split: option.splits)
    with wf None show ?thesis by auto
  next
    case (Some b)
    then obtain svc po pe where m: "rg_services r v = Some svc" "member_of r svc p po" "rg_peers r po = Some pe"
      using inbox_of_member [OF rw(1)] by blast
    let ?r = "r\<lparr>rg_peers := (rg_peers r)(po := Some (pe\<lparr>po_inbox := drop 1 (po_inbox pe)\<rparr>))\<rparr>"
    have r: "take_message r v p = ?r"
      using m by (simp add: take_message_def map_of_member [OF rw(1), symmetric])
    have "map_option (\<lambda>p. (po_id p, po_service p)) (rg_peers ?r x) = map_option (\<lambda>p. (po_id p, po_service p)) (rg_peers r x)" for x
      using m(3) by simp
    then have "no_empty_service ?r = no_empty_service r" "senders_ok ?r hs" "speaker ?r = speaker r"
      using same_senders [of ?r r] rw(3) by simp_all
    moreover have "inbox_of ?r w q = (if w = v \<and> q = p then map_option (drop 1) (inbox_of r w q) else inbox_of r w q)"
    proof (cases "rg_services r w")
      case (Some x)
      have x: "x = svc \<longleftrightarrow> w = v" using wf_inj [OF rw(1) m(1), of w] Some m(1) by auto
      show ?thesis
      proof (cases "map_of (rg_svcs r x) q")
        case None
        with Some have "inbox_of ?r w q = None" "inbox_of r w q = None" by (simp_all add: inbox_of_def)
        then show ?thesis by auto
      next
        case o1: (Some po')
        then have "member_of r x q po'" by (simp add: map_of_member [OF rw(1)])
        moreover have "map_of (rg_svcs r svc) p = Some po" using m(2) by (simp add: map_of_member [OF rw(1)])
        ultimately have "po' = po \<longleftrightarrow> w = v \<and> q = p"
          using wf_unique [OF rw(1) m(2), of x q] o1 x by auto
        with Some o1 m(3) show ?thesis by (auto simp: inbox_of_def)
      qed
    qed (auto simp: inbox_of_def)
    ultimately show ?thesis
      using r pop_inbox_wf [OF rw(1) m(3)] rw(2) by (simp add: served_wf_def served_speakers_def)
  qed
  then show "served_wf (take_message r v p, hs)"
    and "inbox_of (take_message r v p) w q = (if w = v \<and> q = p then map_option (drop 1) (inbox_of r w q) else inbox_of r w q)"
    and "served_speakers (take_message r v p, hs) = served_speakers (r, hs)" by blast+
qed

end
