(* ===== verification/Signal_Store.thy ===== *)
theory Signal_Store
  imports Rendezvous
begin

text \<open>
  The signaling server's in-memory store (\<open>signalserver/store/memory.go\<close>): the operations as a caller
  sees them, and the same operations as threads whose critical sections interleave. The body of a
  message is opaque to the store and so is its type here.
\<close>

section \<open>Types\<close>

record 'b store_msg =
  sm_service :: string
  sm_sender :: string
  sm_body :: 'b

type_synonym 'b store = "'b store_msg registry"

record store_peer =
  pr_id :: string
  pr_service :: string

text \<open>\<open>memorySender\<close>: the pointers it keeps. The receiver is the inbox of the same peer object.\<close>

record store_sender =
  sd_peer :: nat
  sd_service :: nat

definition MaxPeersPerService :: nat where "MaxPeersPerService = 10"

definition ErrPeerAlreadyExists :: go_error where
  "ErrPeerAlreadyExists = ErrNew ''store: peer already exists in service''"

definition ErrServiceFull :: go_error where
  "ErrServiceFull = ErrNew ''store: service is full''"

section \<open>Operations\<close>

definition NewMemory :: "'b store" where
  "NewMemory = empty_registry"

text \<open>The section of \<open>Join\<close> under the service's lock.\<close>

definition Join_insert :: "'b store \<Rightarrow> nat \<Rightarrow> store_peer \<Rightarrow> 'b store \<times> (go_error + store_sender)" where
  "Join_insert r svc peer =
     (if pr_id peer \<in> fst ` set (rg_svcs r svc) then (r, Inl ErrPeerAlreadyExists)
      else if length (rg_svcs r svc) \<ge> MaxPeersPerService then (r, Inl ErrServiceFull)
      else let (r1, po) = add_peer r svc (pr_service peer) (pr_id peer)
           in (r1, Inr \<lparr>sd_peer = po, sd_service = svc\<rparr>))"

definition Join :: "'b store \<Rightarrow> store_peer \<Rightarrow> 'b store \<times> (go_error + store_sender)" where
  "Join r peer =
     (if pr_service peer = [] then (r, Inl ErrPeerAlreadyExists)
      else if pr_id peer = [] then (r, Inl ErrPeerAlreadyExists)
      else let (r1, svc) = service_for r (pr_service peer) in Join_insert r1 svc peer)"

definition Leave :: "'b store \<Rightarrow> store_peer \<Rightarrow> 'b store" where
  "Leave r peer =
     (case rg_services r (pr_service peer) of
        None \<Rightarrow> r
      | Some svc \<Rightarrow>
          (case map_of (rg_svcs r svc) (pr_id peer) of
             None \<Rightarrow> r
           | Some po \<Rightarrow>
               (let r1 = remove_peer r svc (pr_id peer);
                    was_last = (length (rg_svcs r1 svc) = 0);
                    r2 = close_inbox r1 po
                in if was_last then gc_service r2 (pr_service peer) else r2)))"

definition store_Send :: "'b store \<Rightarrow> store_sender \<Rightarrow> 'b store_msg \<Rightarrow> 'b store go" where
  "store_Send r s msg =
     (case rg_peers r (sd_peer s) of
        None \<Rightarrow> Returns r
      | Some p \<Rightarrow> broadcast_svc r (sd_service s) (po_id p)
          (msg\<lparr>sm_sender := po_id p, sm_service := po_service p\<rparr>))"

definition store_Close :: "'b store \<Rightarrow> store_sender \<Rightarrow> 'b store" where
  "store_Close r s =
     (case rg_peers r (sd_peer s) of
        None \<Rightarrow> r
      | Some p \<Rightarrow> Leave r \<lparr>pr_id = po_id p, pr_service = po_service p\<rparr>)"

section \<open>The contract\<close>

lemma Join_cases:
  assumes wf: "reg_wf r" and j: "Join r \<lparr>pr_id = p, pr_service = v\<rparr> = (r', Inr s)"
  shows "\<exists>r1. service_for r v = (r1, sd_service s) \<and> p \<notin> fst ` set (rg_svcs r1 (sd_service s))
    \<and> length (rg_svcs r1 (sd_service s)) < MaxPeersPerService
    \<and> add_peer r1 (sd_service s) v p = (r', sd_peer s)"
  using j by (auto simp: Join_def Join_insert_def split: if_splits prod.splits)

lemma Join_ok:
  assumes wf: "reg_wf r" and j: "Join r \<lparr>pr_id = p, pr_service = v\<rparr> = (r', Inr s)"
  shows "reg_wf r'" and "inbox_of r' w q = (if w = v \<and> q = p then Some [] else inbox_of r w q)"
    and "rg_services r' v = Some (sd_service s)" and "member_of r' (sd_service s) p (sd_peer s)"
    and "rg_peers r' (sd_peer s) = Some \<lparr>po_id = p, po_service = v, po_inbox = [], po_closed = False\<rparr>"
proof -
  obtain r1 where r1: "service_for r v = (r1, sd_service s)" "p \<notin> fst ` set (rg_svcs r1 (sd_service s))"
    "add_peer r1 (sd_service s) v p = (r', sd_peer s)"
    using Join_cases [OF wf j] by blast
  note f = service_for_wf [OF wf r1(1)]
  have a: "reg_wf r'" "rg_services r' = rg_services r1"
    using add_peer_wf [OF _ _ r1(2,3)] f by blast+
  then show "reg_wf r'" "rg_services r' v = Some (sd_service s)" using f by auto
  show "inbox_of r' w q = (if w = v \<and> q = p then Some [] else inbox_of r w q)"
    using add_peer_inbox [OF _ _ r1(2,3)] f service_for_inbox [OF wf r1(1)] by simp
  show "member_of r' (sd_service s) p (sd_peer s)"
    "rg_peers r' (sd_peer s) = Some \<lparr>po_id = p, po_service = v, po_inbox = [], po_closed = False\<rparr>"
    using r1(3) by (auto simp: add_peer_def Let_def member_of_def)
qed

lemma Join_twice:
  assumes wf: "reg_wf r" and i: "inbox_of r v p \<noteq> None"
  shows "\<exists>e. snd (Join r \<lparr>pr_id = p, pr_service = v\<rparr>) = Inl e"
proof -
  obtain svc po where "rg_services r v = Some svc" "member_of r svc p po"
    using i unfolding inbox_of_None [OF wf] by blast
  then show ?thesis
    by (force simp: Join_def Join_insert_def service_for_def member_of_def)
qed

lemma Leave_ok:
  assumes wf: "reg_wf r"
  shows "reg_wf (Leave r \<lparr>pr_id = p, pr_service = v\<rparr>)"
    and "inbox_of (Leave r \<lparr>pr_id = p, pr_service = v\<rparr>) w q = (if w = v \<and> q = p then None else inbox_of r w q)"
proof -
  have "reg_wf (Leave r \<lparr>pr_id = p, pr_service = v\<rparr>) \<and>
    inbox_of (Leave r \<lparr>pr_id = p, pr_service = v\<rparr>) w q = (if w = v \<and> q = p then None else inbox_of r w q)"
  proof (cases "inbox_of r v p")
    case None
    then have "Leave r \<lparr>pr_id = p, pr_service = v\<rparr> = r"
      using inbox_of_None [OF wf, of v p] by (auto simp: Leave_def map_of_member [OF wf] split: option.splits)
    with wf None show ?thesis by auto
  next
    case (Some q0)
    then obtain svc po where m: "rg_services r v = Some svc" "member_of r svc p po"
      using inbox_of_member [OF wf] by blast
    let ?r1 = "remove_peer r svc p"
    have "\<not> member_of ?r1 x i po" for x i
      using wf_unique [OF wf m(2)] by (auto simp: member_remove)
    then have "reg_wf (close_inbox ?r1 po)"
      by (intro close_inbox_wf remove_peer_wf wf)
    moreover have "Leave r \<lparr>pr_id = p, pr_service = v\<rparr> =
        (if length (rg_svcs ?r1 svc) = 0 then gc_service (close_inbox ?r1 po) v else close_inbox ?r1 po)"
      using m by (simp add: Leave_def map_of_member [OF wf, symmetric] Let_def)
    ultimately show ?thesis
      using remove_peer_inbox [OF wf m(1)] by (simp add: gc_service_wf gc_service_inbox close_inbox_inbox)
  qed
  then show "reg_wf (Leave r \<lparr>pr_id = p, pr_service = v\<rparr>)"
    "inbox_of (Leave r \<lparr>pr_id = p, pr_service = v\<rparr>) w q = (if w = v \<and> q = p then None else inbox_of r w q)"
    by blast+
qed

text \<open>
  The store with the senders it has handed out. Joining and leaving go by name, a sender keeps the pointers
  to its peer and its service object and works, on that object, as long as somebody calls it.
\<close>

type_synonym 'b served_store = "'b store \<times> sender_ptrs"

definition mem_join :: "'b served_store \<Rightarrow> string \<Rightarrow> string \<Rightarrow> 'b served_store option" where
  "mem_join s v p =
     (case Join (fst s) \<lparr>pr_id = p, pr_service = v\<rparr> of
        (r', Inr sd) \<Rightarrow> Some (r', snd s @ [(sd_service sd, sd_peer sd)])
      | _ \<Rightarrow> None)"

definition mem_leave :: "'b served_store \<Rightarrow> string \<Rightarrow> string \<Rightarrow> 'b served_store" where
  "mem_leave s v p = (Leave (fst s) \<lparr>pr_id = p, pr_service = v\<rparr>, snd s)"

definition mem_send :: "'b served_store \<Rightarrow> nat \<Rightarrow> 'b store_msg \<Rightarrow> 'b served_store" where
  "mem_send s h msg =
     (if h < length (snd s)
      then case store_Send (fst s) \<lparr>sd_peer = snd (snd s ! h), sd_service = fst (snd s ! h)\<rparr> msg of
             Returns r' \<Rightarrow> (r', snd s)
           | Panics _ \<Rightarrow> s
      else s)"

definition mem_recv :: "'b served_store \<Rightarrow> string \<Rightarrow> string \<Rightarrow> 'b served_store" where
  "mem_recv s v p = (take_message (fst s) v p, snd s)"

definition mem_step :: "'b served_store \<Rightarrow> 'b store_msg rv_op \<Rightarrow> 'b served_store" where
  "mem_step = rv_step mem_join mem_leave mem_send mem_recv"

definition mem_tag :: "string \<Rightarrow> string \<Rightarrow> 'b store_msg \<Rightarrow> 'b store_msg" where
  "mem_tag v p msg = msg\<lparr>sm_sender := p, sm_service := v\<rparr>"

lemma mem_join_served:
  assumes wf: "served_wf s" and j: "mem_join s v p = Some s'"
  shows "served_wf s'"
    and "served_inbox s' w q = (if w = v \<and> q = p then Some [] else served_inbox s w q)"
    and "served_speakers s' = served_speakers s @ [Some (v, p)]"
proof -
  have w: "served_wf (fst s, snd s)" using wf by simp
  then have rw: "reg_wf (fst s)" by (simp add: served_wf_def)
  obtain r' sd where r': "Join (fst s) \<lparr>pr_id = p, pr_service = v\<rparr> = (r', Inr sd)"
    "s' = (r', snd s @ [(sd_service sd, sd_peer sd)])"
    using j by (auto simp: mem_join_def split: prod.splits sum.splits)
  obtain r1 where r1: "service_for (fst s) v = (r1, sd_service sd)" "p \<notin> fst ` set (rg_svcs r1 (sd_service sd))"
    "add_peer r1 (sd_service sd) v p = (r', sd_peer sd)"
    using Join_cases [OF rw r'(1)] by blast
  show "served_wf s'" "served_speakers s' = served_speakers s @ [Some (v, p)]"
    "served_inbox s' w q = (if w = v \<and> q = p then Some [] else served_inbox s w q)"
    using join_served [OF w r1] by (simp_all add: r'(2) served_inbox_def)
qed

lemma mem_leave_served:
  assumes wf: "served_wf s"
  shows "served_wf (mem_leave s v p)"
    and "served_inbox (mem_leave s v p) w q = (if w = v \<and> q = p then None else served_inbox s w q)"
    and "served_speakers (mem_leave s v p) =
      (if \<exists>q. q \<noteq> p \<and> served_inbox s v q \<noteq> None then served_speakers s else silence v (served_speakers s))"
proof -
  have w: "served_wf (fst s, snd s)" using wf by simp
  then have rw: "reg_wf (fst s)" by (simp add: served_wf_def)
  have "served_wf (mem_leave s v p) \<and> served_speakers (mem_leave s v p) =
      (if \<exists>q. q \<noteq> p \<and> served_inbox s v q \<noteq> None then served_speakers s else silence v (served_speakers s))"
  proof (cases "inbox_of (fst s) v p")
    case None
    then have s': "mem_leave s v p = s"
      using inbox_of_None [OF rw, of v p]
      by (auto simp: mem_leave_def Leave_def map_of_member [OF rw] split: option.splits)
    show ?thesis
    proof (cases "\<exists>q. q \<noteq> p \<and> served_inbox s v q \<noteq> None")
      case False
      with None have "inbox_of (fst s) v q = None" for q by (cases "q = p") (auto simp: served_inbox_def)
      with absent_silent [OF w] False show ?thesis by (simp add: s' wf)
    qed (simp add: s' wf)
  next
    case (Some b)
    then obtain svc po where m: "rg_services (fst s) v = Some svc" "member_of (fst s) svc p po"
      using inbox_of_member [OF rw] by blast
    then have "Leave (fst s) \<lparr>pr_id = p, pr_service = v\<rparr> =
        (if length (rg_svcs (remove_peer (fst s) svc p) svc) = 0
         then gc_service (close_inbox (remove_peer (fst s) svc p) po) v else close_inbox (remove_peer (fst s) svc p) po)"
      by (simp add: Leave_def map_of_member [OF rw, symmetric] Let_def)
    note l = leave_served [OF w m refl this]
    show ?thesis
      unfolding mem_leave_def served_inbox_def using l(1,3) by (simp only: prod.collapse simp_thms)
  qed
  then show "served_wf (mem_leave s v p)" "served_speakers (mem_leave s v p) =
      (if \<exists>q. q \<noteq> p \<and> served_inbox s v q \<noteq> None then served_speakers s else silence v (served_speakers s))"
    by blast+
  show "served_inbox (mem_leave s v p) w q = (if w = v \<and> q = p then None else served_inbox s w q)"
    using Leave_ok(2) [OF rw] by (simp add: mem_leave_def served_inbox_def)
qed

text \<open>A sender never panics; it reaches the members of the service it speaks for, and nobody if it speaks for none.\<close>

lemma mem_send_served:
  assumes wf: "served_wf s"
  shows "served_wf (mem_send s h m)"
    and "served_inbox (mem_send s h m) w q =
      (case speaks_for (served_speakers s) h of
         None \<Rightarrow> served_inbox s w q
       | Some (v, p) \<Rightarrow> if w = v \<and> q \<noteq> p then map_option (enq (mem_tag v p m)) (served_inbox s w q) else served_inbox s w q)"
    and "served_speakers (mem_send s h m) = served_speakers s"
    and "h < length (snd s) \<Longrightarrow>
      \<exists>r'. store_Send (fst s) \<lparr>sd_peer = snd (snd s ! h), sd_service = fst (snd s ! h)\<rparr> m = Returns r'"
proof -
  have w: "served_wf (fst s, snd s)" using wf by simp
  have "served_wf (mem_send s h m) \<and> served_inbox (mem_send s h m) w q =
      (case speaks_for (served_speakers s) h of
         None \<Rightarrow> served_inbox s w q
       | Some (v, p) \<Rightarrow> if w = v \<and> q \<noteq> p then map_option (enq (mem_tag v p m)) (served_inbox s w q) else served_inbox s w q)
    \<and> served_speakers (mem_send s h m) = served_speakers s
    \<and> (h < length (snd s) \<longrightarrow> (\<exists>r'. store_Send (fst s) \<lparr>sd_peer = snd (snd s ! h), sd_service = fst (snd s ! h)\<rparr> m = Returns r'))"
  proof (cases "h < length (snd s)")
    case True
    obtain svc po where hd: "snd s ! h = (svc, po)" by (cases "snd s ! h")
    then have mem: "(svc, po) \<in> set (snd s)" using True nth_mem by metis
    obtain pe where pe: "rg_peers (fst s) po = Some pe"
      "\<And>v i. speaker (fst s) (svc, po) = Some (v, i) \<Longrightarrow> v = po_service pe \<and> i = po_id pe"
      "\<And>m. \<exists>r'. broadcast_svc (fst s) svc (po_id pe) m = Returns r' \<and> spoken (fst s) (snd s) (speaker (fst s) (svc, po)) m r'"
      using send_served [OF w mem] by blast
    obtain r' where r': "broadcast_svc (fst s) svc (po_id pe) (mem_tag (po_service pe) (po_id pe) m) = Returns r'"
      "spoken (fst s) (snd s) (speaker (fst s) (svc, po)) (mem_tag (po_service pe) (po_id pe) m) r'"
      using pe(3) by blast
    have sent: "store_Send (fst s) \<lparr>sd_peer = snd (snd s ! h), sd_service = fst (snd s ! h)\<rparr> m = Returns r'"
      using r'(1) by (simp add: store_Send_def hd pe(1) mem_tag_def)
    then have s': "mem_send s h m = (r', snd s)" using True by (simp add: mem_send_def)
    have sp: "speaks_for (served_speakers s) h = speaker (fst s) (svc, po)"
      using True hd by (simp add: speaks_for_def served_speakers_def)
    show ?thesis
      unfolding s' sp using r'(2) pe(2) sent
      by (cases "speaker (fst s) (svc, po)") (auto simp: spoken_def served_inbox_def)
  qed (use wf in \<open>simp add: mem_send_def speaks_for_def served_speakers_def\<close>)
  then show "served_wf (mem_send s h m)"
    "served_inbox (mem_send s h m) w q =
      (case speaks_for (served_speakers s) h of
         None \<Rightarrow> served_inbox s w q
       | Some (v, p) \<Rightarrow> if w = v \<and> q \<noteq> p then map_option (enq (mem_tag v p m)) (served_inbox s w q) else served_inbox s w q)"
    "served_speakers (mem_send s h m) = served_speakers s"
    "h < length (snd s) \<Longrightarrow>
      \<exists>r'. store_Send (fst s) \<lparr>sd_peer = snd (snd s ! h), sd_service = fst (snd s ! h)\<rparr> m = Returns r'"
    by blast+
qed

lemma mem_join_twice:
  assumes wf: "served_wf s" and i: "served_inbox s v p \<noteq> None"
  shows "mem_join s v p = None"
proof -
  have "reg_wf (fst s)" using wf by (simp add: served_wf_def)
  from Join_twice [OF this, of v p] i show ?thesis
    by (auto simp: mem_join_def served_inbox_def split: prod.splits sum.splits)
qed

lemma mem_recv_served:
  assumes wf: "served_wf s"
  shows "served_wf (mem_recv s v p)"
    and "served_inbox (mem_recv s v p) w q =
      (if w = v \<and> q = p then map_option (drop 1) (served_inbox s w q) else served_inbox s w q)"
    and "served_speakers (mem_recv s v p) = served_speakers s"
  using take_served [of "fst s" "snd s" v p] wf by (simp_all add: mem_recv_def served_inbox_def)

interpretation memory: rendezvous served_wf served_inbox served_speakers mem_join mem_leave mem_send mem_recv mem_tag
  by unfold_locales
    (rule mem_join_served mem_join_twice mem_leave_served mem_send_served mem_recv_served; assumption)+

section \<open>Concurrent callers\<close>

text \<open>
  The calls as threads: the constructor says which critical section comes next. \<open>PcClose\<close> holds the
  peer object it has removed and whether the service was left empty.
\<close>

datatype 'b pc =
    PcJoin store_peer
  | PcInsert store_peer nat
  | PcLeave store_peer
  | PcRemove store_peer nat
  | PcClose store_peer nat bool
  | PcGc store_peer
  | PcSend store_sender "'b store_msg"
  | PcReturned "go_error option"

fun initial_pc :: "'b pc \<Rightarrow> bool" where
  "initial_pc (PcJoin _) = True"
| "initial_pc (PcLeave _) = True"
| "initial_pc (PcSend _ _) = True"
| "initial_pc _ = False"

record 'b store_sys =
  sy_reg :: "'b store"
  sy_threads :: "nat \<Rightarrow> 'b pc option"
  sy_panic :: "string option"

definition new_sys :: "'b store_sys" where
  "new_sys = \<lparr>sy_reg = NewMemory, sy_threads = (\<lambda>_. None), sy_panic = None\<rparr>"

fun section_step :: "'b store \<Rightarrow> 'b pc \<Rightarrow> ('b store \<times> 'b pc) go list" where
  "section_step r (PcJoin peer) =
     (if pr_service peer = [] \<or> pr_id peer = [] then [Returns (r, PcReturned (Some ErrPeerAlreadyExists))]
      else let (r1, svc) = service_for r (pr_service peer) in [Returns (r1, PcInsert peer svc)])"
| "section_step r (PcInsert peer svc) =
     (case Join_insert r svc peer of
        (r1, Inl e) \<Rightarrow> [Returns (r1, PcReturned (Some e))]
      | (r1, Inr _) \<Rightarrow> [Returns (r1, PcReturned None)])"
| "section_step r (PcLeave peer) =
     (case rg_services r (pr_service peer) of
        None \<Rightarrow> [Returns (r, PcReturned None)]
      | Some svc \<Rightarrow> [Returns (r, PcRemove peer svc)])"
| "section_step r (PcRemove peer svc) =
     (case map_of (rg_svcs r svc) (pr_id peer) of
        None \<Rightarrow> [Returns (r, PcReturned None)]
      | Some po \<Rightarrow>
          (let r1 = remove_peer r svc (pr_id peer)
           in [Returns (r1, PcClose peer po (length (rg_svcs r1 svc) = 0))]))"
| "section_step r (PcClose peer po was_last) =
     [Returns (close_inbox r po, if was_last then PcGc peer else PcReturned None)]"
| "section_step r (PcGc peer) = [Returns (gc_service r (pr_service peer), PcReturned None)]"
| "section_step r (PcSend s msg) =
     (case store_Send r s msg of Panics e \<Rightarrow> [Panics e] | Returns r1 \<Rightarrow> [Returns (r1, PcReturned None)])"
| "section_step r (PcReturned e) = []"

datatype 'b sys_event = Call nat "'b pc" | Section nat

definition sys_outcomes :: "'b store_sys \<Rightarrow> 'b sys_event \<Rightarrow> 'b store_sys list" where
  "sys_outcomes y ev =
     (if sy_panic y \<noteq> None then []
      else case ev of
             Call t pc \<Rightarrow> if initial_pc pc \<and> sy_threads y t = None
                          then [y\<lparr>sy_threads := (sy_threads y)(t := Some pc)\<rparr>] else []
           | Section t \<Rightarrow>
               (case sy_threads y t of
                  None \<Rightarrow> []
                | Some pc \<Rightarrow> map (\<lambda>x. case x of
                      Panics e \<Rightarrow> y\<lparr>sy_panic := Some e\<rparr>
                    | Returns (r, pc') \<Rightarrow> y\<lparr>sy_reg := r, sy_threads := (sy_threads y)(t := Some pc')\<rparr>)
                    (section_step (sy_reg y) pc)))"

definition pc_ok :: "'b store \<Rightarrow> 'b pc \<Rightarrow> bool" where
  "pc_ok r pc = (case pc of
       PcInsert _ svc \<Rightarrow> svc < rg_nextSvc r
     | PcClose _ po _ \<Rightarrow> po < rg_nextPeer r \<and> (\<forall>v i. \<not> member_of r v i po)
     | _ \<Rightarrow> True)"

definition capped :: "'b store \<Rightarrow> bool" where
  "capped r \<longleftrightarrow> (\<forall>svc. length (rg_svcs r svc) \<le> MaxPeersPerService)"

definition sys_inv :: "'b store_sys \<Rightarrow> bool" where
  "sys_inv y \<longleftrightarrow> reg_wf (sy_reg y) \<and> capped (sy_reg y) \<and> sy_panic y = None
     \<and> (\<forall>t pc. sy_threads y t = Some pc \<longrightarrow> pc_ok (sy_reg y) pc)"

text \<open>What no section ever undoes: allocated cells stay allocated and a removed object stays out.\<close>

definition later :: "'b store \<Rightarrow> 'b store \<Rightarrow> bool" where
  "later r r' \<longleftrightarrow> rg_nextSvc r \<le> rg_nextSvc r' \<and> rg_nextPeer r \<le> rg_nextPeer r'
     \<and> (\<forall>po < rg_nextPeer r. (\<forall>v i. \<not> member_of r v i po) \<longrightarrow> (\<forall>v i. \<not> member_of r' v i po))"

lemma later_pc: "later r r' \<Longrightarrow> pc_ok r pc \<Longrightarrow> pc_ok r' pc"
  by (auto simp: later_def pc_ok_def split: pc.splits)

definition safe_step :: "'b store \<Rightarrow> 'b store \<Rightarrow> 'b pc \<Rightarrow> bool" where
  "safe_step r r' pc' \<longleftrightarrow> reg_wf r' \<and> capped r' \<and> later r r' \<and> pc_ok r' pc'"

lemma Join_insert_safe:
  assumes wf: "reg_wf r" and cap: "capped r" and svc: "svc < rg_nextSvc r"
    and j: "Join_insert r svc peer = (r', x)"
  shows "reg_wf r' \<and> capped r' \<and> later r r'"
proof (cases "pr_id peer \<in> fst ` set (rg_svcs r svc) \<or> length (rg_svcs r svc) \<ge> MaxPeersPerService")
  case True
  with assms show ?thesis by (auto simp: Join_insert_def later_def split: if_splits)
next
  case False
  then obtain po where a: "add_peer r svc (pr_service peer) (pr_id peer) = (r', po)"
    using j by (auto simp: Join_insert_def split: prod.splits)
  then have r': "r' = r\<lparr>rg_svcs := (rg_svcs r)(svc := (pr_id peer, rg_nextPeer r) # rg_svcs r svc),
      rg_peers := rg_peers r', rg_nextPeer := Suc (rg_nextPeer r)\<rparr>"
    by (auto simp: add_peer_def Let_def)
  have "reg_wf r'" using add_peer_wf [OF wf svc _ a] False by blast
  moreover have "capped r'"
    using cap False unfolding capped_def by (subst r') auto
  moreover have "later r r'"
    unfolding later_def member_of_def by (subst (1 2 3) r') auto
  ultimately show ?thesis by blast
qed

lemma section_step_safe:
  assumes wf: "reg_wf r" and cap: "capped r" and pc: "pc_ok r pc" and x: "x \<in> set (section_step r pc)"
  shows "\<exists>r' pc'. x = Returns (r', pc') \<and> safe_step r r' pc'"
proof (cases pc)
  case (PcJoin peer)
  show ?thesis
  proof (cases "pr_service peer = [] \<or> pr_id peer = []")
    case True
    with x PcJoin wf cap show ?thesis by (auto simp: safe_step_def later_def pc_ok_def)
  next
    case False
    obtain r1 svc where s: "service_for r (pr_service peer) = (r1, svc)" by (cases "service_for r (pr_service peer)")
    note f = service_for_wf [OF wf s]
    have "capped r1" "rg_nextSvc r \<le> rg_nextSvc r1" "rg_nextPeer r = rg_nextPeer r1"
      using cap s by (auto simp: capped_def service_for_def split: option.splits)
    with False x PcJoin s f show ?thesis by (auto simp: safe_step_def later_def pc_ok_def)
  qed
next
  case (PcInsert peer svc)
  obtain r1 y where j: "Join_insert r svc peer = (r1, y)" by (cases "Join_insert r svc peer")
  have "reg_wf r1 \<and> capped r1 \<and> later r r1"
    using Join_insert_safe [OF wf cap _ j] pc PcInsert by (simp add: pc_ok_def)
  with x PcInsert j show ?thesis by (cases y) (auto simp: safe_step_def pc_ok_def)
next
  case (PcLeave peer)
  with x wf cap show ?thesis by (auto simp: safe_step_def later_def pc_ok_def split: option.splits)
next
  case (PcRemove peer svc)
  show ?thesis
  proof (cases "map_of (rg_svcs r svc) (pr_id peer)")
    case None
    with x PcRemove wf cap show ?thesis by (auto simp: safe_step_def later_def pc_ok_def)
  next
    case (Some po)
    let ?r1 = "remove_peer r svc (pr_id peer)"
    have m: "member_of r svc (pr_id peer) po" using Some by (simp add: map_of_member [OF wf])
    have out: "\<not> member_of ?r1 v i po" for v i
      using wf_unique [OF wf m] by (auto simp: member_remove)
    have len: "length (AList.delete (pr_id peer) (rg_svcs r svc)) \<le> length (rg_svcs r svc)"
      by (simp add: AList.length_delete_le)
    have "capped ?r1"
      unfolding capped_def
    proof
      show "length (rg_svcs ?r1 v) \<le> MaxPeersPerService" for v
        using cap len order.trans [OF len] by (auto simp: capped_def remove_peer_def)
    qed
    moreover have "later r ?r1" by (auto simp: later_def member_remove) (auto simp: remove_peer_def)
    moreover have "po < rg_nextPeer ?r1" using wf_member [OF wf m] by (simp add: remove_peer_def)
    ultimately show ?thesis
      using x PcRemove Some out remove_peer_wf [OF wf] by (auto simp: safe_step_def pc_ok_def Let_def)
  qed
next
  case (PcClose peer po b)
  have "reg_wf (close_inbox r po)"
    using pc PcClose by (intro close_inbox_wf wf) (simp add: pc_ok_def)
  with x PcClose cap show ?thesis
    by (auto simp: safe_step_def later_def pc_ok_def capped_def close_inbox_def member_of_def split: option.splits)
next
  case (PcGc peer)
  with x cap gc_service_wf [OF wf] show ?thesis
    by (auto simp: safe_step_def later_def pc_ok_def capped_def gc_service_def member_of_def split: option.splits)
next
  case (PcSend s msg)
  show ?thesis
  proof (cases "rg_peers r (sd_peer s)")
    case None
    with x PcSend wf cap show ?thesis by (auto simp: store_Send_def safe_step_def later_def pc_ok_def)
  next
    case (Some p)
    obtain r1 where r1: "store_Send r s msg = Returns r1" "reg_wf r1" "rg_svcs r1 = rg_svcs r"
      "rg_nextSvc r1 = rg_nextSvc r" "rg_nextPeer r1 = rg_nextPeer r"
      using broadcast_wf [OF wf] Some by (fastforce simp: store_Send_def)
    with x PcSend cap show ?thesis
      by (auto simp: safe_step_def later_def pc_ok_def capped_def member_of_def)
  qed
next
  case (PcReturned e)
  with x show ?thesis by simp
qed

lemma sys_outcomes_inv:
  assumes inv: "sys_inv y" and y': "y' \<in> set (sys_outcomes y ev)"
  shows "sys_inv y'"
proof (cases ev)
  case (Call t pc)
  have "pc_ok r pc" if "initial_pc pc" for r :: "'a store"
    using that by (cases pc) (simp_all add: pc_ok_def)
  with inv y' Call show ?thesis by (auto simp: sys_outcomes_def sys_inv_def split: if_splits)
next
  case (Section t)
  have np: "sy_panic y = None" using inv by (simp add: sys_inv_def)
  obtain pc x where pc: "sy_threads y t = Some pc" and x: "x \<in> set (section_step (sy_reg y) pc)"
    and y'x: "y' = (case x of Panics e \<Rightarrow> y\<lparr>sy_panic := Some e\<rparr>
      | Returns (r, pc') \<Rightarrow> y\<lparr>sy_reg := r, sy_threads := (sy_threads y)(t := Some pc')\<rparr>)"
    using y' Section np by (cases "sy_threads y t") (auto simp: sys_outcomes_def)
  have ok: "reg_wf (sy_reg y)" "capped (sy_reg y)" "pc_ok (sy_reg y) pc"
    using inv pc by (simp_all add: sys_inv_def)
  obtain r' pc' where r': "x = Returns (r', pc')" "safe_step (sy_reg y) r' pc'"
    using section_step_safe [OF ok x] by blast
  have "pc_ok r' pc1" if "sy_threads y u = Some pc1" for u pc1
    using that inv r'(2) later_pc [of "sy_reg y" r' pc1] by (auto simp: sys_inv_def safe_step_def)
  with r' y'x np show ?thesis by (auto simp: sys_inv_def safe_step_def split: if_splits)
qed

section \<open>Properties\<close>

lemma NewMemory_wf: "reg_wf NewMemory"
  by (simp add: NewMemory_def empty_registry_wf)

lemma new_served: "served_wf (NewMemory, [])"
  by (simp add: NewMemory_def empty_served_wf)

text \<open>
  C12: What a member of a service hears. After any operations of any peers, a peer that joins has as its inbox,
  until it leaves, a first-in first-out queue of 32 messages: what is put in are, in order and nothing else, the
  messages that the other senders of its service send, each stamped by the store with the sender's real id and
  service, never its own, none from before it joined, none of another service; a message that finds the queue
  full is dropped, and reading takes the oldest. So a peer that has not read yet holds exactly the first 32 of
  them. The sender it was given speaks for it all that time. Senders of peers that have left keep speaking as
  long as the service has had a member ever since.
\<close>

theorem store_broadcast:
  assumes "s = foldl mem_step (NewMemory, []) before"
    and "mem_join s w q = Some s'" and "RvLeave w q \<notin> set ops"
  shows "served_inbox (foldl mem_step s' ops) w q =
      Some (bounded [] (heard served_speakers mem_step mem_tag w q s' ops))
    \<and> (RvRecv w q \<notin> set ops \<longrightarrow> served_inbox (foldl mem_step s' ops) w q =
        Some (take inboxCap (heard_messages (heard served_speakers mem_step mem_tag w q s' ops))))
    \<and> speaks_for (served_speakers (foldl mem_step s' ops)) (length (served_speakers s)) = Some (w, q)"
proof -
  have "served_wf s" using memory.run_wf [OF new_served, of before] assms(1) by (simp add: mem_step_def)
  from memory.delivery_in_order [OF this assms(2,3)] show ?thesis by (simp add: mem_step_def)
qed

definition demo_msg :: "nat \<Rightarrow> nat store_msg" where
  "demo_msg n = \<lparr>sm_service = ''x'', sm_sender = ''forged'', sm_body = n\<rparr>"

text \<open>
  \<open>b\<close> joins \<open>a\<close>; \<open>a\<close> sends forty messages and \<open>b\<close> one, \<open>b\<close> reads one, \<open>a\<close> leaves and sends once more
  through its old sender.
\<close>

definition demo_alone :: "nat served_store" where
  "demo_alone = foldl mem_step (NewMemory, []) [RvJoin ''v'' ''a'']"

definition demo_pair :: "nat served_store" where
  "demo_pair = mem_step demo_alone (RvJoin ''v'' ''b'')"

definition demo_ops :: "nat store_msg rv_op list" where
  "demo_ops = map (\<lambda>n. RvSend 0 (demo_msg n)) [0..<40]
     @ [RvSend 1 (demo_msg 50), RvRecv ''v'' ''b'', RvLeave ''v'' ''a'', RvSend 0 (demo_msg 60)]"

definition from_a :: "nat \<Rightarrow> nat store_msg" where
  "from_a n = \<lparr>sm_service = ''v'', sm_sender = ''a'', sm_body = n\<rparr>"

lemma demo_joins: "mem_join demo_alone ''v'' ''b'' = Some demo_pair"
proof -
  have "mem_join demo_alone ''v'' ''b'' = None \<longleftrightarrow> False" by code_simp
  then show ?thesis by (auto simp: demo_pair_def mem_step_def rv_step_def)
qed

lemma demo_heard:
  "bounded [] (heard served_speakers mem_step mem_tag ''v'' ''b'' demo_pair demo_ops) = map from_a ([1..<32] @ [60])"
  "heard_messages (heard served_speakers mem_step mem_tag ''v'' ''b'' demo_pair (take 40 demo_ops)) = map from_a [0..<40]"
  by code_simp+

theorem store_broadcast_witness:
  "mem_join (foldl mem_step (NewMemory, []) [RvJoin ''v'' ''a'']) ''v'' ''b'' = Some demo_pair
     \<and> served_inbox (foldl mem_step demo_pair demo_ops) ''v'' ''b'' = Some (map from_a ([1..<32] @ [60]))
     \<and> served_inbox (foldl mem_step demo_pair (take 40 demo_ops)) ''v'' ''b'' = Some (map from_a [0..<32])
     \<and> speaks_for (served_speakers (foldl mem_step demo_pair demo_ops)) 1 = Some (''v'', ''b'')"
proof -
  have ops: "RvLeave ''v'' ''b'' \<notin> set demo_ops" "RvLeave ''v'' ''b'' \<notin> set (take 40 demo_ops)"
    "RvRecv ''v'' ''b'' \<notin> set (take 40 demo_ops)"
    by (simp_all add: demo_ops_def image_iff)
  have one: "length (served_speakers demo_alone) = 1" by code_simp
  have "take inboxCap (map from_a [0..<40]) = map from_a [0..<32]" by (simp add: inboxCap_def take_map)
  then have "served_inbox (foldl mem_step demo_pair (take 40 demo_ops)) ''v'' ''b'' = Some (map from_a [0..<32])"
    using conjunct2 [OF store_broadcast [OF demo_alone_def demo_joins ops(2)]] ops(3) by (simp only: demo_heard simp_thms)
  with store_broadcast [OF demo_alone_def demo_joins ops(1)] demo_joins one show ?thesis
    by (simp only: demo_heard demo_alone_def [symmetric] simp_thms)
qed

text \<open>
  A sender outlives its service only as a pointer: once the last member has left and the service has been
  dropped, it reaches nobody, not even those who join a service of the same name later.
\<close>

lemma stale_sender_reaches_nobody:
  "served_inbox (foldl mem_step demo_alone
     [RvLeave ''v'' ''a'', RvJoin ''v'' ''b'', RvSend 0 (demo_msg 7)]) ''v'' ''b'' = Some []"
  by code_simp

text \<open>
  C13: The store under concurrency. However the critical sections of any number of \<open>Join\<close>, \<open>Leave\<close> and
  \<open>Send\<close> calls interleave, no call ever sends on a closed inbox (which would panic), no service object holds
  more than ten peers or the same peer id twice, every member is an open peer object of the id it is registered
  under, and no peer object is a member of two service objects. (An id can be: see the orphaned service below.)
\<close>

theorem store_concurrent_safety:
  assumes "runs sys_outcomes new_sys evs y"
  shows "sy_panic y = None \<and> length (rg_svcs (sy_reg y) svc) \<le> MaxPeersPerService
    \<and> distinct (map fst (rg_svcs (sy_reg y) svc))
    \<and> (\<forall>(pid, po) \<in> set (rg_svcs (sy_reg y) svc).
         (\<exists>p. rg_peers (sy_reg y) po = Some p \<and> \<not> po_closed p \<and> po_id p = pid)
         \<and> (\<forall>svc' pid'. (pid', po) \<in> set (rg_svcs (sy_reg y) svc') \<longrightarrow> svc' = svc \<and> pid' = pid))"
proof -
  have "sys_inv new_sys"
    by (simp add: sys_inv_def new_sys_def NewMemory_wf capped_def) (simp add: NewMemory_def empty_registry_def)
  with assms have inv: "sys_inv y"
    by (rule runs_invariant) (rule sys_outcomes_inv)
  then have wf: "reg_wf (sy_reg y)" by (simp add: sys_inv_def)
  have "(\<exists>p. rg_peers (sy_reg y) po = Some p \<and> \<not> po_closed p \<and> po_id p = pid)
      \<and> (\<forall>svc' pid'. (pid', po) \<in> set (rg_svcs (sy_reg y) svc') \<longrightarrow> svc' = svc \<and> pid' = pid)"
    if "(pid, po) \<in> set (rg_svcs (sy_reg y) svc)" for pid po
    using wf_member [OF wf, of svc pid po] wf_unique [OF wf, of _ _ po svc pid] that unfolding member_of_def by blast
  with inv wf_distinct [OF wf] show ?thesis by (auto simp: sys_inv_def capped_def)
qed

definition peer_a :: store_peer where "peer_a = \<lparr>pr_id = ''a'', pr_service = ''v''\<rparr>"
definition peer_b :: store_peer where "peer_b = \<lparr>pr_id = ''b'', pr_service = ''v''\<rparr>"
definition peer_c :: store_peer where "peer_c = \<lparr>pr_id = ''c'', pr_service = ''v''\<rparr>"

text \<open>\<open>b\<close> looks the service up while \<open>a\<close>, the last member, is leaving; then \<open>c\<close> joins.\<close>

definition orphan_run :: "(nat sys_event \<times> nat) list" where
  "orphan_run =
     [(Call 0 (PcJoin peer_a), 0), (Section 0, 0), (Section 0, 0),
      (Call 1 (PcLeave peer_a), 0), (Section 1, 0),
      (Call 2 (PcJoin peer_b), 0), (Section 2, 0),
      (Section 1, 0), (Section 1, 0), (Section 1, 0),
      (Section 2, 0),
      (Call 3 (PcJoin peer_c), 0), (Section 3, 0), (Section 3, 0)]"

lemmas store_eval = sys_outcomes_def new_sys_def NewMemory_def empty_registry_def peer_a_def peer_b_def
  peer_c_def service_for_def Join_insert_def add_peer_def remove_peer_def close_inbox_def gc_service_def
  MaxPeersPerService_def Let_def

lemma orphan_run_ends:
  "\<exists>y. play sys_outcomes new_sys orphan_run = Some y
     \<and> sy_threads y 2 = Some (PcReturned None) \<and> sy_threads y 3 = Some (PcReturned None)
     \<and> rg_services (sy_reg y) ''v'' = Some 1 \<and> rg_svcs (sy_reg y) 0 = [(''b'', 1)] \<and> rg_svcs (sy_reg y) 1 = [(''c'', 2)]"
  by (simp add: orphan_run_def store_eval)

text \<open>\<open>a\<close> sends while \<open>b\<close> is leaving: after \<open>b\<close> has been removed and before its inbox is closed.\<close>

definition leaving_run :: "(nat sys_event \<times> nat) list" where
  "leaving_run =
     [(Call 0 (PcJoin peer_a), 0), (Section 0, 0), (Section 0, 0),
      (Call 1 (PcJoin peer_b), 0), (Section 1, 0), (Section 1, 0),
      (Call 2 (PcSend \<lparr>sd_peer = 0, sd_service = 0\<rparr> \<lparr>sm_service = [], sm_sender = [], sm_body = 7\<rparr>), 0),
      (Call 3 (PcLeave peer_b), 0), (Section 3, 0), (Section 3, 0),
      (Section 2, 0), (Section 3, 0)]"

lemma leaving_run_ends:
  "\<exists>y. play sys_outcomes new_sys leaving_run = Some y
     \<and> sy_threads y 2 = Some (PcReturned None) \<and> sy_threads y 3 = Some (PcReturned None)
     \<and> rg_svcs (sy_reg y) 0 = [(''a'', 0)]"
  by (simp add: leaving_run_def store_eval store_Send_def broadcast_svc_def)

theorem store_concurrent_safety_witness:
  "\<exists>y. runs sys_outcomes new_sys (map fst leaving_run) y \<and> sy_threads y 2 = Some (PcReturned None)
     \<and> sy_panic y = None \<and> rg_svcs (sy_reg y) 0 = [(''a'', 0)]
     \<and> (\<exists>p. rg_peers (sy_reg y) 0 = Some p \<and> \<not> po_closed p \<and> po_id p = ''a'')"
proof -
  obtain y where y: "play sys_outcomes new_sys leaving_run = Some y" "sy_threads y 2 = Some (PcReturned None)"
    "rg_svcs (sy_reg y) 0 = [(''a'', 0)]"
    using leaving_run_ends by blast
  from y(1) have r: "runs sys_outcomes new_sys (map fst leaving_run) y" by (rule play_runs)
  from store_concurrent_safety [OF r, of 0] r y(2,3) show ?thesis by auto
qed

text \<open>
  A peer can join a service nobody can reach. There is an interleaving of one \<open>Leave\<close> and two
  \<open>Join\<close>s of the same service in which all three return without error and the two peers end in
  different service objects of the same name, one of them no longer in the table: the garbage
  collection of the empty service runs between the two critical sections of the first \<open>Join\<close>.
\<close>

theorem store_orphaned_service:
  "\<exists>y. runs sys_outcomes new_sys (map fst orphan_run) y
     \<and> sy_threads y 2 = Some (PcReturned None) \<and> sy_threads y 3 = Some (PcReturned None)
     \<and> member_of (sy_reg y) 0 ''b'' 1 \<and> member_of (sy_reg y) 1 ''c'' 2
     \<and> rg_services (sy_reg y) ''v'' = Some 1"
proof -
  obtain y where y: "play sys_outcomes new_sys orphan_run = Some y"
    "sy_threads y 2 = Some (PcReturned None)" "sy_threads y 3 = Some (PcReturned None)"
    "rg_services (sy_reg y) ''v'' = Some 1" "rg_svcs (sy_reg y) 0 = [(''b'', 1)]" "rg_svcs (sy_reg y) 1 = [(''c'', 2)]"
    using orphan_run_ends by blast
  from play_runs [OF y(1)] y(2-) show ?thesis by (auto simp: member_of_def)
qed

text \<open>
  \<open>Leave\<close> goes by name. A handle that is closed after its peer has left, and after somebody has
  joined again under the same id, closes the newcomer's inbox and removes it from the service. A
  connection of the signaling server leaves twice when it ends (\<open>sx.Close\<close> and the deferred \<open>Leave\<close>),
  so a client that reconnects under its id in between is thrown out.
\<close>

theorem Leave_twice_evicts_newcomer:
  assumes "reg_wf r" and "Join r \<lparr>pr_id = p, pr_service = v\<rparr> = (r1, Inr s1)"
    and "Join (store_Close r1 s1) \<lparr>pr_id = p, pr_service = v\<rparr> = (r2, Inr s2)"
  shows "inbox_of r2 v p = Some []
    \<and> inbox_of (store_Close r2 s1) v p = None
    \<and> (\<exists>q. rg_peers (store_Close r2 s1) (sd_peer s2) = Some q \<and> po_closed q)"
proof -
  note wf = assms(1)
  note j1 = Join_ok [OF wf assms(2)]
  have c1: "store_Close r1 s1 = Leave r1 \<lparr>pr_id = p, pr_service = v\<rparr>"
    using j1(5) by (simp add: store_Close_def)
  have w1: "reg_wf (store_Close r1 s1)"
    unfolding c1 by (rule Leave_ok(1) [OF j1(1)])
  note j2 = Join_ok [OF w1 assms(3)]
  have keep: "\<exists>q. rg_peers r2 (sd_peer s1) = Some q \<and> po_id q = p \<and> po_service q = v"
  proof -
    obtain r0 where r0: "service_for (store_Close r1 s1) v = (r0, sd_service s2)"
      "add_peer r0 (sd_service s2) v p = (r2, sd_peer s2)"
      using Join_cases [OF w1 assms(3)] by blast
    have "\<exists>q. rg_peers (store_Close r1 s1) (sd_peer s1) = Some q \<and> po_id q = p \<and> po_service q = v"
      unfolding c1 using j1(5)
      by (auto simp: Leave_def remove_peer_def close_inbox_def gc_service_def Let_def split: option.splits)
    moreover have "rg_peers r0 = rg_peers (store_Close r1 s1)"
      using service_for_wf [OF w1 r0(1)] by blast
    ultimately show ?thesis using r0(2) by (auto simp: add_peer_def Let_def)
  qed
  then have c2: "store_Close r2 s1 = Leave r2 \<lparr>pr_id = p, pr_service = v\<rparr>"
    by (auto simp: store_Close_def)
  have "map_of (rg_svcs r2 (sd_service s2)) p = Some (sd_peer s2)"
    using j2(4) by (simp add: map_of_member [OF j2(1)])
  then have "\<exists>q. rg_peers (store_Close r2 s1) (sd_peer s2) = Some q \<and> po_closed q"
    unfolding c2 using j2(3,5)
    by (auto simp: Leave_def remove_peer_def close_inbox_def gc_service_def Let_def split: option.splits)
  with j2(2) [of v p] Leave_ok(2) [OF j2(1), of p v v p] c2 show ?thesis by simp
qed

theorem Leave_twice_evicts_newcomer_witness:
  "\<exists>r1 s1 r2 s2. Join NewMemory \<lparr>pr_id = ''a'', pr_service = ''v''\<rparr> = (r1 :: nat store, Inr s1)
     \<and> Join (store_Close r1 s1) \<lparr>pr_id = ''a'', pr_service = ''v''\<rparr> = (r2, Inr s2)
     \<and> inbox_of (store_Close r2 s1) ''v'' ''a'' = None"
proof -
  obtain r1 :: "nat store" and s1 where j1: "Join NewMemory \<lparr>pr_id = ''a'', pr_service = ''v''\<rparr> = (r1, Inr s1)"
    by (simp add: Join_def store_eval)
  obtain r2 s2 where j2: "Join (store_Close r1 s1) \<lparr>pr_id = ''a'', pr_service = ''v''\<rparr> = (r2, Inr s2)"
    using j1 by (auto simp: Join_def store_eval store_Close_def Leave_def)
  from Leave_twice_evicts_newcomer [OF NewMemory_wf j1 j2] j1 j2 show ?thesis by blast
qed

end
