(* ===== verification/Signal_Local.thy ===== *)
theory Signal_Local
  imports Rendezvous
begin

text \<open>
  The in-process signaling backend (\<open>signal/local.go\<close>): \<open>Local\<close>, its registry, and \<open>Session\<close> with the
  two goroutines that pump messages between the session's channels and the registry. Messages are
  opaque to the backend.
\<close>

section \<open>The backend\<close>

definition NewLocal :: "'m registry" where
  "NewLocal = empty_registry"

definition serviceForExchange :: "'m registry \<Rightarrow> string \<Rightarrow> 'm registry \<times> nat" where
  "serviceForExchange l service = service_for l service"

definition local_broadcast :: "'m registry \<Rightarrow> nat \<Rightarrow> nat \<Rightarrow> 'm \<Rightarrow> 'm registry go" where
  "local_broadcast l svc from msg =
     (case rg_peers l from of None \<Rightarrow> Returns l | Some p \<Rightarrow> broadcast_svc l svc (po_id p) msg)"

text \<open>\<open>svc.id\<close> is the name the service object was created under.\<close>

definition local_leave :: "'m registry \<Rightarrow> nat \<Rightarrow> string \<Rightarrow> nat \<Rightarrow> 'm registry" where
  "local_leave l svc svc_id from =
     (case rg_peers l from of
        None \<Rightarrow> l
      | Some p \<Rightarrow>
          (let l1 = remove_peer l svc (po_id p);
               was_last = (length (rg_svcs l1 svc) = 0);
               l2 = close_inbox l1 from
           in if was_last then gc_service l2 svc_id else l2))"

section \<open>Sessions\<close>

record 'm session =
  se_service :: string
  se_peerID :: string
  se_svc :: nat
  se_peer :: nat
  se_out :: "'m list"
  se_outClosed :: bool
  se_in :: "'m list"
  se_inClosed :: bool
  se_canceled :: bool
  se_done :: bool
  se_outPump :: bool
  se_inPump :: bool
  se_held :: "'m option"

definition chanCap :: nat where "chanCap = 32"

definition Exchange ::
  "(string \<Rightarrow> string) \<Rightarrow> 'm registry \<Rightarrow> string \<Rightarrow> string \<Rightarrow> 'm registry \<times> (go_error + 'm session)" where
  "Exchange quote l service peerID =
     (if service = [] then (l, Inl (ErrNew ''signal: empty service''))
      else if peerID = [] then (l, Inl (ErrNew ''signal: empty peer id''))
      else let (l1, svc) = serviceForExchange l service
           in if peerID \<in> fst ` set (rg_svcs l1 svc)
              then (l1, Inl (ErrNew (''signal: peer '' @ quote peerID @ '' already in service '' @ quote service)))
              else let (l2, po) = add_peer l1 svc service peerID
                   in (l2, Inr \<lparr>se_service = service, se_peerID = peerID, se_svc = svc, se_peer = po,
                        se_out = [], se_outClosed = False, se_in = [], se_inClosed = False,
                        se_canceled = False, se_done = False, se_outPump = True, se_inPump = True,
                        se_held = None\<rparr>))"

text \<open>
  \<open>Session.Send\<close>; \<open>stamp\<close> is the assignment to \<open>msg.Service\<close>. A send case on a closed channel is ready
  and panics when it is chosen.
\<close>

definition Session_Send ::
  "(string \<Rightarrow> 'm \<Rightarrow> 'm) \<Rightarrow> 'm session \<Rightarrow> ctx_err option \<Rightarrow> 'm \<Rightarrow> ('m session \<times> go_error option) go list" where
  "Session_Send stamp s ctx_done msg = select
     [(\<not> se_outClosed s \<and> length (se_out s) < chanCap,
         Returns (s\<lparr>se_out := se_out s @ [stamp (se_service s) msg]\<rparr>, None)),
      (se_outClosed s, Panics ''send on closed channel''),
      (se_done s, Returns (s, Some (ErrNew ''signal: session closed''))),
      (ctx_done \<noteq> None, Returns (s, Some (CtxErr (the ctx_done))))]"

text \<open>\<open>Close\<close>, with the cleanup \<open>Exchange\<close> installs: cancel, leave, close the outbound channel.\<close>

definition Session_Close :: "'m registry \<Rightarrow> 'm session \<Rightarrow> 'm registry \<times> 'm session" where
  "Session_Close l s =
     (if se_done s then (l, s)
      else (local_leave l (se_svc s) (se_service s) (se_peer s),
            s\<lparr>se_canceled := True, se_outClosed := True, se_done := True\<rparr>))"

text \<open>One iteration of the outbound pump.\<close>

definition out_pump :: "'m registry \<Rightarrow> 'm session \<Rightarrow> ('m registry \<times> 'm session) go list" where
  "out_pump l s =
     (if \<not> se_outPump s then []
      else select
        [(se_out s \<noteq> [],
            case local_broadcast l (se_svc s) (se_peer s) (hd (se_out s)) of
              Panics e \<Rightarrow> Panics e
            | Returns l1 \<Rightarrow> Returns (l1, s\<lparr>se_out := tl (se_out s)\<rparr>)),
         (se_out s = [] \<and> se_outClosed s, Returns (l, s\<lparr>se_outPump := False\<rparr>)),
         (se_canceled s, Returns (l, s\<lparr>se_outPump := False\<rparr>))])"

text \<open>
  One step of the inbound pump: take a message from the inbox, or put the one it holds into the
  session's channel. It closes that channel when it returns.
\<close>

definition in_pump :: "'m registry \<Rightarrow> 'm session \<Rightarrow> ('m registry \<times> 'm session) list" where
  "in_pump l s =
     (let stop = (l, s\<lparr>se_inPump := False, se_inClosed := True, se_held := None\<rparr>)
      in if \<not> se_inPump s then []
         else case se_held s of
                Some m \<Rightarrow> select
                  [(length (se_in s) < chanCap, (l, s\<lparr>se_in := se_in s @ [m], se_held := None\<rparr>)),
                   (se_canceled s, stop)]
              | None \<Rightarrow>
                  (case rg_peers l (se_peer s) of
                     None \<Rightarrow> []
                   | Some p \<Rightarrow> select
                       [(po_inbox p \<noteq> [],
                           (l\<lparr>rg_peers := (rg_peers l)(se_peer s := Some (p\<lparr>po_inbox := tl (po_inbox p)\<rparr>))\<rparr>,
                            s\<lparr>se_held := Some (hd (po_inbox p))\<rparr>)),
                        (po_inbox p = [] \<and> po_closed p, stop),
                        (se_canceled s, stop)]))"

section \<open>The contract\<close>

text \<open>The member \<open>p\<close> of service \<open>v\<close> closes its session.\<close>

definition loc_member :: "'m registry \<Rightarrow> string \<Rightarrow> string \<Rightarrow> (nat \<times> nat) option" where
  "loc_member l v p =
     (case rg_services l v of None \<Rightarrow> None | Some svc \<Rightarrow> map_option (Pair svc) (map_of (rg_svcs l svc) p))"

definition loc_leave :: "'m registry \<Rightarrow> string \<Rightarrow> string \<Rightarrow> 'm registry" where
  "loc_leave l v p =
     (case loc_member l v p of None \<Rightarrow> l | Some (svc, po) \<Rightarrow> local_leave l svc v po)"

lemma loc_member_iff:
  assumes wf: "reg_wf l"
  shows "loc_member l v p = Some (svc, po) \<longleftrightarrow> rg_services l v = Some svc \<and> member_of l svc p po"
  by (auto simp: loc_member_def map_of_member [OF wf] split: option.splits)

lemma loc_member_inbox:
  assumes wf: "reg_wf l"
  shows "inbox_of l v p = None \<longleftrightarrow> loc_member l v p = None"
proof -
  have "loc_member l v p \<noteq> None \<longleftrightarrow> (\<exists>svc po. loc_member l v p = Some (svc, po))" by auto
  then show ?thesis
    unfolding inbox_of_None [OF wf] using loc_member_iff [OF wf, of v p] by metis
qed

lemma Exchange_ok:
  assumes wf: "reg_wf l" and e: "Exchange q l v p = (l', Inr s)"
  shows "reg_wf l' \<and> inbox_of l' w i = (if w = v \<and> i = p then Some [] else inbox_of l w i)"
proof -
  obtain l1 where l1: "service_for l v = (l1, se_svc s)" "p \<notin> fst ` set (rg_svcs l1 (se_svc s))"
    "add_peer l1 (se_svc s) v p = (l', se_peer s)"
    using e by (auto simp: Exchange_def serviceForExchange_def split: if_splits prod.splits)
  note f = service_for_wf [OF wf l1(1)]
  show ?thesis
    using add_peer_wf [OF _ _ l1(2,3)] add_peer_inbox [OF _ _ l1(2,3)] service_for_inbox [OF wf l1(1)] f by simp
qed

lemma Exchange_twice:
  assumes wf: "reg_wf l" and i: "inbox_of l v p \<noteq> None"
  shows "\<exists>e. snd (Exchange q l v p) = Inl e"
proof -
  obtain svc po where "rg_services l v = Some svc" "member_of l svc p po"
    using i unfolding inbox_of_None [OF wf] by blast
  then show ?thesis
    by (force simp: Exchange_def serviceForExchange_def service_for_def member_of_def)
qed

lemma loc_leave_ok:
  assumes wf: "reg_wf l"
  shows "reg_wf (loc_leave l v p) \<and> inbox_of (loc_leave l v p) w q = (if w = v \<and> q = p then None else inbox_of l w q)"
proof (cases "loc_member l v p")
  case None
  then have "inbox_of l v p = None" by (simp add: loc_member_inbox [OF wf])
  with wf None show ?thesis by (auto simp: loc_leave_def)
next
  case (Some x)
  then obtain svc po where m: "rg_services l v = Some svc" "member_of l svc p po" "loc_member l v p = Some (svc, po)"
    using loc_member_iff [OF wf] by (cases x) auto
  obtain pe where pe: "rg_peers l po = Some pe" "po_id pe = p" using wf_member [OF wf m(2)] by blast
  let ?l1 = "remove_peer l svc p"
  have "\<not> member_of ?l1 y i po" for y i
    using wf_unique [OF wf m(2)] by (auto simp: member_remove)
  then have "reg_wf (close_inbox ?l1 po)"
    by (intro close_inbox_wf remove_peer_wf wf)
  then show ?thesis
    using m(3) pe remove_peer_inbox [OF wf m(1)]
    by (simp add: loc_leave_def local_leave_def Let_def gc_service_wf gc_service_inbox close_inbox_inbox)
qed

text \<open>
  The backend with the sessions it has handed out. A session keeps the pointers to its peer and its service
  object; its outbound pump broadcasts on that object what is left in the session's channel, also after the
  session has been closed.
\<close>

type_synonym 'm served_local = "'m registry \<times> sender_ptrs"

definition loc_join :: "'m served_local \<Rightarrow> string \<Rightarrow> string \<Rightarrow> 'm served_local option" where
  "loc_join s v p =
     (case Exchange id (fst s) v p of
        (l', Inr se) \<Rightarrow> Some (l', snd s @ [(se_svc se, se_peer se)])
      | _ \<Rightarrow> None)"

definition loc_close :: "'m served_local \<Rightarrow> string \<Rightarrow> string \<Rightarrow> 'm served_local" where
  "loc_close s v p = (loc_leave (fst s) v p, snd s)"

definition loc_send :: "'m served_local \<Rightarrow> nat \<Rightarrow> 'm \<Rightarrow> 'm served_local" where
  "loc_send s h m =
     (if h < length (snd s)
      then case local_broadcast (fst s) (fst (snd s ! h)) (snd (snd s ! h)) m of
             Returns l' \<Rightarrow> (l', snd s)
           | Panics _ \<Rightarrow> s
      else s)"

definition loc_recv :: "'m served_local \<Rightarrow> string \<Rightarrow> string \<Rightarrow> 'm served_local" where
  "loc_recv s v p = (take_message (fst s) v p, snd s)"

definition loc_step :: "'m served_local \<Rightarrow> 'm rv_op \<Rightarrow> 'm served_local" where
  "loc_step = rv_step loc_join loc_close loc_send loc_recv"

lemma loc_join_served:
  assumes wf: "served_wf s" and j: "loc_join s v p = Some s'"
  shows "served_wf s'"
    and "served_inbox s' w q = (if w = v \<and> q = p then Some [] else served_inbox s w q)"
    and "served_speakers s' = served_speakers s @ [Some (v, p)]"
proof -
  have w: "served_wf (fst s, snd s)" using wf by simp
  obtain l' se where l': "Exchange id (fst s) v p = (l', Inr se)" "s' = (l', snd s @ [(se_svc se, se_peer se)])"
    using j by (auto simp: loc_join_def split: prod.splits sum.splits)
  obtain l1 where l1: "service_for (fst s) v = (l1, se_svc se)" "p \<notin> fst ` set (rg_svcs l1 (se_svc se))"
    "add_peer l1 (se_svc se) v p = (l', se_peer se)"
    using l'(1) by (auto simp: Exchange_def serviceForExchange_def split: if_splits prod.splits)
  show "served_wf s'" "served_speakers s' = served_speakers s @ [Some (v, p)]"
    "served_inbox s' w q = (if w = v \<and> q = p then Some [] else served_inbox s w q)"
    using join_served [OF w l1] by (simp_all add: l'(2) served_inbox_def)
qed

lemma loc_join_twice:
  assumes wf: "served_wf s" and i: "served_inbox s v p \<noteq> None"
  shows "loc_join s v p = None"
proof -
  have "reg_wf (fst s)" using wf by (simp add: served_wf_def)
  from Exchange_twice [OF this, of v p id] i show ?thesis
    by (auto simp: loc_join_def served_inbox_def split: prod.splits sum.splits)
qed

lemma loc_close_served:
  assumes wf: "served_wf s"
  shows "served_wf (loc_close s v p)"
    and "served_inbox (loc_close s v p) w q = (if w = v \<and> q = p then None else served_inbox s w q)"
    and "served_speakers (loc_close s v p) =
      (if \<exists>q. q \<noteq> p \<and> served_inbox s v q \<noteq> None then served_speakers s else silence v (served_speakers s))"
proof -
  have w: "served_wf (fst s, snd s)" using wf by simp
  then have rw: "reg_wf (fst s)" by (simp add: served_wf_def)
  have "served_wf (loc_close s v p) \<and> served_speakers (loc_close s v p) =
      (if \<exists>q. q \<noteq> p \<and> served_inbox s v q \<noteq> None then served_speakers s else silence v (served_speakers s))"
  proof (cases "inbox_of (fst s) v p")
    case None
    then have s': "loc_close s v p = s"
      using loc_member_inbox [OF rw, of v p] by (simp add: loc_close_def loc_leave_def)
    show ?thesis
    proof (cases "\<exists>q. q \<noteq> p \<and> served_inbox s v q \<noteq> None")
      case False
      with None have "inbox_of (fst s) v q = None" for q by (cases "q = p") (auto simp: served_inbox_def)
      with absent_silent [OF w] False show ?thesis by (simp add: s' wf)
    qed (simp add: s' wf)
  next
    case (Some b)
    then have "loc_member (fst s) v p \<noteq> None" using loc_member_inbox [OF rw, of v p] by simp
    then obtain svc po where m0: "loc_member (fst s) v p = Some (svc, po)" by auto
    then have m: "rg_services (fst s) v = Some svc" "member_of (fst s) svc p po"
      using loc_member_iff [OF rw] by blast+
    obtain pe where "rg_peers (fst s) po = Some pe" "po_id pe = p" using wf_member [OF rw m(2)] by blast
    then have "loc_leave (fst s) v p =
        (if length (rg_svcs (remove_peer (fst s) svc p) svc) = 0
         then gc_service (close_inbox (remove_peer (fst s) svc p) po) v else close_inbox (remove_peer (fst s) svc p) po)"
      by (simp add: loc_leave_def m0 local_leave_def Let_def)
    note l = leave_served [OF w m refl this]
    show ?thesis
      unfolding loc_close_def served_inbox_def using l(1,3) by (simp only: prod.collapse simp_thms)
  qed
  then show "served_wf (loc_close s v p)" "served_speakers (loc_close s v p) =
      (if \<exists>q. q \<noteq> p \<and> served_inbox s v q \<noteq> None then served_speakers s else silence v (served_speakers s))"
    by blast+
  show "served_inbox (loc_close s v p) w q = (if w = v \<and> q = p then None else served_inbox s w q)"
    using loc_leave_ok [OF rw] by (simp add: loc_close_def served_inbox_def)
qed

lemma loc_send_served:
  assumes wf: "served_wf s"
  shows "served_wf (loc_send s h m)"
    and "served_inbox (loc_send s h m) w q =
      (case speaks_for (served_speakers s) h of
         None \<Rightarrow> served_inbox s w q
       | Some (v, p) \<Rightarrow> if w = v \<and> q \<noteq> p then map_option (enq m) (served_inbox s w q) else served_inbox s w q)"
    and "served_speakers (loc_send s h m) = served_speakers s"
proof -
  have w: "served_wf (fst s, snd s)" using wf by simp
  have "served_wf (loc_send s h m) \<and> served_inbox (loc_send s h m) w q =
      (case speaks_for (served_speakers s) h of
         None \<Rightarrow> served_inbox s w q
       | Some (v, p) \<Rightarrow> if w = v \<and> q \<noteq> p then map_option (enq m) (served_inbox s w q) else served_inbox s w q)
    \<and> served_speakers (loc_send s h m) = served_speakers s"
  proof (cases "h < length (snd s)")
    case True
    obtain svc po where hd: "snd s ! h = (svc, po)" by (cases "snd s ! h")
    then have mem: "(svc, po) \<in> set (snd s)" using True nth_mem by metis
    obtain pe where pe: "rg_peers (fst s) po = Some pe"
      "\<And>v i. speaker (fst s) (svc, po) = Some (v, i) \<Longrightarrow> v = po_service pe \<and> i = po_id pe"
      "\<And>m. \<exists>r'. broadcast_svc (fst s) svc (po_id pe) m = Returns r' \<and> spoken (fst s) (snd s) (speaker (fst s) (svc, po)) m r'"
      using send_served [OF w mem] by blast
    obtain l' where l': "broadcast_svc (fst s) svc (po_id pe) m = Returns l'"
      "spoken (fst s) (snd s) (speaker (fst s) (svc, po)) m l'"
      using pe(3) by blast
    have s': "loc_send s h m = (l', snd s)"
      using True l'(1) by (simp add: loc_send_def local_broadcast_def hd pe(1))
    have sp: "speaks_for (served_speakers s) h = speaker (fst s) (svc, po)"
      using True hd by (simp add: speaks_for_def served_speakers_def)
    show ?thesis
      unfolding s' sp using l'(2)
      by (cases "speaker (fst s) (svc, po)") (auto simp: spoken_def served_inbox_def)
  qed (use wf in \<open>simp add: loc_send_def speaks_for_def served_speakers_def\<close>)
  then show "served_wf (loc_send s h m)"
    "served_inbox (loc_send s h m) w q =
      (case speaks_for (served_speakers s) h of
         None \<Rightarrow> served_inbox s w q
       | Some (v, p) \<Rightarrow> if w = v \<and> q \<noteq> p then map_option (enq m) (served_inbox s w q) else served_inbox s w q)"
    "served_speakers (loc_send s h m) = served_speakers s"
    by blast+
qed

lemma loc_recv_served:
  assumes wf: "served_wf s"
  shows "served_wf (loc_recv s v p)"
    and "served_inbox (loc_recv s v p) w q =
      (if w = v \<and> q = p then map_option (drop 1) (served_inbox s w q) else served_inbox s w q)"
    and "served_speakers (loc_recv s v p) = served_speakers s"
  using take_served [of "fst s" "snd s" v p] wf by (simp_all add: loc_recv_def served_inbox_def)

interpretation loc: rendezvous served_wf served_inbox served_speakers loc_join loc_close loc_send loc_recv "\<lambda>_ _ m. m"
  by unfold_locales
    (rule loc_join_served loc_join_twice loc_close_served loc_send_served loc_recv_served; assumption)+

lemma NewLocal_served: "served_wf (NewLocal, [])"
  by (simp add: NewLocal_def empty_served_wf)

section \<open>Properties\<close>


text \<open>The pump of \<open>a\<close> broadcasts forty messages, \<open>b\<close> takes one, and \<open>a\<close> broadcasts once more.\<close>

definition demo_caller :: "nat served_local" where
  "demo_caller = foldl loc_step (NewLocal, []) [RvJoin ''v'' ''a'']"

definition demo_joined :: "nat served_local" where
  "demo_joined = loc_step demo_caller (RvJoin ''v'' ''b'')"

definition demo_calls :: "nat rv_op list" where
  "demo_calls = map (RvSend 0) [0..<40] @ [RvRecv ''v'' ''b'', RvSend 1 50, RvSend 0 60]"

lemma demo_joined_eq: "loc_join demo_caller ''v'' ''b'' = Some demo_joined"
proof -
  have "loc_join demo_caller ''v'' ''b'' = None \<longleftrightarrow> False" by code_simp
  then show ?thesis by (auto simp: demo_joined_def loc_step_def rv_step_def)
qed

lemma demo_calls_heard:
  "bounded [] (heard served_speakers loc_step (\<lambda>_ _ m. m) ''v'' ''b'' demo_joined demo_calls) = [1..<32] @ [60]"
  "heard_messages (heard served_speakers loc_step (\<lambda>_ _ m. m) ''v'' ''b'' demo_joined (take 40 demo_calls)) = [0..<40]"
  by code_simp+


text \<open>
  Sending on a closed session. \<open>Close\<close> closes the channel that \<open>Send\<close> writes to, so after it every
  \<open>Send\<close> either panics or reports that the session is closed (or its own context's error): it never
  succeeds, and the panic is always among the possible outcomes. A second \<open>Close\<close> changes nothing.
\<close>

theorem Session_Send_after_Close:
  assumes "se_outClosed s = se_done s"
  shows "(case Session_Close l s of (l1, s1) \<Rightarrow>
      set (Session_Send stamp s1 ctx_done msg) =
        {Panics ''send on closed channel'', Returns (s1, Some (ErrNew ''signal: session closed''))}
        \<union> (case ctx_done of None \<Rightarrow> {} | Some e \<Rightarrow> {Returns (s1, Some (CtxErr e))})
      \<and> Session_Close l1 s1 = (l1, s1))"
  using assms by (auto simp: Session_Close_def Session_Send_def split: option.splits prod.splits if_splits)

theorem Session_Send_after_Close_witness:
  "\<exists>l s l1 s1. Exchange id NewLocal ''v'' ''a'' = (l, Inr s) \<and> Session_Close l s = (l1, s1)
     \<and> Panics ''send on closed channel'' \<in> set (Session_Send (\<lambda>_ m. m) s1 None (7 :: nat))"
proof -
  obtain l and s :: "nat session" where e: "Exchange id NewLocal ''v'' ''a'' = (l, Inr s)" "se_outClosed s = se_done s"
    by (simp add: Exchange_def serviceForExchange_def service_for_def add_peer_def Let_def NewLocal_def empty_registry_def)
  obtain l1 s1 where c: "Session_Close l s = (l1, s1)" by (cases "Session_Close l s")
  from Session_Send_after_Close [OF e(2), where l = l and stamp = "\<lambda>_ m. m" and ctx_done = None and msg = 7] c
  have "Panics ''send on closed channel'' \<in> set (Session_Send (\<lambda>_ m. m) s1 None 7)" by simp
  with e(1) c show ?thesis by blast
qed

end
