(* ===== verification/Signal_WS.thy ===== *)
theory Signal_WS
  imports Signal_Store Signal_Local
begin

text \<open>
  Signaling over WebSockets: the message types of package \<open>signal\<close> (\<open>local.go\<close>) and their protobuf
  counterparts, the conversions and frames of \<open>signal/ws.go\<close>, and the connection handler of
  \<open>signalserver/ws.go\<close> over the in-memory store. The protobuf codec and the WebSocket connection are
  library code: \<open>marshal\<close>/\<open>unmarshal\<close> are parameters, and what the connection yields are inputs.
\<close>

section \<open>Messages\<close>

record announce_request =
  an_PeerID :: string
  an_PeerPubkey :: "bytes option"
  an_Role :: int

record ice_candidate =
  ic_Candidate :: string
  ic_SdpMid :: string
  ic_SdpMLineIndex :: "32 word"

record signal_body =
  sb_Announce :: "announce_request option"
  sb_Offer :: "string option"
  sb_Answer :: "string option"
  sb_Candidate :: "ice_candidate option"
  sb_Leave :: "string option"
  sb_Ping :: "int option"

record signal_message =
  sg_Service :: string
  sg_Body :: signal_body

datatype pb_body =
    SignalMessage_Announce announce_request
  | SignalMessage_Offer string
  | SignalMessage_Answer string
  | SignalMessage_Candidate ice_candidate
  | SignalMessage_Leave string
  | SignalMessage_Ping int

record pb_signal =
  pb_Service :: string
  pb_Body :: "pb_body option"

definition empty_body :: signal_body where
  "empty_body = \<lparr>sb_Announce = None, sb_Offer = None, sb_Answer = None, sb_Candidate = None,
     sb_Leave = None, sb_Ping = None\<rparr>"

section \<open>Conversions\<close>

definition toProtoMessage :: "signal_message \<Rightarrow> go_error + pb_signal" where
  "toProtoMessage msg =
     (let b = sg_Body msg; pb = (\<lambda>x. Inr \<lparr>pb_Service = [], pb_Body = Some x\<rparr>)
      in case sb_Announce b of
           Some a \<Rightarrow> pb (SignalMessage_Announce (a\<lparr>an_Role := int32 (an_Role a)\<rparr>))
         | None \<Rightarrow> (case sb_Offer b of
           Some s \<Rightarrow> pb (SignalMessage_Offer s)
         | None \<Rightarrow> (case sb_Answer b of
           Some s \<Rightarrow> pb (SignalMessage_Answer s)
         | None \<Rightarrow> (case sb_Candidate b of
           Some c \<Rightarrow> pb (SignalMessage_Candidate c)
         | None \<Rightarrow> (case sb_Leave b of
           Some s \<Rightarrow> pb (SignalMessage_Leave s)
         | None \<Rightarrow> (case sb_Ping b of
           Some n \<Rightarrow> pb (SignalMessage_Ping n)
         | None \<Rightarrow> Inl (ErrNew ''signal: unknown body type'')))))))"

definition fromProtoMessage :: "pb_signal \<Rightarrow> signal_message option" where
  "fromProtoMessage pb =
     (let sm = (\<lambda>b. Some \<lparr>sg_Service = pb_Service pb, sg_Body = b\<rparr>)
      in case pb_Body pb of
           None \<Rightarrow> None
         | Some (SignalMessage_Announce a) \<Rightarrow> sm (empty_body\<lparr>sb_Announce := Some a\<rparr>)
         | Some (SignalMessage_Offer s) \<Rightarrow> sm (empty_body\<lparr>sb_Offer := Some s\<rparr>)
         | Some (SignalMessage_Answer s) \<Rightarrow> sm (empty_body\<lparr>sb_Answer := Some s\<rparr>)
         | Some (SignalMessage_Candidate c) \<Rightarrow> sm (empty_body\<lparr>sb_Candidate := Some c\<rparr>)
         | Some (SignalMessage_Leave s) \<Rightarrow> sm (empty_body\<lparr>sb_Leave := Some s\<rparr>)
         | Some (SignalMessage_Ping n) \<Rightarrow> sm (empty_body\<lparr>sb_Ping := Some n\<rparr>))"

section \<open>Frames\<close>

text \<open>\<open>readFrame\<close> after \<open>conn.ReadMessage\<close> has returned \<open>dat\<close>; \<open>fmt\<close> prints a number.\<close>

definition ws_readFrame ::
  "(nat \<Rightarrow> string) \<Rightarrow> (bytes \<Rightarrow> go_error + 'p) \<Rightarrow> bytes \<Rightarrow> go_error + 'p" where
  "ws_readFrame fmt unmarshal dat =
     (if length dat < 4 then Inl (ErrNew (''ws frame too short: '' @ fmt (length dat) @ '' bytes''))
      else let len = get_be32 dat
           in if (word_of_nat (length dat - 4) :: 32 word) < len
              then Inl (ErrNew (''ws frame truncated: want '' @ fmt (unat len) @ '' payload bytes, got '' @
                     fmt (length dat - 4)))
              else case unmarshal (take (unat len) (drop 4 dat)) of
                     Inl e \<Rightarrow> Inl (Errorf ''ws unmarshal: '' e)
                   | Inr p \<Rightarrow> Inr p)"

definition ws_writeFrame :: "('p \<Rightarrow> go_error + bytes) \<Rightarrow> 'p \<Rightarrow> go_error + bytes" where
  "ws_writeFrame marshal msg =
     (case marshal msg of
        Inl e \<Rightarrow> Inl (Errorf ''ws marshal: '' e)
      | Inr payload \<Rightarrow> Inr (put_be32 (word_of_nat (length payload)) @ payload))"

section \<open>The client's pumps\<close>

text \<open>The announcement \<open>WS.Exchange\<close> sends first.\<close>

definition ws_announce :: "string \<Rightarrow> string \<Rightarrow> pb_signal" where
  "ws_announce service peerID = \<lparr>pb_Service = service,
     pb_Body = Some (SignalMessage_Announce \<lparr>an_PeerID = peerID, an_PeerPubkey = None, an_Role = 1\<rparr>)\<rparr>"

text \<open>What the outbound pump writes for one message: nothing when the body is unknown.\<close>

definition ws_outbound :: "string \<Rightarrow> signal_message \<Rightarrow> pb_signal list" where
  "ws_outbound service msg =
     (case toProtoMessage msg of Inl _ \<Rightarrow> [] | Inr pb \<Rightarrow> [pb\<lparr>pb_Service := service\<rparr>])"

text \<open>What the inbound pump puts into a channel holding \<open>q\<close>: dropped when it is full.\<close>

definition ws_inbound :: "signal_message list \<Rightarrow> pb_signal \<Rightarrow> signal_message list" where
  "ws_inbound q pb =
     (case fromProtoMessage pb of None \<Rightarrow> q
      | Some sm \<Rightarrow> if length q < chanCap then q @ [sm] else q)"

section \<open>The server's connection handler\<close>

text \<open>
  \<open>serveWebSocket\<close>: waiting for the announcement, serving, having closed its sender and waiting for the
  fan-in goroutine (the deferred \<open>Leave\<close> still to come), finished. \<open>wc_written\<close> is what the fan-in
  goroutine has written, \<open>wc_pump\<close> whether it still runs.
\<close>

datatype ws_phase = WsAnnounce | WsServing | WsClosing | WsFinished

record ws_conn =
  wc_phase :: ws_phase
  wc_peer :: store_peer
  wc_sender :: store_sender
  wc_pump :: bool
  wc_written :: "pb_signal list"

definition new_conn :: ws_conn where
  "new_conn = \<lparr>wc_phase = WsAnnounce, wc_peer = \<lparr>pr_id = [], pr_service = []\<rparr>,
     wc_sender = \<lparr>sd_peer = 0, sd_service = 0\<rparr>, wc_pump = False, wc_written = []\<rparr>"

definition announce_of :: "pb_signal \<Rightarrow> announce_request option" where
  "announce_of pb = (case pb_Body pb of Some (SignalMessage_Announce a) \<Rightarrow> Some a | _ \<Rightarrow> None)"

text \<open>
  The first frame: announce, join. Every refusal ends the connection. The two critical sections of \<open>Join\<close>, and those of
  the \<open>Leave\<close> of \<open>ws_finish\<close> below, are one event here; what their interleavings do to the store is the subject of
  \<open>store_concurrent_safety\<close> and \<open>store_orphaned_service\<close>.
\<close>

definition ws_first :: "pb_signal store \<Rightarrow> ws_conn \<Rightarrow> pb_signal option \<Rightarrow> pb_signal store \<times> ws_conn" where
  "ws_first r w inp =
     (let stop = w\<lparr>wc_phase := WsFinished\<rparr>
      in case inp of
           None \<Rightarrow> (r, stop)
         | Some pb \<Rightarrow>
             (case announce_of pb of
                None \<Rightarrow> (r, stop)
              | Some a \<Rightarrow>
                  if pb_Service pb = [] \<or> an_PeerID a = [] then (r, stop)
                  else let peer = \<lparr>pr_id = an_PeerID a, pr_service = pb_Service pb\<rparr>
                       in case Join r peer of
                            (r1, Inl e) \<Rightarrow> (r1, stop)
                          | (r1, Inr s) \<Rightarrow> (r1, w\<lparr>wc_phase := WsServing, wc_peer := peer, wc_sender := s, wc_pump := True\<rparr>)))"

text \<open>A later frame is broadcast under the announced service; a read error closes the sender.\<close>

definition ws_next :: "pb_signal store \<Rightarrow> ws_conn \<Rightarrow> pb_signal option \<Rightarrow> (pb_signal store \<times> ws_conn) go" where
  "ws_next r w inp =
     (case inp of
        None \<Rightarrow> Returns (store_Close r (wc_sender w), w\<lparr>wc_phase := WsClosing\<rparr>)
      | Some pb \<Rightarrow>
          (let service = pr_service (wc_peer w); msg = pb\<lparr>pb_Service := service\<rparr>
           in case store_Send r (wc_sender w)
                     \<lparr>sm_service = service, sm_sender = pr_id (wc_peer w), sm_body = msg\<rparr> of
                Panics e \<Rightarrow> Panics e
              | Returns r1 \<Rightarrow> Returns (r1, w)))"

text \<open>
  One iteration of the fan-in goroutine, whose write succeeds or fails: it ends when the inbox is
  closed and drained, or on a failed write.
\<close>

definition ws_pump :: "pb_signal store \<Rightarrow> ws_conn \<Rightarrow> bool \<Rightarrow> (pb_signal store \<times> ws_conn) list" where
  "ws_pump r w write_ok =
     (if \<not> wc_pump w then []
      else case rg_peers r (sd_peer (wc_sender w)) of
             None \<Rightarrow> []
           | Some p \<Rightarrow>
               (case po_inbox p of
                  m # ms \<Rightarrow>
                    (let r1 = r\<lparr>rg_peers := (rg_peers r)(sd_peer (wc_sender w) := Some (p\<lparr>po_inbox := ms\<rparr>))\<rparr>
                     in [(r1, if write_ok then w\<lparr>wc_written := wc_written w @ [sm_body m]\<rparr>
                              else w\<lparr>wc_pump := False\<rparr>)])
                | [] \<Rightarrow> if po_closed p then [(r, w\<lparr>wc_pump := False\<rparr>)] else []))"

text \<open>The deferred \<open>Leave\<close>, once the fan-in goroutine is done.\<close>

definition ws_finish :: "pb_signal store \<Rightarrow> ws_conn \<Rightarrow> pb_signal store \<times> ws_conn" where
  "ws_finish r w = (Leave r (wc_peer w), w\<lparr>wc_phase := WsFinished\<rparr>)"

section \<open>Many connections\<close>

record ws_server =
  wv_store :: "pb_signal store"
  wv_conns :: "nat \<Rightarrow> ws_conn"
  wv_panic :: "string option"

definition new_server :: ws_server where
  "new_server = \<lparr>wv_store = NewMemory, wv_conns = (\<lambda>_. new_conn), wv_panic = None\<rparr>"

datatype ws_event = WsRead nat "pb_signal option" | WsPump nat bool | WsFinish nat

definition put_conn :: "ws_server \<Rightarrow> nat \<Rightarrow> pb_signal store \<times> ws_conn \<Rightarrow> ws_server" where
  "put_conn v i x = v\<lparr>wv_store := fst x, wv_conns := (wv_conns v)(i := snd x)\<rparr>"

definition ws_outcomes :: "ws_server \<Rightarrow> ws_event \<Rightarrow> ws_server list" where
  "ws_outcomes v ev =
     (if wv_panic v \<noteq> None then []
      else case ev of
             WsRead i inp \<Rightarrow>
               (let w = wv_conns v i
                in case wc_phase w of
                     WsAnnounce \<Rightarrow> [put_conn v i (ws_first (wv_store v) w inp)]
                   | WsServing \<Rightarrow>
                       (case ws_next (wv_store v) w inp of
                          Panics e \<Rightarrow> [v\<lparr>wv_panic := Some e\<rparr>]
                        | Returns x \<Rightarrow> [put_conn v i x])
                   | _ \<Rightarrow> [])
           | WsPump i ok \<Rightarrow> map (put_conn v i) (ws_pump (wv_store v) (wv_conns v i) ok)
           | WsFinish i \<Rightarrow>
               (let w = wv_conns v i
                in if wc_phase w = WsClosing \<and> \<not> wc_pump w then [put_conn v i (ws_finish (wv_store v) w)] else []))"

section \<open>Properties\<close>

text \<open>
  C15: Signaling messages survive the wire. A message with exactly one body and an \<open>int32\<close> role, handed
  to the outbound pump, becomes one protobuf message that converts back to the same message under the
  session's service; and whenever the codec marshals it to less than 4 GiB, the frame written on one
  side is read as that protobuf message on the other, given that unmarshalling inverts marshalling.
\<close>

theorem signaling_roundtrip:
  assumes "sg_Body msg \<in> {empty_body\<lparr>sb_Announce := Some a\<rparr>, empty_body\<lparr>sb_Offer := Some s\<rparr>,
      empty_body\<lparr>sb_Answer := Some s\<rparr>, empty_body\<lparr>sb_Candidate := Some c\<rparr>, empty_body\<lparr>sb_Leave := Some s\<rparr>,
      empty_body\<lparr>sb_Ping := Some n\<rparr>}"
    and "int32 (an_Role a) = an_Role a"
    and codec: "\<forall>pb b. marshal pb = Inr b \<longrightarrow> unmarshal b = Inr pb"
  shows "\<exists>pb. ws_outbound service msg = [pb]
    \<and> fromProtoMessage pb = Some (msg\<lparr>sg_Service := service\<rparr>)
    \<and> (\<forall>b. marshal pb = Inr b \<and> length b < 2 ^ 32 \<longrightarrow>
        (\<exists>f. ws_writeFrame marshal pb = Inr f \<and> ws_readFrame fmt unmarshal f = Inr pb))"
proof -
  have "\<exists>pb. ws_outbound service msg = [pb] \<and> fromProtoMessage pb = Some (msg\<lparr>sg_Service := service\<rparr>)"
    using assms(1,2)
    by (cases msg; cases a) (auto simp: ws_outbound_def toProtoMessage_def fromProtoMessage_def empty_body_def Let_def)
  moreover have "\<exists>f. ws_writeFrame marshal pb = Inr f \<and> ws_readFrame fmt unmarshal f = Inr pb"
    if "marshal pb = Inr b" "length b < 2 ^ 32" for pb b
    using that codec by (simp add: ws_writeFrame_def ws_readFrame_def Let_def unat_be32_nat)
  ultimately show ?thesis by blast
qed

definition demo_offer :: pb_signal where
  "demo_offer = \<lparr>pb_Service = ''v'', pb_Body = Some (SignalMessage_Offer ''sdp'')\<rparr>"

theorem signaling_roundtrip_witness:
  "\<exists>pb f. ws_outbound ''v'' \<lparr>sg_Service = [], sg_Body = empty_body\<lparr>sb_Offer := Some ''sdp''\<rparr>\<rparr> = [pb]
     \<and> ws_writeFrame (\<lambda>pb. if pb = demo_offer then Inr [1, 2] else Inl EOF) pb = Inr f
     \<and> ws_readFrame (\<lambda>_. []) (\<lambda>b. Inr demo_offer) f = Inr pb"
proof -
  let ?msg = "\<lparr>sg_Service = [], sg_Body = empty_body\<lparr>sb_Offer := Some ''sdp''\<rparr>\<rparr>"
  let ?ma = "\<lambda>pb. if pb = demo_offer then Inr [1, 2 :: byte] else Inl EOF"
  have o: "ws_outbound ''v'' ?msg = [demo_offer]"
    by (simp add: ws_outbound_def toProtoMessage_def empty_body_def demo_offer_def Let_def)
  have "\<exists>pb. ws_outbound ''v'' ?msg = [pb] \<and> fromProtoMessage pb = Some (?msg\<lparr>sg_Service := ''v''\<rparr>)
    \<and> (\<forall>b. ?ma pb = Inr b \<and> length b < 2 ^ 32 \<longrightarrow>
        (\<exists>f. ws_writeFrame ?ma pb = Inr f \<and> ws_readFrame (\<lambda>_. []) (\<lambda>b. Inr demo_offer) f = Inr pb))"
    by (rule signaling_roundtrip [where a = "\<lparr>an_PeerID = [], an_PeerPubkey = None, an_Role = 1\<rparr>" and s = "''sdp''"])
      (simp_all add: int32_id)
  then show ?thesis unfolding o by auto
qed

text \<open>Connection 0 announces as \<open>a\<close> and breaks; the client reconnects as \<open>a\<close> before 0 has finished.\<close>

definition reconnect_run :: "(ws_event \<times> nat) list" where
  "reconnect_run =
     [(WsRead 0 (Some (ws_announce ''v'' ''a'')), 0), (WsRead 0 None, 0), (WsPump 0 True, 0),
      (WsRead 1 (Some (ws_announce ''v'' ''a'')), 0), (WsFinish 0, 0)]"

text \<open>
  C18: A reconnecting client can be thrown out by its own old connection. There is a run of the
  signaling server in which a client's first connection breaks, the client connects again under the
  same peer id and is accepted, and the deferred \<open>Leave\<close> of the first connection then removes it: the
  second connection goes on serving, but its peer is no member of the service and its inbox is closed.
\<close>

theorem reconnect_thrown_out:
  "\<exists>v p. runs ws_outcomes new_server (map fst reconnect_run) v
     \<and> wc_phase (wv_conns v 1) = WsServing \<and> wc_peer (wv_conns v 1) = \<lparr>pr_id = ''a'', pr_service = ''v''\<rparr>
     \<and> inbox_of (wv_store v) ''v'' ''a'' = None
     \<and> rg_peers (wv_store v) (sd_peer (wc_sender (wv_conns v 1))) = Some p \<and> po_closed p"
proof -
  have "\<exists>v p. play ws_outcomes new_server reconnect_run = Some v
     \<and> wc_phase (wv_conns v 1) = WsServing \<and> wc_peer (wv_conns v 1) = \<lparr>pr_id = ''a'', pr_service = ''v''\<rparr>
     \<and> inbox_of (wv_store v) ''v'' ''a'' = None
     \<and> rg_peers (wv_store v) (sd_peer (wc_sender (wv_conns v 1))) = Some p \<and> po_closed p"
    by (simp add: reconnect_run_def ws_outcomes_def new_server_def new_conn_def ws_first_def ws_next_def ws_pump_def
        ws_finish_def put_conn_def ws_announce_def announce_of_def Join_def store_eval store_Close_def Leave_def
        inbox_of_def)
  then show ?thesis by (meson play_runs)
qed

end
