(* ===== verification/Base58.thy ===== *)
theory Base58
  imports Go_Prelude
begin

text \<open>
  The base-58 codec for peer ids (\<open>peerrpc/base58.go\<close>): the encoder's in-place carry loop over a buffer of
  precomputed size, and the decoder over big integers. \<open>big.Int\<close> is \<open>nat\<close>, and \<open>Bytes\<close> is the shortest
  big-endian byte string.
\<close>

section \<open>Definitions\<close>

definition base58Alphabet :: string where
  "base58Alphabet = ''123456789ABCDEFGHJKLMNPQRSTUVWXYZabcdefghijkmnopqrstuvwxyz''"

text \<open>The table \<open>init\<close> builds.\<close>

definition base58Index :: "char \<Rightarrow> int" where
  "base58Index = foldl (\<lambda>tab i. tab(base58Alphabet ! i := int i)) (\<lambda>_. -1) [0..<length base58Alphabet]"

text \<open>
  The inner loop runs from the last position of the buffer to the first; \<open>carry_loop\<close> works on the
  buffer from its end, least significant digit first.
\<close>

fun carry_loop :: "nat \<Rightarrow> nat list \<Rightarrow> nat list" where
  "carry_loop carry [] = []"
| "carry_loop carry (d # ds) =
     (let c = carry + 256 * d in c mod 58 # carry_loop (c div 58) ds)"

definition encode_size :: "nat \<Rightarrow> nat" where
  "encode_size n = n * 138 div 100 + 1"

definition encode_digits :: "bytes \<Rightarrow> nat list" where
  "encode_digits b =
     foldl (\<lambda>enc byt. rev (carry_loop (unat byt) (rev enc))) (replicate (encode_size (length b)) 0) b"

definition encodeBase58 :: "bytes \<Rightarrow> string" where
  "encodeBase58 b =
     (if b = [] then []
      else let zeros = length (takeWhile (\<lambda>x. x = 0) b);
               encoded = encode_digits (drop zeros b);
               digits = dropWhile (\<lambda>d. d = 0) encoded
           in replicate zeros (base58Alphabet ! 0) @ map (\<lambda>d. base58Alphabet ! d) digits)"

fun decode_loop :: "nat \<Rightarrow> string \<Rightarrow> go_error + nat" where
  "decode_loop acc [] = Inr acc"
| "decode_loop acc (c # cs) =
     (if of_char c \<ge> (128 :: nat) \<or> base58Index c < 0
      then Inl (ErrNew ''peerrpc: invalid base58 character'')
      else decode_loop (acc * 58 + nat (base58Index c)) cs)"

text \<open>\<open>(*big.Int).Bytes\<close>.\<close>

fun big_Bytes :: "nat \<Rightarrow> bytes" where
  "big_Bytes n = (if n = 0 then [] else big_Bytes (n div 256) @ [word_of_nat (n mod 256)])"

declare big_Bytes.simps [simp del]

definition decodeBase58 :: "string \<Rightarrow> go_error + bytes" where
  "decodeBase58 s =
     (if s = [] then Inr []
      else let zeros = length (takeWhile (\<lambda>c. c = base58Alphabet ! 0) s)
           in case decode_loop 0 (drop zeros s) of
                Inl e \<Rightarrow> Inl e
              | Inr acc \<Rightarrow> Inr (replicate zeros 0 @ big_Bytes acc))"

section \<open>The digits of the encoder\<close>

text \<open>Values of little-endian digits and of big-endian bytes.\<close>

primrec val58 :: "nat list \<Rightarrow> nat" where
  "val58 [] = 0"
| "val58 (d # ds) = d + 58 * val58 ds"

definition val256 :: "bytes \<Rightarrow> nat" where
  "val256 b = foldl (\<lambda>n x. 256 * n + unat x) 0 b"

lemma val256_snoc [simp]: "val256 (b @ [x]) = 256 * val256 b + unat x" "val256 [] = 0" "val256 [x] = unat x"
  by (simp_all add: val256_def)

lemma length_carry_loop [simp]: "length (carry_loop c ds) = length ds"
  by (induction ds arbitrary: c) (simp_all add: Let_def)

lemma carry_loop_small: "list_all (\<lambda>d. d < 58) (carry_loop c ds)"
  by (induction ds arbitrary: c) (simp_all add: Let_def)

text \<open>The loop multiplies by 256 and adds the carry, modulo the size of the buffer.\<close>

lemma carry_loop_mod: "val58 (carry_loop c ds) = (c + 256 * val58 ds) mod 58 ^ length ds"
proof (induction ds arbitrary: c)
  case Nil
  then show ?case by simp
next
  case (Cons d ds)
  let ?x = "c + 256 * d"
  have "val58 (carry_loop c (d # ds)) = ?x mod 58 + 58 * ((?x div 58 + 256 * val58 ds) mod 58 ^ length ds)"
    by (simp add: Let_def Cons.IH)
  also have "?x div 58 + 256 * val58 ds = (?x + 58 * (256 * val58 ds)) div 58" by simp
  also have "?x mod 58 = (?x + 58 * (256 * val58 ds)) mod 58" by (rule mod_mult_self2 [symmetric])
  also have "(?x + 58 * (256 * val58 ds)) mod 58 +
      58 * ((?x + 58 * (256 * val58 ds)) div 58 mod 58 ^ length ds) =
      (?x + 58 * (256 * val58 ds)) mod (58 * 58 ^ length ds)"
    by (simp only: mod_mult2_eq add.commute)
  finally show ?case by (simp add: algebra_simps)
qed

lemma val256_bound: "val256 b < 256 ^ length b"
proof (induction b rule: rev_induct)
  case (snoc x b)
  from byte_bound [of x] snoc show ?case by simp
qed simp

lemma size_enough: "(256 :: nat) ^ n < 58 ^ encode_size n"
proof -
  have base: "(256 :: nat) ^ 100 \<le> 58 ^ 138" by simp
  have "((256 :: nat) ^ n) ^ 100 = 256 ^ (n * 100)" by (rule power_mult [symmetric])
  also have "\<dots> = 256 ^ (100 * n)" by (simp only: mult.commute)
  also have "\<dots> = (256 ^ 100) ^ n" by (rule power_mult)
  also have "\<dots> \<le> (58 ^ 138) ^ n" using base by (rule power_mono) (rule zero_le)
  also have "\<dots> = 58 ^ (138 * n)" by (rule power_mult [symmetric])
  also have "\<dots> < 58 ^ (encode_size n * 100)"
  proof (rule power_strict_increasing)
    have "n * 138 div 100 * 100 + n * 138 mod 100 = n * 138" by (rule div_mult_mod_eq)
    moreover have "n * 138 mod 100 < 100" by (rule mod_less_divisor) (rule zero_less_numeral)
    ultimately have "n * 138 < (n * 138 div 100 + 1) * 100"
      by (simp only: add_mult_distrib mult_1)
    then show "138 * n < encode_size n * 100" by (simp only: encode_size_def mult.commute)
  qed simp
  also have "\<dots> = (58 ^ encode_size n) ^ 100" by (rule power_mult)
  finally show ?thesis by (rule power_less_imp_less_base) (rule zero_le)
qed

lemma encode_loop:
  assumes "(256 :: nat) ^ length b < 58 ^ n"
  shows "length (foldl (\<lambda>enc byt. rev (carry_loop (unat byt) (rev enc))) (replicate n 0) b) = n
    \<and> val58 (rev (foldl (\<lambda>enc byt. rev (carry_loop (unat byt) (rev enc))) (replicate n 0) b)) = val256 b
    \<and> list_all (\<lambda>d. d < 58) (foldl (\<lambda>enc byt. rev (carry_loop (unat byt) (rev enc))) (replicate n 0) b)"
  using assms
proof (induction b rule: rev_induct)
  case Nil
  have "val58 (replicate n 0) = 0" by (induction n) simp_all
  then show ?case by (simp add: list_all_length)
next
  case (snoc x b)
  have "(256 :: nat) ^ length b \<le> 256 ^ length (b @ [x])" by simp
  with snoc.prems have "256 ^ length b < (58 :: nat) ^ n" by linarith
  note IH = snoc.IH [OF this]
  have "val256 (b @ [x]) < 58 ^ n"
    using val256_bound [of "b @ [x]"] snoc.prems by linarith
  with IH show ?case
    using carry_loop_small by (simp add: carry_loop_mod add.commute list_all_iff)
qed

lemma encode_digits_val:
  "val58 (rev (encode_digits b)) = val256 b \<and> list_all (\<lambda>d. d < 58) (encode_digits b)"
  using encode_loop [OF size_enough] by (simp add: encode_digits_def)

section \<open>The alphabet\<close>

lemma alphabet_length: "length base58Alphabet = 58"
  by (simp add: base58Alphabet_def)

lemma alphabet_index_all:
  "list_all (\<lambda>i. base58Index (base58Alphabet ! i) = int i \<and> of_char (base58Alphabet ! i) < (128 :: nat)) [0..<58]"
  by code_simp

lemma alphabet_index:
  "d < 58 \<Longrightarrow> base58Index (base58Alphabet ! d) = int d \<and> of_char (base58Alphabet ! d) < (128 :: nat)"
  using alphabet_index_all by (simp add: list_all_iff)

lemma alphabet_zero: "d < 58 \<Longrightarrow> base58Alphabet ! d = base58Alphabet ! 0 \<longleftrightarrow> d = 0"
  using alphabet_index [of d] alphabet_index [of 0] by auto

section \<open>Decoding\<close>

lemma decode_loop_digits:
  "list_all (\<lambda>d. d < 58) ds \<Longrightarrow>
     decode_loop acc (map (\<lambda>d. base58Alphabet ! d) ds) = Inr (foldl (\<lambda>n d. n * 58 + d) acc ds)"
proof (induction ds arbitrary: acc)
  case (Cons d ds)
  then have "\<not> of_char (base58Alphabet ! d) \<ge> (128 :: nat)" "base58Index (base58Alphabet ! d) = int d"
    using alphabet_index [of d] by simp_all
  with Cons show ?case by simp
qed simp

lemma foldl_val58: "foldl (\<lambda>n d. n * 58 + d) 0 ds = val58 (rev ds)"
proof -
  have snoc: "val58 (xs @ [d]) = val58 xs + d * 58 ^ length xs" for xs d
    by (induction xs) (simp_all add: algebra_simps)
  have "foldl (\<lambda>n d. n * 58 + d) a ds = a * 58 ^ length ds + val58 (rev ds)" for a
    by (induction ds arbitrary: a) (simp_all add: snoc algebra_simps)
  then show ?thesis by simp
qed

lemma val58_dropWhile: "val58 (rev (dropWhile (\<lambda>d. d = 0) ds)) = val58 (rev ds)"
proof (induction ds)
  case (Cons d ds)
  have "val58 (xs @ [0]) = val58 xs" for xs by (induction xs) simp_all
  with Cons show ?case by simp
qed simp

lemma big_Bytes_val256: "b = [] \<or> hd b \<noteq> 0 \<Longrightarrow> big_Bytes (val256 b) = b"
proof (induction b rule: rev_induct)
  case Nil
  then show ?case by (simp add: big_Bytes.simps)
next
  case (snoc x b)
  have x: "unat x < 256" by (rule byte_bound)
  show ?case
  proof (cases "b = []")
    case True
    with snoc.prems x have "unat x \<noteq> 0" by (simp add: unat_eq_0)
    with True x show ?thesis
      by (subst big_Bytes.simps) (simp add: big_Bytes.simps [of 0])
  next
    case False
    then have hb: "hd b \<noteq> 0" using snoc.prems by (simp add: hd_append)
    then have "big_Bytes (val256 b) = b" using snoc.IH by blast
    moreover have "(256 * val256 b + unat x) div 256 = val256 b" "(256 * val256 b + unat x) mod 256 = unat x"
      using x by simp_all
    moreover have "val256 b \<noteq> 0"
    proof
      assume "val256 b = 0"
      then have "big_Bytes (val256 b) = []" by (simp add: big_Bytes.simps)
      with snoc.IH hb False show False by simp
    qed
    ultimately show ?thesis by (subst big_Bytes.simps) simp
  qed
qed

section \<open>Properties\<close>

lemma leading_zeros:
  fixes b :: bytes
  defines "z \<equiv> length (takeWhile (\<lambda>x. x = 0) b)"
  shows "b = replicate z 0 @ drop z b" and "drop z b = [] \<or> hd (drop z b) \<noteq> 0"
proof -
  have "takeWhile (\<lambda>x. x = 0) b = replicate z 0"
    unfolding z_def by (rule replicate_eqI) (auto dest: set_takeWhileD)
  then show "b = replicate z 0 @ drop z b"
    using takeWhile_dropWhile_id [of "\<lambda>x. x = 0" b] by (simp add: z_def dropWhile_eq_drop)
  show "drop z b = [] \<or> hd (drop z b) \<noteq> 0"
    using hd_dropWhile [of "\<lambda>x. x = 0" b] by (auto simp: z_def dropWhile_eq_drop)
qed

text \<open>
  C16: Base 58 round trip. For every byte string, leading zeros and the empty string included, decoding
  what the encoder produces gives the bytes back; the precomputed buffer of \<open>n * 138 / 100 + 1\<close> digits
  never overflows (no carry is lost), for any length.
\<close>

theorem base58_roundtrip: "decodeBase58 (encodeBase58 b) = Inr b"
proof (cases "b = []")
  case True
  then show ?thesis by (simp add: encodeBase58_def decodeBase58_def)
next
  case False
  define z where "z = length (takeWhile (\<lambda>x. x = 0) b)"
  define tl' where "tl' = drop z b"
  define ds where "ds = dropWhile (\<lambda>d. d = 0) (encode_digits tl')"
  have b: "b = replicate z 0 @ tl'" and hd: "tl' = [] \<or> hd tl' \<noteq> 0"
    using leading_zeros [of b] by (simp_all add: tl'_def z_def)
  have small: "list_all (\<lambda>d. d < 58) ds"
    using encode_digits_val [of tl'] by (auto simp: ds_def list_all_iff dest: set_dropWhileD)
  have val: "foldl (\<lambda>n d. n * 58 + d) 0 ds = val256 tl'"
    using encode_digits_val [of tl'] by (simp add: foldl_val58 ds_def val58_dropWhile)
  have enc: "encodeBase58 b = replicate z (base58Alphabet ! 0) @ map (\<lambda>d. base58Alphabet ! d) ds"
    using False by (simp add: encodeBase58_def Let_def z_def [symmetric] tl'_def [symmetric] ds_def)
  have first: "takeWhile (\<lambda>c. c = base58Alphabet ! 0) (map (\<lambda>d. base58Alphabet ! d) ds) = []"
  proof (cases ds)
    case (Cons d ds')
    then have "d \<noteq> 0" using hd_dropWhile [of "\<lambda>d. d = 0" "encode_digits tl'"] by (auto simp: ds_def)
    with Cons small show ?thesis by (simp add: alphabet_zero)
  qed simp
  have tw: "takeWhile (\<lambda>c. c = base58Alphabet ! 0) (encodeBase58 b) = replicate z (base58Alphabet ! 0)"
    unfolding enc by (subst takeWhile_append2) (simp_all add: first)
  have "decode_loop 0 (map (\<lambda>d. base58Alphabet ! d) ds) = Inr (val256 tl')"
    using decode_loop_digits [OF small] val by simp
  moreover have "encodeBase58 b \<noteq> []"
  proof
    assume "encodeBase58 b = []"
    then have "z = 0" "ds = []" by (simp_all add: enc)
    then have "val256 tl' = 0" using val by simp
    with big_Bytes_val256 [OF hd] have "tl' = []" by (simp add: big_Bytes.simps)
    with b \<open>z = 0\<close> False show False by simp
  qed
  moreover have "drop z (encodeBase58 b) = map (\<lambda>d. base58Alphabet ! d) ds" by (simp add: enc)
  ultimately have "decodeBase58 (encodeBase58 b) = Inr (replicate z 0 @ tl')"
    using big_Bytes_val256 [OF hd] by (simp add: decodeBase58_def Let_def tw)
  with b show ?thesis by simp
qed

end
