(* ===== verification/Url.thy ===== *)
theory Url
  imports Go_Prelude "HOL-Library.Char_ord" "HOL-Library.List_Lexorder"
begin

text \<open>
  What the sources use of Go's packages \<open>strings\<close> and \<open>net/url\<close>: searching, query escaping, and the
  \<open>url.Values\<close> of a query string. \<open>quote\<close> is the printing of a string in an error message (\<open>%q\<close>).
\<close>

section \<open>Searching\<close>

text \<open>\<open>strings.Index(s, sub)\<close>, \<open>None\<close> for \<open>-1\<close>.\<close>

fun str_Index :: "string \<Rightarrow> string \<Rightarrow> nat option" where
  "str_Index [] sub = (if sub = [] then Some 0 else None)"
| "str_Index (c # cs) sub =
     (if take (length sub) (c # cs) = sub then Some 0 else map_option Suc (str_Index cs sub))"

text \<open>\<open>strings.Cut(s, c)\<close> for a one-byte separator: before, after, found.\<close>

definition str_Cut :: "string \<Rightarrow> char \<Rightarrow> string \<times> string \<times> bool" where
  "str_Cut s c =
     (case str_Index s [c] of
        None \<Rightarrow> (s, [], False)
      | Some i \<Rightarrow> (take i s, drop (Suc i) s, True))"

lemma str_Index_char:
  "str_Index s [c] = (if c \<in> set s then Some (length (takeWhile (\<lambda>x. x \<noteq> c) s)) else None)"
  by (induction s) auto

lemma takeWhile_sep [simp]: "c \<notin> set a \<Longrightarrow> takeWhile (\<lambda>x. x \<noteq> c) (a @ c # b) = a"
  by (induction a) auto

lemma str_Cut_found: "c \<notin> set a \<Longrightarrow> str_Cut (a @ c # b) c = (a, b, True)"
  by (simp add: str_Cut_def str_Index_char)

lemma str_Cut_absent: "c \<notin> set s \<Longrightarrow> str_Cut s c = (s, [], False)"
  by (simp add: str_Cut_def str_Index_char)

lemma str_Cut_length: "str_Cut s c = (a, b, f) \<Longrightarrow> s \<noteq> [] \<Longrightarrow> length b < length s"
  by (cases s) (auto simp: str_Cut_def str_Index_char split: if_splits)

section \<open>ASCII case\<close>

definition upper :: "char \<Rightarrow> char" where
  "upper c = (if CHR ''a'' \<le> c \<and> c \<le> CHR ''z'' then char_of (of_char c - 32 :: nat) else c)"

definition lower :: "char \<Rightarrow> char" where
  "lower c = (if CHR ''A'' \<le> c \<and> c \<le> CHR ''Z'' then char_of (of_char c + 32 :: nat) else c)"

text \<open>\<open>strings.ToLower\<close> on ASCII text.\<close>

definition ToLower :: "string \<Rightarrow> string" where
  "ToLower s = map lower s"

section \<open>Escaping\<close>

definition unreserved :: "char \<Rightarrow> bool" where
  "unreserved c \<longleftrightarrow>
     (CHR ''a'' \<le> c \<and> c \<le> CHR ''z'') \<or> (CHR ''A'' \<le> c \<and> c \<le> CHR ''Z'') \<or> (CHR ''0'' \<le> c \<and> c \<le> CHR ''9'')
     \<or> c \<in> set ''-_.~''"

definition upperhex :: string where
  "upperhex = ''0123456789ABCDEF''"

definition escape_char :: "char \<Rightarrow> string" where
  "escape_char c =
     (if unreserved c then [c]
      else if c = CHR '' '' then ''+''
      else [CHR ''%'', upperhex ! (of_char c div 16), upperhex ! (of_char c mod 16)])"

definition QueryEscape :: "string \<Rightarrow> string" where
  "QueryEscape s = concat (map escape_char s)"

definition unhex :: "char \<Rightarrow> nat option" where
  "unhex c =
     (if CHR ''0'' \<le> c \<and> c \<le> CHR ''9'' then Some (of_char c - of_char CHR ''0'')
      else if CHR ''a'' \<le> c \<and> c \<le> CHR ''f'' then Some (of_char c - of_char CHR ''a'' + 10)
      else if CHR ''A'' \<le> c \<and> c \<le> CHR ''F'' then Some (of_char c - of_char CHR ''A'' + 10)
      else None)"

definition EscapeError :: "(string \<Rightarrow> string) \<Rightarrow> string \<Rightarrow> go_error" where
  "EscapeError quote s = ErrNew (''invalid URL escape '' @ quote (take 3 s))"

fun QueryUnescape :: "(string \<Rightarrow> string) \<Rightarrow> string \<Rightarrow> go_error + string" where
  "QueryUnescape quote [] = Inr []"
| "QueryUnescape quote (c # cs) =
     (if c = CHR ''%''
      then case cs of
             h # l # r \<Rightarrow>
               (case (unhex h, unhex l) of
                  (Some a, Some b) \<Rightarrow>
                    (case QueryUnescape quote r of Inl e \<Rightarrow> Inl e | Inr t \<Rightarrow> Inr (char_of (16 * a + b) # t))
                | _ \<Rightarrow> Inl (EscapeError quote (c # cs)))
           | _ \<Rightarrow> Inl (EscapeError quote (c # cs))
      else case QueryUnescape quote cs of
             Inl e \<Rightarrow> Inl e
           | Inr t \<Rightarrow> Inr ((if c = CHR ''+'' then CHR '' '' else c) # t))"

lemma hex_digit: "n < 16 \<Longrightarrow> unhex (upperhex ! n) = Some n"
proof -
  have "list_all (\<lambda>n. unhex (upperhex ! n) = Some n) [0..<16]" by code_simp
  then show "n < 16 \<Longrightarrow> ?thesis" by (simp add: list_all_iff)
qed

lemma hex_digit_unreserved: "n < 16 \<Longrightarrow> unreserved (upperhex ! n)"
proof -
  have "list_all (\<lambda>n. unreserved (upperhex ! n)) [0..<16]" by code_simp
  then show "n < 16 \<Longrightarrow> ?thesis" by (simp add: list_all_iff)
qed

lemma unreserved_not: "unreserved c \<Longrightarrow> c \<notin> set ''%+&;=/? ''"
  by (auto simp: unreserved_def less_eq_char_def)

lemma of_char_halves: "of_char (c :: char) div 16 < (16 :: nat)" "of_char c mod 16 < (16 :: nat)"
  using less_mult_imp_div_less [of "of_char c" 16 16] by simp_all

lemma escape_char_chars: "x \<in> set (escape_char c) \<Longrightarrow> unreserved x \<or> x = CHR ''%'' \<or> x = CHR ''+''"
  using of_char_halves [of c] by (auto simp: escape_char_def hex_digit_unreserved split: if_splits)

lemma QueryEscape_chars:
  assumes "x \<in> set (QueryEscape s)"
  shows "x \<noteq> CHR ''&'' \<and> x \<noteq> CHR '';'' \<and> x \<noteq> CHR ''=''"
proof -
  obtain c where "x \<in> set (escape_char c)" using assms by (auto simp: QueryEscape_def)
  then show ?thesis using escape_char_chars unreserved_not by fastforce
qed

lemma QueryUnescape_escape_char:
  "QueryUnescape quote (escape_char c @ r) = (case QueryUnescape quote r of Inl e \<Rightarrow> Inl e | Inr t \<Rightarrow> Inr (c # t))"
proof -
  have "16 * (of_char c div 16) + of_char c mod 16 = (of_char c :: nat)" by (rule mult_div_mod_eq)
  then have "char_of (16 * (of_char c div 16) + of_char c mod 16 :: nat) = c" by (simp only: char_of_char)
  then show ?thesis
    using of_char_halves [of c] unreserved_not [of c]
    by (cases "unreserved c"; cases "c = CHR '' ''") (simp_all add: escape_char_def hex_digit split: sum.splits)
qed

lemma QueryUnescape_QueryEscape [simp]: "QueryUnescape quote (QueryEscape s) = Inr s"
  by (induction s) (simp_all add: QueryEscape_def QueryUnescape_escape_char)

section \<open>Query strings\<close>

type_synonym url_Values = "(string \<times> string list) list"

definition Values_Get :: "url_Values \<Rightarrow> string \<Rightarrow> string" where
  "Values_Get q k = (case map_of q k of Some (v # _) \<Rightarrow> v | _ \<Rightarrow> [])"

definition Values_Set :: "url_Values \<Rightarrow> string \<Rightarrow> string \<Rightarrow> url_Values" where
  "Values_Set q k v = AList.update k [v] q"

definition Values_Add :: "url_Values \<Rightarrow> string \<Rightarrow> string \<Rightarrow> url_Values" where
  "Values_Add q k v = AList.update k ((case map_of q k of None \<Rightarrow> [] | Some vs \<Rightarrow> vs) @ [v]) q"

definition encode_pair :: "string \<times> string \<Rightarrow> string" where
  "encode_pair = (\<lambda>(k, v). QueryEscape k @ CHR ''='' # QueryEscape v)"

fun join_amp :: "string list \<Rightarrow> string" where
  "join_amp [] = []"
| "join_amp [s] = s"
| "join_amp (s # t # ss) = s @ CHR ''&'' # join_amp (t # ss)"

text \<open>\<open>Values.Encode\<close>: the keys sorted, each with its values in order.\<close>

definition value_pairs :: "url_Values \<Rightarrow> (string \<times> string) list" where
  "value_pairs q = concat (map (\<lambda>(k, vs). map (Pair k) vs) (sort_key fst q))"

definition Values_Encode :: "url_Values \<Rightarrow> string" where
  "Values_Encode q = join_amp (map encode_pair (value_pairs q))"

text \<open>
  \<open>url.ParseQuery\<close>: the values that could be parsed, and the first error. A setting with a semicolon is
  an error, an empty one is skipped.
\<close>

definition first_err :: "go_error option \<Rightarrow> go_error \<Rightarrow> go_error option" where
  "first_err err e = (case err of None \<Rightarrow> Some e | Some e0 \<Rightarrow> Some e0)"

function parse_query_loop ::
  "(string \<Rightarrow> string) \<Rightarrow> url_Values \<Rightarrow> go_error option \<Rightarrow> string \<Rightarrow> url_Values \<times> go_error option" where
  "parse_query_loop quote m err query =
     (if query = [] then (m, err)
      else let (setting, rest, _) = str_Cut query CHR ''&''
           in if CHR '';'' \<in> set setting
              then parse_query_loop quote m (Some (ErrNew ''invalid semicolon separator in query'')) rest
              else if setting = [] then parse_query_loop quote m err rest
              else let (k, v, _) = str_Cut setting CHR ''=''
                   in case QueryUnescape quote k of
                        Inl e \<Rightarrow> parse_query_loop quote m (first_err err e) rest
                      | Inr key \<Rightarrow>
                          (case QueryUnescape quote v of
                             Inl e \<Rightarrow> parse_query_loop quote m (first_err err e) rest
                           | Inr val \<Rightarrow> parse_query_loop quote (Values_Add m key val) err rest))"
  by pat_completeness auto
termination by (relation "measure (\<lambda>(_, _, _, q). length q)") (auto dest: str_Cut_length [OF sym])

declare parse_query_loop.simps [simp del]

definition ParseQuery :: "(string \<Rightarrow> string) \<Rightarrow> string \<Rightarrow> url_Values \<times> go_error option" where
  "ParseQuery quote query = parse_query_loop quote [] None query"

section \<open>Parsing what was encoded\<close>

lemma encode_pair_chars: "c \<in> {CHR ''&'', CHR '';''} \<Longrightarrow> c \<notin> set (encode_pair p)"
  by (cases p) (auto simp: encode_pair_def dest: QueryEscape_chars)

lemma encode_pair_nonempty [simp]: "encode_pair p \<noteq> []"
  by (cases p) (simp add: encode_pair_def)

lemma str_Cut_encode_pair: "str_Cut (encode_pair (k, v)) CHR ''='' = (QueryEscape k, QueryEscape v, True)"
  using QueryEscape_chars [of "CHR ''=''" k] by (auto simp: encode_pair_def intro: str_Cut_found)

lemma parse_step:
  assumes "str_Cut query CHR ''&'' = (encode_pair (k, v), rest, f)"
  shows "parse_query_loop quote m err query = parse_query_loop quote (Values_Add m k v) err rest"
proof -
  have "query \<noteq> []"
  proof
    assume "query = []"
    with assms have "encode_pair (k, v) = []" by (simp add: str_Cut_def)
    then show False by simp
  qed
  with assms encode_pair_chars [of "CHR '';''" "(k, v)"] show ?thesis
    by (subst parse_query_loop.simps) (simp add: str_Cut_encode_pair)
qed

lemma parse_pairs:
  "parse_query_loop quote m err (join_amp (map encode_pair ps)) = (foldl (\<lambda>m (k, v). Values_Add m k v) m ps, err)"
proof (induction ps arbitrary: m rule: induct_list012)
  case 1
  then show ?case by (simp add: parse_query_loop.simps)
next
  case (2 p)
  have "str_Cut (encode_pair p) CHR ''&'' = (encode_pair p, [], False)"
    by (rule str_Cut_absent) (rule encode_pair_chars, simp)
  then show ?case
    by (cases p) (simp add: parse_step [where rest = "[]" and f = False] parse_query_loop.simps [of quote _ _ "[]"])
next
  case (3 p p' ps)
  have "str_Cut (encode_pair p @ CHR ''&'' # join_amp (map encode_pair (p' # ps))) CHR ''&'' =
      (encode_pair p, join_amp (map encode_pair (p' # ps)), True)"
    by (rule str_Cut_found) (rule encode_pair_chars, simp)
  with 3 show ?case by (cases p) (simp add: parse_step)
qed

lemma ParseQuery_Encode:
  "ParseQuery quote (Values_Encode q) = (foldl (\<lambda>m (k, v). Values_Add m k v) [] (value_pairs q), None)"
  by (simp add: ParseQuery_def Values_Encode_def parse_pairs)

end
