(* ===== verification/Target.thy ===== *)
theory Target
  imports Url
begin

text \<open>
  Target URIs (\<open>peerrpc/target.go\<close>): \<open>peerrpc+<scheme>://<authority>/<service>[?<opts>]\<close>, printed by
  \<open>Target.String\<close> and parsed by \<open>ParseTarget\<close>. The main theorem says which targets the printed form
  preserves.
\<close>

section \<open>Definitions\<close>

definition SchemeLocal :: string where "SchemeLocal = ''local''"
definition SchemeWS :: string where "SchemeWS = ''ws''"
definition SchemeRelay :: string where "SchemeRelay = ''relay''"
definition RoleHintClient :: string where "RoleHintClient = ''client''"
definition RoleHintServer :: string where "RoleHintServer = ''server''"

record target =
  tg_Scheme :: string
  tg_Signal :: string
  tg_Service :: string
  tg_Role :: string
  tg_PeerID :: string
  tg_Token :: string

definition target_values :: "target \<Rightarrow> url_Values" where
  "target_values t =
     (let q0 = [];
          q1 = (if tg_Role t \<noteq> [] then Values_Set q0 ''as'' (tg_Role t) else q0);
          q2 = (if tg_PeerID t \<noteq> [] then Values_Set q1 ''peer'' (tg_PeerID t) else q1)
      in if tg_Token t \<noteq> [] then Values_Set q2 ''token'' (tg_Token t) else q2)"

definition Target_String :: "target \<Rightarrow> string" where
  "Target_String t =
     ''peerrpc+'' @ tg_Scheme t @ ''://'' @ tg_Signal t @ ''/'' @ tg_Service t @
     (let enc = Values_Encode (target_values t) in if enc \<noteq> [] then CHR ''?'' # enc else [])"

definition ParseTarget :: "(string \<Rightarrow> string) \<Rightarrow> string \<Rightarrow> go_error + target" where
  "ParseTarget quote uri =
     (if take 8 uri \<noteq> ''peerrpc+''
      then Inl (ErrNew (''peerrpc: target URI must start with '' @ quote ''peerrpc+'' @ '', got '' @ quote uri))
      else let rest = drop 8 uri
           in case str_Index rest ''://'' of
                None \<Rightarrow> Inl (ErrNew (''peerrpc: target URI '' @ quote uri @ '' is missing '' @ quote ''://'' @
                          '' after the scheme''))
              | Some sepIdx \<Rightarrow>
                  (let scheme = take sepIdx rest;
                       afterScheme = drop (sepIdx + 3) rest;
                       (authority, pathQuery) =
                         (case str_Index afterScheme ''/'' of
                            None \<Rightarrow> (afterScheme, [])
                          | Some i \<Rightarrow> (take i afterScheme, drop (i + 1) afterScheme));
                       (service, rawQuery) =
                         (case str_Index pathQuery ''?'' of
                            Some i \<Rightarrow> (take i pathQuery, drop (i + 1) pathQuery)
                          | None \<Rightarrow> (pathQuery, []));
                       t = \<lparr>tg_Scheme = scheme, tg_Signal = authority, tg_Service = service,
                            tg_Role = [], tg_PeerID = [], tg_Token = []\<rparr>;
                       check = (\<lambda>t. if tg_Signal t = [] \<and> tg_Scheme t \<noteq> SchemeLocal
                          then Inl (ErrNew (''peerrpc: scheme '' @ quote (tg_Scheme t) @ '' requires a non-empty authority''))
                          else Inr t)
                   in if service = []
                      then Inl (ErrNew (''peerrpc: target URI '' @ quote uri @
                             '' is missing the service path (e.g. /echo.Echo)''))
                      else if rawQuery = [] then check t
                      else case ParseQuery quote rawQuery of
                             (vals, Some err) \<Rightarrow> Inl (Errorf (''peerrpc: malformed query in '' @ quote uri @ '': '') err)
                           | (vals, None) \<Rightarrow>
                               check (t\<lparr>tg_Role := Values_Get vals ''as'', tg_PeerID := Values_Get vals ''peer'',
                                        tg_Token := Values_Get vals ''token''\<rparr>)))"

section \<open>The scheme separator\<close>

lemma str_Index_append_sep:
  "str_Index s ''://'' = None \<Longrightarrow> str_Index (s @ CHR '':'' # CHR ''/'' # CHR ''/'' # r) ''://'' = Some (length s)"
proof (induction s)
  case (Cons c cs)
  then show ?case by (cases cs; cases "tl cs") (auto split: if_splits)
qed simp

lemma str_Index_before: "str_Index s sub = Some i \<Longrightarrow> sub \<noteq> [] \<Longrightarrow> str_Index (take i s) sub = None"
proof (induction s arbitrary: i)
  case (Cons c cs)
  show ?case
  proof (cases "take (length sub) (c # cs) = sub")
    case False
    with Cons.prems obtain k where k: "str_Index cs sub = Some k" "i = Suc k" by auto
    have "take (length sub) (take i (c # cs)) \<noteq> sub"
    proof
      assume *: "take (length sub) (take i (c # cs)) = sub"
      then have "length sub \<le> i" by (metis length_take min.cobounded1 min.cobounded2 order.trans)
      with * False show False by (simp add: min_def)
    qed
    with k Cons.IH [OF k(1) Cons.prems(2)] show ?thesis by simp
  qed (use Cons.prems in auto)
qed simp

section \<open>The query part\<close>

definition target_pairs :: "target \<Rightarrow> (string \<times> string) list" where
  "target_pairs t = filter (\<lambda>(k, v). v \<noteq> []) [(''as'', tg_Role t), (''peer'', tg_PeerID t), (''token'', tg_Token t)]"

lemma value_pairs_target: "value_pairs (target_values t) = target_pairs t"
  by (simp add: value_pairs_def target_values_def target_pairs_def Values_Set_def Let_def less_eq_char_def)

lemma target_values_back:
  assumes "vals = foldl (\<lambda>m (k, v). Values_Add m k v) [] (target_pairs t)"
  shows "Values_Get vals ''as'' = tg_Role t" "Values_Get vals ''peer'' = tg_PeerID t"
    "Values_Get vals ''token'' = tg_Token t"
  unfolding assms by (simp_all add: target_pairs_def Values_Add_def Values_Get_def)

lemma join_amp_empty: "join_amp (map encode_pair ps) = [] \<longleftrightarrow> ps = []"
  by (cases ps rule: remdups_adj.cases) simp_all

section \<open>Round trips\<close>

text \<open>The targets that have a URI.\<close>

definition target_ok :: "target \<Rightarrow> bool" where
  "target_ok t \<longleftrightarrow> str_Index (tg_Scheme t) ''://'' = None \<and> CHR ''/'' \<notin> set (tg_Signal t)
     \<and> tg_Service t \<noteq> [] \<and> CHR ''?'' \<notin> set (tg_Service t)
     \<and> (tg_Signal t \<noteq> [] \<or> tg_Scheme t = SchemeLocal)"

lemma ParseTarget_ok: "ParseTarget quote uri = Inr t \<Longrightarrow> target_ok t"
  using str_Index_before [of "drop 8 uri" "''://''"] set_takeWhileD
  by (auto simp: ParseTarget_def target_ok_def Let_def str_Index_char takeWhile_eq_take [symmetric]
      split: if_splits option.splits prod.splits dest!: set_takeWhileD)

lemma encoded_query:
  "Values_Encode (target_values t) = [] \<longleftrightarrow> tg_Role t = [] \<and> tg_PeerID t = [] \<and> tg_Token t = []"
  by (simp add: Values_Encode_def join_amp_empty value_pairs_target target_pairs_def)

lemma parsed_query:
  "\<exists>vals. ParseQuery quote (Values_Encode (target_values t)) = (vals, None) \<and> Values_Get vals ''as'' = tg_Role t
     \<and> Values_Get vals ''peer'' = tg_PeerID t \<and> Values_Get vals ''token'' = tg_Token t"
  by (simp add: ParseQuery_Encode value_pairs_target target_values_back [OF refl])

lemma ParseTarget_String:
  assumes "target_ok t"
  shows "ParseTarget quote (Target_String t) = Inr t"
proof -
  define enc where "enc = Values_Encode (target_values t)"
  define tail where "tail = (if enc \<noteq> [] then CHR ''?'' # enc else [])"
  obtain vals where vals: "ParseQuery quote enc = (vals, None)" "Values_Get vals ''as'' = tg_Role t"
    "Values_Get vals ''peer'' = tg_PeerID t" "Values_Get vals ''token'' = tg_Token t"
    using parsed_query unfolding enc_def by blast
  have str: "Target_String t = ''peerrpc+'' @ tg_Scheme t @ CHR '':'' # CHR ''/'' # CHR ''/'' #
      (tg_Signal t @ CHR ''/'' # tg_Service t @ tail)"
    by (simp add: Target_String_def Let_def enc_def tail_def)
  have ok: "str_Index (tg_Scheme t @ CHR '':'' # CHR ''/'' # CHR ''/'' # (tg_Signal t @ CHR ''/'' # tg_Service t @ tail)) ''://''
        = Some (length (tg_Scheme t))"
    "CHR ''/'' \<notin> set (tg_Signal t)" "tg_Service t \<noteq> []" "CHR ''?'' \<notin> set (tg_Service t)"
    "tg_Signal t = [] \<Longrightarrow> tg_Scheme t = SchemeLocal"
    using assms str_Index_append_sep [of "tg_Scheme t"] by (auto simp: target_ok_def)
  show ?thesis
  proof (cases "enc = []")
    case True
    with encoded_query [of t] have "tg_Role t = []" "tg_PeerID t = []" "tg_Token t = []"
      by (simp_all add: enc_def)
    with True ok show ?thesis by (auto simp: ParseTarget_def str tail_def Let_def str_Index_char)
  next
    case False
    with vals ok show ?thesis by (auto simp: ParseTarget_def str tail_def Let_def str_Index_char)
  qed
qed

text \<open>
  C17: Target URIs round-trip exactly for well-formed targets. Printing a target and parsing the result
  gives the target back if and only if its scheme does not contain the separator, its signal address has
  no slash, its service is non-empty and has no question mark, and a scheme other than \<open>local\<close> has a
  signal address; whatever the role, peer id and token are (they are escaped). And a URI that parses
  denotes such a target, so that printing and parsing again changes nothing. In particular a target whose
  signal address is a full URL, which the field's comment allows, does not survive printing.
\<close>

theorem target_roundtrip:
  "(ParseTarget quote (Target_String t) = Inr t \<longleftrightarrow>
      str_Index (tg_Scheme t) ''://'' = None \<and> CHR ''/'' \<notin> set (tg_Signal t)
      \<and> tg_Service t \<noteq> [] \<and> CHR ''?'' \<notin> set (tg_Service t) \<and> (tg_Signal t \<noteq> [] \<or> tg_Scheme t = SchemeLocal))
   \<and> (ParseTarget quote uri = Inr u \<longrightarrow> ParseTarget quote (Target_String u) = Inr u)"
proof -
  have "ParseTarget quote (Target_String t) = Inr t \<longleftrightarrow> target_ok t"
    using ParseTarget_String ParseTarget_ok by blast
  moreover have "ParseTarget quote uri = Inr u \<longrightarrow> ParseTarget quote (Target_String u) = Inr u"
    using ParseTarget_String ParseTarget_ok by blast
  ultimately show ?thesis by (simp only: target_ok_def simp_thms)
qed

definition demo_target :: target where
  "demo_target = \<lparr>tg_Scheme = ''ws'', tg_Signal = ''h:8443'', tg_Service = ''echo.Echo'',
     tg_Role = ''client'', tg_PeerID = ''a b'', tg_Token = []\<rparr>"

lemma demo_parse:
  "ParseTarget id ''peerrpc+ws://h:8443/echo.Echo?as=client&peer=a+b'' = Inr demo_target"
  by code_simp

theorem target_roundtrip_witness:
  "ParseTarget id (Target_String demo_target) = Inr demo_target
   \<and> ParseTarget id (Target_String (demo_target\<lparr>tg_Signal := ''https://h''\<rparr>)) \<noteq>
       Inr (demo_target\<lparr>tg_Signal := ''https://h''\<rparr>)"
  using target_roundtrip [of id "demo_target\<lparr>tg_Signal := ''https://h''\<rparr>"
      "''peerrpc+ws://h:8443/echo.Echo?as=client&peer=a+b''" demo_target] demo_parse
  by simp

end
