(* ===== verification/Crypto.thy ===== *)
theory Crypto
  imports Go_Prelude
begin

text \<open>
  The application-layer encryption (\<open>crypto/crypto.go\<close>): the frame format, the nonces and the key
  derivation. The primitives are library code and parameters here: \<open>seal\<close> and \<open>gcm_open\<close> for AES-GCM
  under a key and a nonce, \<open>ecdh\<close> for the Diffie-Hellman agreement of a private with a public key, and
  \<open>hkdf\<close> for the bytes that HKDF-SHA256 expands a secret and an info string to.
\<close>

section \<open>Definitions\<close>

type_synonym aead_seal = "bytes \<Rightarrow> bytes \<Rightarrow> bytes \<Rightarrow> bytes"
type_synonym aead_open = "bytes \<Rightarrow> bytes \<Rightarrow> bytes \<Rightarrow> go_error + bytes"

definition NonceSize :: nat where "NonceSize = 12"
definition KeySize :: nat where "KeySize = 32"

record encrypted_channel =
  ec_key :: bytes
  ec_prefix :: bytes
  ec_counter :: "64 word"

text \<open>
  With a key of 32 bytes neither \<open>aes.NewCipher\<close> nor \<open>cipher.NewGCM\<close> can fail. \<open>fmt\<close> prints a number;
  the prefix is an array of eight bytes.
\<close>

definition NewEncryptedChannel :: "(nat \<Rightarrow> string) \<Rightarrow> bytes \<Rightarrow> bytes \<Rightarrow> go_error + encrypted_channel" where
  "NewEncryptedChannel fmt key noncePrefix =
     (if length key \<noteq> KeySize
      then Inl (ErrNew (''crypto: key must be '' @ fmt KeySize @ '' bytes, got '' @ fmt (length key)))
      else Inr \<lparr>ec_key = key, ec_prefix = noncePrefix, ec_counter = 0\<rparr>)"

text \<open>The counter is atomic: concurrent calls of \<open>Encrypt\<close> take distinct values of it.\<close>

definition Encrypt :: "aead_seal \<Rightarrow> encrypted_channel \<Rightarrow> bytes \<Rightarrow> encrypted_channel \<times> bytes" where
  "Encrypt seal ec plaintext =
     (let counter = ec_counter ec + 1;
          nonceTail = put_be32 (ucast counter);
          ciphertext = seal (ec_key ec) (ec_prefix ec @ nonceTail) plaintext;
          totalLen = length nonceTail + length ciphertext
      in (ec\<lparr>ec_counter := counter\<rparr>, put_be32 (word_of_nat totalLen) @ nonceTail @ ciphertext))"

text \<open>
  \<open>wire[4 : 4+totalLen]\<close> computes its upper bound in \<open>uint32\<close>, so for a length of at least
  \<open>2^32 - 4\<close> the slice expression panics.
\<close>

definition Decrypt :: "aead_open \<Rightarrow> encrypted_channel \<Rightarrow> bytes \<Rightarrow> (go_error + bytes) go" where
  "Decrypt gcm_open ec wire =
     (if length wire < 4 then Returns (Inl (ErrNew ''crypto: wire too short for length prefix''))
      else let totalLen = get_be32 wire
           in if length wire < 4 + unat totalLen then Returns (Inl (ErrNew ''crypto: wire truncated''))
              else if unat (4 + totalLen) < 4 then Panics ''slice bounds out of range''
              else let body = drop 4 (take (unat (4 + totalLen)) wire)
                   in if length body < 4 then Returns (Inl (ErrNew ''crypto: body too short for nonce tail''))
                      else case gcm_open (ec_key ec) (ec_prefix ec @ take 4 body) (drop 4 body) of
                             Inl e \<Rightarrow> Returns (Inl (Errorf ''crypto: GCM decrypt failed: '' e))
                           | Inr plaintext \<Rightarrow> Returns (Inr plaintext))"

definition DeriveKey ::
  "('priv \<Rightarrow> 'pub \<Rightarrow> go_error + bytes) \<Rightarrow> (bytes \<Rightarrow> string \<Rightarrow> nat \<Rightarrow> go_error + bytes) \<Rightarrow>
   'priv \<Rightarrow> 'pub \<Rightarrow> string \<Rightarrow> go_error + bytes \<times> bytes" where
  "DeriveKey ecdh hkdf priv peerPub info =
     (case ecdh priv peerPub of
        Inl e \<Rightarrow> Inl (Errorf ''crypto: ECDH: '' e)
      | Inr shared \<Rightarrow>
          (case hkdf shared info (KeySize + 8) of
             Inl e \<Rightarrow> Inl (Errorf ''crypto: HKDF: '' e)
           | Inr out \<Rightarrow> Inr (take KeySize out, drop KeySize out)))"

text \<open>A sequence of frames sent on one channel, with the wire payload of each.\<close>

fun encrypt_all :: "aead_seal \<Rightarrow> encrypted_channel \<Rightarrow> bytes list \<Rightarrow> bytes list" where
  "encrypt_all seal ec [] = []"
| "encrypt_all seal ec (p # ps) = (case Encrypt seal ec p of (ec', w) \<Rightarrow> w # encrypt_all seal ec' ps)"

section \<open>Frames\<close>

lemma length_encrypt_all [simp]: "length (encrypt_all seal ec ps) = length ps"
  by (induction ps arbitrary: ec) (auto simp: Encrypt_def Let_def)

lemma encrypt_all_nth:
  "i < length ps \<Longrightarrow> encrypt_all seal ec ps ! i =
     snd (Encrypt seal (ec\<lparr>ec_counter := ec_counter ec + word_of_nat i\<rparr>) (ps ! i))"
proof (induction ps arbitrary: ec i)
  case (Cons p ps)
  then show ?case
  proof (cases i)
    case (Suc j)
    have "fst (Encrypt seal ec p) = ec\<lparr>ec_counter := ec_counter ec + 1\<rparr>" by (simp add: Encrypt_def Let_def)
    with Suc Cons.prems Cons.IH [of j "fst (Encrypt seal ec p)"] show ?thesis
      by (simp add: add.assoc case_prod_unfold)
  qed (simp split: prod.split)
qed simp

lemma Decrypt_Encrypt:
  assumes "gcm_open (ec_key ec) (ec_prefix ec @ put_be32 (ucast (ec_counter ec + 1))) c = Inr p"
    and "seal (ec_key ec) (ec_prefix ec @ put_be32 (ucast (ec_counter ec + 1))) p = c"
    and "length c < 2 ^ 32 - 8" and "ec_key ec' = ec_key ec" and "ec_prefix ec' = ec_prefix ec"
  shows "Decrypt gcm_open ec' (snd (Encrypt seal ec p)) = Returns (Inr p)"
proof -
  have "unat (4 + word_of_nat (4 + length c) :: 32 word) = 8 + length c"
    using unat_be32_nat [of "8 + length c"] assms(3) by (simp add: add.assoc [symmetric])
  moreover have "unat (word_of_nat (4 + length c) :: 32 word) = 4 + length c"
    using unat_be32_nat [of "4 + length c"] assms(3) by simp
  ultimately show ?thesis using assms by (simp add: Decrypt_def Encrypt_def Let_def)
qed

lemma ucast_of_nat_64_32: "ucast (word_of_nat n :: 64 word) = (word_of_nat n :: 32 word)"
  by (rule bit_word_eqI) (simp add: bit_simps)

lemma counter_tail: "ucast (word_of_nat k + 1 :: 64 word) = (1 + word_of_nat k :: 32 word)"
  using ucast_of_nat_64_32 [of "Suc k"] by (simp add: add.commute)

lemma word32_eq_iff: "(word_of_nat m :: 32 word) = word_of_nat n \<longleftrightarrow> m mod 2 ^ 32 = n mod 2 ^ 32"
  by (simp add: word_of_nat_eq_iff take_bit_eq_mod)

lemma put_be32_inject [simp]: "put_be32 v = put_be32 w \<longleftrightarrow> v = w"
  by (metis get_put_be32_Nil)

section \<open>Properties\<close>

text \<open>
  C20: End-to-end encryption works. Two peers whose key agreement gives the same secret derive the same
  key and nonce prefix, both get a channel, and every frame of any sequence that one encrypts is
  decrypted by the other to its plaintext, whatever the other channel has sent itself and in whatever
  order the frames are opened, for plaintexts shorter than 4 GiB less 24 bytes. AES-GCM is assumed to
  open what it sealed and to add a tag of 16 bytes.
\<close>

theorem encrypted_channel_roundtrip:
  assumes "ecdh a pubB = Inr shared" and "ecdh b pubA = Inr shared"
    and "hkdf shared info 40 = Inr out" and "length out = 40"
    and gcm: "\<forall>k n p. length k = 32 \<and> length n = 12 \<and> length p < 2 ^ 32 \<longrightarrow>
      gcm_open k n (seal k n p) = Inr p \<and> length (seal k n p) = length p + 16"
  shows "\<exists>key prefix ecA ecB. DeriveKey ecdh hkdf a pubB info = Inr (key, prefix)
    \<and> DeriveKey ecdh hkdf b pubA info = Inr (key, prefix)
    \<and> NewEncryptedChannel fmt key prefix = Inr ecA \<and> NewEncryptedChannel fmt key prefix = Inr ecB
    \<and> (\<forall>ps n i. i < length ps \<and> length (ps ! i) < 2 ^ 32 - 24 \<longrightarrow>
        Decrypt gcm_open (ecB\<lparr>ec_counter := n\<rparr>) (encrypt_all seal ecA ps ! i) = Returns (Inr (ps ! i)))"
proof -
  let ?ec = "\<lparr>ec_key = take KeySize out, ec_prefix = drop KeySize out, ec_counter = 0\<rparr>"
  have "Decrypt gcm_open (?ec\<lparr>ec_counter := n\<rparr>) (encrypt_all seal ?ec ps ! i) = Returns (Inr (ps ! i))"
    if "i < length ps" "length (ps ! i) < 2 ^ 32 - 24" for ps n i
  proof -
    have *: "gcm_open (take KeySize out) (drop KeySize out @ put_be32 w) (seal (take KeySize out) (drop KeySize out @ put_be32 w) (ps ! i))
        = Inr (ps ! i)" "length (seal (take KeySize out) (drop KeySize out @ put_be32 w) (ps ! i)) < 2 ^ 32 - 8" for w
      using gcm assms(4) that(2) by (simp_all add: KeySize_def)
    show ?thesis
      unfolding encrypt_all_nth [OF that(1)] by (rule Decrypt_Encrypt [OF _ refl]) (use * in simp_all)
  qed
  moreover have "NewEncryptedChannel fmt (take KeySize out) (drop KeySize out) = Inr ?ec"
    using assms(4) by (simp add: NewEncryptedChannel_def KeySize_def)
  moreover have "DeriveKey ecdh hkdf a pubB info = Inr (take KeySize out, drop KeySize out)"
    "DeriveKey ecdh hkdf b pubA info = Inr (take KeySize out, drop KeySize out)"
    using assms(1-3) by (simp_all add: DeriveKey_def KeySize_def)
  ultimately show ?thesis by blast
qed

definition demo_seal :: aead_seal where
  "demo_seal k n p = p @ replicate 16 0"

definition demo_open :: aead_open where
  "demo_open k n c = Inr (take (length c - 16) c)"

theorem encrypted_channel_roundtrip_witness:
  "\<exists>ecA ecB. Decrypt demo_open (ecB\<lparr>ec_counter := 7\<rparr>) (encrypt_all demo_seal ecA [[1], [2, 3]] ! 1)
     = Returns (Inr [2, 3])"
proof -
  obtain ecA ecB where "\<forall>ps n i. i < length ps \<and> length (ps ! i) < 2 ^ 32 - 24 \<longrightarrow>
      Decrypt demo_open (ecB\<lparr>ec_counter := n\<rparr>) (encrypt_all demo_seal ecA ps ! i) = Returns (Inr (ps ! i))"
    using encrypted_channel_roundtrip [of "\<lambda>a b. Inr [a + b]" "1 :: byte" 2 "[3]" 2 1 "\<lambda>s info n. Inr (replicate n 0)"
        "[]" "replicate 40 0" demo_open demo_seal "\<lambda>_. []"]
    by (auto simp: demo_open_def demo_seal_def)
  from this [rule_format, of 1 "[[1], [2, 3]]" 7] show ?thesis by auto
qed

text \<open>
  C21: When nonces repeat. Both ends of a session hold the same key and the same nonce prefix and count
  from one, and only the low 32 bits of the counter enter the nonce. So frame \<open>i\<close> of one end and frame
  \<open>j\<close> of the other (or of the same end) are sealed under the same key and nonce exactly when \<open>i\<close> and
  \<open>j\<close> are congruent modulo \<open>2^32\<close>: within one direction nonces are distinct for \<open>2^32\<close> frames, but the
  two directions repeat each other's nonces from the first frame on.
\<close>

theorem encrypted_channel_nonces:
  assumes "NewEncryptedChannel fmt key prefix = Inr ecA" and "NewEncryptedChannel fmt key prefix = Inr ecB"
    and "i < length ps" and "j < length qs"
  shows "\<exists>nA nB tA tB. encrypt_all seal ecA ps ! i = tA @ drop (length prefix) nA @ seal key nA (ps ! i)
    \<and> encrypt_all seal ecB qs ! j = tB @ drop (length prefix) nB @ seal key nB (qs ! j)
    \<and> length tA = 4 \<and> length tB = 4 \<and> length nA = length prefix + 4 \<and> length nB = length prefix + 4
    \<and> (nA = nB \<longleftrightarrow> i mod 2 ^ 32 = j mod 2 ^ 32)"
proof -
  let ?ec = "\<lparr>ec_key = key, ec_prefix = prefix, ec_counter = 0\<rparr>"
  let ?n = "\<lambda>i. prefix @ put_be32 (word_of_nat (Suc i))"
  let ?t = "\<lambda>xs k. put_be32 (word_of_nat (4 + length (seal key (?n k) (xs ! k)))) :: bytes"
  have ec: "ecA = ?ec" "ecB = ?ec" using assms(1,2) by (auto simp: NewEncryptedChannel_def split: if_splits)
  have wire: "encrypt_all seal ?ec xs ! k =
      put_be32 (word_of_nat (4 + length (seal key (?n k) (xs ! k)))) @ drop (length prefix) (?n k) @ seal key (?n k) (xs ! k)"
    if "k < length xs" for k xs
    unfolding encrypt_all_nth [OF that] Encrypt_def Let_def by (simp add: counter_tail)
  have "?n i = ?n j \<longleftrightarrow> i mod 2 ^ 32 = j mod 2 ^ 32"
  proof -
    have "Suc i mod 2 ^ 32 = Suc j mod 2 ^ 32 \<longleftrightarrow> i mod 2 ^ 32 = j mod (2 ^ 32 :: nat)"
      by (simp only: mod_Suc) (auto split: if_splits)
    then show ?thesis by (simp only: word32_eq_iff put_be32_inject same_append_eq)
  qed
  then show ?thesis
    unfolding ec wire [OF assms(3)] wire [OF assms(4)]
    by - (rule exI [of _ "?n i"], rule exI [of _ "?n j"], rule exI [of _ "?t ps i"], rule exI [of _ "?t qs j"],
        simp del: of_nat_Suc)
qed

theorem encrypted_channel_nonces_witness:
  "\<exists>nA nB tA tB. encrypt_all demo_seal \<lparr>ec_key = replicate 32 0, ec_prefix = replicate 8 0, ec_counter = 0\<rparr> [[1]] ! 0
       = tA @ drop 8 nA @ demo_seal (replicate 32 0) nA [1]
     \<and> encrypt_all demo_seal \<lparr>ec_key = replicate 32 0, ec_prefix = replicate 8 0, ec_counter = 0\<rparr> [[2]] ! 0
       = tB @ drop 8 nB @ demo_seal (replicate 32 0) nB [2] \<and> length nA = 12 \<and> nA = nB"
proof -
  let ?ec = "\<lparr>ec_key = replicate 32 0, ec_prefix = replicate 8 0, ec_counter = 0\<rparr>"
  have "NewEncryptedChannel (\<lambda>_. []) (replicate 32 0) (replicate 8 0) = Inr ?ec"
    by (simp add: NewEncryptedChannel_def KeySize_def)
  from encrypted_channel_nonces [OF this this, of 0 "[[1]]" 0 "[[2]]" demo_seal] show ?thesis by auto
qed

end
