(* ===== verification/Base64.thy ===== *)
theory Base64
  imports Url
begin

text \<open>
  What the sources use of \<open>encoding/base64\<close>: the unpadded URL alphabet (\<open>base64.RawURLEncoding\<close>), as
  three-byte groups over numbers; and \<open>strings.Split\<close> for a one-byte separator.
\<close>

section \<open>Definitions\<close>

definition b64_alphabet :: string where
  "b64_alphabet = ''ABCDEFGHIJKLMNOPQRSTUVWXYZabcdefghijklmnopqrstuvwxyz0123456789-_''"

definition b64_value :: "char \<Rightarrow> nat option" where
  "b64_value c = (let n = length (takeWhile (\<lambda>d. d \<noteq> c) b64_alphabet) in if n < 64 then Some n else None)"

fun b64_digits :: "nat list \<Rightarrow> nat list" where
  "b64_digits (x # y # z # r) =
     [x div 4, x mod 4 * 16 + y div 16, y mod 16 * 4 + z div 64, z mod 64] @ b64_digits r"
| "b64_digits [x, y] = [x div 4, x mod 4 * 16 + y div 16, y mod 16 * 4]"
| "b64_digits [x] = [x div 4, x mod 4 * 16]"
| "b64_digits [] = []"

definition b64_EncodeToString :: "bytes \<Rightarrow> string" where
  "b64_EncodeToString b = map (\<lambda>d. b64_alphabet ! d) (b64_digits (map unat b))"

fun b64_bytes :: "nat list \<Rightarrow> nat list" where
  "b64_bytes (a # b # c # d # r) =
     [a * 4 + b div 16, b mod 16 * 16 + c div 4, c mod 4 * 64 + d] @ b64_bytes r"
| "b64_bytes [a, b, c] = [a * 4 + b div 16, b mod 16 * 16 + c div 4]"
| "b64_bytes [a, b] = [a * 4 + b div 16]"
| "b64_bytes _ = []"

definition CorruptInputError :: "(nat \<Rightarrow> string) \<Rightarrow> nat \<Rightarrow> go_error" where
  "CorruptInputError fmt n = ErrNew (''illegal base64 data at input byte '' @ fmt n)"

text \<open>
  Line breaks are skipped; a byte outside the alphabet is an error at its position, and a single
  character left over is one too. The unused bits of the last character are ignored.
\<close>

definition b64_DecodeString :: "(nat \<Rightarrow> string) \<Rightarrow> string \<Rightarrow> go_error + bytes" where
  "b64_DecodeString fmt s =
     (let cs = filter (\<lambda>(i, c). of_char c \<noteq> (10 :: nat) \<and> of_char c \<noteq> (13 :: nat)) (enumerate 0 s)
      in case find (\<lambda>(i, c). b64_value c = None) cs of
           Some (i, _) \<Rightarrow> Inl (CorruptInputError fmt i)
         | None \<Rightarrow> if length cs mod 4 = 1 then Inl (CorruptInputError fmt (length s - 1))
                   else Inr (map word_of_nat (b64_bytes (map (\<lambda>(i, c). the (b64_value c)) cs))))"

fun str_Split :: "string \<Rightarrow> char \<Rightarrow> string list" where
  "str_Split [] sep = [[]]"
| "str_Split (c # cs) sep =
     (if c = sep then [] # str_Split cs sep
      else case str_Split cs sep of p # ps \<Rightarrow> (c # p) # ps | [] \<Rightarrow> [[c]])"

section \<open>Round trip\<close>

lemma b64_alphabet_facts:
  "d < 64 \<Longrightarrow> b64_value (b64_alphabet ! d) = Some d
     \<and> of_char (b64_alphabet ! d) \<noteq> (10 :: nat) \<and> of_char (b64_alphabet ! d) \<noteq> (13 :: nat)
     \<and> b64_alphabet ! d \<noteq> CHR ''.''"
proof -
  have "list_all (\<lambda>d. b64_value (b64_alphabet ! d) = Some d
     \<and> of_char (b64_alphabet ! d) \<noteq> (10 :: nat) \<and> of_char (b64_alphabet ! d) \<noteq> (13 :: nat)
     \<and> b64_alphabet ! d \<noteq> CHR ''.'') [0..<64]" by code_simp
  then show "d < 64 \<Longrightarrow> ?thesis" by (simp add: list_all_iff)
qed

lemma byte_parts: "(x :: nat) < 256 \<Longrightarrow> x div 4 \<le> 63" "x < 256 \<Longrightarrow> x div 16 \<le> 15" "x < 256 \<Longrightarrow> x div 64 \<le> 3"
    "x mod 4 \<le> 3" "x mod 16 \<le> 15" "x mod 64 \<le> 63"
  by simp_all

lemma six_bits:
  fixes x y :: nat
  shows "x < 256 \<Longrightarrow> x div 4 < 64" "y < 256 \<Longrightarrow> x mod 4 * 16 + y div 16 < 64"
    "y < 256 \<Longrightarrow> x mod 16 * 4 + y div 64 < 64" "x mod 16 * 4 < 64" "x mod 4 * 16 < 64"
  using byte_parts [of x] byte_parts [of y] by linarith+

lemma eight_bits:
  fixes x y z :: nat
  shows "y < 256 \<Longrightarrow> (x mod 4 * 16 + y div 16) div 16 = x mod 4"
    "y < 256 \<Longrightarrow> (x mod 4 * 16 + y div 16) mod 16 = y div 16"
    "z < 256 \<Longrightarrow> (y mod 16 * 4 + z div 64) div 4 = y mod 16"
    "z < 256 \<Longrightarrow> (y mod 16 * 4 + z div 64) mod 4 = z div 64"
proof -
  have "b < 16 \<Longrightarrow> (a * 16 + b) div 16 = a" "b < 16 \<Longrightarrow> (a * 16 + b) mod 16 = b"
    "b < 4 \<Longrightarrow> (a * 4 + b) div 4 = a" "b < 4 \<Longrightarrow> (a * 4 + b) mod 4 = b" for a b :: nat
    by simp_all
  from this [of "y div 16"] this [of "z div 64"]
  show "y < 256 \<Longrightarrow> (x mod 4 * 16 + y div 16) div 16 = x mod 4"
    "y < 256 \<Longrightarrow> (x mod 4 * 16 + y div 16) mod 16 = y div 16"
    "z < 256 \<Longrightarrow> (y mod 16 * 4 + z div 64) div 4 = y mod 16"
    "z < 256 \<Longrightarrow> (y mod 16 * 4 + z div 64) mod 4 = z div 64"
    using byte_parts(2) [of y] byte_parts(3) [of z] by (simp_all del: div_mult_self3)
qed

lemma b64_digits_bound: "\<forall>x \<in> set b. x < 256 \<Longrightarrow> \<forall>d \<in> set (b64_digits b). d < 64"
  by (induction b rule: b64_digits.induct) (auto simp: six_bits)

lemma b64_bytes_digits: "\<forall>x \<in> set b. x < 256 \<Longrightarrow> b64_bytes (b64_digits b) = b"
  by (induction b rule: b64_digits.induct) (auto simp: eight_bits div_mult_mod_eq)

lemma b64_digits_length: "length (b64_digits b) mod 4 \<noteq> 1"
  by (induction b rule: b64_digits.induct) simp_all

lemma find_None: "\<forall>x \<in> set xs. \<not> P x \<Longrightarrow> find P xs = None"
  by (simp add: find_None_iff)

lemma b64_roundtrip: "b64_DecodeString fmt (b64_EncodeToString b) = Inr b"
proof -
  let ?ds = "b64_digits (map unat b)"
  let ?s = "map (\<lambda>d. b64_alphabet ! d) ?ds"
  have byte: "\<forall>x \<in> set (map unat b). x < 256" by (auto simp: byte_bound)
  then have ds: "\<forall>d \<in> set ?ds. d < 64" by (rule b64_digits_bound)
  have mem: "\<exists>d. d < 64 \<and> c = b64_alphabet ! d" if "(i, c) \<in> set (enumerate 0 ?s)" for i c
    using that ds nth_mem by (fastforce simp: in_set_enumerate_eq)
  have keep: "filter (\<lambda>(i, c). of_char c \<noteq> (10 :: nat) \<and> of_char c \<noteq> (13 :: nat)) (enumerate 0 ?s) = enumerate 0 ?s"
    using mem b64_alphabet_facts by (fastforce intro!: filter_True)
  have none: "find (\<lambda>(i, c). b64_value c = None) (enumerate 0 ?s) = None"
    using mem b64_alphabet_facts by (fastforce intro!: find_None)
  have "map (\<lambda>(i, c). the (b64_value c)) (enumerate 0 ?s) = map (\<lambda>c. the (b64_value c)) (map snd (enumerate 0 ?s))"
    unfolding map_map by (rule map_cong) auto
  also have "\<dots> = map (\<lambda>d. the (b64_value (b64_alphabet ! d))) ?ds" by (simp add: comp_def)
  also have "\<dots> = ?ds" using ds b64_alphabet_facts by (intro map_idI) auto
  finally have "b64_bytes (map (\<lambda>(i, c). the (b64_value c)) (enumerate 0 ?s)) = map unat b"
    using byte by (simp only: b64_bytes_digits)
  then show ?thesis
    using b64_digits_length [of "map unat b"]
    by (simp add: b64_DecodeString_def b64_EncodeToString_def keep none comp_def)
qed

lemma b64_no_dot: "CHR ''.'' \<notin> set (b64_EncodeToString b)"
proof -
  have "\<forall>x \<in> set (map unat b). x < 256" by (auto simp: byte_bound)
  from b64_digits_bound [OF this] b64_alphabet_facts show ?thesis by (fastforce simp: b64_EncodeToString_def)
qed

section \<open>Splitting\<close>

lemma str_Split_nonempty [simp]: "str_Split s c \<noteq> []"
  by (induction s) (auto split: list.splits)

lemma str_Split_absent: "c \<notin> set a \<Longrightarrow> str_Split a c = [a]"
  by (induction a) auto

lemma str_Split_sep: "c \<notin> set a \<Longrightarrow> str_Split (a @ c # b) c = a # str_Split b c"
  by (induction a) auto

lemma str_Split_Cons: "str_Split s c = p # ps \<Longrightarrow>
    c \<notin> set p \<and> (ps = [] \<longrightarrow> s = p) \<and> (ps \<noteq> [] \<longrightarrow> (\<exists>r. s = p @ c # r \<and> str_Split r c = ps))"
proof (induction s arbitrary: p)
  case (Cons x s)
  show ?case
  proof (cases "x = c")
    case False
    with Cons.prems obtain p' where "str_Split s c = p' # ps" "p = x # p'" by (auto split: list.splits)
    with Cons.IH [of p'] False show ?thesis by auto
  qed (use Cons.prems in auto)
qed auto

lemma str_Split_three:
  "str_Split s c = [h, p, g] \<longleftrightarrow> s = h @ c # p @ c # g \<and> c \<notin> set h \<and> c \<notin> set p \<and> c \<notin> set g"
  using str_Split_Cons [of s c h] str_Split_Cons [of _ c p] str_Split_Cons [of _ c g]
  by (fastforce simp: str_Split_sep str_Split_absent)

end
