(* ===== verification/Auth.thy ===== *)
theory Auth
  imports Base64
begin

text \<open>
  Authentication of the signaling server: JSON web tokens (\<open>auth/jwt.go\<close>), the validators and the gate
  in front of the WebSocket handler (\<open>auth/transport.go\<close>, \<open>auth/context.go\<close>), and how the \<open>signal\<close>
  command chooses a validator (\<open>cmd/peerrpc/signal.go\<close>).

  \<open>hmac\<close> is HMAC-SHA256 and \<open>json_header\<close>, \<open>json_claims\<close>, \<open>marshal_claims\<close> are the JSON codec for
  the header's \<open>alg\<close> field and for the claims; they are parameters. \<open>fmt\<close> prints an integer, \<open>quote\<close> a
  string (\<open>%q\<close>).
\<close>

section \<open>Tokens\<close>

record jwt_claims =
  cl_Subject :: string
  cl_ExpiresAt :: int
  cl_IssuedAt :: int
  cl_Service :: string

definition ErrInvalidToken :: go_error where
  "ErrInvalidToken = ErrNew ''auth: invalid or unverified token''"

definition ErrExpired :: go_error where
  "ErrExpired = ErrNew ''auth: token expired''"

text \<open>\<open>hv_Leeway\<close> is \<open>int64(v.Leeway.Seconds())\<close>; the clock is an argument of \<open>Verify\<close>.\<close>

record hs256_verifier =
  hv_Secret :: bytes
  hv_Leeway :: int

definition int64 :: "int \<Rightarrow> int" where
  "int64 n = signed_take_bit 63 n"

definition jwt_expired :: "hs256_verifier \<Rightarrow> int \<Rightarrow> jwt_claims \<Rightarrow> bool" where
  "jwt_expired v now c \<longleftrightarrow> cl_ExpiresAt c > 0 \<and> now > int64 (cl_ExpiresAt c + hv_Leeway v)"

definition HS256_Verify ::
  "(int \<Rightarrow> string) \<Rightarrow> (string \<Rightarrow> string) \<Rightarrow> (bytes \<Rightarrow> string \<Rightarrow> bytes) \<Rightarrow> (bytes \<Rightarrow> go_error + string) \<Rightarrow>
   (bytes \<Rightarrow> go_error + jwt_claims) \<Rightarrow> hs256_verifier \<Rightarrow> int \<Rightarrow> string \<Rightarrow> go_error + jwt_claims" where
  "HS256_Verify fmt quote hmac json_header json_claims v now token =
     (case str_Split token CHR ''.'' of
        [h, p, g] \<Rightarrow>
          (let expected = b64_EncodeToString (hmac (hv_Secret v) (h @ ''.'' @ p))
           in if g \<noteq> expected then Inl (Errorw ErrInvalidToken '': signature mismatch'')
              else case b64_DecodeString (\<lambda>n. fmt (int n)) h of
                     Inl e \<Rightarrow> Inl (Errorw ErrInvalidToken ('': bad header encoding: '' @ error_string e))
                   | Inr headerJSON \<Rightarrow>
                       (case json_header headerJSON of
                          Inl e \<Rightarrow> Inl (Errorw ErrInvalidToken ('': bad header json: '' @ error_string e))
                        | Inr alg \<Rightarrow>
                            if alg \<noteq> ''HS256''
                            then Inl (Errorw ErrInvalidToken ('': alg '' @ quote alg @ '' not supported''))
                            else case b64_DecodeString (\<lambda>n. fmt (int n)) p of
                                   Inl e \<Rightarrow> Inl (Errorw ErrInvalidToken ('': bad payload encoding: '' @ error_string e))
                                 | Inr payloadJSON \<Rightarrow>
                                     (case json_claims payloadJSON of
                                        Inl e \<Rightarrow> Inl (Errorw ErrInvalidToken ('': bad payload json: '' @ error_string e))
                                      | Inr c \<Rightarrow>
                                          if jwt_expired v now c
                                          then Inl (Errorw ErrExpired ('': exp '' @ fmt (cl_ExpiresAt c) @ '', now '' @ fmt now))
                                          else Inr c)))
      | parts \<Rightarrow> Inl (Errorw ErrInvalidToken ('': expected 3 segments, got '' @ fmt (int (length parts)))))"

text \<open>The header's JSON is a constant: the keys of a Go map are marshalled in order.\<close>

definition issue_header :: bytes where
  "issue_header = map of_char ''{\"alg\":\"HS256\",\"typ\":\"JWT\"}''"

definition IssueHS256 ::
  "(bytes \<Rightarrow> string \<Rightarrow> bytes) \<Rightarrow> (jwt_claims \<Rightarrow> go_error + bytes) \<Rightarrow> bytes \<Rightarrow> jwt_claims \<Rightarrow> go_error + string" where
  "IssueHS256 hmac marshal_claims secret claims =
     (case marshal_claims claims of
        Inl e \<Rightarrow> Inl (Errorf ''auth: marshal claims: '' e)
      | Inr payloadJSON \<Rightarrow>
          (let signingInput = b64_EncodeToString issue_header @ ''.'' @ b64_EncodeToString payloadJSON
           in Inr (signingInput @ ''.'' @ b64_EncodeToString (hmac secret signingInput))))"

section \<open>Validators and the gate\<close>

record identity =
  id_Subject :: string
  id_Service :: string

type_synonym validator = "string \<Rightarrow> go_error + identity"

definition ErrUnauthenticated :: go_error where
  "ErrUnauthenticated = ErrNew ''auth: invalid or expired token''"

definition StaticValidator_Validate :: "(string \<rightharpoonup> identity) \<Rightarrow> validator" where
  "StaticValidator_Validate identities token =
     (case identities token of Some i \<Rightarrow> Inr i | None \<Rightarrow> Inl ErrUnauthenticated)"

text \<open>What the gate reads of a request: \<open>Header.Get\<close> of \<open>Authorization\<close>, the raw query, and whether it asks for an upgrade.\<close>

record http_request =
  rq_Authorization :: string
  rq_RawQuery :: string
  rq_Upgrade :: bool

definition bearerToken :: "http_request \<Rightarrow> string" where
  "bearerToken r =
     (let v = rq_Authorization r
      in if length v > length ''Bearer '' \<and> take 7 v = ''Bearer '' then drop 7 v else v)"

text \<open>\<open>URL.Query\<close> drops what does not parse.\<close>

definition tokenFromRequest :: "(string \<Rightarrow> string) \<Rightarrow> http_request \<Rightarrow> string" where
  "tokenFromRequest quote r =
     (let tok = bearerToken r
      in if tok \<noteq> [] then tok else Values_Get (fst (ParseQuery quote (rq_RawQuery r))) ''token'')"

datatype gate = Authorized identity | Refused int string string

definition no_identity :: identity where
  "no_identity = \<lparr>id_Subject = [], id_Service = []\<rparr>"

text \<open>A refusal carries the status code, the \<open>Connection\<close> header it sets and the body.\<close>

definition AuthorizeRequest :: "(string \<Rightarrow> string) \<Rightarrow> http_request \<Rightarrow> validator option \<Rightarrow> gate" where
  "AuthorizeRequest quote r v =
     (case v of
        None \<Rightarrow> Authorized no_identity
      | Some validate \<Rightarrow>
          (case validate (tokenFromRequest quote r) of
             Inr i \<Rightarrow> Authorized i
           | Inl _ \<Rightarrow> if rq_Upgrade r then Refused 401 ''close'' [] else Refused 401 [] ''unauthorized\<newline>''))"

section \<open>The choice of a validator\<close>

definition jwtVerifierAdapter ::
  "(int \<Rightarrow> string) \<Rightarrow> (string \<Rightarrow> string) \<Rightarrow> (bytes \<Rightarrow> string \<Rightarrow> bytes) \<Rightarrow> (bytes \<Rightarrow> go_error + string) \<Rightarrow>
   (bytes \<Rightarrow> go_error + jwt_claims) \<Rightarrow> int \<Rightarrow> bytes \<Rightarrow> validator" where
  "jwtVerifierAdapter fmt quote hmac json_header json_claims now secret token =
     (case HS256_Verify fmt quote hmac json_header json_claims \<lparr>hv_Secret = secret, hv_Leeway = 0\<rparr> now token of
        Inl e \<Rightarrow> Inl e
      | Inr c \<Rightarrow> Inr \<lparr>id_Subject = cl_Subject c, id_Service = cl_Service c\<rparr>)"

text \<open>\<open>strings.TrimSpace\<close> on ASCII text.\<close>

definition is_space :: "char \<Rightarrow> bool" where
  "is_space c \<longleftrightarrow> of_char c \<in> {9, 10, 11, 12, 13, 32 :: nat}"

definition TrimSpace :: "string \<Rightarrow> string" where
  "TrimSpace s = rev (dropWhile is_space (rev (dropWhile is_space s)))"

fun static_loop :: "(string \<Rightarrow> string) \<Rightarrow> (string \<rightharpoonup> identity) \<Rightarrow> string list \<Rightarrow> go_error + (string \<rightharpoonup> identity)" where
  "static_loop quote out [] = Inr out"
| "static_loop quote out (pair # pairs) =
     (case str_Cut (TrimSpace pair) CHR ''='' of
        (k, v, found) \<Rightarrow>
          if \<not> found \<or> k = [] then Inl (ErrNew (''bad token=subject pair: '' @ quote pair))
          else static_loop quote (out(k \<mapsto> \<lparr>id_Subject = v, id_Service = []\<rparr>)) pairs)"

definition parseStaticValidator :: "(string \<Rightarrow> string) \<Rightarrow> string \<Rightarrow> go_error + (string \<rightharpoonup> identity)" where
  "parseStaticValidator quote s = (if s = [] then Inr Map.empty else static_loop quote Map.empty (str_Split s CHR '',''))"

text \<open>The \<open>switch\<close> of \<open>runSignal\<close>; \<open>adapter\<close> is \<open>jwtVerifierAdapter\<close> with its parameters.\<close>

definition signal_validator ::
  "(string \<Rightarrow> string) \<Rightarrow> (bytes \<Rightarrow> validator) \<Rightarrow> string \<Rightarrow> string \<Rightarrow> go_error + validator option" where
  "signal_validator quote adapter jwtSecret authStatic =
     (if jwtSecret \<noteq> [] then Inr (Some (adapter (map of_char jwtSecret)))
      else if authStatic \<noteq> []
      then case parseStaticValidator quote authStatic of
             Inl e \<Rightarrow> Inl e
           | Inr ids \<Rightarrow> Inr (Some (StaticValidator_Validate ids))
      else Inr None)"

section \<open>Facts about tokens\<close>

lemma b64_inject [simp]: "b64_EncodeToString a = b64_EncodeToString b \<longleftrightarrow> a = b"
  by (metis b64_roundtrip Inr_inject)

lemma HS256_Verify_ok:
  "HS256_Verify fmt quote hmac json_header json_claims v now token = Inr c \<longleftrightarrow>
     (\<exists>h p hb pb. str_Split token CHR ''.'' = [h, p, b64_EncodeToString (hmac (hv_Secret v) (h @ ''.'' @ p))]
        \<and> b64_DecodeString (\<lambda>n. fmt (int n)) h = Inr hb \<and> json_header hb = Inr ''HS256''
        \<and> b64_DecodeString (\<lambda>n. fmt (int n)) p = Inr pb \<and> json_claims pb = Inr c \<and> \<not> jwt_expired v now c)"
  by (auto simp: HS256_Verify_def Let_def split: list.splits sum.splits if_splits)

section \<open>Properties\<close>

text \<open>
  C22: Who passes the signaling server. With \<open>--jwt-secret\<close> a request is let through exactly when the
  token it presents (the \<open>Authorization\<close> header, with or without \<open>Bearer\<close>, else the \<open>token\<close> query
  parameter) has three segments, the third being the encoded HMAC of the first two under the secret,
  the first decoding to a header with algorithm HS256 and the second to claims that are unexpired; the
  identity is that of the claims. A token whose expiry is zero or negative never expires.
\<close>

theorem jwt_gate:
  assumes "jwtSecret \<noteq> []"
    and "signal_validator quote (jwtVerifierAdapter fmt quote hmac json_header json_claims now) jwtSecret authStatic = Inr val"
  shows "AuthorizeRequest quote r val = Authorized i \<longleftrightarrow>
    (\<exists>h p hb pb c. tokenFromRequest quote r =
          h @ CHR ''.'' # p @ CHR ''.'' # b64_EncodeToString (hmac (map of_char jwtSecret) (h @ ''.'' @ p))
      \<and> CHR ''.'' \<notin> set h \<and> CHR ''.'' \<notin> set p
      \<and> b64_DecodeString (\<lambda>n. fmt (int n)) h = Inr hb \<and> json_header hb = Inr ''HS256''
      \<and> b64_DecodeString (\<lambda>n. fmt (int n)) p = Inr pb \<and> json_claims pb = Inr c
      \<and> (cl_ExpiresAt c \<le> 0 \<or> now \<le> int64 (cl_ExpiresAt c))
      \<and> i = \<lparr>id_Subject = cl_Subject c, id_Service = cl_Service c\<rparr>)"
proof -
  let ?v = "\<lparr>hv_Secret = map of_char jwtSecret, hv_Leeway = 0\<rparr>"
  let ?tok = "tokenFromRequest quote r"
  have "AuthorizeRequest quote r val = Authorized i \<longleftrightarrow>
      (\<exists>c. HS256_Verify fmt quote hmac json_header json_claims ?v now ?tok = Inr c
        \<and> i = \<lparr>id_Subject = cl_Subject c, id_Service = cl_Service c\<rparr>)"
    using assms by (auto simp: signal_validator_def AuthorizeRequest_def jwtVerifierAdapter_def split: sum.splits)
  then show ?thesis
    by (simp add: HS256_Verify_ok str_Split_three b64_no_dot jwt_expired_def not_less) blast
qed

text \<open>
  Issued tokens verify. A token issued for some claims is accepted by every verifier whose secret
  gives the same HMAC on it, unless it is expired beyond the leeway, and yields those claims; a verifier
  whose secret gives another HMAC refuses it with a signature mismatch. The JSON codec is assumed to
  read back what it wrote.
\<close>

theorem jwt_issue_verify:
  assumes "json_header issue_header = Inr ''HS256''"
    and codec: "\<forall>c b. marshal_claims c = Inr b \<longrightarrow> json_claims b = Inr c"
    and issue: "IssueHS256 hmac marshal_claims secret c = Inr tok"
  shows "\<exists>signingInput. HS256_Verify fmt quote hmac json_header json_claims v now tok =
    (if hmac (hv_Secret v) signingInput \<noteq> hmac secret signingInput
     then Inl (Errorw ErrInvalidToken '': signature mismatch'')
     else if cl_ExpiresAt c > 0 \<and> now > int64 (cl_ExpiresAt c + hv_Leeway v)
     then Inl (Errorw ErrExpired ('': exp '' @ fmt (cl_ExpiresAt c) @ '', now '' @ fmt now))
     else Inr c)"
proof -
  obtain b where b: "marshal_claims c = Inr b" using issue by (auto simp: IssueHS256_def split: sum.splits)
  let ?h = "b64_EncodeToString issue_header" and ?p = "b64_EncodeToString b"
  let ?si = "?h @ CHR ''.'' # ?p"
  have tok: "tok = ?h @ CHR ''.'' # ?p @ CHR ''.'' # b64_EncodeToString (hmac secret ?si)"
    using issue b by (simp add: IssueHS256_def Let_def)
  have "str_Split tok CHR ''.'' = [?h, ?p, b64_EncodeToString (hmac secret ?si)]"
    unfolding tok str_Split_three by (simp add: b64_no_dot)
  with assms(1) codec b have "HS256_Verify fmt quote hmac json_header json_claims v now tok =
    (if hmac (hv_Secret v) ?si \<noteq> hmac secret ?si
     then Inl (Errorw ErrInvalidToken '': signature mismatch'')
     else if cl_ExpiresAt c > 0 \<and> now > int64 (cl_ExpiresAt c + hv_Leeway v)
     then Inl (Errorw ErrExpired ('': exp '' @ fmt (cl_ExpiresAt c) @ '', now '' @ fmt now))
     else Inr c)"
    by (auto simp: HS256_Verify_def Let_def b64_roundtrip jwt_expired_def)
  then show ?thesis by blast
qed

subsection \<open>Witnesses\<close>

definition demo_claims :: jwt_claims where
  "demo_claims = \<lparr>cl_Subject = ''alice'', cl_ExpiresAt = 100, cl_IssuedAt = 0, cl_Service = []\<rparr>"

definition demo_hmac :: "bytes \<Rightarrow> string \<Rightarrow> bytes" where
  "demo_hmac k s = k @ map of_char (take 2 s)"

definition demo_marshal :: "jwt_claims \<Rightarrow> go_error + bytes" where
  "demo_marshal c = (if c = demo_claims then Inr [1] else Inl EOF)"

theorem jwt_issue_verify_witness:
  "\<exists>tok. IssueHS256 demo_hmac demo_marshal [7] demo_claims = Inr tok
     \<and> HS256_Verify (\<lambda>_. []) id demo_hmac (\<lambda>_. Inr ''HS256'') (\<lambda>_. Inr demo_claims) \<lparr>hv_Secret = [7], hv_Leeway = 5\<rparr> 104 tok
       = Inr demo_claims
     \<and> HS256_Verify (\<lambda>_. []) id demo_hmac (\<lambda>_. Inr ''HS256'') (\<lambda>_. Inr demo_claims) \<lparr>hv_Secret = [8], hv_Leeway = 5\<rparr> 104 tok
       = Inl (Errorw ErrInvalidToken '': signature mismatch'')"
proof -
  obtain tok where tok: "IssueHS256 demo_hmac demo_marshal [7] demo_claims = Inr tok"
    by (simp add: IssueHS256_def demo_marshal_def Let_def)
  have codec: "\<forall>c b. demo_marshal c = Inr b \<longrightarrow> (\<lambda>_. Inr demo_claims) b = Inr c" by (simp add: demo_marshal_def)
  note use = jwt_issue_verify [where json_header = "\<lambda>_. Inr ''HS256''", OF refl codec tok,
      where fmt = "\<lambda>_. []" and quote = id and now = 104]
  have "int64 105 = 105" by (simp add: int64_def signed_take_bit_int_eq_self)
  with tok use [where v = "\<lparr>hv_Secret = [7], hv_Leeway = 5\<rparr>"] use [where v = "\<lparr>hv_Secret = [8], hv_Leeway = 5\<rparr>"]
  show ?thesis by (auto simp: demo_claims_def demo_hmac_def)
qed

theorem jwt_gate_witness:
  "\<exists>val. signal_validator id (jwtVerifierAdapter (\<lambda>_. []) id demo_hmac (\<lambda>_. Inr ''HS256'') (\<lambda>_. Inr demo_claims) 50) ''k'' [] = Inr val
     \<and> AuthorizeRequest id \<lparr>rq_Authorization = ''Bearer AA.AQ.'' @ b64_EncodeToString (demo_hmac (map of_char ''k'') ''AA.AQ''),
          rq_RawQuery = [], rq_Upgrade = True\<rparr> val = Authorized \<lparr>id_Subject = ''alice'', id_Service = []\<rparr>"
proof -
  let ?a = "jwtVerifierAdapter (\<lambda>_. []) id demo_hmac (\<lambda>_. Inr ''HS256'') (\<lambda>_. Inr demo_claims) 50"
  let ?r = "\<lparr>rq_Authorization = ''Bearer AA.AQ.'' @ b64_EncodeToString (demo_hmac (map of_char ''k'') ''AA.AQ''),
      rq_RawQuery = [], rq_Upgrade = True\<rparr>"
  have val: "signal_validator id ?a ''k'' [] = Inr (Some (?a (map of_char ''k'')))" by (simp add: signal_validator_def)
  have tok: "tokenFromRequest id ?r = ''AA'' @ CHR ''.'' # ''AQ'' @ CHR ''.'' #
      b64_EncodeToString (demo_hmac (map of_char ''k'') (''AA'' @ ''.'' @ ''AQ''))"
    by (simp add: tokenFromRequest_def bearerToken_def)
  have dec: "b64_DecodeString (\<lambda>_. []) ''AA'' = Inr [0]" "b64_DecodeString (\<lambda>_. []) ''AQ'' = Inr [1]"
    by code_simp+
  have exp: "(50 :: int) \<le> int64 100" by (simp add: int64_def signed_take_bit_int_eq_self)
  have "AuthorizeRequest id ?r (Some (?a (map of_char ''k''))) = Authorized \<lparr>id_Subject = ''alice'', id_Service = []\<rparr>"
  proof (rule iffD2 [OF jwt_gate [OF _ val]])
    show "\<exists>h p hb pb c. tokenFromRequest id ?r =
          h @ CHR ''.'' # p @ CHR ''.'' # b64_EncodeToString (demo_hmac (map of_char ''k'') (h @ ''.'' @ p))
      \<and> CHR ''.'' \<notin> set h \<and> CHR ''.'' \<notin> set p
      \<and> b64_DecodeString (\<lambda>n. []) h = Inr hb \<and> (Inr ''HS256'' :: go_error + string) = Inr ''HS256''
      \<and> b64_DecodeString (\<lambda>n. []) p = Inr pb \<and> (Inr demo_claims :: go_error + jwt_claims) = Inr c
      \<and> (cl_ExpiresAt c \<le> 0 \<or> 50 \<le> int64 (cl_ExpiresAt c))
      \<and> \<lparr>id_Subject = ''alice'', id_Service = []\<rparr> = \<lparr>id_Subject = cl_Subject c, id_Service = cl_Service c\<rparr>"
      by (rule exI [of _ "''AA''"], rule exI [of _ "''AQ''"], rule exI [of _ "[0]"], rule exI [of _ "[1]"],
          rule exI [of _ demo_claims]) (use tok dec exp in \<open>simp add: demo_claims_def\<close>)
  qed simp
  with val show ?thesis by blast
qed

end
