(* ===== verification/Ice.thy ===== *)
theory Ice
  imports Go_Prelude
begin

text \<open>
  The ICE cascade helpers (\<open>peer/ice.go\<close>). The tiers are ordered as the Go constants are; the type is an
  instance of the library's linear orders, so that the worse of two tiers is their maximum. Candidate types
  are those of the WebRTC library.
\<close>

section \<open>Tiers\<close>

datatype ice_tier = ICETierUnknown | ICETierHost | ICETierSrflx | ICETierRelay

text \<open>The value of the Go constant.\<close>

primrec tier_rank :: "ice_tier \<Rightarrow> nat" where
  "tier_rank ICETierUnknown = 0"
| "tier_rank ICETierHost = 1"
| "tier_rank ICETierSrflx = 2"
| "tier_rank ICETierRelay = 3"

lemma tier_rank_inject [simp]: "tier_rank s = tier_rank t \<longleftrightarrow> s = t"
  by (cases s; cases t) simp_all

instantiation ice_tier :: linorder
begin

definition less_eq_ice_tier :: "ice_tier \<Rightarrow> ice_tier \<Rightarrow> bool" where
  "s \<le> t \<longleftrightarrow> tier_rank s \<le> tier_rank t"

definition less_ice_tier :: "ice_tier \<Rightarrow> ice_tier \<Rightarrow> bool" where
  "s < t \<longleftrightarrow> tier_rank s < tier_rank t"

instance
  by standard (auto simp: less_eq_ice_tier_def less_ice_tier_def)

end

datatype candidate_type = CandidateHost | CandidateSrflx | CandidatePrflx | CandidateRelay | CandidateOther int

fun tier_String :: "ice_tier \<Rightarrow> string" where
  "tier_String ICETierHost = ''host''"
| "tier_String ICETierSrflx = ''srflx''"
| "tier_String ICETierRelay = ''relay''"
| "tier_String ICETierUnknown = ''unknown''"

fun TierForCandidateType :: "candidate_type \<Rightarrow> ice_tier" where
  "TierForCandidateType CandidateHost = ICETierHost"
| "TierForCandidateType CandidateSrflx = ICETierSrflx"
| "TierForCandidateType CandidateRelay = ICETierRelay"
| "TierForCandidateType t = (if t = CandidatePrflx then ICETierSrflx else ICETierUnknown)"

definition TierForPair :: "candidate_type \<Rightarrow> candidate_type \<Rightarrow> ice_tier" where
  "TierForPair localType remoteType =
     (let l = TierForCandidateType localType; r = TierForCandidateType remoteType
      in if l = ICETierUnknown \<or> r = ICETierUnknown then ICETierUnknown else if l > r then l else r)"

section \<open>Servers\<close>

record ice_server =
  is_URLs :: "string list"
  is_Username :: string
  is_Credential :: string

definition STUNServer :: "string \<Rightarrow> ice_server" where
  "STUNServer url = \<lparr>is_URLs = [url], is_Username = [], is_Credential = []\<rparr>"

definition TURNServer :: "string \<Rightarrow> string \<Rightarrow> string \<Rightarrow> ice_server" where
  "TURNServer url username credential = \<lparr>is_URLs = [url], is_Username = username, is_Credential = credential\<rparr>"

fun ICEServersForCascade :: "ice_tier \<Rightarrow> string \<Rightarrow> string \<Rightarrow> string \<Rightarrow> string \<Rightarrow> go_error + ice_server list" where
  "ICEServersForCascade ICETierHost stunURL turnURL turnUser turnCred = Inr []"
| "ICEServersForCascade ICETierSrflx stunURL turnURL turnUser turnCred =
     (if stunURL = [] then Inl (ErrNew ''peer: srflx tier requires a stun url'') else Inr [STUNServer stunURL])"
| "ICEServersForCascade ICETierRelay stunURL turnURL turnUser turnCred =
     (if stunURL = [] \<or> turnURL = [] then Inl (ErrNew ''peer: relay tier requires both stun and turn urls'')
      else Inr [STUNServer stunURL, TURNServer turnURL turnUser turnCred])"
| "ICEServersForCascade ICETierUnknown stunURL turnURL turnUser turnCred = Inl (ErrNew ''peer: unknown ICE tier 0'')"

section \<open>Properties\<close>

text \<open>
  The cascade. The tier of a pair is the worse of its two ends (unknown as soon as one end is), so it
  does not depend on which end is local; a name determines its tier; and a server list for tier \<open>t\<close>
  extends the list for every lower tier, so that raising the tier only adds servers.
\<close>

theorem ice_cascade:
  "TierForPair l r = (if ICETierUnknown \<in> {TierForCandidateType l, TierForCandidateType r} then ICETierUnknown
      else max (TierForCandidateType l) (TierForCandidateType r))
   \<and> TierForPair l r = TierForPair r l \<and> (tier_String s = tier_String t \<longleftrightarrow> s = t)
   \<and> (ICETierUnknown < s \<and> s \<le> t \<and> ICEServersForCascade t su tu user cred = Inr ts \<longrightarrow>
       (\<exists>ss more. ICEServersForCascade s su tu user cred = Inr ss \<and> ts = ss @ more))"
proof -
  have pair: "TierForPair l r = (if ICETierUnknown \<in> {TierForCandidateType l, TierForCandidateType r} then ICETierUnknown
      else max (TierForCandidateType l) (TierForCandidateType r))" for l r
    by (auto simp: TierForPair_def Let_def max_def)
  moreover have "TierForPair l r = TierForPair r l" unfolding pair by (auto simp: max.commute)
  moreover have "tier_String s = tier_String t \<longleftrightarrow> s = t" by (cases s; cases t) simp_all
  moreover have "ICETierUnknown < s \<and> s \<le> t \<and> ICEServersForCascade t su tu user cred = Inr ts \<longrightarrow>
       (\<exists>ss more. ICEServersForCascade s su tu user cred = Inr ss \<and> ts = ss @ more)"
    by (cases s; cases t) (auto simp: less_ice_tier_def less_eq_ice_tier_def split: if_splits)
  ultimately show ?thesis by blast
qed

theorem ice_cascade_witness:
  "TierForPair CandidateHost CandidateRelay = ICETierRelay
   \<and> (\<exists>ss more. ICEServersForCascade ICETierSrflx ''stun:s'' ''turn:t'' [] [] = Inr ss
       \<and> [STUNServer ''stun:s'', TURNServer ''turn:t'' [] []] = ss @ more)"
  using ice_cascade [of CandidateHost CandidateRelay ICETierSrflx ICETierRelay "''stun:s''" "''turn:t''" "[]" "[]"
      "[STUNServer ''stun:s'', TURNServer ''turn:t'' [] []]"]
  by (simp add: less_ice_tier_def less_eq_ice_tier_def max_def)

end
