(* ===== verification/Peer.thy ===== *)
theory Peer
  imports Signal_WS Ice "HOL-Library.Sublist"
begin

text \<open>
  One side of a WebRTC negotiation (\<open>peer/peer.go\<close>): \<open>Dial\<close> and \<open>Accept\<close> as step machines. The
  PeerConnection is the WebRTC library; \<open>pion\<close> collects the results of its calls, which are parameters,
  and its callbacks (gathering completed, channel opened) are events, like the signaling session and the
  timers. Each \<open>select\<close> of the code is a phase whose ready cases are the enabled events.
\<close>

section \<open>State\<close>

definition RoleClient :: int where "RoleClient = 1"
definition RoleServer :: int where "RoleServer = 2"

definition DataChannelLabel :: string where "DataChannelLabel = ''peerrpc-v1''"

record peer_config =
  pc_ICEServers :: "ice_server list option"
  pc_DataChannelLabel :: string
  pc_NegotiationTimeout :: int

text \<open>Durations are nanoseconds.\<close>

definition applyDefaults :: "peer_config \<Rightarrow> peer_config" where
  "applyDefaults c =
     (let c1 = (if pc_DataChannelLabel c = [] then c\<lparr>pc_DataChannelLabel := DataChannelLabel\<rparr> else c);
          c2 = (if pc_NegotiationTimeout c1 = 0 then c1\<lparr>pc_NegotiationTimeout := 10 * 10 ^ 9\<rparr> else c1)
      in case pc_ICEServers c2 of None \<Rightarrow> c2\<lparr>pc_ICEServers := Some []\<rparr> | Some _ \<Rightarrow> c2)"

record pion =
  pn_CreateDataChannel :: "string \<Rightarrow> go_error option"
  pn_CreateOffer :: "go_error + string"
  pn_CreateAnswer :: "string \<Rightarrow> go_error + string"
  pn_SetLocalDescription :: "string \<Rightarrow> go_error option"
  pn_SetRemoteDescription :: "string \<Rightarrow> go_error option"
  pn_LocalDescription :: "string \<Rightarrow> string"

datatype peer_call =
    CreateDataChannel string
  | CreateOffer
  | CreateAnswer
  | SetLocalDescription string
  | SetRemoteDescription string
  | SendOffer string
  | SendAnswer string

text \<open>
  \<open>waitICEGathering\<close> looks at the gathering state (\<open>GatherCheck\<close>), registers its callback
  (\<open>GatherRegister\<close>) and waits for it (\<open>GatherWait\<close>).
\<close>

datatype 'c peer_phase =
    PIdle
  | WaitOffer
  | GatherCheck
  | GatherRegister
  | GatherWait
  | Sending
  | WaitAnswer
  | WaitOpen
  | PReturned "go_error + 'c"

record 'c peer =
  pe_role :: int
  pe_cfg :: peer_config
  pe_phase :: "'c peer_phase"
  pe_local :: string
  pe_gathered :: bool
  pe_gatherDone :: bool
  pe_openCh :: "'c option"
  pe_calls :: "peer_call list"
  pe_taken :: "signal_message list"

definition NewPeer :: "(ice_server list \<Rightarrow> go_error option) \<Rightarrow> int \<Rightarrow> peer_config \<Rightarrow> go_error + 'c peer" where
  "NewPeer newPeerConnection role cfg =
     (let cfg' = applyDefaults cfg
      in case newPeerConnection (the (pc_ICEServers cfg')) of
           Some e \<Rightarrow> Inl (Errorf ''peer: NewPeerConnection: '' e)
         | None \<Rightarrow> Inr \<lparr>pe_role = role, pe_cfg = cfg', pe_phase = PIdle, pe_local = [], pe_gathered = False,
                      pe_gatherDone = False, pe_openCh = None, pe_calls = [], pe_taken = []\<rparr>)"

section \<open>Steps\<close>

datatype 'c peer_event =
    EvDial
  | EvAccept
  | EvCheck
  | EvRegister
  | EvGathered
  | EvGatherDone
  | EvGatherTimeout
  | EvCtx ctx_err
  | EvSent "go_error option"
  | EvMsg signal_message
  | EvSessionClosed
  | EvOpened 'c
  | EvTakeOpen
  | EvOpenTimeout

definition p_call :: "peer_call \<Rightarrow> 'c peer \<Rightarrow> 'c peer" where
  "p_call c p = p\<lparr>pe_calls := pe_calls p @ [c]\<rparr>"

definition p_fail :: "string \<Rightarrow> go_error \<Rightarrow> 'c peer \<Rightarrow> 'c peer" where
  "p_fail ctx e p = p\<lparr>pe_phase := PReturned (Inl (Errorf (''peer: '' @ ctx @ '': '') e))\<rparr>"

text \<open>\<open>Dial\<close> up to the wait for ICE gathering.\<close>

definition Dial_start :: "pion \<Rightarrow> 'c peer \<Rightarrow> 'c peer" where
  "Dial_start pn p =
     (if pe_role p \<noteq> RoleClient then p\<lparr>pe_phase := PReturned (Inl (ErrNew ''peer: Dial requires RoleClient''))\<rparr>
      else let p1 = p_call (CreateDataChannel (pc_DataChannelLabel (pe_cfg p))) p
           in case pn_CreateDataChannel pn (pc_DataChannelLabel (pe_cfg p)) of
                Some e \<Rightarrow> p_fail ''CreateDataChannel'' e p1
              | None \<Rightarrow>
                  (let p2 = p_call CreateOffer p1
                   in case pn_CreateOffer pn of
                        Inl e \<Rightarrow> p_fail ''CreateOffer'' e p2
                      | Inr offer \<Rightarrow>
                          (let p3 = p_call (SetLocalDescription offer) p2
                           in case pn_SetLocalDescription pn offer of
                                Some e \<Rightarrow> p_fail ''SetLocalDescription(offer)'' e p3
                              | None \<Rightarrow> p3\<lparr>pe_local := offer, pe_phase := GatherCheck\<rparr>)))"

definition Accept_start :: "'c peer \<Rightarrow> 'c peer" where
  "Accept_start p =
     (if pe_role p \<noteq> RoleServer then p\<lparr>pe_phase := PReturned (Inl (ErrNew ''peer: Accept requires RoleServer''))\<rparr>
      else p\<lparr>pe_phase := WaitOffer\<rparr>)"

text \<open>\<open>Accept\<close> from the offer to the wait for ICE gathering.\<close>

definition Accept_offer :: "pion \<Rightarrow> string \<Rightarrow> 'c peer \<Rightarrow> 'c peer" where
  "Accept_offer pn offer p =
     (let p1 = p_call (SetRemoteDescription offer) p
      in case pn_SetRemoteDescription pn offer of
           Some e \<Rightarrow> p_fail ''SetRemoteDescription(offer)'' e p1
         | None \<Rightarrow>
             (let p2 = p_call CreateAnswer p1
              in case pn_CreateAnswer pn offer of
                   Inl e \<Rightarrow> p_fail ''CreateAnswer'' e p2
                 | Inr answer \<Rightarrow>
                     (let p3 = p_call (SetLocalDescription answer) p2
                      in case pn_SetLocalDescription pn answer of
                           Some e \<Rightarrow> p_fail ''SetLocalDescription(answer)'' e p3
                         | None \<Rightarrow> p3\<lparr>pe_local := answer, pe_phase := GatherCheck\<rparr>)))"

definition Dial_answer :: "pion \<Rightarrow> string \<Rightarrow> 'c peer \<Rightarrow> 'c peer" where
  "Dial_answer pn answer p =
     (let p1 = p_call (SetRemoteDescription answer) p
      in case pn_SetRemoteDescription pn answer of
           Some e \<Rightarrow> p_fail ''SetRemoteDescription(answer)'' e p1
         | None \<Rightarrow> p1\<lparr>pe_phase := WaitOpen\<rparr>)"

text \<open>\<open>waitForOffer\<close> and \<open>waitForAnswer\<close>: a message of another kind is dropped.\<close>

definition peer_receive :: "pion \<Rightarrow> 'c peer \<Rightarrow> signal_message \<Rightarrow> 'c peer list" where
  "peer_receive pn p msg =
     (let p1 = p\<lparr>pe_taken := pe_taken p @ [msg]\<rparr>
      in case pe_phase p of
           WaitOffer \<Rightarrow> [case sb_Offer (sg_Body msg) of None \<Rightarrow> p1 | Some sdp \<Rightarrow> Accept_offer pn sdp p1]
         | WaitAnswer \<Rightarrow> [case sb_Answer (sg_Body msg) of None \<Rightarrow> p1 | Some sdp \<Rightarrow> Dial_answer pn sdp p1]
         | _ \<Rightarrow> [])"

text \<open>What the peer hands to \<open>sig.Send\<close>, and what follows on its result.\<close>

definition outgoing :: "pion \<Rightarrow> 'c peer \<Rightarrow> signal_message" where
  "outgoing pn p =
     (let sdp = pn_LocalDescription pn (pe_local p)
      in \<lparr>sg_Service = [], sg_Body = (if pe_role p = RoleClient then empty_body\<lparr>sb_Offer := Some sdp\<rparr>
           else empty_body\<lparr>sb_Answer := Some sdp\<rparr>)\<rparr>)"

definition peer_sent :: "pion \<Rightarrow> 'c peer \<Rightarrow> go_error option \<Rightarrow> 'c peer" where
  "peer_sent pn p res =
     (let sdp = pn_LocalDescription pn (pe_local p)
      in if pe_role p = RoleClient
         then case res of
                Some e \<Rightarrow> p_fail ''send offer'' e p
              | None \<Rightarrow> (p_call (SendOffer sdp) p)\<lparr>pe_phase := WaitAnswer\<rparr>
         else case res of
                Some e \<Rightarrow> p_fail ''send answer'' e p
              | None \<Rightarrow> (p_call (SendAnswer sdp) p)\<lparr>pe_phase := WaitOpen\<rparr>)"

text \<open>\<open>ctx.Done()\<close> in each of the waits.\<close>

definition peer_ctx :: "'c peer \<Rightarrow> ctx_err \<Rightarrow> 'c peer list" where
  "peer_ctx p e =
     (case pe_phase p of
        WaitOffer \<Rightarrow> [p_fail ''wait offer'' (CtxErr e) p]
      | GatherWait \<Rightarrow> [p_fail ''wait ICE gathering'' (CtxErr e) p]
      | WaitAnswer \<Rightarrow> [p_fail ''wait answer'' (CtxErr e) p]
      | WaitOpen \<Rightarrow> [p\<lparr>pe_phase := PReturned (Inl (CtxErr e))\<rparr>]
      | _ \<Rightarrow> [])"

definition peer_closed :: "'c peer \<Rightarrow> 'c peer list" where
  "peer_closed p =
     (case pe_phase p of
        WaitOffer \<Rightarrow> [p_fail ''wait offer'' (ErrNew ''signal session closed'') p]
      | WaitAnswer \<Rightarrow> [p_fail ''wait answer'' (ErrNew ''signal session closed'') p]
      | _ \<Rightarrow> [])"

definition peer_step :: "(int \<Rightarrow> string) \<Rightarrow> pion \<Rightarrow> 'c peer \<Rightarrow> 'c peer_event \<Rightarrow> 'c peer list" where
  "peer_step fmt pn p ev =
     (case ev of
        EvDial \<Rightarrow> if pe_phase p = PIdle then [Dial_start pn p] else []
      | EvAccept \<Rightarrow> if pe_phase p = PIdle then [Accept_start p] else []
      | EvCheck \<Rightarrow> if pe_phase p = GatherCheck
                   then [p\<lparr>pe_phase := (if pe_gathered p then Sending else GatherRegister)\<rparr>] else []
      | EvRegister \<Rightarrow> if pe_phase p = GatherRegister then [p\<lparr>pe_phase := GatherWait\<rparr>] else []
      | EvGathered \<Rightarrow> if pe_gathered p \<or> pe_phase p \<notin> {GatherCheck, GatherRegister, GatherWait} then []
                      else [p\<lparr>pe_gathered := True, pe_gatherDone := (pe_phase p = GatherWait)\<rparr>]
      | EvGatherDone \<Rightarrow> if pe_phase p = GatherWait \<and> pe_gatherDone p then [p\<lparr>pe_phase := Sending\<rparr>] else []
      | EvGatherTimeout \<Rightarrow> if pe_phase p = GatherWait
                           then [p_fail ''wait ICE gathering'' (ErrNew ''ice gathering timed out'') p] else []
      | EvCtx e \<Rightarrow> peer_ctx p e
      | EvSent res \<Rightarrow> if pe_phase p = Sending then [peer_sent pn p res] else []
      | EvMsg msg \<Rightarrow> peer_receive pn p msg
      | EvSessionClosed \<Rightarrow> peer_closed p
      | EvOpened c \<Rightarrow> [case pe_openCh p of None \<Rightarrow> p\<lparr>pe_openCh := Some c\<rparr> | Some _ \<Rightarrow> p]
      | EvTakeOpen \<Rightarrow> (case (pe_phase p, pe_openCh p) of
                         (WaitOpen, Some c) \<Rightarrow> [p\<lparr>pe_openCh := None, pe_phase := PReturned (Inr c)\<rparr>]
                       | _ \<Rightarrow> [])
      | EvOpenTimeout \<Rightarrow> if pe_phase p = WaitOpen
                         then [p\<lparr>pe_phase := PReturned (Inl (ErrNew (''peer: negotiation timed out after '' @
                                 fmt (pc_NegotiationTimeout (pe_cfg p)))))\<rparr>] else [])"

section \<open>The protocol of calls\<close>

text \<open>The SDP a side waits for, and the first one among the messages it has taken from the session.\<close>

definition sdp_in :: "int \<Rightarrow> signal_message \<Rightarrow> string option" where
  "sdp_in role m = (if role = RoleClient then sb_Answer (sg_Body m) else sb_Offer (sg_Body m))"

definition first_sdp :: "int \<Rightarrow> signal_message list \<Rightarrow> string option" where
  "first_sdp role ms = (case List.map_filter (sdp_in role) ms of [] \<Rightarrow> None | s # _ \<Rightarrow> Some s)"

text \<open>The calls of a successful \<open>Dial\<close> or \<open>Accept\<close>, given the SDP of the other side.\<close>

definition local_sdp :: "pion \<Rightarrow> int \<Rightarrow> string \<Rightarrow> string" where
  "local_sdp pn role remote =
     (case (if role = RoleClient then pn_CreateOffer pn else pn_CreateAnswer pn remote) of Inr s \<Rightarrow> s | Inl _ \<Rightarrow> [])"

definition script :: "pion \<Rightarrow> int \<Rightarrow> string \<Rightarrow> string \<Rightarrow> peer_call list" where
  "script pn role label remote =
     (let l = local_sdp pn role remote
      in if role = RoleClient
         then [CreateDataChannel label, CreateOffer, SetLocalDescription l, SendOffer (pn_LocalDescription pn l),
               SetRemoteDescription remote]
         else [SetRemoteDescription remote, CreateAnswer, SetLocalDescription l, SendAnswer (pn_LocalDescription pn l)])"

definition peer_script :: "pion \<Rightarrow> 'c peer \<Rightarrow> string \<Rightarrow> peer_call list" where
  "peer_script pn p = script pn (pe_role p) (pc_DataChannelLabel (pe_cfg p))"

text \<open>How far the script has got in each phase.\<close>

definition phase_ok :: "pion \<Rightarrow> 'c peer \<Rightarrow> string \<Rightarrow> bool" where
  "phase_ok pn p sdp \<longleftrightarrow>
     (case pe_phase p of
        PIdle \<Rightarrow> pe_calls p = [] \<and> pe_taken p = []
      | WaitOffer \<Rightarrow> pe_role p = RoleServer \<and> pe_calls p = [] \<and> first_sdp RoleServer (pe_taken p) = None
      | WaitAnswer \<Rightarrow> pe_role p = RoleClient \<and> pe_calls p = take 4 (peer_script pn p sdp) \<and> pe_gathered p
          \<and> first_sdp RoleClient (pe_taken p) = None
      | WaitOpen \<Rightarrow> pe_calls p = peer_script pn p sdp \<and> pe_gathered p \<and> first_sdp (pe_role p) (pe_taken p) = Some sdp
      | PReturned (Inr c) \<Rightarrow> pe_calls p = peer_script pn p sdp \<and> pe_gathered p \<and> first_sdp (pe_role p) (pe_taken p) = Some sdp
      | PReturned (Inl e) \<Rightarrow> prefix (pe_calls p) (peer_script pn p sdp) \<and> (3 < length (pe_calls p) \<longrightarrow> pe_gathered p)
          \<and> (SetRemoteDescription sdp \<in> set (pe_calls p) \<longrightarrow> first_sdp (pe_role p) (pe_taken p) = Some sdp)
      | ph \<Rightarrow> pe_role p \<in> {RoleClient, RoleServer} \<and> pe_calls p = take 3 (peer_script pn p sdp)
          \<and> pe_local p = local_sdp pn (pe_role p) sdp \<and> (ph = Sending \<longrightarrow> pe_gathered p)
          \<and> (if pe_role p = RoleClient then pe_taken p = [] else first_sdp RoleServer (pe_taken p) = Some sdp))"

definition peer_inv :: "pion \<Rightarrow> 'c peer \<Rightarrow> bool" where
  "peer_inv pn p \<longleftrightarrow> (pe_gatherDone p \<longrightarrow> pe_gathered p) \<and> (\<exists>sdp. phase_ok pn p sdp)"

lemma roles_differ [simp]: "RoleServer \<noteq> RoleClient" "RoleClient \<noteq> RoleServer"
  by (simp_all add: RoleClient_def RoleServer_def)

lemma first_sdp_snoc: "first_sdp role (ms @ [m]) =
    (case first_sdp role ms of Some s \<Rightarrow> Some s | None \<Rightarrow> sdp_in role m)"
  by (auto simp: first_sdp_def List.map_filter_def split: list.splits option.splits)

lemma first_sdp_Nil [simp]: "first_sdp role [] = None"
  by (simp add: first_sdp_def List.map_filter_def)

lemmas peer_defs = peer_inv_def phase_ok_def peer_script_def script_def local_sdp_def p_call_def p_fail_def Let_def

lemma Dial_start_inv: "peer_inv pn p \<Longrightarrow> pe_phase p = PIdle \<Longrightarrow> peer_inv pn (Dial_start pn p)"
  by (auto simp: peer_defs Dial_start_def split: option.splits sum.splits)

lemma Accept_start_inv: "peer_inv pn p \<Longrightarrow> pe_phase p = PIdle \<Longrightarrow> peer_inv pn (Accept_start p)"
  by (auto simp: peer_defs Accept_start_def)

lemma peer_receive_inv:
  assumes "peer_inv pn p" and "p' \<in> set (peer_receive pn p m)"
  shows "peer_inv pn p'"
  using assms
  by (cases "pe_phase p")
    (auto simp: peer_defs peer_receive_def Accept_offer_def Dial_answer_def first_sdp_snoc sdp_in_def
      split: option.splits sum.splits)

lemma peer_sent_phase: "phase_ok pn p sdp \<Longrightarrow> pe_phase p = Sending \<Longrightarrow> phase_ok pn (peer_sent pn p res) sdp"
  by (auto simp: phase_ok_def peer_script_def script_def p_call_def p_fail_def Let_def peer_sent_def
      split: option.splits)

lemma peer_sent_inv:
  assumes "peer_inv pn p" and "pe_phase p = Sending"
  shows "peer_inv pn (peer_sent pn p res)"
proof -
  obtain sdp where "phase_ok pn p sdp" using assms(1) by (auto simp: peer_inv_def)
  then have "phase_ok pn (peer_sent pn p res) sdp" using assms(2) by (rule peer_sent_phase)
  moreover have "pe_gatherDone (peer_sent pn p res) = pe_gatherDone p" "pe_gathered (peer_sent pn p res) = pe_gathered p"
    by (simp_all add: peer_sent_def p_call_def p_fail_def Let_def split: option.splits)
  ultimately show ?thesis using assms(1) by (auto simp: peer_inv_def)
qed

lemma peer_step_inv:
  assumes inv: "peer_inv pn p" and step: "p' \<in> set (peer_step fmt pn p ev)"
  shows "peer_inv pn p'"
proof (cases ev)
  case EvDial
  with inv step show ?thesis by (auto simp: peer_step_def Dial_start_inv split: if_splits)
next
  case EvAccept
  with inv step show ?thesis by (auto simp: peer_step_def Accept_start_inv split: if_splits)
next
  case (EvMsg m)
  with inv step show ?thesis by (auto simp: peer_step_def intro: peer_receive_inv)
next
  case (EvSent res)
  with inv step show ?thesis by (auto simp: peer_step_def peer_sent_inv split: if_splits)
next
  case (EvCtx e)
  with inv step show ?thesis
    by (cases "pe_phase p") (auto simp: peer_step_def peer_ctx_def peer_defs)
next
  case EvSessionClosed
  with inv step show ?thesis
    by (cases "pe_phase p") (auto simp: peer_step_def peer_closed_def peer_defs)
next
  case (EvOpened c)
  with inv step show ?thesis
    by (cases "pe_phase p") (auto simp: peer_step_def peer_inv_def phase_ok_def peer_script_def split: option.splits sum.splits)
qed (use inv step in \<open>auto simp: peer_step_def peer_defs split: if_splits option.splits peer_phase.splits\<close>)

lemma peer_step_frame:
  assumes "p' \<in> set (peer_step fmt pn p ev)"
  shows "pe_role p' = pe_role p" "pe_cfg p' = pe_cfg p"
    "pe_taken p' = pe_taken p @ (case ev of EvMsg m \<Rightarrow> [m] | _ \<Rightarrow> [])"
    "pe_openCh p' \<in> {None, pe_openCh p} \<union> (case ev of EvOpened c \<Rightarrow> {Some c} | _ \<Rightarrow> {})"
    "pe_phase p' = PReturned (Inr c) \<Longrightarrow> pe_phase p = PReturned (Inr c) \<or> pe_openCh p = Some c"
  using assms
  by (cases ev; cases "pe_phase p";
      force simp: peer_step_def Dial_start_def Accept_start_def peer_receive_def Accept_offer_def Dial_answer_def
        peer_sent_def peer_ctx_def peer_closed_def p_call_def p_fail_def Let_def
        split: option.splits sum.splits if_splits)+

lemma peer_run:
  assumes "runs (peer_step fmt pn) p evs q" and "peer_inv pn p" and "pe_taken p = []" and "pe_openCh p = None"
    and "\<forall>c. pe_phase p \<noteq> PReturned (Inr c)"
  shows "peer_inv pn q \<and> pe_role q = pe_role p \<and> pe_cfg q = pe_cfg p
    \<and> pe_taken q = concat (map (\<lambda>ev. case ev of EvMsg m \<Rightarrow> [m] | _ \<Rightarrow> []) evs)
    \<and> (\<forall>c. pe_openCh q = Some c \<or> pe_phase q = PReturned (Inr c) \<longrightarrow> EvOpened c \<in> set evs)"
  using assms
proof (induction rule: runs.induct)
  case (run_step s evs s1 s2 ev)
  note IH = run_step.IH [OF run_step.prems] and fr = peer_step_frame [OF run_step.hyps(2)]
  have "EvOpened c \<in> set (evs @ [ev])" if "pe_openCh s2 = Some c \<or> pe_phase s2 = PReturned (Inr c)" for c
    using that IH fr(4) fr(5) [of c] by (auto split: peer_event.splits)
  with IH fr(1-3) peer_step_inv [OF _ run_step.hyps(2)] show ?case by auto
qed auto

lemma NewPeer_inv:
  "NewPeer npc role cfg = Inr p \<Longrightarrow> peer_inv pn p \<and> pe_taken p = [] \<and> pe_openCh p = None \<and> pe_phase p = PIdle
     \<and> pe_role p = role \<and> pe_cfg p = applyDefaults cfg"
  by (auto simp: NewPeer_def peer_inv_def phase_ok_def Let_def split: option.splits)

text \<open>What the invariant says of the calls.\<close>

lemma peer_inv_calls:
  assumes "peer_inv pn p"
  shows "\<exists>sdp. prefix (pe_calls p) (peer_script pn p sdp)
    \<and> (SetRemoteDescription sdp \<in> set (pe_calls p) \<longrightarrow> first_sdp (pe_role p) (pe_taken p) = Some sdp)
    \<and> (3 < length (pe_calls p) \<longrightarrow> pe_gathered p)
    \<and> (\<forall>c. pe_phase p = PReturned (Inr c) \<longrightarrow> pe_calls p = peer_script pn p sdp \<and> first_sdp (pe_role p) (pe_taken p) = Some sdp)"
proof -
  obtain sdp where "phase_ok pn p sdp" using assms by (auto simp: peer_inv_def)
  then show ?thesis
    by (cases "pe_phase p")
      (auto simp: phase_ok_def peer_script_def script_def Let_def take_is_prefix split: sum.splits intro!: exI [of _ sdp])
qed

section \<open>Properties\<close>

text \<open>
  C18: What a negotiation does. In every run of a new peer, whatever the library, the session, the timers
  and the context do and in whichever order, the calls it has made are an initial part of one script: the
  Dialer creates the DataChannel, creates an offer, sets it as local description, sends the local
  description and sets the answer as remote description; the Accepter sets the offer as remote
  description, creates an answer, sets it and sends it. The remote description is the first SDP of the
  awaited kind among the messages received, a description is sent only after gathering has completed,
  and a channel is returned only when the whole script has been carried out and the library has opened
  that channel.
\<close>

theorem negotiation_protocol:
  assumes "NewPeer npc role cfg = Inr p" and "runs (peer_step fmt pn) p evs q"
  shows "\<exists>sdp. prefix (pe_calls q) (script pn role (pc_DataChannelLabel (applyDefaults cfg)) sdp)
    \<and> (SetRemoteDescription sdp \<in> set (pe_calls q) \<longrightarrow>
        first_sdp role (concat (map (\<lambda>ev. case ev of EvMsg m \<Rightarrow> [m] | _ \<Rightarrow> []) evs)) = Some sdp)
    \<and> (3 < length (pe_calls q) \<longrightarrow> pe_gathered q)
    \<and> (\<forall>c. pe_phase q = PReturned (Inr c) \<longrightarrow>
        pe_calls q = script pn role (pc_DataChannelLabel (applyDefaults cfg)) sdp \<and> EvOpened c \<in> set evs)"
proof -
  note new = NewPeer_inv [OF assms(1), of pn]
  have q: "peer_inv pn q" "pe_role q = role" "pe_cfg q = applyDefaults cfg"
    "pe_taken q = concat (map (\<lambda>ev. case ev of EvMsg m \<Rightarrow> [m] | _ \<Rightarrow> []) evs)"
    "\<forall>c. pe_phase q = PReturned (Inr c) \<longrightarrow> EvOpened c \<in> set evs"
    using peer_run [OF assms(2)] new by auto
  from peer_inv_calls [OF q(1)] q(2-5) show ?thesis unfolding peer_script_def by auto
qed

definition demo_pion :: pion where
  "demo_pion = \<lparr>pn_CreateDataChannel = (\<lambda>_. None), pn_CreateOffer = Inr ''o'', pn_CreateAnswer = (\<lambda>s. Inr (''a'' @ s)),
     pn_SetLocalDescription = (\<lambda>_. None), pn_SetRemoteDescription = (\<lambda>_. None), pn_LocalDescription = id\<rparr>"

definition demo_config :: peer_config where
  "demo_config = \<lparr>pc_ICEServers = None, pc_DataChannelLabel = [], pc_NegotiationTimeout = 0\<rparr>"

definition answer_msg :: signal_message where
  "answer_msg = \<lparr>sg_Service = ''v'', sg_Body = empty_body\<lparr>sb_Answer := Some ''x''\<rparr>\<rparr>"

definition dial_run :: "(nat peer_event \<times> nat) list" where
  "dial_run = map (\<lambda>e. (e, 0)) [EvDial, EvGathered, EvCheck, EvSent None, EvMsg answer_msg, EvOpened 5, EvTakeOpen]"

theorem negotiation_protocol_witness:
  "\<exists>p q sdp. NewPeer (\<lambda>_. None) RoleClient demo_config = Inr p
     \<and> runs (peer_step (\<lambda>_. []) demo_pion) p (map fst dial_run) q \<and> pe_phase q = PReturned (Inr (5 :: nat))
     \<and> pe_calls q = script demo_pion RoleClient (pc_DataChannelLabel (applyDefaults demo_config)) sdp
     \<and> EvOpened 5 \<in> set (map fst dial_run)"
proof -
  obtain p :: "nat peer" where p: "NewPeer (\<lambda>_. None) RoleClient demo_config = Inr p"
    by (simp add: NewPeer_def Let_def)
  obtain q where q: "play (peer_step (\<lambda>_. []) demo_pion) p dial_run = Some q" "pe_phase q = PReturned (Inr 5)"
    using p by (auto simp: NewPeer_def Let_def dial_run_def peer_step_def Dial_start_def demo_pion_def p_call_def
        peer_sent_def peer_receive_def Dial_answer_def answer_msg_def empty_body_def)
  from negotiation_protocol [OF p play_runs [OF q(1)]] q(2) p play_runs [OF q(1)] show ?thesis by blast
qed

lemma returned_final:
  "p' \<in> set (peer_step fmt pn p ev) \<Longrightarrow> pe_phase p = PReturned r \<Longrightarrow> pe_phase p' = PReturned r"
  by (cases ev) (auto simp: peer_step_def peer_receive_def peer_ctx_def peer_closed_def Let_def
      split: if_splits option.splits)

lemma gather_wait_step:
  assumes "p' \<in> set (peer_step fmt pn p ev)" and "pe_phase p = GatherWait" and "pe_gathered p" and "\<not> pe_gatherDone p"
  shows "pe_phase p' = GatherWait \<and> pe_gathered p' \<and> \<not> pe_gatherDone p'
    \<or> pe_phase p' = PReturned (Inl (Errorf ''peer: wait ICE gathering: '' (ErrNew ''ice gathering timed out'')))
    \<or> (\<exists>c. ev = EvCtx c \<and> pe_phase p' = PReturned (Inl (Errorf ''peer: wait ICE gathering: '' (CtxErr c))))"
  using assms by (cases ev) (auto simp: peer_step_def peer_receive_def peer_ctx_def peer_closed_def p_fail_def Let_def
      split: if_splits option.splits)

lemma gather_wait_run:
  assumes "runs (peer_step fmt pn) p evs q" and "pe_phase p = GatherWait" and "pe_gathered p" and "\<not> pe_gatherDone p"
  shows "pe_phase q = GatherWait \<and> pe_gathered q \<and> \<not> pe_gatherDone q
    \<or> (\<exists>e. pe_phase q = PReturned (Inl (Errorf ''peer: wait ICE gathering: '' e))
        \<and> (e = ErrNew ''ice gathering timed out'' \<or> (\<exists>c. e = CtxErr c \<and> EvCtx c \<in> set evs)))"
  using assms
proof (induction rule: runs.induct)
  case (run_step s evs s1 s2 ev)
  from run_step.IH [OF run_step.prems] show ?case
  proof (elim disjE exE conjE)
    assume "pe_phase s1 = GatherWait" "pe_gathered s1" "\<not> pe_gatherDone s1"
    from gather_wait_step [OF run_step.hyps(2) this] show ?thesis by auto
  qed (use returned_final [OF run_step.hyps(2)] in auto)
qed simp

text \<open>
  C24: The wait for ICE gathering can miss its event. When gathering completes after the state was checked
  and before the callback is registered, the wait ends only by the negotiation timeout or the context,
  whatever else happens; the negotiation then fails although the candidates are there.
\<close>

theorem gathering_wakeup_lost:
  assumes "pe_phase p = GatherRegister" and "\<not> pe_gathered p" and "\<not> pe_gatherDone p"
    and "runs (peer_step fmt pn) p (EvGathered # EvRegister # evs) q"
  shows "pe_phase q = GatherWait \<and> pe_gathered q
    \<or> (\<exists>e. pe_phase q = PReturned (Inl (Errorf ''peer: wait ICE gathering: '' e))
        \<and> (e = ErrNew ''ice gathering timed out'' \<or> (\<exists>c. e = CtxErr c \<and> EvCtx c \<in> set evs)))"
proof -
  let ?p2 = "p\<lparr>pe_gathered := True, pe_gatherDone := False, pe_phase := GatherWait\<rparr>"
  have "runs (peer_step fmt pn) ?p2 evs q"
    using assms(4) unfolding finals_runs [symmetric] by (simp add: peer_step_def assms(1-3))
  from gather_wait_run [OF this] show ?thesis by auto
qed

theorem gathering_wakeup_lost_witness:
  "\<exists>p q :: nat peer. runs (peer_step (\<lambda>_. []) demo_pion) p [EvGathered, EvRegister, EvGatherTimeout] q
     \<and> pe_phase q = PReturned (Inl (Errorf ''peer: wait ICE gathering: '' (ErrNew ''ice gathering timed out'')))"
proof -
  let ?p = "\<lparr>pe_role = RoleClient, pe_cfg = demo_config, pe_phase = GatherRegister, pe_local = ''o'', pe_gathered = False,
      pe_gatherDone = False, pe_openCh = None, pe_calls = [], pe_taken = []\<rparr> :: nat peer"
  obtain q where q: "play (peer_step (\<lambda>_. []) demo_pion) ?p [(EvGathered, 0), (EvRegister, 0), (EvGatherTimeout, 0)] = Some q"
    and ph: "pe_phase q \<noteq> GatherWait"
    by (simp add: peer_step_def p_fail_def)
  from play_runs [OF q] have r: "runs (peer_step (\<lambda>_. []) demo_pion) ?p (EvGathered # EvRegister # [EvGatherTimeout]) q" by simp
  from gathering_wakeup_lost [OF _ _ _ r] ph
  have "pe_phase q = PReturned (Inl (Errorf ''peer: wait ICE gathering: '' (ErrNew ''ice gathering timed out'')))" by simp
  with r show ?thesis by blast
qed

end
