(* ===== verification/Peer_Room.thy ===== *)
theory Peer_Room
  imports Peer
begin

text \<open>
  Several peers negotiating through the in-process signaling backend: the step machines of \<open>Peer\<close> over
  the sessions, pumps and registry of \<open>Signal_Local\<close>. Joining a room is \<open>Exchange\<close> followed by
  \<open>peer.New\<close>; nobody leaves. The library results \<open>pns i\<close> are those of peer \<open>i\<close>.
\<close>

section \<open>State and steps\<close>

record 'c room =
  rm_reg :: "signal_message registry"
  rm_sess :: "nat \<Rightarrow> signal_message session option"
  rm_peers :: "nat \<Rightarrow> 'c peer option"

definition empty_room :: "'c room" where
  "empty_room = \<lparr>rm_reg = NewLocal, rm_sess = (\<lambda>_. None), rm_peers = (\<lambda>_. None)\<rparr>"

datatype 'c room_event =
    RoomJoin nat string string int
  | RoomPeer nat "'c peer_event"
  | RoomSend nat
  | RoomOut nat
  | RoomIn nat
  | RoomRecv nat

definition stamp_service :: "string \<Rightarrow> signal_message \<Rightarrow> signal_message" where
  "stamp_service v m = m\<lparr>sg_Service := v\<rparr>"

text \<open>The events of a peer that do not come from its session.\<close>

fun own_event :: "'c peer_event \<Rightarrow> bool" where
  "own_event (EvMsg _) = False"
| "own_event (EvSent _) = False"
| "own_event EvSessionClosed = False"
| "own_event _ = True"

definition room_join :: "'c room \<Rightarrow> nat \<Rightarrow> string \<Rightarrow> string \<Rightarrow> int \<Rightarrow> 'c room list" where
  "room_join y i v pid role =
     (case Exchange id (rm_reg y) v pid of
        (l, Inl _) \<Rightarrow> []
      | (l, Inr s) \<Rightarrow>
          (case NewPeer (\<lambda>_. None) role \<lparr>pc_ICEServers = None, pc_DataChannelLabel = [], pc_NegotiationTimeout = 0\<rparr> of
             Inl _ \<Rightarrow> []
           | Inr p \<Rightarrow> [y\<lparr>rm_reg := l, rm_sess := (rm_sess y)(i := Some s), rm_peers := (rm_peers y)(i := Some p)\<rparr>]))"

definition put_peer :: "'c room \<Rightarrow> nat \<Rightarrow> 'c peer \<Rightarrow> 'c room" where
  "put_peer y i p = y\<lparr>rm_peers := (rm_peers y)(i := Some p)\<rparr>"

definition put_sess :: "'c room \<Rightarrow> nat \<Rightarrow> signal_message registry \<Rightarrow> signal_message session \<Rightarrow> 'c room" where
  "put_sess y i l s = y\<lparr>rm_reg := l, rm_sess := (rm_sess y)(i := Some s)\<rparr>"

definition room_send :: "(nat \<Rightarrow> pion) \<Rightarrow> 'c room \<Rightarrow> nat \<Rightarrow> 'c peer \<Rightarrow> signal_message session \<Rightarrow> 'c room list" where
  "room_send pns y i p s =
     (if pe_phase p \<noteq> Sending then []
      else concat (map (\<lambda>r. case r of
               Panics _ \<Rightarrow> []
             | Returns (s', res) \<Rightarrow> [put_peer (put_sess y i (rm_reg y) s') i (peer_sent (pns i) p res)])
           (Session_Send stamp_service s None (outgoing (pns i) p))))"

definition room_recv :: "(nat \<Rightarrow> pion) \<Rightarrow> 'c room \<Rightarrow> nat \<Rightarrow> 'c peer \<Rightarrow> signal_message session \<Rightarrow> 'c room list" where
  "room_recv pns y i p s =
     (case se_in s of
        [] \<Rightarrow> []
      | m # ms \<Rightarrow> map (put_peer (put_sess y i (rm_reg y) (s\<lparr>se_in := ms\<rparr>)) i) (peer_receive (pns i) p m))"

definition room_outcomes :: "(nat \<Rightarrow> pion) \<Rightarrow> 'c room \<Rightarrow> 'c room_event \<Rightarrow> 'c room list" where
  "room_outcomes pns y ev =
     (case ev of
        RoomJoin i v pid role \<Rightarrow> if rm_sess y i = None then room_join y i v pid role else []
      | RoomPeer i pev \<Rightarrow>
          (case rm_peers y i of None \<Rightarrow> []
           | Some p \<Rightarrow> if own_event pev then map (put_peer y i) (peer_step (\<lambda>_. []) (pns i) p pev) else [])
      | RoomSend i \<Rightarrow>
          (case (rm_peers y i, rm_sess y i) of (Some p, Some s) \<Rightarrow> room_send pns y i p s | _ \<Rightarrow> [])
      | RoomRecv i \<Rightarrow>
          (case (rm_peers y i, rm_sess y i) of (Some p, Some s) \<Rightarrow> room_recv pns y i p s | _ \<Rightarrow> [])
      | RoomOut i \<Rightarrow>
          (case rm_sess y i of None \<Rightarrow> []
           | Some s \<Rightarrow> concat (map (\<lambda>r. case r of Panics _ \<Rightarrow> [] | Returns (l, s') \<Rightarrow> [put_sess y i l s'])
               (out_pump (rm_reg y) s)))
      | RoomIn i \<Rightarrow>
          (case rm_sess y i of None \<Rightarrow> []
           | Some s \<Rightarrow> map (\<lambda>(l, s'). put_sess y i l s') (in_pump (rm_reg y) s)))"

section \<open>Where descriptions come from\<close>

text \<open>Peer \<open>j\<close> has sent the description in \<open>m\<close>.\<close>

definition sent_by :: "(nat \<Rightarrow> 'c peer option) \<Rightarrow> nat \<Rightarrow> signal_message \<Rightarrow> bool" where
  "sent_by ps j m \<longleftrightarrow> (\<exists>q. ps j = Some q
     \<and> (\<forall>sdp. sb_Offer (sg_Body m) = Some sdp \<longrightarrow> SendOffer sdp \<in> set (pe_calls q))
     \<and> (\<forall>sdp. sb_Answer (sg_Body m) = Some sdp \<longrightarrow> SendAnswer sdp \<in> set (pe_calls q)))"

definition foreign :: "(nat \<Rightarrow> 'c peer option) \<Rightarrow> nat \<Rightarrow> signal_message \<Rightarrow> bool" where
  "foreign ps i m \<longleftrightarrow> (\<exists>j. j \<noteq> i \<and> sent_by ps j m)"

definition sess_ok :: "(nat \<Rightarrow> 'c peer option) \<Rightarrow> signal_message registry \<Rightarrow> nat \<Rightarrow> signal_message session \<Rightarrow> bool" where
  "sess_ok ps l i s \<longleftrightarrow> se_peer s < rg_nextPeer l
     \<and> (\<forall>m \<in> set (se_out s). sent_by ps i m)
     \<and> (\<forall>m \<in> set (se_in s) \<union> set_option (se_held s). foreign ps i m)
     \<and> (\<forall>p. rg_peers l (se_peer s) = Some p \<longrightarrow> (\<forall>m \<in> set (po_inbox p). foreign ps i m))"

definition room_inv :: "(nat \<Rightarrow> pion) \<Rightarrow> 'c room \<Rightarrow> bool" where
  "room_inv pns y \<longleftrightarrow> reg_wf (rm_reg y)
     \<and> (\<forall>i p. rm_peers y i = Some p \<longrightarrow> peer_inv (pns i) p \<and> (\<forall>m \<in> set (pe_taken p). foreign (rm_peers y) i m))
     \<and> (\<forall>i s. rm_sess y i = Some s \<longrightarrow> sess_ok (rm_peers y) (rm_reg y) i s)
     \<and> (\<forall>i j s s'. rm_sess y i = Some s \<longrightarrow> rm_sess y j = Some s' \<longrightarrow> se_peer s = se_peer s' \<longrightarrow> i = j)
     \<and> (\<forall>i. rm_sess y i = None \<longrightarrow> rm_peers y i = None)"

subsection \<open>Calls only accumulate\<close>

definition extends :: "(nat \<Rightarrow> 'c peer option) \<Rightarrow> (nat \<Rightarrow> 'c peer option) \<Rightarrow> bool" where
  "extends ps ps' \<longleftrightarrow> (\<forall>i q. ps i = Some q \<longrightarrow> (\<exists>q'. ps' i = Some q' \<and> set (pe_calls q) \<subseteq> set (pe_calls q')))"

lemma extends_sent: "extends ps ps' \<Longrightarrow> sent_by ps j m \<Longrightarrow> sent_by ps' j m"
  unfolding extends_def sent_by_def by blast

lemma extends_foreign: "extends ps ps' \<Longrightarrow> foreign ps i m \<Longrightarrow> foreign ps' i m"
  unfolding foreign_def using extends_sent by blast

lemma extends_sess: "extends ps ps' \<Longrightarrow> sess_ok ps l i s \<Longrightarrow> sess_ok ps' l i s"
  unfolding sess_ok_def using extends_sent extends_foreign by blast

lemma extends_put: "ps i = Some q \<Longrightarrow> set (pe_calls q) \<subseteq> set (pe_calls q') \<Longrightarrow> extends ps (ps(i := Some q'))"
  by (auto simp: extends_def)

lemma extends_new: "ps i = None \<Longrightarrow> extends ps (ps(i := Some q))"
  by (auto simp: extends_def)

lemma peer_calls_grow:
  "p' \<in> set (peer_step fmt pn p ev) \<Longrightarrow> set (pe_calls p) \<subseteq> set (pe_calls p')"
  by (cases ev; cases "pe_phase p";
      force simp: peer_step_def Dial_start_def Accept_start_def peer_receive_def Accept_offer_def Dial_answer_def
        peer_sent_def peer_ctx_def peer_closed_def p_call_def p_fail_def Let_def
        split: option.splits sum.splits if_splits)

subsection \<open>Preservation\<close>

lemma put_peer_inv:
  assumes inv: "room_inv pns y" and "rm_peers y i = Some p" and "peer_inv (pns i) p'"
    and "set (pe_calls p) \<subseteq> set (pe_calls p')" and "\<forall>m \<in> set (pe_taken p'). foreign (rm_peers y) i m"
  shows "room_inv pns (put_peer y i p')"
proof -
  have ex: "extends (rm_peers y) ((rm_peers y)(i := Some p'))" using assms(2,4) by (rule extends_put)
  have "\<forall>m \<in> set (pe_taken q). foreign ((rm_peers y)(i := Some p')) j m" if "((rm_peers y)(i := Some p')) j = Some q" for j q
    using that inv assms(5) extends_foreign [OF ex] by (auto simp: room_inv_def split: if_splits)
  with inv assms(2,3) extends_sess [OF ex] show ?thesis by (auto simp: room_inv_def put_peer_def split: if_splits)
qed

lemma put_sess_inv:
  assumes "room_inv pns y" and "rm_sess y i = Some s" and "reg_wf l" and "se_peer s' = se_peer s"
    and "sess_ok (rm_peers y) l i s'"
    and "\<And>j t. j \<noteq> i \<Longrightarrow> rm_sess y j = Some t \<Longrightarrow> sess_ok (rm_peers y) l j t"
  shows "room_inv pns (put_sess y i l s')"
  using assms by (auto simp: room_inv_def put_sess_def split: if_splits)

lemma room_invD:
  assumes "room_inv pns y"
  shows "reg_wf (rm_reg y)" "rm_peers y i = Some p \<Longrightarrow> peer_inv (pns i) p"
    "rm_peers y i = Some p \<Longrightarrow> m \<in> set (pe_taken p) \<Longrightarrow> foreign (rm_peers y) i m"
    "rm_sess y i = Some s \<Longrightarrow> sess_ok (rm_peers y) (rm_reg y) i s"
    "rm_sess y i = Some s \<Longrightarrow> rm_sess y j = Some s' \<Longrightarrow> se_peer s = se_peer s' \<Longrightarrow> i = j"
  using assms unfolding room_inv_def by blast+

lemma put_sess_same:
  assumes "room_inv pns y" and "rm_sess y i = Some s" and "se_peer s' = se_peer s" and "sess_ok (rm_peers y) (rm_reg y) i s'"
  shows "room_inv pns (put_sess y i (rm_reg y) s')"
  using assms(3,4) room_invD(1,4) [OF assms(1)] by (intro put_sess_inv [OF assms(1,2)])

lemma room_peer_inv:
  assumes "room_inv pns y" and "rm_peers y i = Some p" and "p' \<in> set (peer_step fmt (pns i) p ev)" and "own_event ev"
  shows "room_inv pns (put_peer y i p')"
proof -
  have "pe_taken p' = pe_taken p" using peer_step_frame(3) [OF assms(3)] assms(4) by (cases ev) simp_all
  then show ?thesis
    using assms(1,2) peer_step_inv [OF room_invD(2) [OF assms(1,2)] assms(3)] peer_calls_grow [OF assms(3)]
      room_invD(3) [OF assms(1,2)] by (intro put_peer_inv) auto
qed

lemma room_recv_inv:
  assumes inv: "room_inv pns y" and p: "rm_peers y i = Some p" and s: "rm_sess y i = Some s"
    and "y' \<in> set (room_recv pns y i p s)"
  shows "room_inv pns y'"
proof -
  obtain m ms p' where m: "se_in s = m # ms" and p': "p' \<in> set (peer_receive (pns i) p m)"
    and y': "y' = put_peer (put_sess y i (rm_reg y) (s\<lparr>se_in := ms\<rparr>)) i p'"
    using assms(4) by (cases "se_in s") (auto simp: room_recv_def)
  have step: "p' \<in> set (peer_step (\<lambda>_. []) (pns i) p (EvMsg m))" using p' by (simp add: peer_step_def)
  have sok: "sess_ok (rm_peers y) (rm_reg y) i s" by (rule room_invD(4) [OF inv s])
  let ?y1 = "put_sess y i (rm_reg y) (s\<lparr>se_in := ms\<rparr>)"
  have "room_inv pns ?y1"
    using sok m by (intro put_sess_same [OF inv s]) (auto simp: sess_ok_def)
  moreover have "rm_peers ?y1 = rm_peers y" by (simp add: put_sess_def)
  moreover have "\<forall>x \<in> set (pe_taken p'). foreign (rm_peers y) i x"
    using peer_step_frame(3) [OF step] room_invD(3) [OF inv p] sok m by (auto simp: sess_ok_def)
  ultimately show ?thesis
    unfolding y' using p peer_step_inv [OF room_invD(2) [OF inv p] step] peer_calls_grow [OF step]
    by (intro put_peer_inv) auto
qed

lemma room_send_inv:
  assumes inv: "room_inv pns y" and p: "rm_peers y i = Some p" and s: "rm_sess y i = Some s"
    and "y' \<in> set (room_send pns y i p s)"
  shows "room_inv pns y'"
proof -
  obtain s' res where ph: "pe_phase p = Sending"
    and r: "Returns (s', res) \<in> set (Session_Send stamp_service s None (outgoing (pns i) p))"
    and y': "y' = put_peer (put_sess y i (rm_reg y) s') i (peer_sent (pns i) p res)"
    using assms(4) by (auto simp: room_send_def split: if_splits go.splits prod.splits)
  let ?p' = "peer_sent (pns i) p res"
  have step: "?p' \<in> set (peer_step (\<lambda>_. []) (pns i) p (EvSent res))" using ph by (simp add: peer_step_def)
  have tak: "pe_taken ?p' = pe_taken p" using peer_step_frame(3) [OF step] by simp
  have y1: "room_inv pns (put_peer y i ?p')"
    using inv p peer_step_inv [OF room_invD(2) [OF inv p] step] peer_calls_grow [OF step] room_invD(3) [OF inv p]
    by (intro put_peer_inv) (auto simp: tak)
  have "s' = s \<or> (res = None \<and> s' = s\<lparr>se_out := se_out s @ [stamp_service (se_service s) (outgoing (pns i) p)]\<rparr>)"
    using r by (auto simp: Session_Send_def split: if_splits)
  moreover have "sent_by (rm_peers (put_peer y i ?p')) i (stamp_service (se_service s) (outgoing (pns i) p))" if "res = None"
    using that by (auto simp: sent_by_def put_peer_def stamp_service_def outgoing_def peer_sent_def p_call_def
        empty_body_def Let_def)
  moreover have sok: "sess_ok (rm_peers (put_peer y i ?p')) (rm_reg y) j t" if "rm_sess y j = Some t" for j t
    using room_invD(4) [OF y1, of j t] that by (simp add: put_peer_def)
  ultimately have "sess_ok (rm_peers (put_peer y i ?p')) (rm_reg y) i s'" "se_peer s' = se_peer s"
    using sok [OF s] by (auto simp: sess_ok_def)
  then have "room_inv pns (put_sess (put_peer y i ?p') i (rm_reg (put_peer y i ?p')) s')"
    using s by (intro put_sess_same [OF y1]) (auto simp: put_peer_def)
  moreover have "put_sess (put_peer y i ?p') i (rm_reg (put_peer y i ?p')) s' = y'"
    unfolding y' by (cases y) (simp add: put_peer_def put_sess_def)
  ultimately show ?thesis by simp
qed

lemma in_pump_cases:
  assumes "(l', s') \<in> set (in_pump l s)"
  shows "l' = l \<and> se_peer s' = se_peer s \<and> se_out s' = se_out s
      \<and> set (se_in s') \<union> set_option (se_held s') \<subseteq> set (se_in s) \<union> set_option (se_held s)
    \<or> (\<exists>p m ms. rg_peers l (se_peer s) = Some p \<and> po_inbox p = m # ms \<and> s' = s\<lparr>se_held := Some m\<rparr>
        \<and> l' = l\<lparr>rg_peers := (rg_peers l)(se_peer s := Some (p\<lparr>po_inbox := ms\<rparr>))\<rparr>)"
proof (cases "se_held s")
  case None
  show ?thesis
  proof (cases "rg_peers l (se_peer s)")
    case (Some p)
    with None assms show ?thesis by (cases "po_inbox p") (auto simp: in_pump_def Let_def split: if_splits)
  qed (use None assms in \<open>auto simp: in_pump_def Let_def split: if_splits\<close>)
qed (use assms in \<open>auto simp: in_pump_def Let_def split: if_splits\<close>)

lemma room_in_inv:
  assumes inv: "room_inv pns y" and s: "rm_sess y i = Some s" and "(l, s') \<in> set (in_pump (rm_reg y) s)"
  shows "room_inv pns (put_sess y i l s')"
  using in_pump_cases [OF assms(3)]
proof (elim disjE conjE exE)
  assume "l = rm_reg y" "se_peer s' = se_peer s" "se_out s' = se_out s"
    "set (se_in s') \<union> set_option (se_held s') \<subseteq> set (se_in s) \<union> set_option (se_held s)"
  then show ?thesis
    using room_invD(4) [OF inv s] by (simp add: sess_ok_def put_sess_same [OF inv s] subset_eq)
next
  fix p m ms
  assume p: "rg_peers (rm_reg y) (se_peer s) = Some p" "po_inbox p = m # ms"
    and l: "l = (rm_reg y)\<lparr>rg_peers := (rg_peers (rm_reg y))(se_peer s := Some (p\<lparr>po_inbox := ms\<rparr>))\<rparr>"
    and s': "s' = s\<lparr>se_held := Some m\<rparr>"
  have "sess_ok (rm_peers y) l j t" if "j \<noteq> i" "rm_sess y j = Some t" for j t
    using room_invD(4) [OF inv that(2)] room_invD(5) [OF inv s that(2)] that(1) by (auto simp: sess_ok_def l)
  moreover have "sess_ok (rm_peers y) l i s'"
    using room_invD(4) [OF inv s] p by (auto simp: sess_ok_def l s')
  ultimately show ?thesis
    using pop_inbox_wf [OF room_invD(1) [OF inv] p(1)] by (intro put_sess_inv [OF inv s]) (auto simp: l s')
qed

lemma broadcast_sess_ok:
  assumes wf: "reg_wf l" and ok: "sess_ok ps l j t" and p: "rg_peers l po = Some p"
    and m: "sent_by ps i m" and eq: "se_peer t = po \<longleftrightarrow> j = i"
  shows "sess_ok ps (l\<lparr>rg_peers := got (po_id p) m (rg_svcs l svc) (rg_peers l)\<rparr>) j t"
proof -
  have "foreign ps j x" if q: "got (po_id p) m (rg_svcs l svc) (rg_peers l) (se_peer t) = Some q" and x: "x \<in> set (po_inbox q)" for q x
  proof (cases "\<exists>pid. (pid, se_peer t) \<in> set (rg_svcs l svc) \<and> pid \<noteq> po_id p")
    case True
    then obtain q0 where q0: "rg_peers l (se_peer t) = Some q0" "q = q0\<lparr>po_inbox := enq m (po_inbox q0)\<rparr>"
      using q by (auto simp: got_def)
    obtain pid where "(pid, se_peer t) \<in> set (rg_svcs l svc)" "pid \<noteq> po_id p" using True by blast
    then have "j \<noteq> i" using wf_member [OF wf, of svc pid "se_peer t"] p eq by (auto simp: member_of_def)
    then have "foreign ps j m" using m by (auto simp: foreign_def)
    with q0 x enq_set [of m "po_inbox q0"] ok show ?thesis by (auto simp: sess_ok_def)
  next
    case False
    then have "rg_peers l (se_peer t) = Some q" using q by (simp only: got_def False if_False)
    with ok x show ?thesis by (auto simp: sess_ok_def)
  qed
  with ok show ?thesis by (auto simp: sess_ok_def)
qed

lemma room_out_inv:
  assumes inv: "room_inv pns y" and s: "rm_sess y i = Some s" and "Returns (l, s') \<in> set (out_pump (rm_reg y) s)"
  shows "room_inv pns (put_sess y i l s')"
proof (cases "l = rm_reg y")
  case True
  have "sess_ok (rm_peers y) (rm_reg y) i s'" "se_peer s' = se_peer s"
    using assms(3) True room_invD(4) [OF inv s]
    by (auto simp: out_pump_def sess_ok_def split: if_splits go.splits dest: list.set_sel(2))
  with True show ?thesis by (simp add: put_sess_same [OF inv s])
next
  case False
  then obtain m ms where m: "se_out s = m # ms" and b: "local_broadcast (rm_reg y) (se_svc s) (se_peer s) m = Returns l"
    and s': "s' = s\<lparr>se_out := ms\<rparr>"
    using assms(3) by (auto simp: out_pump_def neq_Nil_conv split: if_splits go.splits)
  from b False obtain p where p: "rg_peers (rm_reg y) (se_peer s) = Some p"
    by (auto simp: local_broadcast_def split: option.splits)
  note wf = room_invD(1) [OF inv]
  have l: "l = (rm_reg y)\<lparr>rg_peers := got (po_id p) m (rg_svcs (rm_reg y) (se_svc s)) (rg_peers (rm_reg y))\<rparr>" "reg_wf l"
    using broadcast_wf [OF wf, of "se_svc s" "po_id p" m] b p by (auto simp: local_broadcast_def)
  have m': "sent_by (rm_peers y) i m" using room_invD(4) [OF inv s] m by (auto simp: sess_ok_def)
  have ok: "sess_ok (rm_peers y) l j t" if "rm_sess y j = Some t" for j t
    unfolding l(1) by (rule broadcast_sess_ok [OF wf room_invD(4) [OF inv that] p m'])
      (use room_invD(5) [OF inv s that] s that in auto)
  have "sess_ok (rm_peers y) l i s'" using ok [OF s] m by (auto simp: sess_ok_def s')
  then show ?thesis using l(2) ok by (intro put_sess_inv [OF inv s]) (auto simp: s')
qed

lemma Exchange_fresh:
  assumes "Exchange q l v pid = (l', Inr s)"
  shows "se_peer s = rg_nextPeer l" "rg_nextPeer l' = Suc (rg_nextPeer l)"
    "rg_peers l' = (rg_peers l)(rg_nextPeer l := Some \<lparr>po_id = pid, po_service = v, po_inbox = [], po_closed = False\<rparr>)"
    "se_out s = []" "se_in s = []" "se_held s = None"
  using assms
  by (auto simp: Exchange_def serviceForExchange_def service_for_def add_peer_def Let_def
      split: if_splits prod.splits option.splits)

lemma room_join_inv:
  fixes y :: "'c room"
  assumes inv: "room_inv pns y" and n: "rm_sess y i = None" and "y' \<in> set (room_join y i v pid role)"
  shows "room_inv pns y'"
proof -
  let ?cfg = "\<lparr>pc_ICEServers = None, pc_DataChannelLabel = [], pc_NegotiationTimeout = 0\<rparr>"
  obtain l r where e0: "Exchange id (rm_reg y) v pid = (l, r)" by (cases "Exchange id (rm_reg y) v pid")
  then obtain s where e: "Exchange id (rm_reg y) v pid = (l, Inr s)"
    using assms(3) by (cases r) (auto simp: room_join_def)
  obtain p :: "'c peer" where p: "NewPeer (\<lambda>_. None) role ?cfg = Inr p" by (simp add: NewPeer_def Let_def)
  have y': "y' = y\<lparr>rm_reg := l, rm_sess := (rm_sess y)(i := Some s), rm_peers := (rm_peers y)(i := Some p)\<rparr>"
    using assms(3) by (simp add: room_join_def e p)
  have np: "rm_peers y i = None" using inv n by (simp add: room_inv_def)
  note ex = extends_new [of "rm_peers y" i p, OF np]
  note fr = Exchange_fresh [OF e]
  have wf: "reg_wf l" using Exchange_ok [OF room_invD(1) [OF inv] e] by blast
  have lt: "se_peer t < rg_nextPeer (rm_reg y)" if "rm_sess y j = Some t" for j t
    using room_invD(4) [OF inv that] by (simp add: sess_ok_def)
  have old: "sess_ok ((rm_peers y)(i := Some p)) l j t" if "rm_sess y j = Some t" for j t
    using extends_sess [OF ex room_invD(4) [OF inv that]] lt [OF that] fr(2,3) by (auto simp: sess_ok_def)
  have new: "sess_ok ((rm_peers y)(i := Some p)) l i s"
    using fr by (auto simp: sess_ok_def)
  have taken: "\<forall>m \<in> set (pe_taken q). foreign ((rm_peers y)(i := Some p)) j m"
    if "((rm_peers y)(i := Some p)) j = Some q" for j q
    using that room_invD(3) [OF inv] extends_foreign [OF ex] NewPeer_inv [OF p, of "pns i"] by (auto split: if_splits)
  show ?thesis
    unfolding y' room_inv_def
    using wf taken old new NewPeer_inv [OF p, of "pns i"] room_invD(2,5) [OF inv] lt fr(1) inv
    by (auto simp: room_inv_def split: if_splits) (metis less_irrefl)+
qed

lemma room_step_inv:
  assumes inv: "room_inv pns y" and step: "y' \<in> set (room_outcomes pns y ev)"
  shows "room_inv pns y'"
proof (cases ev)
  case (RoomJoin i v pid role)
  with step inv show ?thesis by (auto simp: room_outcomes_def intro: room_join_inv split: if_splits)
next
  case (RoomPeer i pev)
  with step inv show ?thesis by (cases "rm_peers y i") (auto simp: room_outcomes_def intro: room_peer_inv split: if_splits)
next
  case (RoomSend i)
  with step inv show ?thesis by (cases "rm_peers y i"; cases "rm_sess y i") (auto simp: room_outcomes_def intro: room_send_inv)
next
  case (RoomRecv i)
  with step inv show ?thesis by (cases "rm_peers y i"; cases "rm_sess y i") (auto simp: room_outcomes_def intro: room_recv_inv)
next
  case (RoomOut i)
  with step inv show ?thesis
    by (cases "rm_sess y i") (auto simp: room_outcomes_def intro: room_out_inv split: go.splits prod.splits)
next
  case (RoomIn i)
  with step inv show ?thesis by (cases "rm_sess y i") (auto simp: room_outcomes_def intro: room_in_inv)
qed

lemma empty_room_inv: "room_inv pns empty_room"
  by (simp add: room_inv_def empty_room_def NewLocal_def empty_registry_wf)

lemma first_sdp_mem: "first_sdp role ms = Some sdp \<Longrightarrow> \<exists>m \<in> set ms. sdp_in role m = Some sdp"
  by (induction ms rule: rev_induct) (auto simp: first_sdp_snoc split: option.splits)

section \<open>Properties\<close>

text \<open>
  C19: Descriptions come from another peer. In a room of any number of peers over the in-process backend,
  whatever order the peers, their pumps and the library take, a remote description that a peer sets was
  sent by another peer of the room, as an answer if the peer dials and as an offer if it accepts. In a
  room of one Dialer and one Accepter, each therefore gets the other's description.
\<close>

theorem sdp_provenance:
  assumes "runs (room_outcomes pns) empty_room evs y"
    and "rm_peers y i = Some p" and "SetRemoteDescription sdp \<in> set (pe_calls p)"
  shows "\<exists>j q. j \<noteq> i \<and> rm_peers y j = Some q
    \<and> (if pe_role p = RoleClient then SendAnswer sdp \<in> set (pe_calls q) else SendOffer sdp \<in> set (pe_calls q))"
proof -
  have inv: "room_inv pns y"
    using assms(1) empty_room_inv by (rule runs_invariant) (rule room_step_inv)
  obtain s where s: "prefix (pe_calls p) (peer_script (pns i) p s)"
    "SetRemoteDescription s \<in> set (pe_calls p) \<longrightarrow> first_sdp (pe_role p) (pe_taken p) = Some s"
    using peer_inv_calls [OF room_invD(2) [OF inv assms(2)]] by blast
  have "s = sdp" using set_mono_prefix [OF s(1)] assms(3) by (auto simp: peer_script_def script_def Let_def split: if_splits)
  then obtain m where "m \<in> set (pe_taken p)" "sdp_in (pe_role p) m = Some sdp"
    using s(2) assms(3) first_sdp_mem by metis
  with room_invD(3) [OF inv assms(2)] show ?thesis
    by (fastforce simp: foreign_def sent_by_def sdp_in_def split: if_splits)
qed

text \<open>Two Dialers and an Accepter: both have sent their offers when the Accepter answers the first one.\<close>

definition room_pions :: "nat \<Rightarrow> pion" where
  "room_pions i = demo_pion\<lparr>pn_CreateOffer := Inr (''o'' @ replicate i CHR ''1'')\<rparr>"

definition crosstalk_run :: "(nat room_event \<times> nat) list" where
  "crosstalk_run = map (\<lambda>e. (e, 0))
     ([RoomJoin 0 ''v'' ''a'' RoleClient, RoomJoin 1 ''v'' ''b'' RoleClient, RoomJoin 2 ''v'' ''c'' RoleServer]
      @ map (RoomPeer 0) [EvDial, EvGathered, EvCheck] @ [RoomSend 0, RoomOut 0]
      @ map (RoomPeer 1) [EvDial, EvGathered, EvCheck] @ [RoomSend 1]
      @ [RoomPeer 2 EvAccept, RoomIn 2, RoomIn 2, RoomRecv 2]
      @ map (RoomPeer 2) [EvGathered, EvCheck] @ [RoomSend 2, RoomOut 2]
      @ [RoomIn 1, RoomIn 1, RoomIn 1, RoomIn 1, RoomRecv 1, RoomRecv 1])"

lemmas room_run_defs = room_outcomes_def room_join_def Exchange_def serviceForExchange_def service_for_def
  add_peer_def empty_room_def NewLocal_def empty_registry_def NewPeer_def Let_def applyDefaults_def peer_step_def
  Dial_start_def Accept_start_def p_call_def put_peer_def put_sess_def room_send_def Session_Send_def stamp_service_def
  outgoing_def peer_sent_def room_recv_def peer_receive_def Accept_offer_def Dial_answer_def out_pump_def in_pump_def
  chanCap_def local_broadcast_def broadcast_svc_def enq_def inboxCap_def room_pions_def demo_pion_def empty_body_def
  DataChannelLabel_def

lemma crosstalk_plays:
  "\<exists>y p q. play (room_outcomes room_pions) empty_room crosstalk_run = Some y
     \<and> rm_peers y 1 = Some p \<and> rm_peers y 2 = Some q \<and> pe_phase p = WaitOpen \<and> pe_role p = RoleClient
     \<and> pe_calls p = [CreateDataChannel ''peerrpc-v1'', CreateOffer, SetLocalDescription ''o1'', SendOffer ''o1'',
                     SetRemoteDescription ''ao'']
     \<and> pe_calls q = [SetRemoteDescription ''o'', CreateAnswer, SetLocalDescription ''ao'', SendAnswer ''ao'']"
  by (simp add: crosstalk_run_def room_run_defs) auto

theorem sdp_provenance_witness:
  "\<exists>y j q. runs (room_outcomes room_pions) empty_room (map fst crosstalk_run) y \<and> j \<noteq> 1
     \<and> rm_peers y j = Some q \<and> SendAnswer ''ao'' \<in> set (pe_calls q)"
proof -
  obtain y p where y: "play (room_outcomes room_pions) empty_room crosstalk_run = Some y"
    "rm_peers y 1 = Some p" "pe_role p = RoleClient" "SetRemoteDescription ''ao'' \<in> set (pe_calls p)"
    using crosstalk_plays by auto
  from sdp_provenance [OF play_runs [OF y(1)] y(2,4)] y(3) play_runs [OF y(1)] show ?thesis by auto
qed

text \<open>
  C23: Answers are not addressed. There is a run of two Dialers and one Accepter in the same room in which
  the Accepter has taken only the first Dialer's offer, and the second Dialer, whose own offer nobody has
  answered, takes the answer made for the first as its remote description and waits for its channel.
\<close>

theorem answer_taken_by_wrong_dialer:
  "\<exists>y p q. runs (room_outcomes room_pions) empty_room (map fst crosstalk_run) y
     \<and> rm_peers y 1 = Some p \<and> rm_peers y 2 = Some q
     \<and> SendOffer ''o1'' \<in> set (pe_calls p) \<and> SetRemoteDescription ''ao'' \<in> set (pe_calls p) \<and> pe_phase p = WaitOpen
     \<and> {s. SetRemoteDescription s \<in> set (pe_calls q)} = {''o''}
     \<and> pn_CreateAnswer (room_pions 2) ''o'' = Inr ''ao''"
proof -
  obtain y p q where y: "play (room_outcomes room_pions) empty_room crosstalk_run = Some y"
    "rm_peers y 1 = Some p" "rm_peers y 2 = Some q" "pe_phase p = WaitOpen"
    "pe_calls p = [CreateDataChannel ''peerrpc-v1'', CreateOffer, SetLocalDescription ''o1'', SendOffer ''o1'',
        SetRemoteDescription ''ao'']"
    "pe_calls q = [SetRemoteDescription ''o'', CreateAnswer, SetLocalDescription ''ao'', SendAnswer ''ao'']"
    using crosstalk_plays by blast
  moreover have "pn_CreateAnswer (room_pions 2) ''o'' = Inr ''ao''" by (simp add: room_pions_def demo_pion_def)
  ultimately show ?thesis using play_runs [OF y(1)] by (intro exI [of _ y] exI [of _ p] exI [of _ q]) auto
qed

end
