(* ===== verification/Relay.thy ===== *)
theory Relay
  imports Transport Crypto "HOL-Library.Sublist"
begin

text \<open>
  The application-layer relay (\<open>relay/server.go\<close>): the binding of two accepted peers to the slots of a
  session, and the forwarding of frames between their channels with the four goroutines of
  \<open>pairAndPump\<close>, as steps that interleave. The channels are those of \<open>Transport\<close>. A side is a truth
  value; the other side of \<open>x\<close> is \<open>\<not> x\<close>.
\<close>

section \<open>Configuration and slots\<close>

definition relay_buffer :: "int \<Rightarrow> int" where
  "relay_buffer forwardBufferSize = (if forwardBufferSize = 0 then 256 else forwardBufferSize)"

definition NewRelay :: "bool \<Rightarrow> int \<Rightarrow> go_error + int" where
  "NewRelay hasSignaling forwardBufferSize =
     (if \<not> hasSignaling then Inl (ErrNew ''relay: Config.Signaling is required'')
      else Inr (relay_buffer forwardBufferSize))"

text \<open>\<open>Server.session\<close> and \<open>bindSlot\<close> over the map of sessions; a session has two slots.\<close>

type_synonym 's relay_sessions = "string \<rightharpoonup> 's option \<times> 's option"

definition relay_session :: "'s relay_sessions \<Rightarrow> string \<Rightarrow> 's option \<times> 's option" where
  "relay_session m roomID = (case m roomID of None \<Rightarrow> (None, None) | Some s \<Rightarrow> s)"

definition bindSlot :: "'s relay_sessions \<Rightarrow> string \<Rightarrow> 's \<Rightarrow> 's relay_sessions" where
  "bindSlot m roomID slot =
     (case relay_session m roomID of
        (None, b) \<Rightarrow> m(roomID \<mapsto> (Some slot, b))
      | (Some a, None) \<Rightarrow> m(roomID \<mapsto> (Some a, Some slot))
      | (Some a, Some b) \<Rightarrow> m(roomID \<mapsto> (Some slot, Some b)))"

text \<open>
  \<open>acceptOne\<close> up to the binding: \<open>peer.New\<close>, then a race between the goroutine in \<open>p.Accept\<close> (whose result
  is there or not) and the context. \<open>Close\<close> and \<open>Stats\<close> act on the server's closed flag and on its sessions.
\<close>

definition acceptOne :: "go_error option \<Rightarrow> (go_error + 's) option \<Rightarrow> ctx_err option \<Rightarrow> (go_error + 's) list" where
  "acceptOne newErr res ctx =
     (case newErr of
        Some e \<Rightarrow> [Inl (Errorf ''peer.New: '' e)]
      | None \<Rightarrow> select
          [(res \<noteq> None, the res),
           (ctx \<noteq> None, Inl (CtxErr (the ctx)))])"

record 's relay_server =
  rs_sessions :: "'s relay_sessions"
  rs_closed :: bool

definition relay_Close :: "'s relay_server \<Rightarrow> 's relay_server" where
  "relay_Close s = (if rs_closed s then s else s\<lparr>rs_closed := True\<rparr>)"

definition relay_Stats :: "'s relay_server \<Rightarrow> nat" where
  "relay_Stats s = card (dom (rs_sessions s))"

text \<open>
  \<open>Serve\<close> up to the pumps: two accepts, each giving a slot or an error. It yields the pair of slots to pump.
\<close>

fun accept_loop :: "(nat \<Rightarrow> string) \<Rightarrow> 's relay_sessions \<Rightarrow> string \<Rightarrow> nat \<Rightarrow> (go_error + 's) list \<Rightarrow>
    's relay_sessions \<times> go_error option" where
  "accept_loop fmt m roomID i [] = (m, None)"
| "accept_loop fmt m roomID i (Inl e # rs) = (m, Some (Errorf (''relay: accept #'' @ fmt (i + 1) @ '': '') e))"
| "accept_loop fmt m roomID i (Inr s # rs) = accept_loop fmt (bindSlot m roomID s) roomID (i + 1) rs"

definition Serve_accept ::
  "(nat \<Rightarrow> string) \<Rightarrow> 's relay_sessions \<Rightarrow> string \<Rightarrow> go_error option \<Rightarrow> go_error + 's \<Rightarrow> go_error + 's \<Rightarrow>
   's relay_sessions \<times> (go_error + 's \<times> 's)" where
  "Serve_accept fmt m roomID exchange r1 r2 =
     (case exchange of
        Some e \<Rightarrow> (m, Inl (Errorf ''relay: signaling exchange: '' e))
      | None \<Rightarrow>
          (case accept_loop fmt m roomID 0 [r1, r2] of
             (m1, Some e) \<Rightarrow> (m1, Inl e)
           | (m1, None) \<Rightarrow>
               (case relay_session m1 roomID of
                  (Some a, Some b) \<Rightarrow> (m1, Inr (a, b))
                | _ \<Rightarrow> (m1, Inl (ErrNew ''relay: incomplete session after accept loop'')))))"

text \<open>
  One whole \<open>Serve\<close>: the outcome of the accepts, then, when the pumps have returned, the deletion of the
  session. The closed flag is not consulted.
\<close>

definition relay_Serve ::
  "(nat \<Rightarrow> string) \<Rightarrow> 's relay_server \<Rightarrow> string \<Rightarrow> go_error option \<Rightarrow> go_error + 's \<Rightarrow> go_error + 's \<Rightarrow>
   's relay_server \<times> (go_error + 's \<times> 's)" where
  "relay_Serve fmt s roomID exchange r1 r2 =
     (case Serve_accept fmt (rs_sessions s) roomID exchange r1 r2 of
        (m, Inl e) \<Rightarrow> (s\<lparr>rs_sessions := m\<rparr>, Inl e)
      | (m, Inr ab) \<Rightarrow> (s\<lparr>rs_sessions := m(roomID := None)\<rparr>, Inr ab))"

section \<open>Forwarding\<close>

datatype relay_reader = RdRecv | RdHold bytes | RdGone
datatype relay_writer = WrIdle | WrSend bytes | WrGone
datatype relay_main = MainSelect | MainWait | MainReturned

text \<open>
  \<open>rl_arrived x\<close> is every message that side \<open>x\<close>'s DataChannel has delivered. The reader of side \<open>x\<close>
  feeds the outbound queue of \<open>\<not> x\<close>; the writer of side \<open>x\<close> drains the outbound queue of \<open>x\<close>.
\<close>

record relay =
  rl_cap :: nat
  rl_ch :: "bool \<Rightarrow> channel"
  rl_arrived :: "bool \<Rightarrow> bytes list"
  rl_outbound :: "bool \<Rightarrow> bytes list"
  rl_done :: "bool \<Rightarrow> bool"
  rl_reader :: "bool \<Rightarrow> relay_reader"
  rl_writer :: "bool \<Rightarrow> relay_writer"
  rl_ctx :: "ctx_err option"
  rl_main :: relay_main

definition new_relay :: "nat \<Rightarrow> relay" where
  "new_relay bufcap = \<lparr>rl_cap = bufcap, rl_ch = (\<lambda>_. NewChannel), rl_arrived = (\<lambda>_. []), rl_outbound = (\<lambda>_. []),
     rl_done = (\<lambda>_. False), rl_reader = (\<lambda>_. RdRecv), rl_writer = (\<lambda>_. WrIdle), rl_ctx = None, rl_main = MainSelect\<rparr>"

datatype relay_event =
    RlArrive bool bytes
  | RlClose bool
  | RlDone bool
  | RlCtx ctx_err
  | RlReader bool
  | RlWriter bool
  | RlSend bool "(nat \<times> await_wake) list" "go_error option"
  | RlMain

text \<open>\<open>SendRaw\<close> after its first check.\<close>

definition send_resume :: "channel \<Rightarrow> (nat \<times> await_wake) list \<Rightarrow> go_error option \<Rightarrow> bytes \<Rightarrow> channel \<times> await_result" where
  "send_resume c obs dcSend payload =
     (case awaitBufferLow c obs of
        (c1, AwaitOk) \<Rightarrow>
          (case dcSend of
             Some err \<Rightarrow> (c1, AwaitErr (Errorf ''transport: send: '' err))
           | None \<Rightarrow> (c1\<lparr>ch_sent := ch_sent c1 @ [payload]\<rparr>, AwaitOk))
      | (c1, r) \<Rightarrow> (c1, r))"

lemma SendRaw_resume:
  "SendRaw c obs dcSend payload = (if ch_closed c then (c, AwaitErr (wrap_closeErr ''transport: channel closed: '' c))
     else send_resume c obs dcSend payload)"
  by (simp add: SendRaw_def send_resume_def)

definition put_ch :: "relay \<Rightarrow> bool \<Rightarrow> channel \<Rightarrow> relay" where
  "put_ch r x c = r\<lparr>rl_ch := (rl_ch r)(x := c)\<rparr>"

definition set_reader :: "relay \<Rightarrow> bool \<Rightarrow> relay_reader \<Rightarrow> relay" where
  "set_reader r x s = r\<lparr>rl_reader := (rl_reader r)(x := s)\<rparr>"

definition set_writer :: "relay \<Rightarrow> bool \<Rightarrow> relay_writer \<Rightarrow> relay" where
  "set_writer r x s = r\<lparr>rl_writer := (rl_writer r)(x := s)\<rparr>"

definition set_outbound :: "relay \<Rightarrow> bool \<Rightarrow> bytes list \<Rightarrow> relay" where
  "set_outbound r x q = r\<lparr>rl_outbound := (rl_outbound r)(x := q)\<rparr>"

text \<open>One step of the reader goroutine of side \<open>x\<close>.\<close>

definition reader_step :: "relay \<Rightarrow> bool \<Rightarrow> relay list" where
  "reader_step r x =
     (case rl_reader r x of
        RdGone \<Rightarrow> []
      | RdRecv \<Rightarrow> map (\<lambda>(c, res). case res of
            Inl _ \<Rightarrow> set_reader (put_ch r x c) x RdGone
          | Inr payload \<Rightarrow> set_reader (put_ch r x c) x (RdHold payload)) (Recv (rl_ch r x) (rl_ctx r))
      | RdHold payload \<Rightarrow> select
          [(length (rl_outbound r (\<not> x)) < rl_cap r,
              set_reader (set_outbound r (\<not> x) (rl_outbound r (\<not> x) @ [payload])) x RdRecv),
           (rl_done r (\<not> x), set_reader r x RdGone),
           (rl_ctx r \<noteq> None, set_reader r x RdGone)])"

text \<open>The writer loop of side \<open>x\<close>: its \<open>select\<close> with the first check of \<open>SendRaw\<close>, then the rest of \<open>SendRaw\<close>.\<close>

definition writer_step :: "relay \<Rightarrow> bool \<Rightarrow> relay list" where
  "writer_step r x =
     (if rl_writer r x \<noteq> WrIdle then []
      else select
        [(rl_outbound r x \<noteq> [],
            set_writer (set_outbound r x (tl (rl_outbound r x))) x
              (if ch_closed (rl_ch r x) then WrGone else WrSend (hd (rl_outbound r x)))),
         (rl_done r x, set_writer r x WrGone),
         (rl_ctx r \<noteq> None, set_writer r x WrGone)])"

definition send_step :: "relay \<Rightarrow> bool \<Rightarrow> (nat \<times> await_wake) list \<Rightarrow> go_error option \<Rightarrow> relay list" where
  "send_step r x obs dcSend =
     (case rl_writer r x of
        WrSend payload \<Rightarrow>
          (case send_resume (rl_ch r x) obs dcSend payload of
             (c, AwaitOk) \<Rightarrow> [set_writer (put_ch r x c) x WrIdle]
           | (c, AwaitErr _) \<Rightarrow> [set_writer (put_ch r x c) x WrGone]
           | (c, AwaitPending) \<Rightarrow> [])
      | _ \<Rightarrow> [])"

text \<open>\<open>pairAndPump\<close> itself: wait for a disconnect, then for both writer loops.\<close>

definition main_step :: "relay \<Rightarrow> relay list" where
  "main_step r =
     (case rl_main r of
        MainSelect \<Rightarrow> if rl_done r False \<or> rl_done r True \<or> rl_ctx r \<noteq> None then [r\<lparr>rl_main := MainWait\<rparr>] else []
      | MainWait \<Rightarrow> if rl_writer r False = WrGone \<and> rl_writer r True = WrGone then [r\<lparr>rl_main := MainReturned\<rparr>] else []
      | MainReturned \<Rightarrow> [])"

definition relay_outcomes :: "relay \<Rightarrow> relay_event \<Rightarrow> relay list" where
  "relay_outcomes r ev =
     (case ev of
        RlArrive x b \<Rightarrow> map (\<lambda>c. (put_ch r x c)\<lparr>rl_arrived := (rl_arrived r)(x := rl_arrived r x @
             drop (length (ch_recv (rl_ch r x))) (ch_recv c))\<rparr>) (OnMessage (rl_ch r x) b)
      | RlClose x \<Rightarrow> [put_ch r x (OnClose (rl_ch r x))]
      | RlDone x \<Rightarrow> if ch_closed (rl_ch r x) then [r\<lparr>rl_done := (rl_done r)(x := True)\<rparr>] else []
      | RlCtx e \<Rightarrow> [r\<lparr>rl_ctx := Some e\<rparr>]
      | RlReader x \<Rightarrow> reader_step r x
      | RlWriter x \<Rightarrow> writer_step r x
      | RlSend x obs dcSend \<Rightarrow> send_step r x obs dcSend
      | RlMain \<Rightarrow> main_step r)"

section \<open>Order of forwarded frames\<close>

fun held :: "relay_reader \<Rightarrow> bytes list" where
  "held (RdHold p) = [p]"
| "held _ = []"

fun sending :: "relay_writer \<Rightarrow> bytes list" where
  "sending (WrSend p) = [p]"
| "sending _ = []"

text \<open>
  One direction: what arrived, what was sent, the writer, the queue, the reader, what is still in the
  source channel. Nothing overtakes; what a goroutine drops when it ends is never followed by more.
\<close>

definition pipe :: "bytes list \<Rightarrow> bytes list \<Rightarrow> relay_writer \<Rightarrow> bytes list \<Rightarrow> relay_reader \<Rightarrow> bytes list \<Rightarrow> bool" where
  "pipe arrived sent w q rd pending \<longleftrightarrow>
     (\<exists>rest. map stripLengthPrefix arrived =
        sent @ (if w = WrGone then rest else sending w @ q @ held rd @ rest)
      \<and> (w \<noteq> WrGone \<and> rd \<noteq> RdGone \<longrightarrow> rest = map stripLengthPrefix pending))"

lemma pipe_recv: "pipe a s w q RdRecv (m # ms) \<Longrightarrow> pipe a s w q (RdHold (stripLengthPrefix m)) ms"
  by (cases "w = WrGone") (auto simp: pipe_def)

lemma pipe_reader_gone: "pipe a s w q rd m \<Longrightarrow> pipe a s w q RdGone m'"
  by (cases "w = WrGone") (auto simp: pipe_def)

lemma pipe_put: "pipe a s w q (RdHold p) m \<Longrightarrow> pipe a s w (q @ [p]) RdRecv m"
  by (auto simp: pipe_def)

lemma pipe_take: "pipe a s WrIdle (p # q) rd m \<Longrightarrow> pipe a s (WrSend p) q rd m"
  by (auto simp: pipe_def)

lemma pipe_sent: "pipe a s (WrSend p) q rd m \<Longrightarrow> pipe a (s @ [p]) WrIdle q rd m"
  by (auto simp: pipe_def)

lemma pipe_writer_gone: "pipe a s w q rd m \<Longrightarrow> pipe a s WrGone q' rd' m'"
  by (auto simp: pipe_def)

lemma pipe_arrive: "pipe a s w q rd m \<Longrightarrow> pipe (a @ b) s w q rd (m @ b)"
  by (auto simp: pipe_def)

lemma pipe_prefix: "pipe a s w q rd m \<Longrightarrow> prefix s (map stripLengthPrefix a)"
  by (auto simp: pipe_def)

text \<open>The direction from side \<open>x\<close> to side \<open>\<not> x\<close>.\<close>

definition fifo :: "relay \<Rightarrow> bool \<Rightarrow> bool" where
  "fifo r x \<longleftrightarrow> pipe (rl_arrived r x) (ch_sent (rl_ch r (\<not> x))) (rl_writer r (\<not> x)) (rl_outbound r (\<not> x))
     (rl_reader r x) (ch_recv (rl_ch r x))"

lemmas relay_upd = put_ch_def set_reader_def set_writer_def set_outbound_def

lemma awaitBufferLow_frame: "awaitBufferLow c obs = (c', res) \<Longrightarrow> ch_sent c' = ch_sent c \<and> ch_recv c' = ch_recv c \<and> ch_closed c' = ch_closed c"
  by (induction c obs rule: awaitBufferLow.induct) (auto simp: Let_def split: if_splits await_wake.splits)

lemma send_resume_frame:
  assumes "send_resume c obs dcSend payload = (c', res)"
  shows "ch_recv c' = ch_recv c" "ch_closed c' = ch_closed c"
    "ch_sent c' = ch_sent c @ (if res = AwaitOk then [payload] else [])"
proof -
  obtain c1 res1 where a: "awaitBufferLow c obs = (c1, res1)" by (cases "awaitBufferLow c obs")
  show "ch_recv c' = ch_recv c" "ch_closed c' = ch_closed c"
    "ch_sent c' = ch_sent c @ (if res = AwaitOk then [payload] else [])"
    using assms awaitBufferLow_frame [OF a] a by (auto simp: send_resume_def split: await_result.splits option.splits)
qed

lemma fifo_reader:
  assumes "fifo r y" and "r' \<in> set (reader_step r x)"
  shows "fifo r' y"
proof (cases "rl_reader r x")
  case RdRecv
  with assms show ?thesis
    by (cases "ch_recv (rl_ch r x)"; cases "x = y")
      (auto simp: fifo_def reader_step_def Recv_def relay_upd intro: pipe_recv pipe_reader_gone split: if_splits)
next
  case (RdHold p)
  with assms show ?thesis
    by (cases "x = y") (auto simp: fifo_def reader_step_def relay_upd intro: pipe_put pipe_reader_gone split: if_splits)
qed (use assms in \<open>simp add: reader_step_def\<close>)

lemma fifo_writer:
  assumes "fifo r y" and "r' \<in> set (writer_step r x)"
  shows "fifo r' y"
  using assms
  by (cases "rl_outbound r x"; cases "x = (\<not> y)")
    (auto simp: fifo_def writer_step_def relay_upd intro: pipe_take pipe_writer_gone split: if_splits)

lemma fifo_send:
  assumes "fifo r y" and "r' \<in> set (send_step r x obs dcSend)"
  shows "fifo r' y"
proof -
  obtain p where p: "rl_writer r x = WrSend p" using assms(2) by (cases "rl_writer r x") (auto simp: send_step_def)
  obtain c res where s: "send_resume (rl_ch r x) obs dcSend p = (c, res)" by (cases "send_resume (rl_ch r x) obs dcSend p")
  note f = send_resume_frame [OF s]
  show ?thesis
    using assms p s f by (cases res; cases "x = (\<not> y)")
      (auto simp: fifo_def send_step_def relay_upd intro: pipe_sent pipe_writer_gone)
qed

lemma fifo_step:
  assumes "fifo r y" and "r' \<in> set (relay_outcomes r ev)"
  shows "fifo r' y"
proof (cases ev)
  case (RlArrive x b)
  with assms show ?thesis
    by (cases "x = y") (auto simp: relay_outcomes_def OnMessage_def fifo_def relay_upd intro: pipe_arrive split: if_splits)
next
  case (RlClose x)
  have "ch_sent (OnClose c) = ch_sent c" "ch_recv (OnClose c) = ch_recv c" for c
    by (simp_all add: OnClose_def shutdown_def)
  with RlClose assms show ?thesis by (cases "x = y") (auto simp: relay_outcomes_def fifo_def put_ch_def)
next
  case (RlReader x)
  with assms show ?thesis by (simp add: relay_outcomes_def fifo_reader)
next
  case (RlWriter x)
  with assms show ?thesis by (simp add: relay_outcomes_def fifo_writer)
next
  case (RlSend x obs dcSend)
  with assms show ?thesis by (simp add: relay_outcomes_def fifo_send)
next
  case RlMain
  with assms show ?thesis
    by (auto simp: relay_outcomes_def main_step_def fifo_def split: relay_main.splits if_splits)
qed (use assms in \<open>auto simp: relay_outcomes_def fifo_def split: if_splits\<close>)

section \<open>Properties\<close>

text \<open>
  C23: The relay forwards in order. In every run of a relay session, whatever the order of its goroutines,
  of arrivals, closes and cancellations, the messages sent to each side are an initial part of the
  messages that arrived from the other, in order, without duplicates or gaps; each without the length
  prefix that \<open>Recv\<close> strips.
\<close>

theorem relay_forwards_in_order:
  assumes "runs relay_outcomes (new_relay bufcap) evs r"
  shows "prefix (ch_sent (rl_ch r (\<not> x))) (map stripLengthPrefix (rl_arrived r x))"
proof -
  have "fifo (new_relay bufcap) x" by (simp add: fifo_def pipe_def new_relay_def NewChannel_def)
  with assms have "fifo r x" by (rule runs_invariant) (rule fifo_step)
  then show ?thesis unfolding fifo_def by (rule pipe_prefix)
qed

definition relay_run :: "(relay_event \<times> nat) list" where
  "relay_run = map (\<lambda>e. (e, 0))
     [RlArrive False [0, 0, 0, 2, 8, 9], RlReader False, RlReader False, RlWriter True, RlSend True [(0, WakeLow)] None]"

theorem relay_forwards_in_order_witness:
  "\<exists>r. runs relay_outcomes (new_relay 1) (map fst relay_run) r \<and> ch_sent (rl_ch r True) = [[8, 9]]
     \<and> prefix (ch_sent (rl_ch r True)) (map stripLengthPrefix (rl_arrived r False))"
proof -
  obtain r where r: "play relay_outcomes (new_relay 1) relay_run = Some r" "ch_sent (rl_ch r True) = [[8, 9]]"
    by (simp add: relay_run_def relay_outcomes_def new_relay_def NewChannel_def OnMessage_def recvCap_def relay_upd
        reader_step_def Recv_def writer_step_def send_step_def send_resume_def BufferedAmountHigh_def stripLengthPrefix_def Let_def)
  from relay_forwards_in_order [OF play_runs [OF r(1)], of False] r play_runs [OF r(1)] show ?thesis by auto
qed

text \<open>While side \<open>x\<close> stays connected its writer loop does not end, so \<open>pairAndPump\<close> does not return.\<close>

definition connected :: "relay \<Rightarrow> bool \<Rightarrow> bool" where
  "connected r x \<longleftrightarrow> rl_ctx r = None \<and> \<not> ch_closed (rl_ch r x) \<and> \<not> rl_done r x \<and> rl_writer r x \<noteq> WrGone
     \<and> rl_main r \<noteq> MainReturned"

lemma awaitBufferLow_patient:
  "\<forall>(n, w) \<in> set obs. w = WakeLow \<Longrightarrow> awaitBufferLow c obs = (c', AwaitErr e) \<Longrightarrow> False"
  by (induction c obs rule: awaitBufferLow.induct) (auto simp: Let_def split: if_splits)

lemma connected_step:
  assumes c: "connected r x" and step: "r' \<in> set (relay_outcomes r ev)"
    and conds: "(\<forall>e. ev \<noteq> RlCtx e) \<and> ev \<noteq> RlClose x
      \<and> (\<forall>obs dcSend. ev = RlSend x obs dcSend \<longrightarrow> dcSend = None \<and> (\<forall>(n, w) \<in> set obs. w = WakeLow))"
  shows "connected r' x"
proof -
  note ev = conds [THEN conjunct1] conds [THEN conjunct2, THEN conjunct1]
  note send = conds [THEN conjunct2, THEN conjunct2]
  show ?thesis
  proof (cases ev)
    case (RlSend y obs dcSend)
    obtain p where p: "rl_writer r y = WrSend p"
      using step RlSend by (cases "rl_writer r y") (auto simp: relay_outcomes_def send_step_def)
    obtain c' res where s: "send_resume (rl_ch r y) obs dcSend p = (c', res)"
      by (cases "send_resume (rl_ch r y) obs dcSend p")
    have "res \<noteq> AwaitErr e" if "y = x" for e
      using s send RlSend that awaitBufferLow_patient [of obs "rl_ch r y"]
      by (fastforce simp: send_resume_def split: prod.splits await_result.splits)
    with c step RlSend p s send_resume_frame(2) [OF s] show ?thesis
      by (cases res; cases "y = x") (auto simp: connected_def relay_outcomes_def send_step_def relay_upd)
  next
    case (RlArrive y b)
    with c step show ?thesis by (auto simp: connected_def relay_outcomes_def OnMessage_def relay_upd split: if_splits)
  next
    case (RlReader y)
    with c step show ?thesis
      by (cases "rl_reader r y") (auto simp: connected_def relay_outcomes_def reader_step_def Recv_def relay_upd split: if_splits)
  next
    case RlMain
    with c step show ?thesis
      by (cases "rl_main r"; cases x) (auto simp: connected_def relay_outcomes_def main_step_def split: if_splits)
  next
    case (RlWriter y)
    have "rl_ctx r = None" using c by (simp add: connected_def)
    with RlWriter c step show ?thesis
      by (cases "y = x") (auto simp: connected_def relay_outcomes_def writer_step_def relay_upd split: if_splits)
  next
    case (RlDone y)
    with c step show ?thesis by (cases "y = x") (auto simp: connected_def relay_outcomes_def split: if_splits)
  next
    case (RlClose y)
    with c step ev(2) show ?thesis by (auto simp: connected_def relay_outcomes_def relay_upd)
  next
    case (RlCtx e)
    with ev(1) show ?thesis by blast
  qed
qed

text \<open>
  A relay session ends only when both peers are gone. As long as one side stays connected, sends to it
  succeed and the context is not cancelled, \<open>Serve\<close> does not return, whatever the other side does; in
  particular it does not return when only one of the two disconnects.
\<close>

theorem relay_waits_for_both_peers:
  assumes "runs relay_outcomes (new_relay bufcap) evs r"
    and "\<forall>ev \<in> set evs. (\<forall>e. ev \<noteq> RlCtx e) \<and> ev \<noteq> RlClose x
      \<and> (\<forall>obs dcSend. ev = RlSend x obs dcSend \<longrightarrow> dcSend = None \<and> (\<forall>(n, w) \<in> set obs. w = WakeLow))"
  shows "rl_main r \<noteq> MainReturned"
proof -
  have "connected (new_relay bufcap) x" by (simp add: connected_def new_relay_def NewChannel_def)
  with assms(1) have "connected r x"
    by (rule runs_invariant) (rule connected_step [OF _ _ bspec [OF assms(2)]])
  then show ?thesis by (simp add: connected_def)
qed

definition half_closed_run :: "(relay_event \<times> nat) list" where
  "half_closed_run = map (\<lambda>e. (e, 0)) [RlClose False, RlDone False, RlWriter False, RlMain, RlReader False]"

theorem relay_waits_for_both_peers_witness:
  "\<exists>r. runs relay_outcomes (new_relay 1) (map fst half_closed_run) r
     \<and> rl_done r False \<and> rl_writer r False = WrGone \<and> rl_main r = MainWait \<and> rl_main r \<noteq> MainReturned"
proof -
  obtain r where r: "play relay_outcomes (new_relay 1) half_closed_run = Some r"
    "rl_done r False" "rl_writer r False = WrGone" "rl_main r = MainWait"
    by (simp add: half_closed_run_def relay_outcomes_def new_relay_def NewChannel_def OnClose_def shutdown_def relay_upd
        writer_step_def main_step_def reader_step_def Recv_def)
  have "rl_main r \<noteq> MainReturned"
    by (rule relay_waits_for_both_peers [OF play_runs [OF r(1)], of True]) (simp add: half_closed_run_def)
  with r play_runs [OF r(1)] show ?thesis by blast
qed

text \<open>
  Which peers a relay session pairs. When the session of the room has its second slot free, as after no
  \<open>Serve\<close> or after one that failed at its second accept, a \<open>Serve\<close> whose two accepts succeed pairs exactly the
  two peers it accepted and leaves no session behind, also on a server that \<open>Close\<close> has been called on. After
  two such failures both slots are taken by dead peers, and the next \<open>Serve\<close> pairs the second peer
  it accepts with the stale one of the second slot; the first peer it accepted is dropped.
\<close>

theorem relay_pairs_accepted_peers:
  "(\<forall>s :: 's relay_server. snd (relay_session (rs_sessions s) roomID) = None \<longrightarrow>
     (\<exists>a b. relay_Serve fmt (relay_Close s) roomID None (Inr s1) (Inr s2)
          = ((relay_Close s)\<lparr>rs_sessions := (rs_sessions s)(roomID := None)\<rparr>, Inr (a, b)) \<and> {a, b} = {s1, s2}))
   \<and> (\<forall>(s :: 's relay_server) e e'. rs_sessions s roomID = None \<longrightarrow>
       snd (relay_Serve fmt (fst (relay_Serve fmt (fst (relay_Serve fmt s roomID None (Inr d1) (Inl e)))
          roomID None (Inr d2) (Inl e'))) roomID None (Inr s1) (Inr s2)) = Inr (s2, d2))"
proof (intro conjI allI impI)
  fix s :: "'s relay_server" assume free: "snd (relay_session (rs_sessions s) roomID) = None"
  obtain a b where "relay_session (rs_sessions s) roomID = (a, b)" by (cases "relay_session (rs_sessions s) roomID")
  with free show "\<exists>a b. relay_Serve fmt (relay_Close s) roomID None (Inr s1) (Inr s2)
      = ((relay_Close s)\<lparr>rs_sessions := (rs_sessions s)(roomID := None)\<rparr>, Inr (a, b)) \<and> {a, b} = {s1, s2}"
    by (cases a) (auto simp: relay_Serve_def relay_Close_def Serve_accept_def bindSlot_def relay_session_def)
qed (simp add: relay_Serve_def Serve_accept_def bindSlot_def relay_session_def)

theorem relay_pairs_accepted_peers_witness:
  "snd (relay_Serve (\<lambda>_. []) (\<lparr>rs_sessions = Map.empty, rs_closed = False\<rparr>) ''r'' None (Inr 1) (Inr (2::nat))) = Inr (1, 2)
   \<and> snd (relay_Serve (\<lambda>_. []) (fst (relay_Serve (\<lambda>_. []) (fst (relay_Serve (\<lambda>_. [])
       \<lparr>rs_sessions = Map.empty, rs_closed = False\<rparr> ''r'' None (Inr 1) (Inl EOF)))
          ''r'' None (Inr (2::nat)) (Inl EOF))) ''r'' None (Inr 3) (Inr 4)) = Inr (4, 2)"
  using relay_pairs_accepted_peers [of "''r''" "\<lambda>_. []" 3 4 1 "2::nat"]
  by (simp add: relay_Serve_def Serve_accept_def bindSlot_def relay_session_def)

text \<open>
  Encrypted frames do not survive the transport. \<open>Encrypt\<close> yields a length-prefixed frame for
  \<open>SendRaw\<close>, but the receiver's \<open>Recv\<close> strips that prefix, so that \<open>Decrypt\<close> takes the counter in front of
  the ciphertext for a length: the first three frames of a channel always fail with \<open>body too short\<close>,
  whatever the cipher and the key.
\<close>

theorem encrypted_frame_not_readable_after_Recv:
  assumes "w = snd (Encrypt seal ec p)" and "ec_counter ec \<in> {0, 1, 2}" and "ch_recv c = [w]" and "\<not> ch_closed c"
    and "3 \<le> length (seal (ec_key ec) (ec_prefix ec @ put_be32 (ucast (ec_counter ec + 1))) p)"
    and "length (seal (ec_key ec) (ec_prefix ec @ put_be32 (ucast (ec_counter ec + 1))) p) < 2 ^ 31"
  shows "\<exists>c' b. Recv c None = [(c', Inr b)]
    \<and> Decrypt gcm_open ec' b = Returns (Inl (ErrNew ''crypto: body too short for nonce tail''))"
proof -
  let ?t = "put_be32 (ucast (ec_counter ec + 1)) :: bytes"
  let ?ct = "seal (ec_key ec) (ec_prefix ec @ ?t) p"
  have "w = put_be32 (word_of_nat (length (?t @ ?ct))) @ (?t @ ?ct)"
    using assms(1) by (simp add: Encrypt_def Let_def)
  moreover have "?t \<noteq> []" by (simp add: put_be32_def)
  moreover have "length (?t @ ?ct) < 2 ^ 32" using assms(6) by simp
  ultimately have strip: "stripLengthPrefix w = ?t @ ?ct"
    using strip_put_be32 [of "?t @ ?ct" "[]"] by simp
  have "unat (ucast (ec_counter ec + 1) :: 32 word) \<in> {1, 2, 3}" using assms(2) by auto
  moreover have "unat (4 + ucast (ec_counter ec + 1) :: 32 word) = 4 + unat (ucast (ec_counter ec + 1) :: 32 word)"
    using assms(2) by auto
  ultimately have "Decrypt gcm_open ec' (?t @ ?ct) = Returns (Inl (ErrNew ''crypto: body too short for nonce tail''))"
    using assms(5) by (auto simp: Decrypt_def Let_def)
  with strip assms(3,4) show ?thesis by (simp add: Recv_def)
qed

theorem encrypted_frame_not_readable_after_Recv_witness:
  "\<exists>c' b. Recv (NewChannel\<lparr>ch_recv := [snd (Encrypt demo_seal \<lparr>ec_key = replicate 32 0, ec_prefix = replicate 8 0, ec_counter = 0\<rparr> [1])]\<rparr>) None
       = [(c', Inr b)]
     \<and> Decrypt demo_open \<lparr>ec_key = replicate 32 0, ec_prefix = replicate 8 0, ec_counter = 0\<rparr> b
       = Returns (Inl (ErrNew ''crypto: body too short for nonce tail''))"
  by (rule encrypted_frame_not_readable_after_Recv [OF refl]) (auto simp: NewChannel_def demo_seal_def)

end
