(* ===== verification/Handler_Runs.thy ===== *)
theory Handler_Runs
  imports Rpc_EndToEnd
begin

text \<open>
  What a handler answers. \<open>talk\<close> is the conversation a handler has with its stream when nothing disturbs
  it, as a relation between the handler, the requests it reads and the response frames it causes;
  \<open>talk_runs\<close> shows that the handler goroutine of a live connection has exactly this conversation.
\<close>

section \<open>Conversations\<close>

definition end_with :: "rpc_status \<Rightarrow> metadata \<Rightarrow> end_msg" where
  "end_with status md = \<lparr>e_close_send = False, e_status = Some status, e_trailer = Some md\<rparr>"

definition begin_once :: "int \<Rightarrow> bool \<Rightarrow> metadata \<Rightarrow> response_frame list" where
  "begin_once seq sent md = (if sent then [] else [begin_frame seq md])"

text \<open>
  \<open>hc\<close>: the caller has half-closed, so that a handler that has read all requests gets \<open>io.EOF\<close>. \<open>inc\<close> is the
  metadata of the call, \<open>md\<close> the metadata set so far, \<open>sent\<close> whether Begin has been sent.
\<close>

inductive talk ::
  "bool \<Rightarrow> int \<Rightarrow> metadata option \<Rightarrow> handler \<Rightarrow> metadata \<Rightarrow> bool \<Rightarrow> bytes list \<Rightarrow> response_frame list \<Rightarrow> bool"
  for hc seq inc where
  talk_return: "talk hc seq inc (HReturn s) md sent ins (begin_once seq sent md @ [end_frame seq (end_with (toProto s) md)])"
| talk_send: "talk hc seq inc (k None) md True ins fs \<Longrightarrow>
    talk hc seq inc (HSend b k) md sent ins (begin_once seq sent md @ map (data_frame seq) (payload_contents b) @ fs)"
| talk_recv: "talk hc seq inc (k (Inr b)) md sent ins fs \<Longrightarrow> talk hc seq inc (HRecv k) md sent (b # ins) fs"
| talk_eof: "talk hc seq inc (k (Inl EOF)) md sent [] fs \<Longrightarrow> hc \<Longrightarrow> talk hc seq inc (HRecv k) md sent [] fs"
| talk_set_header: "talk hc seq inc h (mergeMetadata md kv) sent ins fs \<Longrightarrow>
    talk hc seq inc (HSetHeader kv h) md sent ins fs"
| talk_set_trailer: "talk hc seq inc h (mergeMetadata md kv) sent ins fs \<Longrightarrow>
    talk hc seq inc (HSetTrailer kv h) md sent ins fs"
| talk_incoming: "talk hc seq inc (k (copyMetadata inc)) md sent ins fs \<Longrightarrow>
    talk hc seq inc (HIncomingHeader k) md sent ins fs"
| talk_header: "talk hc seq inc (k md) md sent ins fs \<Longrightarrow> talk hc seq inc (HHeader k) md sent ins fs"

inductive_simps talk_simps:
  "talk hc seq inc (HReturn s) md sent ins fs"
  "talk hc seq inc (HSend b k) md sent ins fs"
  "talk hc seq inc (HRecv k) md sent (b # ins) fs"
  "talk hc seq inc (HRecv k) md sent [] fs"
  "talk hc seq inc (HSetHeader kv h) md sent ins fs"
  "talk hc seq inc (HSetTrailer kv h) md sent ins fs"
  "talk hc seq inc (HIncomingHeader k) md sent ins fs"
  "talk hc seq inc (HHeader k) md sent ins fs"

section \<open>The handler goroutine\<close>

lemma handler_wait_step:
  assumes "mx_crashed m = None" and "lookupStream m (ss_seq st) = Some (sid, st)" and "ss_prog st = Some (HRecv k)"
    and "\<not> ss_waiting st" and "ss_inbound st = []"
  shows "mux_outcomes s m (EvHandler sid) = [set_stream m sid (st\<lparr>ss_waiting := True\<rparr>)]"
  using assms lookup_heap [OF assms(2)] by (simp add: mux_outcomes_def handler_step_def Recv_poll_def)

lemma handler_eof_step:
  assumes "mx_crashed m = None" and "lookupStream m (ss_seq st) = Some (sid, st)" and "ss_prog st = Some (HRecv k)"
    and "ss_waiting st" and "ss_inbound st = []" and "ss_halfClose st" and "ss_ctx st = None"
  shows "mux_outcomes s m (EvHandler sid) =
    [set_stream m sid (st\<lparr>ss_prog := Some (k (Inl EOF)), ss_waiting := False\<rparr>)]"
  using assms lookup_heap [OF assms(2)] by (simp add: mux_outcomes_def handler_step_def Recv_wait_def)

lemma handler_metadata_step:
  assumes "mx_crashed m = None" and "lookupStream m (ss_seq st) = Some (sid, st)"
  shows "ss_prog st = Some (HHeader hk) \<Longrightarrow>
      mux_outcomes s m (EvHandler sid) = [set_stream m sid (st\<lparr>ss_prog := Some (hk (ss_hdr st))\<rparr>)]"
    and "ss_prog st = Some (HIncomingHeader ik) \<Longrightarrow>
      mux_outcomes s m (EvHandler sid) = [set_stream m sid (st\<lparr>ss_prog := Some (ik (IncomingHeader st))\<rparr>)]"
    and "ss_prog st = Some (HSetTrailer kv h) \<Longrightarrow>
      mux_outcomes s m (EvHandler sid) =
        [set_stream m sid (st\<lparr>ss_hdr := mergeMetadata (ss_hdr st) kv, ss_prog := Some h\<rparr>)]"
    and "ss_prog st = Some (HSetHeader kv h) \<Longrightarrow> \<not> ss_hdrState st \<Longrightarrow>
      mux_outcomes s m (EvHandler sid) =
        [set_stream m sid (st\<lparr>ss_hdr := mergeMetadata (ss_hdr st) kv, ss_prog := Some h\<rparr>)]"
  using assms lookup_heap [OF assms(2)]
  by (simp_all add: mux_outcomes_def handler_step_def SetTrailer_def holder_SetTrailer_def SetHeader_def
      holder_SetHeader_def)

text \<open>Stream \<open>st\<close> of a live connection is at \<open>h\<close>, with nothing done to it that \<open>talk\<close> does not mention.\<close>

definition engaged ::
  "mux \<Rightarrow> nat \<Rightarrow> server_stream \<Rightarrow> bool \<Rightarrow> metadata option \<Rightarrow> handler \<Rightarrow> metadata \<Rightarrow> bool \<Rightarrow> bytes list \<Rightarrow> bool" where
  "engaged m sid st hc inc h md sent ins \<longleftrightarrow>
     lookupStream m (ss_seq st) = Some (sid, st) \<and> ss_prog st = Some h \<and> ss_hdr st = md \<and> ss_headerSent st = sent
     \<and> ss_inbound st = ins \<and> (hc \<longrightarrow> ss_halfClose st) \<and> ss_incoming st = inc \<and> ss_ctx st = None \<and> \<not> ss_hdrState st
     \<and> \<not> ss_waiting st \<and> live m \<and> mx_crashed m = None"

lemma accepted_engaged:
  assumes "accepted s desc inc tmo m sid st" and "live m" and "mx_crashed m = None" and "hc \<longrightarrow> ss_halfClose st"
  shows "engaged m sid st hc inc (handler_chain s desc) Map.empty False (ss_inbound st)"
  using assms by (simp add: accepted_def engaged_def)

lemma engaged_set:
  assumes "lookupStream m (ss_seq st) = Some (sid, st)" and "live m" and "mx_crashed m = None" and "ss_seq st' = ss_seq st"
    and "ss_prog st' = Some h" and "ss_ctx st' = None" and "\<not> ss_hdrState st'" and "\<not> ss_waiting st'"
  shows "engaged (set_stream m sid st') sid st' (ss_halfClose st') (ss_incoming st') h (ss_hdr st') (ss_headerSent st')
    (ss_inbound st')"
proof -
  have "lookupStream (set_stream m sid st') (ss_seq st') = Some (sid, st')"
    using assms(1,4) lookup_set_stream [of m "ss_seq st" sid st st'] by simp
  moreover have "live (set_stream m sid st') = live m" by (simp add: live_def set_stream_def)
  ultimately show ?thesis using assms by (simp add: engaged_def)
qed

lemma finals_step:
  assumes "mux_outcomes s m (EvHandler sid) = [m1]"
    and "\<exists>n m'. finals (mux_outcomes s) m1 (replicate n (EvHandler sid)) = [m'] \<and> P m'"
  shows "\<exists>n m'. finals (mux_outcomes s) m (replicate n (EvHandler sid)) = [m'] \<and> P m'"
proof -
  from assms(2) obtain n m' where "finals (mux_outcomes s) m1 (replicate n (EvHandler sid)) = [m']" "P m'" by blast
  with assms(1) show ?thesis by (intro exI [of _ "Suc n"] exI [of _ m']) simp
qed

lemma engagedD:
  assumes "engaged m sid st hc inc h md sent ins"
  shows "lookupStream m (ss_seq st) = Some (sid, st)" and "ss_prog st = Some h" and "ss_hdr st = md"
    and "ss_headerSent st = sent" and "ss_inbound st = ins" and "hc \<Longrightarrow> ss_halfClose st" and "ss_incoming st = inc"
    and "ss_ctx st = None" and "\<not> ss_hdrState st" and "\<not> ss_waiting st" and "live m" and "mx_crashed m = None"
  using assms by (simp_all add: engaged_def)

text \<open>
  The handler goroutine runs the conversation: from a stream engaged in \<open>h\<close>, steps of the handler alone lead,
  deterministically, to a state whose output has grown by the frames of the conversation.
\<close>

lemma talk_runs:
  assumes "talk hc seq inc h md sent ins fs" and "engaged m sid st hc inc h md sent ins" and "ss_seq st = seq"
  shows "\<exists>n m'. finals (mux_outcomes s) m (replicate n (EvHandler sid)) = [m'] \<and> mx_out m' = mx_out m @ fs"
  using assms
proof (induction arbitrary: m st rule: talk.induct)
  case (talk_return status md sent ins)
  note e = engagedD [OF talk_return(1)]
  from handler_return_step [OF e(12,11,1,2), of s] obtain m' where
    "mux_outcomes s m (EvHandler sid) = [m']" "mx_out m' = mx_out m @ begin_once seq sent md @
      [end_frame seq (end_with (toProto status) md)]"
    using e(3,4) talk_return(2) by (auto simp: lead_def begin_once_def end_with_def)
  then show ?case by (intro exI [of _ 1] exI [of _ m']) simp
next
  case (talk_send k md ins fs b sent)
  note e = engagedD [OF talk_send.prems(1)]
  let ?st1 = "st\<lparr>ss_headerSent := True, ss_prog := Some (k None), ss_waiting := False\<rparr>"
  let ?m1 = "(set_stream m sid ?st1)\<lparr>mx_out := mx_out m @ begin_once seq sent md @ map (data_frame seq) (payload_contents b)\<rparr>"
  have "mux_outcomes s m (EvHandler sid) = [?m1]"
    using handler_send_step [OF e(12,11,1,2), of s] e(3,4) talk_send.prems(2) by (simp add: lead_def begin_once_def)
  moreover have "engaged ?m1 sid ?st1 hc inc (k None) md True ins"
    using engaged_set [OF e(1,11,12), of ?st1 "k None"] e by (simp add: engaged_def)
  then have "\<exists>n m'. finals (mux_outcomes s) ?m1 (replicate n (EvHandler sid)) = [m'] \<and> mx_out m' = mx_out ?m1 @ fs"
    using talk_send.IH [of ?m1 ?st1] talk_send.prems(2) by simp
  ultimately show ?case by - (rule finals_step, simp_all)
next
  case (talk_recv k b md sent ins fs)
  note e = engagedD [OF talk_recv.prems(1)]
  let ?st1 = "st\<lparr>ss_inbound := ins, ss_prog := Some (k (Inr b))\<rparr>"
  have "mux_outcomes s m (EvHandler sid) = [set_stream m sid ?st1]"
    by (rule handler_recv_step [OF e(12,1,2,10,5)])
  moreover have "engaged (set_stream m sid ?st1) sid ?st1 hc inc (k (Inr b)) md sent ins"
    using engaged_set [OF e(1,11,12), of ?st1 "k (Inr b)"] e by (simp add: engaged_def)
  ultimately show ?case
    using talk_recv.IH [of "set_stream m sid ?st1" ?st1] talk_recv.prems(2) by - (rule finals_step, simp_all)
next
  case (talk_eof k md sent fs)
  note e = engagedD [OF talk_eof.prems(1)]
  let ?st1 = "st\<lparr>ss_waiting := True\<rparr>"
  let ?m1 = "set_stream m sid ?st1"
  let ?st2 = "?st1\<lparr>ss_prog := Some (k (Inl EOF)), ss_waiting := False\<rparr>"
  have s1: "mux_outcomes s m (EvHandler sid) = [?m1]" by (rule handler_wait_step [OF e(12,1,2,10,5)])
  have l: "lookupStream ?m1 (ss_seq ?st1) = Some (sid, ?st1)" "live ?m1" "mx_crashed ?m1 = None"
    using lookup_set_stream [OF e(1), of ?st1] e by (simp_all add: live_def set_stream_def)
  have s2: "mux_outcomes s ?m1 (EvHandler sid) = [set_stream ?m1 sid ?st2]"
    using handler_eof_step [OF l(3,1), of k s] e talk_eof.hyps(2) by simp
  have "engaged (set_stream ?m1 sid ?st2) sid ?st2 hc inc (k (Inl EOF)) md sent []"
    using engaged_set [OF l, of ?st2 "k (Inl EOF)"] e by (simp add: engaged_def)
  with talk_eof.IH [of "set_stream ?m1 sid ?st2" ?st2] talk_eof.prems(2) s2
  have "\<exists>n m'. finals (mux_outcomes s) ?m1 (replicate n (EvHandler sid)) = [m'] \<and> mx_out m' = mx_out m @ fs"
    by - (rule finals_step, simp_all)
  with s1 show ?case by (rule finals_step)
next
  case (talk_set_header h md kv sent ins fs)
  note e = engagedD [OF talk_set_header.prems(1)]
  let ?st1 = "st\<lparr>ss_hdr := mergeMetadata (ss_hdr st) kv, ss_prog := Some h\<rparr>"
  have "engaged (set_stream m sid ?st1) sid ?st1 hc inc h (mergeMetadata md kv) sent ins"
    using engaged_set [OF e(1,11,12), of ?st1 h] e by (simp add: engaged_def)
  then show ?case
    using handler_metadata_step(4) [OF e(12,1,2,9)] talk_set_header.IH [of "set_stream m sid ?st1" ?st1]
      talk_set_header.prems(2) by - (rule finals_step, simp_all)
next
  case (talk_set_trailer h md kv sent ins fs)
  note e = engagedD [OF talk_set_trailer.prems(1)]
  let ?st1 = "st\<lparr>ss_hdr := mergeMetadata (ss_hdr st) kv, ss_prog := Some h\<rparr>"
  have "engaged (set_stream m sid ?st1) sid ?st1 hc inc h (mergeMetadata md kv) sent ins"
    using engaged_set [OF e(1,11,12), of ?st1 h] e by (simp add: engaged_def)
  then show ?case
    using handler_metadata_step(3) [OF e(12,1,2)] talk_set_trailer.IH [of "set_stream m sid ?st1" ?st1]
      talk_set_trailer.prems(2) by - (rule finals_step, simp_all)
next
  case (talk_incoming k md sent ins fs)
  note e = engagedD [OF talk_incoming.prems(1)]
  let ?st1 = "st\<lparr>ss_prog := Some (k (copyMetadata inc))\<rparr>"
  have "engaged (set_stream m sid ?st1) sid ?st1 hc inc (k (copyMetadata inc)) md sent ins"
    using engaged_set [OF e(1,11,12), of ?st1 "k (copyMetadata inc)"] e by (simp add: engaged_def)
  then show ?case
    using handler_metadata_step(2) [OF e(12,1,2)] e(7) talk_incoming.IH [of "set_stream m sid ?st1" ?st1]
      talk_incoming.prems(2) by - (rule finals_step, simp_all add: IncomingHeader_def)
next
  case (talk_header k md sent ins fs)
  note e = engagedD [OF talk_header.prems(1)]
  let ?st1 = "st\<lparr>ss_prog := Some (k md)\<rparr>"
  have "engaged (set_stream m sid ?st1) sid ?st1 hc inc (k md) md sent ins"
    using engaged_set [OF e(1,11,12), of ?st1 "k md"] e by (simp add: engaged_def)
  then show ?case
    using handler_metadata_step(1) [OF e(12,1,2)] e(3) talk_header.IH [of "set_stream m sid ?st1" ?st1]
      talk_header.prems(2) by - (rule finals_step, simp_all)
qed

section \<open>Handlers that set no metadata\<close>

text \<open>The response of such a handler: messages \<open>outs\<close>, then status \<open>status\<close>.\<close>

definition message_frames :: "int \<Rightarrow> bytes list \<Rightarrow> response_frame list" where
  "message_frames seq outs = concat (map (\<lambda>b. map (data_frame seq) (payload_contents b)) outs)"

definition reply_frames :: "int \<Rightarrow> bytes list \<Rightarrow> rpc_status \<Rightarrow> response_frame list" where
  "reply_frames seq outs status =
     begin_frame seq Map.empty # message_frames seq outs @ [end_frame seq (end_with status Map.empty)]"

definition says :: "handler \<Rightarrow> bytes list \<Rightarrow> bytes list \<Rightarrow> rpc_status \<Rightarrow> bool" where
  "says h ins outs status \<longleftrightarrow> (\<forall>seq inc sent. talk True seq inc h Map.empty sent ins
     (begin_once seq sent Map.empty @ message_frames seq outs @ [end_frame seq (end_with status Map.empty)]))"

lemma says_return [intro!]: "says (HReturn (Some status)) ins [] status"
  by (simp add: says_def message_frames_def talk_simps)

lemma says_send [intro!]: "says (k None) ins outs status \<Longrightarrow> says (HSend b k) ins (b # outs) status"
  by (fastforce simp: says_def message_frames_def begin_once_def talk_simps dest: spec [where x = True])

lemma says_recv [intro!]: "says (k (Inr b)) ins outs status \<Longrightarrow> says (HRecv k) (b # ins) outs status"
  by (simp add: says_def talk_simps)

lemma says_eof [intro!]: "says (k (Inl EOF)) [] outs status \<Longrightarrow> says (HRecv k) [] outs status"
  by (simp add: says_def talk_simps)

text \<open>An accepted, half-closed call of such a handler is answered with the frames of its reply.\<close>

lemma says_answers:
  assumes "says (handler_chain s desc) (ss_inbound st) outs status" and "accepted s desc md tmo m sid st" and "live m"
    and "mx_crashed m = None" and "ss_halfClose st"
  shows "\<exists>n m'. finals (mux_outcomes s) m (replicate n (EvHandler sid)) = [m']
    \<and> mx_out m' = mx_out m @ reply_frames (ss_seq st) outs status"
proof -
  have "talk True (ss_seq st) md (handler_chain s desc) Map.empty False (ss_inbound st) (reply_frames (ss_seq st) outs status)"
    using assms(1) by (fastforce simp: says_def reply_frames_def begin_once_def dest: spec [where x = False])
  from talk_runs [OF this accepted_engaged [OF assms(2-4)] refl] assms(5) show ?thesis by simp
qed

lemma response_reply_frames: "response_frames seq b = reply_frames seq [b] status_OK"
  by (simp add: response_frames_def reply_frames_def message_frames_def ok_end_def end_with_def status_OK_def)

end
