(* ===== verification/Bridge.thy ===== *)
theory Bridge
  imports Handler_Runs Rpc_Server_Laws Auth Peer
begin

text \<open>
  The bridge to Connect services (\<open>grpcbridge/bridge.go\<close>, \<open>httpclient.go\<close>, \<open>spec.go\<close>): the in-process
  and the HTTP invokers, the handlers that forward an RPC to them, and their registration on a server.

  \<^item> The HTTP machinery is a parameter: \<open>newreq\<close> is the error of \<open>http.NewRequestWithContext\<close> on a URL,
    \<open>serve\<close> what a handler does to its response writer, \<open>send\<close> what an HTTP client gets for a request.
    \<open>json\<close> is \<open>json.Unmarshal\<close> into the struct of a code and a message, \<open>fmt\<close> the printing of an \<open>int\<close>.
  \<^item> Headers are maps over canonical keys. A Go map that is ranged over is given as the list of its entries
    in the order of the iteration.
\<close>

section \<open>Command line vocabulary\<close>

definition ParseServiceSpec :: "string \<Rightarrow> go_error + string \<times> string list" where
  "ParseServiceSpec s =
     (let (name, rest, found) = str_Cut s CHR '':''
      in if \<not> found \<or> name = [] \<or> rest = [] then Inl (ErrNew ''expected Name:Method1,Method2'')
         else Inr (name, map TrimSpace (str_Split rest CHR '','')))"

definition ParseRole :: "(string \<Rightarrow> string) \<Rightarrow> string \<Rightarrow> go_error + int" where
  "ParseRole quote s =
     (if s = ''offerer'' then Inr RoleClient
      else if s = ''answerer'' then Inr RoleServer
      else Inl (ErrNew (''unknown role '' @ quote s @ '' (want offerer|answerer)'')))"

section \<open>HTTP headers\<close>

text \<open>\<open>textproto.CanonicalMIMEHeaderKey\<close>: only a key of token characters is changed.\<close>

definition token_char :: "char \<Rightarrow> bool" where
  "token_char c \<longleftrightarrow> (CHR ''a'' \<le> c \<and> c \<le> CHR ''z'') \<or> (CHR ''A'' \<le> c \<and> c \<le> CHR ''Z'')
     \<or> (CHR ''0'' \<le> c \<and> c \<le> CHR ''9'') \<or> c \<in> set ''!#$%&*+-.^_`|~'' \<or> c = CHR 0x27"

fun canonical_loop :: "bool \<Rightarrow> string \<Rightarrow> string" where
  "canonical_loop start [] = []"
| "canonical_loop start (c # cs) = (if start then upper c else lower c) # canonical_loop (c = CHR ''-'') cs"

definition CanonicalHeaderKey :: "string \<Rightarrow> string" where
  "CanonicalHeaderKey k = (if list_all token_char k then canonical_loop True k else k)"

definition Header_Set :: "metadata \<Rightarrow> string \<Rightarrow> string \<Rightarrow> metadata" where
  "Header_Set h k v = h(CanonicalHeaderKey k \<mapsto> [v])"

definition Header_Add :: "metadata \<Rightarrow> string \<Rightarrow> string \<Rightarrow> metadata" where
  "Header_Add h k v = h(CanonicalHeaderKey k \<mapsto> md_values h (CanonicalHeaderKey k) @ [v])"

type_synonym kv_list = "(string \<times> string list) list"

text \<open>The request headers every invoker builds.\<close>

definition connect_headers :: "kv_list \<Rightarrow> metadata" where
  "connect_headers hdr =
     foldl (\<lambda>h (k, vs). foldl (\<lambda>h v. Header_Add h k v) h vs)
       (Header_Set (Header_Set Map.empty ''Content-Type'' ''application/proto'') ''Connect-Protocol-Version'' ''1'') hdr"

text \<open>Response headers as metadata, with lower-case keys (\<open>strings.ToLower\<close> on ASCII).\<close>

definition lower_metadata :: "kv_list \<Rightarrow> metadata" where
  "lower_metadata hdr =
     foldl (\<lambda>md (k, vs). let lk = map lower k in md(lk \<mapsto> md_values md lk @ vs)) Map.empty hdr"

section \<open>Upstream errors\<close>

definition connectCodeFromHTTP :: "int \<Rightarrow> int" where
  "connectCodeFromHTTP c =
     (if c = 400 then 3
      else if c = 401 then 16
      else if c = 403 then 7
      else if c = 404 then 5
      else if c = 409 then 10
      else if c = 429 then 8
      else if c = 500 \<or> c = 501 \<or> c = 503 then 13
      else 13)"

definition truncate :: "string \<Rightarrow> nat \<Rightarrow> string" where
  "truncate s n = (if length s \<le> n then s else take n s @ ''...'')"

type_synonym json_error = "bytes \<Rightarrow> (int \<times> string) option"

definition decodeConnectError :: "json_error \<Rightarrow> (int \<Rightarrow> string) \<Rightarrow> int \<Rightarrow> bytes \<Rightarrow> rpc_status" where
  "decodeConnectError json fmt httpCode body =
     (if length body = 0
      then \<lparr>st_code = connectCodeFromHTTP httpCode, st_message = ''http '' @ fmt httpCode\<rparr>
      else let fallback = \<lparr>st_code = connectCodeFromHTTP httpCode,
                 st_message = ''connect error (http '' @ fmt httpCode @ ''): '' @ truncate (map (\<lambda>b. char_of (unat b)) body) 256\<rparr>
           in case json body of
                Some (code, msg) \<Rightarrow> if code \<noteq> 0 then \<lparr>st_code = int32 code, st_message = msg\<rparr> else fallback
              | None \<Rightarrow> fallback)"

definition decodeConnectErrorFromStatus :: "json_error \<Rightarrow> (int \<Rightarrow> string) \<Rightarrow> int \<Rightarrow> bytes \<Rightarrow> rpc_status" where
  "decodeConnectErrorFromStatus json fmt httpCode body =
     (if length body = 0 then \<lparr>st_code = 13, st_message = ''http '' @ fmt httpCode\<rparr>
      else let fallback = \<lparr>st_code = 13, st_message = ''upstream error (http '' @ fmt httpCode @ '')''\<rparr>
           in case json body of
                Some (code, msg) \<Rightarrow> if code \<noteq> 0 then \<lparr>st_code = int32 code, st_message = msg\<rparr> else fallback
              | None \<Rightarrow> fallback)"

section \<open>The in-process invoker\<close>

record up_request =
  up_url :: string
  up_header :: metadata
  up_body :: bytes

record recorder =
  rec_header :: kv_list
  rec_body :: bytes
  rec_status :: int

text \<open>What a handler does to its response writer; the header map is changed directly.\<close>

datatype rec_op = RecHeader string "string list option" | RecWriteHeader int | RecWrite bytes

fun rec_apply :: "recorder \<Rightarrow> rec_op \<Rightarrow> recorder" where
  "rec_apply r (RecHeader k (Some vs)) = r\<lparr>rec_header := AList.update k vs (rec_header r)\<rparr>"
| "rec_apply r (RecHeader k None) = r\<lparr>rec_header := AList.delete k (rec_header r)\<rparr>"
| "rec_apply r (RecWriteHeader code) = r\<lparr>rec_status := code\<rparr>"
| "rec_apply r (RecWrite b) = r\<lparr>rec_body := rec_body r @ b\<rparr>"

type_synonym invoke_result = "bytes \<times> metadata \<times> rpc_status"
type_synonym invoker = "string \<Rightarrow> bytes \<Rightarrow> kv_list \<Rightarrow> invoke_result"

definition Handler_Invoke ::
  "(string \<Rightarrow> go_error option) \<Rightarrow> json_error \<Rightarrow> (int \<Rightarrow> string) \<Rightarrow> (up_request \<Rightarrow> rec_op list) \<Rightarrow> invoker" where
  "Handler_Invoke newreq json fmt serve procedure reqBody hdr =
     (case newreq procedure of
        Some e \<Rightarrow> ([], Map.empty, Err 13 (Some e))
      | None \<Rightarrow>
          (let rec = foldl rec_apply \<lparr>rec_header = [], rec_body = [], rec_status = 200\<rparr>
                 (serve \<lparr>up_url = procedure, up_header = connect_headers hdr, up_body = reqBody\<rparr>);
               respMD = lower_metadata (rec_header rec)
           in if rec_status rec \<noteq> 200 then ([], respMD, decodeConnectError json fmt (rec_status rec) (rec_body rec))
              else (rec_body rec, respMD, status_OK)))"

text \<open>A stream invoker yields the payloads it passed to \<open>send\<close> and its final status.\<close>

type_synonym stream_invoker = "string \<Rightarrow> bytes \<Rightarrow> kv_list \<Rightarrow> bytes list \<times> rpc_status"

definition Handler_InvokeStream :: "invoker \<Rightarrow> stream_invoker" where
  "Handler_InvokeStream invoke procedure reqBody hdr =
     (case invoke procedure reqBody hdr of
        (body, _, status) \<Rightarrow>
          if st_code status \<noteq> 0 then ([], status)
          else (if length body > 0 then [body] else [], status_OK))"

section \<open>The HTTP invoker\<close>

record up_response =
  up_status :: int
  up_resp_header :: kv_list
  up_resp_body :: reader

type_synonym http_send = "up_request \<Rightarrow> go_error + up_response"

definition ReadAll :: "reader \<Rightarrow> bytes \<times> go_error option" where
  "ReadAll r = (rd_bytes r, if rd_err r = EOF then None else Some (rd_err r))"

definition Client_Invoke :: "(string \<Rightarrow> go_error option) \<Rightarrow> (int \<Rightarrow> string) \<Rightarrow> string \<Rightarrow> http_send \<Rightarrow> invoker" where
  "Client_Invoke newreq fmt base send procedure reqBody hdr =
     (case newreq (base @ procedure) of
        Some e \<Rightarrow> ([], Map.empty, Err 13 (Some e))
      | None \<Rightarrow>
          (case send \<lparr>up_url = base @ procedure, up_header = connect_headers hdr, up_body = reqBody\<rparr> of
             Inl e \<Rightarrow> ([], Map.empty, Err 14 (Some e))
           | Inr resp \<Rightarrow>
               (let respMD = lower_metadata (up_resp_header resp)
                in case ReadAll (up_resp_body resp) of
                     (_, Some e) \<Rightarrow> ([], respMD, Err 13 (Some e))
                   | (body, None) \<Rightarrow>
                       if up_status resp \<noteq> 200
                       then ([], respMD, \<lparr>st_code = 13, st_message = ''upstream connect http '' @ fmt (up_status resp)\<rparr>)
                       else (body, respMD, status_OK))))"

unbundle bit_operations_syntax

definition msg_len :: "bytes \<Rightarrow> int" where
  "msg_len h = push_bit 24 (uint (h ! 1)) OR push_bit 16 (uint (h ! 2)) OR push_bit 8 (uint (h ! 3)) OR uint (h ! 4)"

text \<open>The loop over the response body; \<open>sent\<close> are the payloads passed to \<open>send\<close> so far.\<close>

partial_function (option) stream_loop ::
  "json_error \<Rightarrow> (int \<Rightarrow> string) \<Rightarrow> reader \<Rightarrow> bytes list \<Rightarrow> (bytes list \<times> rpc_status) option" where
  "stream_loop json fmt body sent =
     (case ReadFull body 5 of
        (body1, Inl err) \<Rightarrow>
          if err = EOF \<or> err = ErrUnexpectedEOF then Some (sent, status_OK) else Some (sent, Err 13 (Some err))
      | (body1, Inr header) \<Rightarrow>
          if msg_len header = 0 then stream_loop json fmt body1 sent
          else (case ReadFull body1 (nat (msg_len header)) of
                  (body2, Inl err) \<Rightarrow> Some (sent, Err 13 (Some err))
                | (body2, Inr msg) \<Rightarrow>
                    if header ! 0 = 1 then Some (sent, decodeConnectErrorFromStatus json fmt 200 msg)
                    else stream_loop json fmt body2 (sent @ [msg])))"

definition Client_InvokeStream ::
  "(string \<Rightarrow> go_error option) \<Rightarrow> json_error \<Rightarrow> (int \<Rightarrow> string) \<Rightarrow> string \<Rightarrow> http_send \<Rightarrow> string \<Rightarrow> bytes \<Rightarrow> kv_list
     \<Rightarrow> (bytes list \<times> rpc_status) option" where
  "Client_InvokeStream newreq json fmt base send procedure reqBody hdr =
     (case newreq (base @ procedure) of
        Some e \<Rightarrow> Some ([], Err 13 (Some e))
      | None \<Rightarrow>
          (case send \<lparr>up_url = base @ procedure, up_header = connect_headers hdr, up_body = reqBody\<rparr> of
             Inl e \<Rightarrow> Some ([], Err 14 (Some e))
           | Inr resp \<Rightarrow>
               if up_status resp \<noteq> 200
               then Some ([], decodeConnectErrorFromStatus json fmt (up_status resp) (fst (ReadAll (up_resp_body resp))))
               else stream_loop json fmt (up_resp_body resp) []))"

section \<open>Handlers and registration\<close>

text \<open>
  \<open>iter\<close> is the order in which Go iterates over a map. \<open>s.Method()\<close> is the path under which the method is
  registered, so it is an argument.
\<close>

definition bridge_UnaryHandler :: "(metadata \<Rightarrow> kv_list) \<Rightarrow> invoker \<Rightarrow> string \<Rightarrow> handler" where
  "bridge_UnaryHandler iter invoke path =
     HRecv (\<lambda>r. case r of
        Inl e \<Rightarrow> HReturn (Some (Err 13 (Some e)))
      | Inr req \<Rightarrow> HHeader (\<lambda>hdr.
          case invoke path req (iter hdr) of
            (respBody, respMD, status) \<Rightarrow>
              if st_code status \<noteq> 0 then HReturn (Some status)
              else let answer = HSend respBody (\<lambda>err. case err of
                         Some e \<Rightarrow> HReturn (Some (Err 13 (Some e)))
                       | None \<Rightarrow> HReturn (Some status_OK))
                   in if respMD \<noteq> Map.empty then HSetTrailer respMD answer else answer))"

fun send_all :: "bytes list \<Rightarrow> rpc_status \<Rightarrow> handler" where
  "send_all [] status = HReturn (Some status)"
| "send_all (resp # rest) status = HSend resp (\<lambda>_. send_all rest status)"

definition ServerStreamingHandler :: "(metadata \<Rightarrow> kv_list) \<Rightarrow> stream_invoker \<Rightarrow> string \<Rightarrow> handler" where
  "ServerStreamingHandler iter invoke path =
     HRecv (\<lambda>r. case r of
        Inl e \<Rightarrow> HReturn (Some (Err 13 (Some e)))
      | Inr req \<Rightarrow> HHeader (\<lambda>hdr.
          case invoke path req (iter hdr) of (resps, status) \<Rightarrow> send_all resps status))"

definition MountConnectService ::
  "(metadata \<Rightarrow> kv_list) \<Rightarrow> server \<Rightarrow> string \<Rightarrow> string list \<Rightarrow> invoker \<Rightarrow> server go" where
  "MountConnectService iter srv name methods invoke =
     RegisterService srv \<lparr>sd_ServiceName = name, sd_Methods = map (\<lambda>m.
        \<lparr>md_Method = m, md_Kind = MethodKindUnary,
         md_Handler = bridge_UnaryHandler iter invoke (method_path name m)\<rparr>) methods\<rparr>"

definition MountConnectServiceWithStreaming ::
  "(metadata \<Rightarrow> kv_list) \<Rightarrow> server \<Rightarrow> string \<Rightarrow> string list \<Rightarrow> string list \<Rightarrow> invoker \<Rightarrow> stream_invoker \<Rightarrow> server go"
where
  "MountConnectServiceWithStreaming iter srv name methods streamMethods invoke streamInvoke =
     RegisterService srv \<lparr>sd_ServiceName = name, sd_Methods = map (\<lambda>m.
        if m \<in> set streamMethods
        then \<lparr>md_Method = m, md_Kind = MethodKindServerStreaming,
              md_Handler = ServerStreamingHandler iter streamInvoke (method_path name m)\<rparr>
        else \<lparr>md_Method = m, md_Kind = MethodKindUnary,
              md_Handler = bridge_UnaryHandler iter invoke (method_path name m)\<rparr>) methods\<rparr>"

section \<open>The response stream\<close>

definition connect_frame :: "byte \<Rightarrow> bytes \<Rightarrow> bytes" where
  "connect_frame flag p = flag # put_be32 (word_of_nat (length p)) @ p"

lemma msg_len_be32: "length h = 4 \<Longrightarrow> msg_len (flag # h) = int (unat (get_be32 h))"
  by (simp add: msg_len_def get_be32_def uint_be32 uint_nat [symmetric])

lemma ReadFull_header:
  assumes "rd_bytes r = connect_frame flag p @ rest"
  shows "ReadFull r 5 = (r\<lparr>rd_bytes := p @ rest\<rparr>, Inr (flag # put_be32 (word_of_nat (length p))))"
  by (rule ReadFull_append) (simp_all add: assms connect_frame_def)

lemma stream_loop_frame:
  assumes "rd_bytes r = connect_frame flag p @ rest" and "length p < 2 ^ 32"
  shows "stream_loop json fmt r sent =
    (if p = [] then stream_loop json fmt (r\<lparr>rd_bytes := rest\<rparr>) sent
     else if flag = 1 then Some (sent, decodeConnectErrorFromStatus json fmt 200 p)
     else stream_loop json fmt (r\<lparr>rd_bytes := rest\<rparr>) (sent @ [p]))"
proof -
  have len: "msg_len (flag # put_be32 (word_of_nat (length p))) = int (length p)"
    using assms(2) by (simp add: msg_len_be32 unat_be32_nat)
  have "ReadFull (r\<lparr>rd_bytes := p @ rest\<rparr>) (length p) = (r\<lparr>rd_bytes := rest\<rparr>, Inr p)"
    using ReadFull_append [of "length p" p "r\<lparr>rd_bytes := p @ rest\<rparr>" rest] by simp
  with len show ?thesis
    by (subst stream_loop.simps) (simp add: ReadFull_header [OF assms(1)])
qed

lemma stream_loop_frames:
  assumes "\<forall>(flag, p) \<in> set fs. flag \<noteq> 1 \<and> length p < 2 ^ 32"
  shows "rd_bytes r = concat (map (\<lambda>(flag, p). connect_frame flag p) fs) @ rest \<Longrightarrow>
    stream_loop json fmt r sent =
      stream_loop json fmt (r\<lparr>rd_bytes := rest\<rparr>) (sent @ filter (\<lambda>p. p \<noteq> []) (map snd fs))"
  using assms
proof (induction fs arbitrary: r sent)
  case Nil
  then have "r\<lparr>rd_bytes := rest\<rparr> = r" by simp
  then show ?case by simp
next
  case (Cons x fs)
  obtain flag p where x: "x = (flag, p)" by (cases x)
  let ?rest = "concat (map (\<lambda>(flag, p). connect_frame flag p) fs) @ rest"
  have "rd_bytes r = connect_frame flag p @ ?rest" "length p < 2 ^ 32" "flag \<noteq> 1"
    using Cons.prems x by simp_all
  with stream_loop_frame [OF this(1,2), of json fmt sent] Cons.IH [of "r\<lparr>rd_bytes := ?rest\<rparr>"] Cons.prems(2)
  show ?case by (simp add: x)
qed

lemma stream_loop_end:
  "length (rd_bytes r) < 5 \<Longrightarrow> rd_err r = EOF \<Longrightarrow> stream_loop json fmt r sent = Some (sent, status_OK)"
  by (subst stream_loop.simps) (simp add: ReadFull_def)

lemma stream_loop_cut:
  assumes "rd_bytes r = flag # put_be32 (word_of_nat n) @ part" and "length part < n" and "n < 2 ^ 32"
    and "rd_err r = EOF"
  shows "stream_loop json fmt r sent = Some (sent, Err 13 (Some (if part = [] then EOF else ErrUnexpectedEOF)))"
proof -
  have "msg_len (flag # put_be32 (word_of_nat n)) = int n"
    using assms(3) by (simp add: msg_len_be32 unat_be32_nat)
  moreover have "ReadFull r 5 = (r\<lparr>rd_bytes := part\<rparr>, Inr (flag # put_be32 (word_of_nat n)))"
    by (rule ReadFull_append) (simp_all add: assms(1))
  moreover have "ReadFull (r\<lparr>rd_bytes := part\<rparr>) n =
      (r\<lparr>rd_bytes := []\<rparr>, Inl (if part = [] then EOF else ErrUnexpectedEOF))"
    using assms(2,4) by (simp add: ReadFull_def)
  ultimately show ?thesis using assms(2) by (subst stream_loop.simps) simp
qed

text \<open>
  C24: The stream of a Connect response. A body of data frames (flag other than 1) sends exactly their
  non-empty payloads in order. A body that ends there, also inside the next five header bytes, gives status
  OK; one that ends inside a payload gives status 13; an error frame (flag 1, not empty) ends the stream
  with the status it carries, whatever follows.
\<close>

theorem stream_roundtrip:
  assumes "\<forall>(flag, p) \<in> set fs. flag \<noteq> 1 \<and> length p < 2 ^ 32" and "rd_err r = EOF"
    and "rd_bytes r = concat (map (\<lambda>(flag, p). connect_frame flag p) fs) @ rest"
  shows "(length rest < 5 \<longrightarrow>
        stream_loop json fmt r [] = Some (filter (\<lambda>p. p \<noteq> []) (map snd fs), status_OK))
    \<and> (\<forall>flag n part. rest = flag # put_be32 (word_of_nat n) @ part \<and> length part < n \<and> n < 2 ^ 32 \<longrightarrow>
        stream_loop json fmt r [] = Some (filter (\<lambda>p. p \<noteq> []) (map snd fs),
          \<lparr>st_code = 13, st_message = (if part = [] then ''EOF'' else ''unexpected EOF'')\<rparr>))
    \<and> (\<forall>e junk. rest = connect_frame 1 e @ junk \<and> e \<noteq> [] \<and> length e < 2 ^ 32 \<longrightarrow>
        stream_loop json fmt r [] = Some (filter (\<lambda>p. p \<noteq> []) (map snd fs), decodeConnectErrorFromStatus json fmt 200 e))"
proof (intro conjI allI impI)
  let ?r = "r\<lparr>rd_bytes := rest\<rparr>"
  note front = stream_loop_frames [OF assms(1,3), of json fmt "[]"]
  show "stream_loop json fmt r [] = Some (filter (\<lambda>p. p \<noteq> []) (map snd fs), status_OK)" if "length rest < 5"
    using front stream_loop_end [of ?r json fmt] that assms(2) by simp
  show "stream_loop json fmt r [] = Some (filter (\<lambda>p. p \<noteq> []) (map snd fs),
          \<lparr>st_code = 13, st_message = (if part = [] then ''EOF'' else ''unexpected EOF'')\<rparr>)"
    if "rest = flag # put_be32 (word_of_nat n) @ part \<and> length part < n \<and> n < 2 ^ 32" for flag n part
    using front stream_loop_cut [of ?r flag n part json fmt] that assms(2) by (simp add: Err_def)
  show "stream_loop json fmt r [] = Some (filter (\<lambda>p. p \<noteq> []) (map snd fs), decodeConnectErrorFromStatus json fmt 200 e)"
    if "rest = connect_frame 1 e @ junk \<and> e \<noteq> [] \<and> length e < 2 ^ 32" for e junk
    using front stream_loop_frame [of ?r 1 e junk json fmt] that by simp
qed

theorem stream_roundtrip_witness:
  "stream_loop (\<lambda>_. None) (\<lambda>_. []) \<lparr>rd_bytes = [0, 0, 0, 0, 2, 8, 9, 0, 0, 0, 0, 0, 0, 0, 0], rd_err = EOF\<rparr> []
     = Some ([[8, 9]], status_OK)"
  using stream_roundtrip [of "[(0, [8, 9]), (0, [])]" "\<lparr>rd_bytes = [0, 0, 0, 0, 2, 8, 9, 0, 0, 0, 0, 0, 0, 0, 0], rd_err = EOF\<rparr>"
      "[0, 0, 0]" "\<lambda>_. None" "\<lambda>_. []"]
  by (simp add: connect_frame_def put_be32_def)

lemma stream_loop_accumulates:
  "\<exists>more status. stream_loop json fmt r sent = Some (sent @ more, status)
     \<and> sum_list (map (\<lambda>p. 5 + length p) more) \<le> length (rd_bytes r)"
proof (induction "length (rd_bytes r)" arbitrary: r sent rule: less_induct)
  case less
  obtain r1 x where r1: "ReadFull r 5 = (r1, x)" by (cases "ReadFull r 5")
  show ?case
  proof (cases x)
    case (Inl e)
    then show ?thesis using r1 by (subst stream_loop.simps) simp
  next
    case (Inr h)
    note rd = ReadFull_InrD [OF r1 [unfolded Inr]]
    obtain r2 y where r2: "ReadFull r1 (nat (msg_len h)) = (r2, y)" by (cases "ReadFull r1 (nat (msg_len h))")
    show ?thesis
    proof (cases "msg_len h = 0")
      case True
      have "length (rd_bytes r1) < length (rd_bytes r)" using rd by simp
      from less [OF this, of sent] True r1 Inr rd show ?thesis by (subst stream_loop.simps) force
    next
      case False
      show ?thesis
      proof (cases y)
        case (Inl e)
        then show ?thesis using r1 Inr False r2 by (subst stream_loop.simps) simp
      next
        case (Inr msg)
        note rd2 = ReadFull_InrD [OF r2 [unfolded Inr]]
        have l: "length (rd_bytes r) = 5 + length msg + length (rd_bytes r2)" using rd rd2 by simp
        then have "length (rd_bytes r2) < length (rd_bytes r)" by simp
        from less [OF this, of "sent @ [msg]"] obtain more status where
          "stream_loop json fmt r2 (sent @ [msg]) = Some (sent @ msg # more, status)"
          "sum_list (map (\<lambda>p. 5 + length p) more) \<le> length (rd_bytes r2)" by auto
        with l r1 \<open>x = Inr h\<close> False r2 Inr show ?thesis
          by (subst stream_loop.simps) (auto intro: exI [of _ "msg # more"])
      qed
    qed
  qed
qed

text \<open>
  C25: Reading a response stream always ends. Whatever the upstream's body holds and however its reading
  fails, the loop ends with a status, and the frames it passed on fit into the body, five bytes of header
  each included.
\<close>

theorem stream_loop_terminates:
  "\<exists>sent status. stream_loop json fmt r [] = Some (sent, status)
     \<and> sum_list (map (\<lambda>p. 5 + length p) sent) \<le> length (rd_bytes r)"
  using stream_loop_accumulates [of json fmt r "[]"] by simp

section \<open>Upstream failures\<close>

lemma int32_0: "int32 c = 0 \<longleftrightarrow> 2 ^ 32 dvd c"
  using signed_take_bit_eq_iff_take_bit_eq [of 31 c 0]
  by (simp add: int32_def take_bit_eq_mod dvd_eq_mod_eq_0)

text \<open>
  When an upstream failure is reported as success. Both decoders of an upstream error give code 0, which
  the handlers take for success, exactly for a body whose JSON code is a non-zero multiple of 2^32, which
  the conversion to \<open>int32\<close> cuts to 0; every other failed response keeps a non-zero code.
\<close>

theorem failure_reported_as_success_iff:
  "(st_code (decodeConnectError json fmt httpCode body) = 0 \<longleftrightarrow>
      body \<noteq> [] \<and> (\<exists>code msg. json body = Some (code, msg) \<and> code \<noteq> 0 \<and> 2 ^ 32 dvd code))
   \<and> (st_code (decodeConnectErrorFromStatus json fmt httpCode body) = 0 \<longleftrightarrow>
      body \<noteq> [] \<and> (\<exists>code msg. json body = Some (code, msg) \<and> code \<noteq> 0 \<and> 2 ^ 32 dvd code))"
proof -
  have "connectCodeFromHTTP httpCode \<noteq> 0" by (simp add: connectCodeFromHTTP_def)
  then show ?thesis
    by (auto simp: decodeConnectError_def decodeConnectErrorFromStatus_def Let_def int32_0 simp del: dvd_numeral_simp
        split: option.splits)
qed

section \<open>Forwarding\<close>

text \<open>
  C26: A bridged unary call. Once the call has been accepted, the Connect service is called with the request
  and no metadata at all, whatever metadata the caller sent. If it fails, the caller gets its status and no
  data; otherwise the response frames carry the response, and all of the Connect response metadata
  twice: in the header and, with status OK, in the trailer.
\<close>

theorem bridge_unary_forwarding:
  assumes "accepted s desc md tmo m sid st" and "live m" and "mx_crashed m = None"
    and "handler_chain s desc = bridge_UnaryHandler iter invoke path" and "iter Map.empty = []"
    and "ss_inbound st = req # reqs" and "invoke path req [] = (resp, respMD, status)"
  shows "\<exists>n m'. finals (mux_outcomes s) m (replicate n (EvHandler sid)) = [m'] \<and> mx_out m' = mx_out m @
    (if st_code status \<noteq> 0
     then [begin_frame (ss_seq st) Map.empty, end_frame (ss_seq st) (end_with status Map.empty)]
     else begin_frame (ss_seq st) respMD # map (data_frame (ss_seq st)) (payload_contents resp)
        @ [end_frame (ss_seq st) (end_with status_OK respMD)])"
proof -
  let ?fs = "if st_code status \<noteq> 0
     then [begin_frame (ss_seq st) Map.empty, end_frame (ss_seq st) (end_with status Map.empty)]
     else begin_frame (ss_seq st) respMD # map (data_frame (ss_seq st)) (payload_contents resp)
        @ [end_frame (ss_seq st) (end_with status_OK respMD)]"
  have "talk False (ss_seq st) md (handler_chain s desc) Map.empty False (ss_inbound st) ?fs"
    using assms(4-7) by (auto simp: bridge_UnaryHandler_def talk_simps begin_once_def Let_def)
  from talk_runs [OF this accepted_engaged [OF assms(1-3)] refl] show ?thesis by simp
qed

definition demo_invoke :: invoker where
  "demo_invoke path req hdr = (rev req, [''x'' \<mapsto> [''1'']], status_OK)"

theorem bridge_unary_forwarding_witness:
  "\<exists>m st n m'. accepted (one_method (bridge_UnaryHandler (\<lambda>_. []) demo_invoke ''/s/m''))
        \<lparr>md_Method = ''/s/m'', md_Kind = MethodKindUnary, md_Handler = bridge_UnaryHandler (\<lambda>_. []) demo_invoke ''/s/m''\<rparr>
        (Some [''auth'' \<mapsto> [''secret'']]) 0 m 0 st
     \<and> finals (mux_outcomes (one_method (bridge_UnaryHandler (\<lambda>_. []) demo_invoke ''/s/m''))) m (replicate n (EvHandler 0)) = [m']
     \<and> mx_out m' = mx_out m @ [begin_frame 1 [''x'' \<mapsto> [''1'']], data_frame 1 (Data_Message [8, 9]),
          end_frame 1 (end_with status_OK [''x'' \<mapsto> [''1''] ])]"
proof -
  let ?h = "bridge_UnaryHandler (\<lambda>_. []) demo_invoke ''/s/m''"
  let ?d = "\<lparr>md_Method = ''/s/m'', md_Kind = MethodKindUnary, md_Handler = ?h\<rparr>"
  have "\<exists>m1 st. handleFrame (newMultiplexer None) (one_method ?h)
        (mk_frame 1 (Frame_Call (Some (mk_call ''/s/m'' (Some [''auth'' \<mapsto> [''secret'']]) demo_ctx (Some [9, 8]))))) = [m1]
      \<and> accepted (one_method ?h) ?d (Some [''auth'' \<mapsto> [''secret'']]) (durationFromMs (deadline_ms demo_ctx)) m1
          (mx_next (newMultiplexer None)) st \<and> ss_seq st = 1 \<and> ss_inbound st = [[9, 8]]
      \<and> live m1 \<and> mx_crashed m1 = None"
    using call_accepted [of "newMultiplexer None" 1 "one_method ?h" "''/s/m''" ?d "Some [''auth'' \<mapsto> [''secret'']]" demo_ctx "Some [9, 8]"]
    by (simp add: live_def newMultiplexer_def int32_id findMethod_def one_method_def) blast
  then obtain m st where m: "accepted (one_method ?h) ?d (Some [''auth'' \<mapsto> [''secret'']]) 0 m 0 st" "ss_seq st = 1"
    "ss_inbound st = [[9, 8]]" "live m" "mx_crashed m = None"
    by (auto simp: newMultiplexer_def demo_ctx_def deadline_ms_def durationFromMs_def)
  have "\<exists>n m'. finals (mux_outcomes (one_method ?h)) m (replicate n (EvHandler 0)) = [m'] \<and> mx_out m' = mx_out m @
    (if st_code status_OK \<noteq> 0
     then [begin_frame (ss_seq st) Map.empty, end_frame (ss_seq st) (end_with status_OK Map.empty)]
     else begin_frame (ss_seq st) [''x'' \<mapsto> [''1'']] # map (data_frame (ss_seq st)) (payload_contents [8, 9])
        @ [end_frame (ss_seq st) (end_with status_OK [''x'' \<mapsto> [''1''] ])])"
    by (rule bridge_unary_forwarding [where iter = "\<lambda>_. []" and invoke = demo_invoke, OF m(1,4,5) handler_chain_one _ m(3)])
      (simp_all add: demo_invoke_def)
  with m(1,2) show ?thesis by (simp add: status_OK_def payload_contents_def MessageMax_def maxFrameBytes_def frameOverhead_def) blast
qed

text \<open>Mounting: each method is found under its path, with the handler of its kind.\<close>

lemma mount_finds:
  assumes "MountConnectServiceWithStreaming iter srv name methods streamMethods invoke streamInvoke = Returns srv'"
    and "m \<in> set methods"
  shows "findMethod srv' (method_path name m) = Some
    (if m \<in> set streamMethods
     then \<lparr>md_Method = method_path name m, md_Kind = MethodKindServerStreaming,
           md_Handler = ServerStreamingHandler iter streamInvoke (method_path name m)\<rparr>
     else \<lparr>md_Method = method_path name m, md_Kind = MethodKindUnary,
           md_Handler = bridge_UnaryHandler iter invoke (method_path name m)\<rparr>)"
  using register_finds [OF assms(1) [unfolded MountConnectServiceWithStreaming_def],
      of "if m \<in> set streamMethods
        then \<lparr>md_Method = m, md_Kind = MethodKindServerStreaming,
              md_Handler = ServerStreamingHandler iter streamInvoke (method_path name m)\<rparr>
        else \<lparr>md_Method = m, md_Kind = MethodKindUnary,
              md_Handler = bridge_UnaryHandler iter invoke (method_path name m)\<rparr>"] assms(2)
  by (auto split: if_splits)

lemma mount_unary: "MountConnectService iter srv name methods invoke =
    MountConnectServiceWithStreaming iter srv name methods [] invoke streamInvoke"
  by (simp add: MountConnectService_def MountConnectServiceWithStreaming_def)

end
