(* ===== verification/Facade.thy ===== *)
theory Facade
  imports Target Base58 Peer Signal_Local
begin

text \<open>
  The facade (package \<open>peerrpc\<close>): options and their configurations (\<open>options.go\<close>), the builders
  (\<open>dial_builder.go\<close>, \<open>listen_builder.go\<close>), the resolver registry and its two built-in resolvers
  (\<open>resolver.go\<close>, \<open>resolvers_builtin.go\<close>), the peer configuration (\<open>peer_config.go\<close>), and the dialing and
  accepting paths of \<open>dial.go\<close> and \<open>listen.go\<close> with what they open and release.

  \<^item> A signaling backend is a world of type \<open>'w\<close> and sessions of type \<open>'sess\<close>; \<open>signal.Local\<close> is the one of
    \<open>Signal_Local\<close>. \<open>uuid\<close> is the result of \<open>uuid.NewString\<close>, \<open>quote\<close> the printing of a string with \<open>%q\<close>.
  \<^item> The interceptors are values of the types \<open>'i\<close>, \<open>'u\<close>, \<open>'s\<close>.
\<close>

section \<open>Options\<close>

record 'i dial_config =
  dc_target :: target
  dc_ICEServers :: "ice_server list"
  dc_iceCascade :: bool
  dc_negotiationTO :: int
  dc_token :: string
  dc_identity :: bytes
  dc_interceptors :: "'i list"

record ('u, 's) listen_config =
  lc_target :: target
  lc_ICEServers :: "ice_server list"
  lc_iceCascade :: bool
  lc_negotiationTO :: int
  lc_token :: string
  lc_identity :: bytes
  lc_interceptors :: "'u list"
  lc_streamInterceptors :: "'s list"

datatype ('i, 'u, 's) facade_option =
    WithToken string
  | WithIdentity bytes
  | WithICEServers "ice_server list"
  | WithNegotiationTimeout int
  | WithUnaryClientInterceptors "'i list"
  | WithUnaryServerInterceptors "'u list"
  | WithStreamServerInterceptors "'s list"

fun applyDial :: "'i dial_config \<Rightarrow> ('i, 'u, 's) facade_option \<Rightarrow> 'i dial_config" where
  "applyDial d (WithToken token) = d\<lparr>dc_token := token\<rparr>"
| "applyDial d (WithIdentity priv) = d\<lparr>dc_identity := priv\<rparr>"
| "applyDial d (WithICEServers servers) = d\<lparr>dc_ICEServers := servers, dc_iceCascade := True\<rparr>"
| "applyDial d (WithNegotiationTimeout t) = d\<lparr>dc_negotiationTO := t\<rparr>"
| "applyDial d (WithUnaryClientInterceptors is) = d\<lparr>dc_interceptors := dc_interceptors d @ is\<rparr>"
| "applyDial d (WithUnaryServerInterceptors is) = d"
| "applyDial d (WithStreamServerInterceptors is) = d"

fun applyListen :: "('u, 's) listen_config \<Rightarrow> ('i, 'u, 's) facade_option \<Rightarrow> ('u, 's) listen_config" where
  "applyListen l (WithToken token) = l\<lparr>lc_token := token\<rparr>"
| "applyListen l (WithIdentity priv) = l\<lparr>lc_identity := priv\<rparr>"
| "applyListen l (WithICEServers servers) = l\<lparr>lc_ICEServers := servers, lc_iceCascade := True\<rparr>"
| "applyListen l (WithNegotiationTimeout t) = l\<lparr>lc_negotiationTO := t\<rparr>"
| "applyListen l (WithUnaryClientInterceptors is) = l"
| "applyListen l (WithUnaryServerInterceptors is) = l\<lparr>lc_interceptors := lc_interceptors l @ is\<rparr>"
| "applyListen l (WithStreamServerInterceptors is) = l\<lparr>lc_streamInterceptors := lc_streamInterceptors l @ is\<rparr>"

text \<open>An Ed25519 private key is 64 bytes; \<open>Public\<close> is the second half.\<close>

definition derivePeerID :: "bytes \<Rightarrow> string option" where
  "derivePeerID priv =
     (if length priv \<noteq> 64 then None else Some (''ed25519:'' @ encodeBase58 (drop 32 priv)))"

text \<open>The effective configurations: \<open>DialTarget\<close> and \<open>ListenTarget\<close> before they resolve.\<close>

definition dial_effective :: "target \<Rightarrow> ('i, 'u, 's) facade_option list \<Rightarrow> 'i dial_config" where
  "dial_effective target opts =
     (let cfg = foldl applyDial \<lparr>dc_target = target, dc_ICEServers = [], dc_iceCascade = False, dc_negotiationTO = 0,
            dc_token = [], dc_identity = [], dc_interceptors = []\<rparr> opts;
          t1 = (if dc_token cfg \<noteq> [] then (dc_target cfg)\<lparr>tg_Token := dc_token cfg\<rparr> else dc_target cfg);
          t2 = (if tg_PeerID t1 = []
                then case derivePeerID (dc_identity cfg) of Some pid \<Rightarrow> t1\<lparr>tg_PeerID := pid\<rparr> | None \<Rightarrow> t1
                else t1)
      in cfg\<lparr>dc_target := t2\<rparr>)"

definition listen_effective :: "target \<Rightarrow> ('i, 'u, 's) facade_option list \<Rightarrow> ('u, 's) listen_config" where
  "listen_effective target opts =
     (let cfg = foldl applyListen \<lparr>lc_target = target, lc_ICEServers = [], lc_iceCascade = False, lc_negotiationTO = 0,
            lc_token = [], lc_identity = [], lc_interceptors = [], lc_streamInterceptors = []\<rparr> opts;
          t1 = (if lc_token cfg \<noteq> [] then (lc_target cfg)\<lparr>tg_Token := lc_token cfg\<rparr> else lc_target cfg);
          t2 = (if tg_Role t1 = [] then t1\<lparr>tg_Role := RoleHintServer\<rparr> else t1);
          t3 = (if tg_PeerID t2 = []
                then case derivePeerID (lc_identity cfg) of Some pid \<Rightarrow> t2\<lparr>tg_PeerID := pid\<rparr> | None \<Rightarrow> t2
                else t2)
      in cfg\<lparr>lc_target := t3\<rparr>)"

section \<open>Builders\<close>

record 'o builder =
  bd_target :: target
  bd_opts :: "'o list"

datatype 'o builder_call =
    SignalAt string
  | Service string
  | Over string
  | As string
  | BuildPeerID string
  | BuildToken string
  | Apply "'o list"

definition empty_target :: target where
  "empty_target = \<lparr>tg_Scheme = [], tg_Signal = [], tg_Service = [], tg_Role = [], tg_PeerID = [], tg_Token = []\<rparr>"

definition BuilderContext :: "'o builder" where
  "BuilderContext = \<lparr>bd_target = empty_target, bd_opts = []\<rparr>"

fun builder_apply :: "'o builder \<Rightarrow> 'o builder_call \<Rightarrow> 'o builder" where
  "builder_apply b (SignalAt authority) = b\<lparr>bd_target := (bd_target b)\<lparr>tg_Signal := authority\<rparr>\<rparr>"
| "builder_apply b (Service name) = b\<lparr>bd_target := (bd_target b)\<lparr>tg_Service := name\<rparr>\<rparr>"
| "builder_apply b (Over s) = b\<lparr>bd_target := (bd_target b)\<lparr>tg_Scheme := s\<rparr>\<rparr>"
| "builder_apply b (As r) = b\<lparr>bd_target := (bd_target b)\<lparr>tg_Role := r\<rparr>\<rparr>"
| "builder_apply b (BuildPeerID pid) = b\<lparr>bd_target := (bd_target b)\<lparr>tg_PeerID := pid\<rparr>\<rparr>"
| "builder_apply b (BuildToken token) = b\<lparr>bd_target := (bd_target b)\<lparr>tg_Token := token\<rparr>\<rparr>"
| "builder_apply b (Apply opts) = b\<lparr>bd_opts := bd_opts b @ opts\<rparr>"

text \<open>The target and options \<open>Connect\<close> and \<open>Listen\<close> pass on.\<close>

definition Connect_args :: "'o builder \<Rightarrow> target \<times> 'o list" where
  "Connect_args b =
     (if tg_Scheme (bd_target b) = [] then (bd_target b)\<lparr>tg_Scheme := SchemeWS\<rparr> else bd_target b, bd_opts b)"

section \<open>Resolvers\<close>

record 'sess resolution =
  rn_Session :: 'sess
  rn_PeerRole :: int
  rn_PeerID :: string

type_synonym ('w, 'sess) resolver = "string \<Rightarrow> target \<Rightarrow> 'w \<Rightarrow> 'w \<times> (go_error + 'sess resolution)"
type_synonym ('w, 'sess) registry_map = "string \<rightharpoonup> go_error + ('w, 'sess) resolver"
type_synonym ('w, 'sess) exchange = "'w \<Rightarrow> string \<Rightarrow> string \<Rightarrow> 'w \<times> (go_error + 'sess)"

definition peerRole :: "target \<Rightarrow> string \<Rightarrow> int" where
  "peerRole t defaultIfEmpty =
     (let r = (if tg_Role t = [] then defaultIfEmpty else tg_Role t)
      in if r = RoleHintServer then RoleServer else RoleClient)"

definition local_Resolve :: "('w, 'sess) exchange \<Rightarrow> ('w, 'sess) resolver" where
  "local_Resolve exchange uuid target w =
     (let peerID = (if tg_PeerID target = [] then uuid else tg_PeerID target)
      in case exchange w (tg_Service target) peerID of
           (w1, Inl e) \<Rightarrow> (w1, Inl (Errorf ''peerrpc: local exchange: '' e))
         | (w1, Inr session) \<Rightarrow> (w1, Inr \<lparr>rn_Session = session, rn_PeerRole = peerRole target RoleHintClient, rn_PeerID = peerID\<rparr>))"

text \<open>\<open>ws\<close> is the WebSocket backend for a signal-server and a token, if any.\<close>

definition ws_Resolve ::
  "(string \<Rightarrow> string) \<Rightarrow> (string \<Rightarrow> string option \<Rightarrow> ('w, 'sess) exchange) \<Rightarrow> ('w, 'sess) resolver" where
  "ws_Resolve quote ws uuid target w =
     (if tg_Signal target = []
      then (w, Inl (ErrNew (''peerrpc: scheme '' @ quote (tg_Scheme target) @ '' requires a non-empty Target.Signal'')))
      else let peerID = (if tg_PeerID target = [] then uuid else tg_PeerID target);
               token = (if tg_Token target \<noteq> [] then Some (tg_Token target) else None)
           in case ws (tg_Signal target) token w (tg_Service target) peerID of
                (w1, Inl e) \<Rightarrow> (w1, Inl (Errorf ''peerrpc: ws exchange: '' e))
              | (w1, Inr session) \<Rightarrow>
                  (w1, Inr \<lparr>rn_Session = session, rn_PeerRole = peerRole target RoleHintClient, rn_PeerID = peerID\<rparr>))"

definition RegisterResolver ::
  "('w, 'sess) registry_map \<Rightarrow> string \<Rightarrow> go_error + ('w, 'sess) resolver \<Rightarrow> ('w, 'sess) registry_map" where
  "RegisterResolver reg scheme factory = reg(scheme \<mapsto> factory)"

definition defaultRegistry ::
  "(string \<Rightarrow> string) \<Rightarrow> ('w, 'sess) exchange \<Rightarrow> (string \<Rightarrow> string option \<Rightarrow> ('w, 'sess) exchange)
     \<Rightarrow> ('w, 'sess) registry_map" where
  "defaultRegistry quote localBackend ws =
     RegisterResolver (RegisterResolver Map.empty SchemeLocal (Inr (local_Resolve localBackend)))
       SchemeWS (Inr (ws_Resolve quote ws))"

definition ErrUnsupportedScheme :: go_error where
  "ErrUnsupportedScheme = ErrNew ''peerrpc: unsupported scheme; register one with peerrpc.RegisterResolver''"

definition resolveProbe :: "(string \<Rightarrow> string) \<Rightarrow> ('w, 'sess) registry_map \<Rightarrow> target \<Rightarrow> go_error + ('w, 'sess) resolver"
where
  "resolveProbe quote reg target =
     (case reg (tg_Scheme target) of
        None \<Rightarrow> Inl (Errorw ErrUnsupportedScheme ('': '' @ quote (tg_Scheme target)))
      | Some (Inl e) \<Rightarrow> Inl (Errorf (''peerrpc: resolver factory for '' @ quote (tg_Scheme target) @ '' failed: '') e)
      | Some (Inr r) \<Rightarrow> Inr r)"

definition resolve ::
  "(string \<Rightarrow> string) \<Rightarrow> ('w, 'sess) registry_map \<Rightarrow> string \<Rightarrow> target \<Rightarrow> 'w \<Rightarrow> 'w \<times> (go_error + 'sess resolution)" where
  "resolve quote reg uuid target w =
     (case reg (tg_Scheme target) of
        None \<Rightarrow> (w, Inl (Errorw ErrUnsupportedScheme ('': '' @ quote (tg_Scheme target))))
      | Some (Inl e) \<Rightarrow> (w, Inl (Errorf (''peerrpc: resolver factory for '' @ quote (tg_Scheme target) @ '' failed: '') e))
      | Some (Inr r) \<Rightarrow> r uuid target w)"

section \<open>Dialing and accepting\<close>

definition buildPeerConfig :: "'i dial_config \<Rightarrow> peer_config" where
  "buildPeerConfig cfg =
     \<lparr>pc_ICEServers = (if dc_iceCascade cfg then Some (dc_ICEServers cfg) else None), pc_DataChannelLabel = [],
      pc_NegotiationTimeout = (if dc_negotiationTO cfg \<noteq> 0 then dc_negotiationTO cfg else 0)\<rparr>"

definition buildPeerConfigListen :: "('u, 's) listen_config \<Rightarrow> peer_config" where
  "buildPeerConfigListen cfg =
     \<lparr>pc_ICEServers = (if lc_iceCascade cfg then Some (lc_ICEServers cfg) else None), pc_DataChannelLabel = [],
      pc_NegotiationTimeout = (if lc_negotiationTO cfg \<noteq> 0 then lc_negotiationTO cfg else 0)\<rparr>"

text \<open>
  The surroundings of one call: the registry, what closing a session does, the WebRTC library, and for the
  one negotiation of the call its result and what happens to the world meanwhile.
\<close>

record ('w, 'sess, 'ch) facade_env =
  fe_quote :: "string \<Rightarrow> string"
  fe_fmt :: "int \<Rightarrow> string"
  fe_registry :: "('w, 'sess) registry_map"
  fe_closeSession :: "'w \<Rightarrow> 'sess \<Rightarrow> 'w"
  fe_newPeerConnection :: "ice_server list \<Rightarrow> go_error option"
  fe_pion :: pion
  fe_negotiated :: "go_error + 'ch"
  fe_during :: "'w \<Rightarrow> 'w"

record ('sess, 'ch) facade_conn =
  fc_channel :: 'ch
  fc_session :: 'sess
  fc_peerID :: string

text \<open>What a call opens and closes, in order.\<close>

datatype 'sess resource = ResSession 'sess | ResPeer
datatype 'sess effect = Opened "'sess resource" | Closed "'sess resource"

text \<open>The result of \<open>p.Dial\<close> or \<open>p.Accept\<close>, which may return before it waits for anything.\<close>

definition peer_result :: "'ch peer \<Rightarrow> go_error + 'ch \<Rightarrow> go_error + 'ch" where
  "peer_result start negotiated = (case pe_phase start of PReturned r \<Rightarrow> r | _ \<Rightarrow> negotiated)"

definition cleanupDial ::
  "('w, 'sess, 'ch) facade_env \<Rightarrow> 'w \<Rightarrow> 'sess \<Rightarrow> go_error
     \<Rightarrow> 'w \<times> 'sess effect list \<times> (go_error + ('sess, 'ch) facade_conn)" where
  "cleanupDial env w s cause =
     (fe_closeSession env w s,
      [Opened (ResSession s), Opened ResPeer, Closed ResPeer, Closed (ResSession s)], Inl cause)"

definition dialTarget ::
  "('w, 'sess, 'ch) facade_env \<Rightarrow> string \<Rightarrow> 'i dial_config \<Rightarrow> 'w
     \<Rightarrow> 'w \<times> 'sess effect list \<times> (go_error + ('sess, 'ch) facade_conn)" where
  "dialTarget env uuid cfg w =
     (case resolve (fe_quote env) (fe_registry env) uuid (dc_target cfg) w of
        (w1, Inl err) \<Rightarrow> (w1, [], Inl err)
      | (w1, Inr rn) \<Rightarrow>
          (let s = rn_Session rn
           in case NewPeer (fe_newPeerConnection env) (rn_PeerRole rn) (buildPeerConfig cfg) of
                Inl err \<Rightarrow> (fe_closeSession env w1 s, [Opened (ResSession s), Closed (ResSession s)],
                           Inl (Errorf ''peerrpc: peer.New: '' err))
              | Inr p \<Rightarrow>
                  (let w2 = fe_during env w1;
                       ok = (\<lambda>ch. (w2, [Opened (ResSession s), Opened ResPeer],
                               Inr \<lparr>fc_channel = ch, fc_session = s, fc_peerID = rn_PeerID rn\<rparr>))
                   in if rn_PeerRole rn = RoleClient
                      then (case peer_result (Dial_start (fe_pion env) p) (fe_negotiated env) of
                              Inl err \<Rightarrow> cleanupDial env w2 s (Errorf ''peerrpc: peer.Dial: '' err)
                            | Inr ch \<Rightarrow> ok ch)
                      else if rn_PeerRole rn = RoleServer
                      then (case peer_result (Accept_start p) (fe_negotiated env) of
                              Inl err \<Rightarrow> cleanupDial env w2 s (Errorf ''peerrpc: peer.Accept: '' err)
                            | Inr ch \<Rightarrow> ok ch)
                      else cleanupDial env w2 s
                        (ErrNew (''peerrpc: unresolved peer role '' @ fe_fmt env (rn_PeerRole rn))))))"

definition DialTarget ::
  "('w, 'sess, 'ch) facade_env \<Rightarrow> string \<Rightarrow> target \<Rightarrow> ('i, 'u, 's) facade_option list \<Rightarrow> 'w
     \<Rightarrow> 'w \<times> 'sess effect list \<times> (go_error + ('sess, 'ch) facade_conn)" where
  "DialTarget env uuid target opts w = dialTarget env uuid (dial_effective target opts) w"

definition Dial ::
  "('w, 'sess, 'ch) facade_env \<Rightarrow> string \<Rightarrow> string \<Rightarrow> ('i, 'u, 's) facade_option list \<Rightarrow> 'w
     \<Rightarrow> 'w \<times> 'sess effect list \<times> (go_error + ('sess, 'ch) facade_conn)" where
  "Dial env uuid uri opts w =
     (case ParseTarget (fe_quote env) uri of
        Inl err \<Rightarrow> (w, [], Inl err)
      | Inr t \<Rightarrow> DialTarget env uuid t opts w)"

definition shortID :: "string \<Rightarrow> string" where
  "shortID uuid = (if length uuid > 8 then take 8 uuid else uuid)"

text \<open>\<open>Listener.Accept\<close> from the peer id to the new connection, without the closed check and the tracking.\<close>

definition accept_peerID :: "string \<Rightarrow> target \<Rightarrow> target" where
  "accept_peerID uuid t =
     (if tg_PeerID t = [] then t\<lparr>tg_PeerID := uuid\<rparr> else t\<lparr>tg_PeerID := tg_PeerID t @ ''-'' @ shortID uuid\<rparr>)"

definition accept_one ::
  "('w, 'sess, 'ch) facade_env \<Rightarrow> string \<Rightarrow> ('u, 's) listen_config \<Rightarrow> 'w
     \<Rightarrow> 'w \<times> 'sess effect list \<times> (go_error + ('sess, 'ch) facade_conn)" where
  "accept_one env uuid cfg w =
     (case resolve (fe_quote env) (fe_registry env) uuid (accept_peerID uuid (lc_target cfg)) w of
        (w1, Inl err) \<Rightarrow> (w1, [], Inl err)
      | (w1, Inr rn) \<Rightarrow>
          (let s = rn_Session rn
           in case NewPeer (fe_newPeerConnection env) (rn_PeerRole rn) (buildPeerConfigListen cfg) of
                Inl err \<Rightarrow> (fe_closeSession env w1 s, [Opened (ResSession s), Closed (ResSession s)],
                           Inl (Errorf ''peerrpc: peer.New: '' err))
              | Inr p \<Rightarrow>
                  (let w2 = fe_during env w1
                   in case peer_result (Accept_start p) (fe_negotiated env) of
                        Inl err \<Rightarrow> cleanupDial env w2 s (Errorf ''peerrpc: peer.Accept: '' err)
                      | Inr ch \<Rightarrow> (w2, [Opened (ResSession s), Opened ResPeer],
                               Inr \<lparr>fc_channel = ch, fc_session = s, fc_peerID = rn_PeerID rn\<rparr>))))"

section \<open>Nothing leaks\<close>

text \<open>The resources that are open after a sequence of effects.\<close>

definition open_after :: "'sess effect list \<Rightarrow> 'sess resource set" where
  "open_after es = foldl (\<lambda>rs e. case e of Opened r \<Rightarrow> insert r rs | Closed r \<Rightarrow> rs - {r}) {} es"

definition clean :: "'w \<times> 'sess effect list \<times> (go_error + ('sess, 'ch) facade_conn) \<Rightarrow> bool" where
  "clean out = (case out of
       (w', es, Inl err) \<Rightarrow> open_after es = {}
     | (w', es, Inr c) \<Rightarrow> open_after es = {ResSession (fc_session c), ResPeer})"

lemma clean_cleanup: "clean (cleanupDial env w s cause)"
  by (simp add: clean_def cleanupDial_def open_after_def)

lemma clean_simps [simp]:
  "clean (w, [], Inl err)"
  "clean (w, [Opened (ResSession s), Closed (ResSession s)], Inl err)"
  "clean (w, [Opened (ResSession s), Opened ResPeer], Inr \<lparr>fc_channel = ch, fc_session = s, fc_peerID = pid\<rparr>)"
  by (auto simp: clean_def open_after_def)

text \<open>
  C27: A call of the facade that fails leaves nothing open. Whatever the registry, the signaling backend, the
  WebRTC library and the negotiation do, \<open>Dial\<close> and \<open>Accept\<close> either return an error, with every session
  and peer connection they opened closed again, or a connection whose session and peer connection are the only
  things they have left open.
\<close>

theorem facade_releases_on_failure:
  "clean (Dial env uuid uri opts w) \<and> clean (DialTarget env uuid target opts w) \<and> clean (accept_one env uuid lcfg w)"
proof -
  have dial: "clean (dialTarget env uuid cfg w)" for cfg :: "'i dial_config"
    by (auto simp: dialTarget_def Let_def clean_cleanup split: prod.split sum.split)
  have "clean (accept_one env uuid lcfg w)"
    by (auto simp: accept_one_def Let_def clean_cleanup split: prod.split sum.split)
  with dial show ?thesis by (auto simp: Dial_def DialTarget_def split: sum.split)
qed

section \<open>Dialing through the in-process backend\<close>

text \<open>The members of the services, and the surroundings over \<open>signal.Local\<close>.\<close>

definition members :: "'m registry \<Rightarrow> (string \<times> string) set" where
  "members l = {(v, q). inbox_of l v q \<noteq> None}"

definition local_env :: "('m registry, 'm session, 'ch) facade_env \<Rightarrow> bool" where
  "local_env env \<longleftrightarrow>
     (\<exists>ws. fe_registry env = defaultRegistry (fe_quote env) (Exchange (fe_quote env)) ws)
     \<and> fe_closeSession env = (\<lambda>l s. fst (Session_Close l s))
     \<and> (\<forall>l. reg_wf l \<longrightarrow> reg_wf (fe_during env l) \<and> rg_services (fe_during env l) = rg_services l
          \<and> rg_svcs (fe_during env l) = rg_svcs l)"

definition session_in :: "'m registry \<Rightarrow> 'm session \<Rightarrow> string \<Rightarrow> string \<Rightarrow> bool" where
  "session_in l s v p \<longleftrightarrow> reg_wf l \<and> rg_services l v = Some (se_svc s) \<and> member_of l (se_svc s) p (se_peer s)
     \<and> se_service s = v \<and> \<not> se_done s"

lemma Exchange_session:
  assumes "reg_wf l" and "Exchange quote l v p = (l', Inr s)"
  shows "session_in l' s v p \<and> members l' = insert (v, p) (members l) \<and> (v, p) \<notin> members l"
proof -
  have "inbox_of l v p = None" using Exchange_twice [OF assms(1), of v p quote] assms(2) by force
  moreover have "rg_services l' v = Some (se_svc s)" "member_of l' (se_svc s) p (se_peer s)" "se_service s = v" "\<not> se_done s"
    using assms(2)
    by (auto simp: Exchange_def serviceForExchange_def service_for_def add_peer_def member_of_def Let_def
        split: if_splits prod.splits option.splits)
  ultimately show ?thesis
    using Exchange_ok [OF assms] by (auto simp: session_in_def members_def)
qed

lemma Session_Close_members:
  assumes "session_in l s v p"
  shows "members (fst (Session_Close l s)) = members l - {(v, p)}"
proof -
  have wf: "reg_wf l" using assms by (simp add: session_in_def)
  have "loc_member l v p = Some (se_svc s, se_peer s)"
    using assms by (simp add: loc_member_iff [OF wf] session_in_def)
  then have "fst (Session_Close l s) = loc_leave l v p"
    using assms by (simp add: loc_leave_def Session_Close_def session_in_def)
  then show ?thesis using loc_leave_ok [OF wf] by (auto simp: members_def)
qed

lemma during_members:
  assumes "local_env env" and "session_in l s v p"
  shows "session_in (fe_during env l) s v p \<and> members (fe_during env l) = members l"
proof -
  have wf: "reg_wf l" "reg_wf (fe_during env l)" "rg_services (fe_during env l) = rg_services l"
    "rg_svcs (fe_during env l) = rg_svcs l"
    using assms by (simp_all add: local_env_def session_in_def)
  then have "inbox_of (fe_during env l) w q = None \<longleftrightarrow> inbox_of l w q = None" for w q
    by (simp add: inbox_of_None member_of_def)
  with wf assms(2) show ?thesis by (auto simp: session_in_def members_def member_of_def)
qed

lemma resolve_local:
  assumes "local_env env" and "reg_wf l" and "tg_Scheme t = SchemeLocal"
    and "resolve (fe_quote env) (fe_registry env) uuid t l = (l1, r)"
  shows "case r of
      Inl e \<Rightarrow> members l1 = members l
    | Inr rn \<Rightarrow> session_in l1 (rn_Session rn) (tg_Service t) (rn_PeerID rn)
        \<and> members l1 = insert (tg_Service t, rn_PeerID rn) (members l) \<and> (tg_Service t, rn_PeerID rn) \<notin> members l
        \<and> rn_PeerID rn = (if tg_PeerID t = [] then uuid else tg_PeerID t) \<and> rn_PeerRole rn = peerRole t RoleHintClient"
proof -
  define pid where "pid = (if tg_PeerID t = [] then uuid else tg_PeerID t)"
  have pid: "tg_PeerID t = [] \<Longrightarrow> pid = uuid" "tg_PeerID t \<noteq> [] \<Longrightarrow> pid = tg_PeerID t" by (simp_all add: pid_def)
  obtain l2 x where ex: "Exchange (fe_quote env) l (tg_Service t) pid = (l2, x)"
    by (cases "Exchange (fe_quote env) l (tg_Service t) pid")
  have reg: "fe_registry env SchemeLocal = Some (Inr (local_Resolve (Exchange (fe_quote env))))"
    using assms(1) by (auto simp: local_env_def defaultRegistry_def RegisterResolver_def SchemeLocal_def SchemeWS_def)
  have "members l2 = members l" if "x = Inl e" for e
    using ex that assms(2)
    by (auto simp: Exchange_def serviceForExchange_def members_def service_for_inbox split: if_splits prod.splits)
  with ex reg assms(3,4) Exchange_session [OF assms(2)] show ?thesis
    by (cases x) (auto simp: resolve_def local_Resolve_def pid_def [symmetric] intro: pid)
qed

text \<open>
  The facade over the in-process backend keeps the rendezvous clean. Dialing or accepting on a target
  of scheme \<open>local\<close>, while other peers may broadcast: on success exactly one peer has joined, the target's
  service under the connection's peer id, which nobody had there; on failure, at whatever stage, the members of
  all services are those of before.
\<close>

theorem local_rendezvous_clean:
  assumes "local_env env" and "reg_wf l" and "tg_Scheme (dc_target cfg) = SchemeLocal"
    and "tg_Scheme (lc_target lcfg) = SchemeLocal"
    and "x \<in> {(tg_Service (dc_target cfg), dialTarget env uuid cfg l), (tg_Service (lc_target lcfg), accept_one env uuid lcfg l)}"
  shows "case x of
      (service, l', es, Inl err) \<Rightarrow> members l' = members l
    | (service, l', es, Inr c) \<Rightarrow> (service, fc_peerID c) \<notin> members l \<and> members l' = insert (service, fc_peerID c) (members l)"
proof -
  let ?good = "\<lambda>service (l', es, r). case r of
      Inl err \<Rightarrow> members l' = members l
    | Inr c \<Rightarrow> (service, fc_peerID c) \<notin> members l \<and> members l' = insert (service, fc_peerID c) (members l)"
  have close: "fe_closeSession env = (\<lambda>l s. fst (Session_Close l s))"
    using assms(1) by (simp add: local_env_def)
  have after: "members (fst (Session_Close l1 s)) = members l \<and> members (fe_during env l1) = members l1
      \<and> members (fst (Session_Close (fe_during env l1) s)) = members l"
    if "session_in l1 s v p" "members l1 = insert (v, p) (members l)" "(v, p) \<notin> members l" for l1 s v p
    using that during_members [OF assms(1) that(1)] Session_Close_members [OF that(1)]
      Session_Close_members [of "fe_during env l1" s v p] by simp
  have "?good (tg_Service (dc_target cfg)) (dialTarget env uuid cfg l)"
  proof -
    obtain l1 r where r: "resolve (fe_quote env) (fe_registry env) uuid (dc_target cfg) l = (l1, r)"
      by (cases "resolve (fe_quote env) (fe_registry env) uuid (dc_target cfg) l")
    from resolve_local [OF assms(1,2,3) r] after [of l1] r show ?thesis
      by (cases r) (auto simp: dialTarget_def cleanupDial_def Let_def close split: sum.split)
  qed
  moreover have "?good (tg_Service (lc_target lcfg)) (accept_one env uuid lcfg l)"
  proof -
    let ?t = "accept_peerID uuid (lc_target lcfg)"
    have t: "tg_Scheme ?t = SchemeLocal" "tg_Service ?t = tg_Service (lc_target lcfg)"
      using assms(4) by (simp_all add: accept_peerID_def)
    obtain l1 r where r: "resolve (fe_quote env) (fe_registry env) uuid ?t l = (l1, r)"
      by (cases "resolve (fe_quote env) (fe_registry env) uuid ?t l")
    from resolve_local [OF assms(1,2) t(1) r] after [of l1] r t(2) show ?thesis
      by (cases r) (auto simp: accept_one_def cleanupDial_def Let_def close split: sum.split)
  qed
  ultimately show ?thesis using assms(5) by auto
qed

definition demo_env :: "(nat registry, nat session, nat) facade_env" where
  "demo_env = \<lparr>fe_quote = id, fe_fmt = (\<lambda>_. []),
     fe_registry = defaultRegistry id (Exchange id) (\<lambda>_ _ w _ _. (w, Inl EOF)),
     fe_closeSession = (\<lambda>l s. fst (Session_Close l s)), fe_newPeerConnection = (\<lambda>_. None), fe_pion = demo_pion,
     fe_negotiated = Inr 5, fe_during = id\<rparr>"

definition local_target :: target where
  "local_target = empty_target\<lparr>tg_Scheme := ''local'', tg_Service := ''echo''\<rparr>"

lemma demo_env_local: "local_env demo_env"
  by (auto simp: local_env_def demo_env_def)

theorem local_rendezvous_clean_witness:
  "\<exists>l' es c. DialTarget demo_env ''u'' local_target ([] :: (nat, nat, nat) facade_option list) NewLocal = (l', es, Inr c)
     \<and> fc_peerID c = ''u'' \<and> members l' = {(''echo'', ''u'')}"
proof -
  let ?cfg = "dial_effective local_target ([] :: (nat, nat, nat) facade_option list)"
  let ?lcfg = "listen_effective local_target ([] :: (nat, nat, nat) facade_option list)"
  have wf: "reg_wf (NewLocal :: nat registry)" by (simp add: NewLocal_def empty_registry_wf)
  have none: "members (NewLocal :: nat registry) = {}"
    by (simp add: members_def NewLocal_def empty_registry_def inbox_of_def)
  have t: "dc_target ?cfg = local_target" "tg_Scheme local_target = SchemeLocal" "tg_Scheme (lc_target ?lcfg) = SchemeLocal"
    by (simp_all add: dial_effective_def listen_effective_def local_target_def empty_target_def derivePeerID_def SchemeLocal_def Let_def)
  obtain l' es c where d: "dialTarget demo_env ''u'' ?cfg NewLocal = (l', es, Inr c)" "fc_peerID c = ''u''"
    by (simp add: dialTarget_def dial_effective_def derivePeerID_def resolve_def demo_env_def defaultRegistry_def RegisterResolver_def local_target_def
        empty_target_def SchemeLocal_def SchemeWS_def local_Resolve_def Exchange_def serviceForExchange_def service_for_def
        add_peer_def NewLocal_def empty_registry_def peerRole_def RoleHintClient_def RoleHintServer_def NewPeer_def
        peer_result_def Dial_start_def demo_pion_def RoleClient_def p_call_def Let_def)
  from local_rendezvous_clean [of demo_env NewLocal ?cfg ?lcfg "(tg_Service (dc_target ?cfg), dialTarget demo_env ''u'' ?cfg NewLocal)" "''u''"]
    demo_env_local wf t d none have "members l' = {(''echo'', ''u'')}" by (simp add: local_target_def)
  with d show ?thesis by (simp add: DialTarget_def)
qed

text \<open>
  A listener with another role than \<open>server\<close>. Through the built-in resolvers \<open>ListenTarget\<close> takes every
  role, and any role but the empty one and \<open>server\<close>, also a misspelt one, counts as \<open>client\<close>: then the
  target passes the check of its scheme, but every \<open>Accept\<close> fails, although it has joined the service first.
\<close>

theorem listen_as_client_never_accepts:
  assumes "fe_registry env = defaultRegistry (fe_quote env) localBackend ws"
    and "tg_Role target \<notin> {[], ''server''}" and "tg_Scheme target \<in> {SchemeLocal, SchemeWS}"
  shows "(\<exists>r. resolveProbe (fe_quote env) (fe_registry env) (lc_target (listen_effective target opts)) = Inr r)
    \<and> (\<exists>w' es err. accept_one env uuid (listen_effective target opts) w = (w', es, Inl err))"
proof -
  let ?cfg = "listen_effective target opts"
  have keep: "tg_Role (lc_target (foldl applyListen c opts)) = tg_Role (lc_target c)
      \<and> tg_Scheme (lc_target (foldl applyListen c opts)) = tg_Scheme (lc_target c)" for c
  proof (induction opts arbitrary: c)
    case (Cons opt opts)
    then show ?case by (cases opt) simp_all
  qed simp
  then have cfg: "tg_Role (lc_target ?cfg) = tg_Role target" "tg_Scheme (lc_target ?cfg) = tg_Scheme target"
    using assms(2) by (simp_all add: listen_effective_def Let_def split: option.split)
  let ?t = "accept_peerID uuid (lc_target ?cfg)"
  have t: "tg_Role ?t = tg_Role target" "tg_Scheme ?t = tg_Scheme target"
    using cfg by (simp_all add: accept_peerID_def)
  have role: "peerRole ?t RoleHintClient = RoleClient"
    using assms(2) by (simp add: peerRole_def t RoleHintServer_def)
  have client: "rn_PeerRole rn = RoleClient"
    if "resolve (fe_quote env) (fe_registry env) uuid ?t w = (w1, Inr rn)" for w1 rn
    using that assms(1,3) role
    by (auto simp: resolve_def defaultRegistry_def RegisterResolver_def t SchemeLocal_def SchemeWS_def local_Resolve_def
        ws_Resolve_def Let_def split: if_splits prod.splits sum.splits)
  have refused: "peer_result (Accept_start p) x = Inl (ErrNew ''peer: Accept requires RoleServer'')"
    if "NewPeer f RoleClient pcfg = Inr p" for f pcfg p and x :: "go_error + 'c"
    using that by (auto simp: NewPeer_def Let_def peer_result_def Accept_start_def RoleClient_def RoleServer_def split: option.splits)
  have "\<exists>r. resolveProbe (fe_quote env) (fe_registry env) (lc_target ?cfg) = Inr r"
    using assms(1,3) by (auto simp: resolveProbe_def cfg defaultRegistry_def RegisterResolver_def SchemeLocal_def SchemeWS_def)
  moreover have "\<exists>w' es err. accept_one env uuid ?cfg w = (w', es, Inl err)"
    using client refused by (auto simp: accept_one_def cleanupDial_def Let_def split: prod.split sum.split)
  ultimately show ?thesis by blast
qed

theorem listen_as_client_never_accepts_witness:
  "\<exists>w' es err. accept_one demo_env ''u'' (listen_effective (local_target\<lparr>tg_Role := ''client''\<rparr>)
     ([] :: (nat, nat, nat) facade_option list)) NewLocal = (w', es, Inl err)"
  using listen_as_client_never_accepts [of demo_env "Exchange id" "\<lambda>_ _ w _ _. (w, Inl EOF)" "local_target\<lparr>tg_Role := ''client''\<rparr>"
      "[] :: (nat, nat, nat) facade_option list" "''u''" NewLocal]
  by (simp add: demo_env_def local_target_def SchemeLocal_def)

section \<open>The listen builder\<close>

text \<open>
  \<open>ListenBuilder\<close> has the setters of \<open>DialBuilder\<close> and two of its own; \<open>Listen\<close> hands its target and options to
  \<open>ListenTarget\<close>.
\<close>

datatype ('i, 'u, 's) listen_call =
    LbSignalAt string
  | LbService string
  | LbOver string
  | LbAs string
  | LbPeerID string
  | LbToken string
  | LbICEServers "ice_server list"
  | LbNegotiationTimeout int
  | LbApply "('i, 'u, 's) facade_option list"

fun listen_apply ::
  "('i, 'u, 's) facade_option builder \<Rightarrow> ('i, 'u, 's) listen_call \<Rightarrow> ('i, 'u, 's) facade_option builder" where
  "listen_apply b (LbSignalAt authority) = b\<lparr>bd_target := (bd_target b)\<lparr>tg_Signal := authority\<rparr>\<rparr>"
| "listen_apply b (LbService name) = b\<lparr>bd_target := (bd_target b)\<lparr>tg_Service := name\<rparr>\<rparr>"
| "listen_apply b (LbOver s) = b\<lparr>bd_target := (bd_target b)\<lparr>tg_Scheme := s\<rparr>\<rparr>"
| "listen_apply b (LbAs r) = b\<lparr>bd_target := (bd_target b)\<lparr>tg_Role := r\<rparr>\<rparr>"
| "listen_apply b (LbPeerID pid) = b\<lparr>bd_target := (bd_target b)\<lparr>tg_PeerID := pid\<rparr>\<rparr>"
| "listen_apply b (LbToken token) = b\<lparr>bd_target := (bd_target b)\<lparr>tg_Token := token\<rparr>\<rparr>"
| "listen_apply b (LbICEServers servers) = b\<lparr>bd_opts := bd_opts b @ [WithICEServers servers]\<rparr>"
| "listen_apply b (LbNegotiationTimeout d) = b\<lparr>bd_opts := bd_opts b @ [WithNegotiationTimeout d]\<rparr>"
| "listen_apply b (LbApply opts) = b\<lparr>bd_opts := bd_opts b @ opts\<rparr>"

definition Listen_args :: "('i, 'u, 's) facade_option builder \<Rightarrow> target \<times> ('i, 'u, 's) facade_option list" where
  "Listen_args b =
     (if tg_Scheme (bd_target b) = [] then (bd_target b)\<lparr>tg_Scheme := SchemeWS\<rparr> else bd_target b, bd_opts b)"

text \<open>
  Both builders are interchangeable: a listen builder driven by the calls of a dial builder passes on the same target
  and options.
\<close>

fun dial_calls :: "('i, 'u, 's) listen_call \<Rightarrow> ('i, 'u, 's) facade_option builder_call" where
  "dial_calls (LbSignalAt a) = SignalAt a"
| "dial_calls (LbService n) = Service n"
| "dial_calls (LbOver s) = Over s"
| "dial_calls (LbAs r) = As r"
| "dial_calls (LbPeerID pid) = BuildPeerID pid"
| "dial_calls (LbToken t) = BuildToken t"
| "dial_calls (LbICEServers ss) = Apply [WithICEServers ss]"
| "dial_calls (LbNegotiationTimeout d) = Apply [WithNegotiationTimeout d]"
| "dial_calls (LbApply opts) = Apply opts"

lemma builders_agree:
  "Listen_args (foldl listen_apply b calls) = Connect_args (foldl builder_apply b (map dial_calls calls))"
proof -
  have "foldl listen_apply b calls = foldl builder_apply b (map dial_calls calls)"
  proof (induction calls arbitrary: b)
    case (Cons c calls)
    then show ?case by (cases c) simp_all
  qed simp
  then show ?thesis by (simp add: Listen_args_def Connect_args_def)
qed

text \<open>What a listener built this way listens on: the given role, or else server; the given scheme, or else WebSocket.\<close>

lemma built_listener_target:
  fixes calls :: "('i, 'u, 's) listen_call list"
  assumes "\<forall>c \<in> set calls. (\<forall>r. c \<noteq> LbAs r) \<and> (\<forall>s. c \<noteq> LbOver s) \<and> (\<forall>o1. c \<noteq> LbApply o1)"
    and "Listen_args (foldl listen_apply BuilderContext calls) = (t, opts)"
  shows "tg_Scheme (lc_target (listen_effective t opts)) = SchemeWS"
    and "tg_Role (lc_target (listen_effective t opts)) = RoleHintServer"
proof -
  have b: "tg_Role (bd_target (foldl listen_apply b calls)) = tg_Role (bd_target b)
      \<and> tg_Scheme (bd_target (foldl listen_apply b calls)) = tg_Scheme (bd_target b)
      \<and> (list_all (\<lambda>x. (\<exists>ss. x = WithICEServers ss) \<or> (\<exists>d. x = WithNegotiationTimeout d)) (bd_opts b) \<longrightarrow>
         list_all (\<lambda>x. (\<exists>ss. x = WithICEServers ss) \<or> (\<exists>d. x = WithNegotiationTimeout d)) (bd_opts (foldl listen_apply b calls)))"
    for b using assms(1)
  proof (induction calls arbitrary: b)
    case (Cons c calls)
    then show ?case by (cases c) auto
  qed simp
  have o1: "lc_target (foldl applyListen cfg os) = lc_target cfg \<and> lc_token (foldl applyListen cfg os) = lc_token cfg"
    if "list_all (\<lambda>x. (\<exists>ss. x = WithICEServers ss) \<or> (\<exists>d. x = WithNegotiationTimeout d)) os"
    for cfg :: "('u, 's) listen_config" and os :: "('i, 'u, 's) facade_option list"
    using that by (induction os arbitrary: cfg) auto
  show "tg_Scheme (lc_target (listen_effective t opts)) = SchemeWS" "tg_Role (lc_target (listen_effective t opts)) = RoleHintServer"
    using assms(2) b [of BuilderContext] o1 [of opts]
    by (auto simp: Listen_args_def listen_effective_def BuilderContext_def empty_target_def SchemeWS_def RoleHintServer_def
        Let_def split: option.splits if_splits)
qed

text \<open>
  \<open>ListenTarget\<close> and \<open>Listen\<close>: the configuration of the listener, which starts without connections and open
  (\<open>new_listener\<close> of \<open>Listener\<close>). They look the scheme up but contact nobody.
\<close>

definition ListenTarget ::
  "(string \<Rightarrow> string) \<Rightarrow> ('w, 'sess) registry_map \<Rightarrow> target \<Rightarrow> ('i, 'u, 's) facade_option list
     \<Rightarrow> go_error + ('u, 's) listen_config" where
  "ListenTarget quote reg target opts =
     (let cfg = listen_effective target opts in
      case resolveProbe quote reg (lc_target cfg) of Inl err \<Rightarrow> Inl err | Inr _ \<Rightarrow> Inr cfg)"

definition Listen ::
  "(string \<Rightarrow> string) \<Rightarrow> ('w, 'sess) registry_map \<Rightarrow> string \<Rightarrow> ('i, 'u, 's) facade_option list
     \<Rightarrow> go_error + ('u, 's) listen_config" where
  "Listen quote reg uri opts =
     (case ParseTarget quote uri of Inl err \<Rightarrow> Inl err | Inr t \<Rightarrow> ListenTarget quote reg t opts)"

text \<open>A listener built without a role and a scheme is accepted whatever the address and the service are.\<close>

lemma built_listener_accepted:
  fixes calls :: "('i, 'u, 's) listen_call list"
  assumes "\<forall>c \<in> set calls. (\<forall>r. c \<noteq> LbAs r) \<and> (\<forall>s. c \<noteq> LbOver s) \<and> (\<forall>o1. c \<noteq> LbApply o1)"
    and "Listen_args (foldl listen_apply BuilderContext calls) = (t, opts)"
  shows "ListenTarget quote (defaultRegistry quote localBackend ws) t opts = Inr (listen_effective t opts)"
  using built_listener_target(1) [OF assms]
  by (simp add: ListenTarget_def resolveProbe_def defaultRegistry_def RegisterResolver_def Let_def)

end
