(* ===== verification/Conn.thy ===== *)
theory Conn
  imports Rpc_Client_Laws "HOL-Library.Sublist"
begin

text \<open>
  The handles of the facade: \<open>Conn\<close> with its pump goroutine and \<open>Close\<close> (\<open>peerrpc/conn.go\<close>), and \<open>Listener\<close>
  with its table of \<open>ServerConn\<close>s (\<open>peerrpc/listen.go\<close>, \<open>peerrpc/server_conn.go\<close>), as systems of interleaved
  steps. The pump is \<open>rpc.Client.Attach\<close>; here one of its rounds is split at \<open>deliver\<close>, where it can block
  with the stream it has looked up.
\<close>

section \<open>A round of the pump, up to the delivery\<close>

datatype pump_next = PnDone client | PnDeliver client nat bytes

definition dispatch_start :: "client \<Rightarrow> response_frame \<Rightarrow> pump_next" where
  "dispatch_start c f =
     (let seq = routing_seq (r_routing f)
      in case cl_streams c seq of
           None \<Rightarrow> PnDone c
         | Some sid \<Rightarrow>
             (case cl_heap c sid of
                None \<Rightarrow> PnDone c
              | Some cs \<Rightarrow>
                  (case r_type f of
                     None \<Rightarrow> PnDone c
                   | Some (ResponseFrame_Begin None) \<Rightarrow> PnDone c
                   | Some (ResponseFrame_Begin (Some b)) \<Rightarrow>
                       (let c1 = (case b_header b of None \<Rightarrow> c
                                  | Some h \<Rightarrow> set_cs c sid (cs\<lparr>cs_header := mergeIn (cs_header cs) h\<rparr>))
                        in case b_inline_data b of
                             None \<Rightarrow> PnDone c1
                           | Some dat \<Rightarrow> if length dat > 0 then PnDeliver c1 sid dat else PnDone c1)
                   | Some (ResponseFrame_Data None) \<Rightarrow> PnDone c
                   | Some (ResponseFrame_Data (Some None)) \<Rightarrow> PnDone c
                   | Some (ResponseFrame_Data (Some (Some (Data_Message msg)))) \<Rightarrow> PnDeliver c sid msg
                   | Some (ResponseFrame_Data (Some (Some (Data_Chunk k)))) \<Rightarrow>
                       (case Reassemble (cl_reasm c) (int32 seq) (ch_total_size k) (ch_offset k) (ch_data k) of
                          Panics e \<Rightarrow> PnDone (c\<lparr>cl_crashed := Some e\<rparr>)
                        | Returns (r, None) \<Rightarrow> PnDone (c\<lparr>cl_reasm := r\<rparr>)
                        | Returns (r, Some full) \<Rightarrow> PnDeliver (c\<lparr>cl_reasm := r\<rparr>) sid full)
                   | Some (ResponseFrame_End e) \<Rightarrow> PnDone (client_end c sid cs seq e))))"

lemma dispatch_split:
  "dispatch c f = (case dispatch_start c f of PnDone c1 \<Rightarrow> [c1] | PnDeliver c1 sid p \<Rightarrow> client_deliver c1 sid p)"
  by (auto simp: dispatch_def dispatch_start_def client_data_def Let_def
      split: option.splits response_type.splits data_content.splits go.splits)

section \<open>A connection\<close>

datatype conn_pump = PumpRecv | PumpDeliver nat bytes | PumpDone
datatype teardown = TdCancel | TdPump | TdChannel | TdPeer | TdSession

text \<open>\<open>co_log\<close> is what \<open>Close\<close> has done so far.\<close>

record conn =
  co_client :: client
  co_channel :: channel
  co_ctx :: "ctx_err option"
  co_pump :: conn_pump
  co_attachErr :: "go_error option"
  co_log :: "teardown list"

definition newConn :: "client \<Rightarrow> channel \<Rightarrow> conn" where
  "newConn client channel = \<lparr>co_client = client, co_channel = channel, co_ctx = None, co_pump = PumpRecv,
     co_attachErr = None, co_log = []\<rparr>"

definition conn_Err :: "conn \<Rightarrow> go_error option" where
  "conn_Err c = (if co_pump c = PumpDone then co_attachErr c else None)"

text \<open>
  Events: a message or the close of the DataChannel, a call on the client (an \<open>Invoke\<close> or an operation on
  a stream), a step of the pump, a call of \<open>Close\<close>, a step of the \<open>Close\<close> that runs.
\<close>

datatype conn_event = CoArrive bytes | CoLost | CoCall client_event | CoPump | CoClose | CoStep

fun caller_event :: "client_event \<Rightarrow> bool" where
  "caller_event (CevFrame _) = False"
| "caller_event (CevFail _) = False"
| "caller_event _ = True"

definition attach_exit :: "go_error \<Rightarrow> go_error option" where
  "attach_exit err = (if err = EOF \<or> (err = EOF \<or> err = ErrClosedPipe) then None else Some err)"

definition pump_step :: "(bytes \<Rightarrow> response_frame option) \<Rightarrow> conn \<Rightarrow> conn list" where
  "pump_step unmarshal c =
     (if cl_crashed (co_client c) \<noteq> None then []
      else case co_pump c of
        PumpDone \<Rightarrow> []
      | PumpDeliver sid p \<Rightarrow> map (\<lambda>cl. c\<lparr>co_client := cl, co_pump := PumpRecv\<rparr>) (client_deliver (co_client c) sid p)
      | PumpRecv \<Rightarrow> map (\<lambda>(ch, r). case r of
            Inl err \<Rightarrow> c\<lparr>co_channel := ch, co_client := failAll (co_client c) err, co_pump := PumpDone,
                         co_attachErr := attach_exit err\<rparr>
          | Inr raw \<Rightarrow> (case unmarshal raw of
                None \<Rightarrow> c\<lparr>co_channel := ch\<rparr>
              | Some f \<Rightarrow> (case dispatch_start (co_client c) f of
                    PnDone cl \<Rightarrow> c\<lparr>co_channel := ch, co_client := cl\<rparr>
                  | PnDeliver cl sid p \<Rightarrow> c\<lparr>co_channel := ch, co_client := cl, co_pump := PumpDeliver sid p\<rparr>)))
          (Recv (co_channel c) (co_ctx c)))"

text \<open>The body of \<open>Close\<close>, run once: each step waits for or does one thing.\<close>

definition close_step :: "conn \<Rightarrow> conn list" where
  "close_step c =
     (if length (co_log c) = 1
      then (if co_pump c = PumpDone then [c\<lparr>co_log := co_log c @ [TdPump]\<rparr>] else [])
      else if length (co_log c) = 2 then [c\<lparr>co_channel := Close (co_channel c), co_log := co_log c @ [TdChannel]\<rparr>]
      else if length (co_log c) = 3 then [c\<lparr>co_log := co_log c @ [TdPeer]\<rparr>]
      else if length (co_log c) = 4 then [c\<lparr>co_log := co_log c @ [TdSession]\<rparr>]
      else [])"

definition conn_outcomes :: "(bytes \<Rightarrow> response_frame option) \<Rightarrow> conn \<Rightarrow> conn_event \<Rightarrow> conn list" where
  "conn_outcomes unmarshal c ev =
     (case ev of
        CoArrive b \<Rightarrow> map (\<lambda>ch. c\<lparr>co_channel := ch\<rparr>) (OnMessage (co_channel c) b)
      | CoLost \<Rightarrow> [c\<lparr>co_channel := OnClose (co_channel c)\<rparr>]
      | CoCall e \<Rightarrow> if caller_event e then map (\<lambda>cl. c\<lparr>co_client := cl\<rparr>) (client_outcomes (co_client c) e) else []
      | CoPump \<Rightarrow> pump_step unmarshal c
      | CoClose \<Rightarrow> if co_log c = [] then [c\<lparr>co_ctx := Some Canceled, co_log := [TdCancel]\<rparr>] else [c]
      | CoStep \<Rightarrow> close_step c)"

text \<open>\<open>Close\<close> has returned.\<close>

definition conn_closed :: "conn \<Rightarrow> bool" where
  "conn_closed c \<longleftrightarrow> length (co_log c) = 5"

section \<open>The invariant of a connection\<close>

definition teardown_order :: "teardown list" where
  "teardown_order = [TdCancel, TdPump, TdChannel, TdPeer, TdSession]"

definition conn_inv :: "conn \<Rightarrow> bool" where
  "conn_inv c \<longleftrightarrow> client_wf (co_client c) \<and> co_log c = take (length (co_log c)) teardown_order
     \<and> (co_log c \<noteq> [] \<longrightarrow> co_ctx c \<noteq> None) \<and> (2 \<le> length (co_log c) \<longrightarrow> co_pump c = PumpDone)
     \<and> (3 \<le> length (co_log c) \<longrightarrow> ch_closed (co_channel c)) \<and> ch_shutdownDone (co_channel c) = ch_closed (co_channel c)
     \<and> (co_pump c = PumpDone \<longrightarrow> co_attachErr c \<noteq> None)"

lemma dispatch_start_wf:
  assumes wf: "client_wf c"
  shows "case dispatch_start c f of PnDone c1 \<Rightarrow> client_wf c1 | PnDeliver c1 sid p \<Rightarrow> client_wf c1"
proof (cases "dispatch_start c f")
  case (PnDone c1)
  then have "c1 \<in> set (dispatch c f)" by (simp add: dispatch_split)
  with PnDone dispatch_keeps [OF wf] show ?thesis by (simp add: keeps_def)
next
  case (PnDeliver c1 sid p)
  then obtain sid' where tab: "cl_streams c (routing_seq (r_routing f)) = Some sid'"
    by (cases "cl_streams c (routing_seq (r_routing f))") (auto simp: dispatch_start_def Let_def)
  then obtain cs where cs: "cl_heap c sid' = Some cs" "\<not> cs_end cs" using wf_entry [OF wf] by blast
  have hdr: "client_wf (set_cs c sid' (cs\<lparr>cs_header := h\<rparr>))" for h
    using wf_stream [OF wf cs(1)] cs keeps_set_cs [OF wf cs(1), of "cs\<lparr>cs_header := h\<rparr>"]
    by (auto simp: stream_ok_def keeps_def)
  have "client_wf (c\<lparr>cl_reasm := r\<rparr>)" for r using keeps_fields(1) [OF wf] by (simp add: keeps_def)
  with PnDeliver wf hdr tab cs show ?thesis
    by (auto simp: dispatch_start_def Let_def split: option.splits response_type.splits data_content.splits
        go.splits prod.splits if_splits)
qed

lemma Recv_attach_err:
  "(ch, Inl err) \<in> set (Recv c ctx) \<Longrightarrow> attach_exit err = Some err \<and> ch = c"
  by (auto simp: Recv_def attach_exit_def wrap_closeErr_def split: if_splits option.splits)

lemma conn_inv_step:
  assumes inv: "conn_inv c" and step: "c' \<in> set (conn_outcomes unmarshal c ev)"
  shows "conn_inv c'"
proof (cases ev)
  case (CoCall e)
  then obtain cl where cl: "c' = c\<lparr>co_client := cl\<rparr>" "cl \<in> set (client_outcomes (co_client c) e)"
    using step by (auto simp: conn_outcomes_def split: if_splits)
  have "client_wf cl" using inv client_outcomes_keeps [OF _ cl(2)] by (auto simp: conn_inv_def keeps_def)
  with inv cl(1) show ?thesis by (simp add: conn_inv_def)
next
  case CoPump
  then have c': "c' \<in> set (pump_step unmarshal c)" using step by (simp add: conn_outcomes_def)
  have wf: "client_wf (co_client c)" using inv by (simp add: conn_inv_def)
  show ?thesis
  proof (cases "co_pump c")
    case PumpDone
    with c' show ?thesis by (simp add: pump_step_def split: if_splits)
  next
    case (PumpDeliver sid p)
    with c' inv client_deliver_keeps [OF wf] show ?thesis
      by (auto simp: pump_step_def conn_inv_def keeps_def split: if_splits)
  next
    case PumpRecv
    obtain ch r where r: "(ch, r) \<in> set (Recv (co_channel c) (co_ctx c))" and
      c'': "c' = (case r of Inl err \<Rightarrow> c\<lparr>co_channel := ch, co_client := failAll (co_client c) err, co_pump := PumpDone,
                         co_attachErr := attach_exit err\<rparr>
          | Inr raw \<Rightarrow> (case unmarshal raw of
                None \<Rightarrow> c\<lparr>co_channel := ch\<rparr>
              | Some f \<Rightarrow> (case dispatch_start (co_client c) f of
                    PnDone cl \<Rightarrow> c\<lparr>co_channel := ch, co_client := cl\<rparr>
                  | PnDeliver cl sid p \<Rightarrow> c\<lparr>co_channel := ch, co_client := cl, co_pump := PumpDeliver sid p\<rparr>)))"
      using c' PumpRecv by (auto simp: pump_step_def split: if_splits)
    have same: "ch_closed ch = ch_closed (co_channel c)" "ch_shutdownDone ch = ch_shutdownDone (co_channel c)"
      using r by (auto simp: Recv_def split: if_splits)
    show ?thesis
    proof (cases r)
      case (Inl err)
      with r c'' same inv Recv_attach_err [of ch err] failAll_keeps [OF wf] show ?thesis
        by (auto simp: conn_inv_def keeps_def)
    next
      case (Inr raw)
      show ?thesis
      proof (cases "unmarshal raw")
        case None
        with Inr c'' same inv show ?thesis by (auto simp: conn_inv_def)
      next
        case (Some f)
        with Inr c'' same inv PumpRecv dispatch_start_wf [OF wf, of f] show ?thesis
          by (cases "dispatch_start (co_client c) f") (auto simp: conn_inv_def)
      qed
    qed
  qed
next
  case CoStep
  then have c': "c' \<in> set (close_step c)" using step by (simp add: conn_outcomes_def)
  have sh: "ch_closed (Close ch) \<and> ch_shutdownDone (Close ch)" if "ch_shutdownDone ch = ch_closed ch" for ch
    using that by (simp add: Close_def shutdown_def)
  consider "length (co_log c) = 1" | "length (co_log c) = 2" | "length (co_log c) = 3" | "length (co_log c) = 4"
    using c' by (auto simp: close_step_def split: if_splits)
  then show ?thesis
    using c' inv sh [of "co_channel c"]
    by cases (auto simp: close_step_def conn_inv_def teardown_order_def eval_nat_numeral split: if_splits)
qed (use inv step in \<open>auto simp: conn_outcomes_def conn_inv_def OnMessage_def OnClose_def shutdown_def teardown_order_def split: if_splits\<close>)

lemma conn_inv_run:
  assumes "runs (conn_outcomes unmarshal) (newConn NewClient NewChannel) evs c"
  shows "conn_inv c"
  using assms
proof (rule runs_invariant)
  show "conn_inv (newConn NewClient NewChannel)"
    by (simp add: conn_inv_def newConn_def NewClient_wf NewChannel_def)
qed (rule conn_inv_step)

section \<open>Closing a connection\<close>

lemma pump_ends:
  assumes "co_pump c \<noteq> PumpDone \<longrightarrow> co_pump c = PumpRecv" and "cl_crashed (co_client c) = None" and "co_ctx c \<noteq> None"
  shows "\<exists>evs c1. runs (conn_outcomes unmarshal) c evs c1 \<and> co_pump c1 = PumpDone \<and> co_log c1 = co_log c"
proof (cases "co_pump c = PumpDone")
  case True
  then show ?thesis by (intro exI [of _ "[]"] exI [of _ c]) (simp add: run_nil)
next
  case False
  obtain e where e: "co_ctx c = Some e" using assms(3) by blast
  let ?c1 = "c\<lparr>co_client := failAll (co_client c) (CtxErr e), co_pump := PumpDone, co_attachErr := attach_exit (CtxErr e)\<rparr>"
  have "(co_channel c, Inl (CtxErr e)) \<in> set (Recv (co_channel c) (co_ctx c))" using e by (simp add: Recv_def)
  then have "?c1 \<in> set (conn_outcomes unmarshal c CoPump)"
    using False assms(1,2) by (force simp: conn_outcomes_def pump_step_def)
  then have "runs (conn_outcomes unmarshal) c [CoPump] ?c1" by (rule runs_one)
  then show ?thesis by (intro exI [of _ "[CoPump]"] exI [of _ ?c1]) simp
qed

lemma close_finishes:
  "co_pump c = PumpDone \<Longrightarrow> 1 \<le> length (co_log c) \<Longrightarrow> length (co_log c) + n = 5 \<Longrightarrow>
     \<exists>c1. runs (conn_outcomes unmarshal) c (replicate n CoStep) c1 \<and> conn_closed c1"
proof (induction n arbitrary: c)
  case 0
  then show ?case using run_nil by (force simp: conn_closed_def)
next
  case (Suc n)
  then have "length (co_log c) \<in> {1, 2, 3, 4}" by auto
  then obtain c1 where c1: "c1 \<in> set (conn_outcomes unmarshal c CoStep)" "co_pump c1 = PumpDone"
    "length (co_log c1) = Suc (length (co_log c))"
    using Suc.prems(1) by (auto simp: conn_outcomes_def close_step_def)
  with Suc.prems(3) Suc.IH [of c1] obtain c2 where "runs (conn_outcomes unmarshal) c1 (replicate n CoStep) c2" "conn_closed c2" by auto
  moreover from this(1) c1(1) have "runs (conn_outcomes unmarshal) c (CoStep # replicate n CoStep) c2" by (rule runs_Cons)
  ultimately show ?case by auto
qed

lemma runs_trans: "runs out s evs s1 \<Longrightarrow> runs out s1 evs' s2 \<Longrightarrow> runs out s (evs @ evs') s2"
  unfolding finals_runs [symmetric] by (auto simp: finals_append)

text \<open>
  C28: The teardown of a connection. In every run \<open>Close\<close> has done an initial part of: cancel the pump, wait for
  it, close the channel, the peer, the session; when it has returned the pump has ended and the channel is
  closed, and calling it again does nothing. Once the pump has ended, \<open>Err\<close> is an error, also after a clean
  close. A \<open>Close\<close> that has been called can return whenever the pump is not blocked in a delivery and has not
  panicked.
\<close>

theorem conn_teardown:
  assumes "runs (conn_outcomes unmarshal) (newConn NewClient NewChannel) evs c"
  shows "prefix (co_log c) [TdCancel, TdPump, TdChannel, TdPeer, TdSession]
    \<and> (conn_closed c \<longrightarrow> co_pump c = PumpDone \<and> ch_closed (co_channel c) \<and> conn_outcomes unmarshal c CoClose = [c])
    \<and> (co_pump c = PumpDone \<longrightarrow> conn_Err c \<noteq> None)
    \<and> (co_log c \<noteq> [] \<and> (\<forall>sid p. co_pump c \<noteq> PumpDeliver sid p) \<and> cl_crashed (co_client c) = None \<longrightarrow>
        (\<exists>evs' c'. runs (conn_outcomes unmarshal) c evs' c' \<and> conn_closed c'))"
proof -
  note inv = conn_inv_run [OF assms, unfolded conn_inv_def]
  have "prefix (co_log c) teardown_order" using inv take_is_prefix [of "length (co_log c)" teardown_order] by simp
  moreover from this have len: "length (co_log c) \<le> 5" by (auto dest: prefix_length_le simp: teardown_order_def)
  moreover have "conn_closed c \<longrightarrow> co_pump c = PumpDone \<and> ch_closed (co_channel c) \<and> conn_outcomes unmarshal c CoClose = [c]"
    using inv by (auto simp: conn_closed_def conn_outcomes_def)
  moreover have "co_pump c = PumpDone \<longrightarrow> conn_Err c \<noteq> None" using inv by (simp add: conn_Err_def)
  moreover have "\<exists>evs' c'. runs (conn_outcomes unmarshal) c evs' c' \<and> conn_closed c'"
    if free: "co_log c \<noteq> [] \<and> (\<forall>sid p. co_pump c \<noteq> PumpDeliver sid p) \<and> cl_crashed (co_client c) = None"
  proof -
    have ctx: "co_ctx c \<noteq> None" using inv free by simp
    have pump: "co_pump c \<noteq> PumpDone \<longrightarrow> co_pump c = PumpRecv" using free by (cases "co_pump c") auto
    obtain evs1 c1 where c1: "runs (conn_outcomes unmarshal) c evs1 c1" "co_pump c1 = PumpDone" "co_log c1 = co_log c"
      using pump_ends [OF pump free [THEN conjunct2, THEN conjunct2] ctx, of unmarshal] by (elim exE conjE)
    obtain n where n: "length (co_log c1) + n = 5" using len c1(3) le_Suc_ex by metis
    have "1 \<le> length (co_log c1)" using free c1(3) by (cases "co_log c") auto
    then obtain c2 where c2: "runs (conn_outcomes unmarshal) c1 (replicate n CoStep) c2" "conn_closed c2"
      using close_finishes [OF c1(2) _ n, of unmarshal] by (elim meta_impE exE conjE)
    from runs_trans [OF c1(1) c2(1)] c2(2) show ?thesis by (intro exI conjI)
  qed
  ultimately show ?thesis by (simp add: teardown_order_def)
qed

definition close_run :: "(conn_event \<times> nat) list" where
  "close_run = map (\<lambda>e. (e, 0)) [CoClose, CoPump, CoStep, CoStep, CoStep, CoStep]"

theorem conn_teardown_witness:
  "\<exists>c. runs (conn_outcomes (\<lambda>_. None)) (newConn NewClient NewChannel) (map fst close_run) c
     \<and> conn_closed c \<and> co_pump c = PumpDone \<and> conn_Err c \<noteq> None"
proof -
  obtain c where c: "play (conn_outcomes (\<lambda>_. None)) (newConn NewClient NewChannel) close_run = Some c" "conn_closed c"
    by (simp add: close_run_def conn_outcomes_def newConn_def NewClient_def NewChannel_def pump_step_def Recv_def
        close_step_def Close_def shutdown_def failAll_def attach_exit_def conn_closed_def)
  from conn_teardown [OF play_runs [OF c(1)]] c play_runs [OF c(1)] show ?thesis by blast
qed

text \<open>
  A connection that cannot be closed. While the pump is blocked delivering to a stream whose queue is full
  and which has not ended, nothing but the stream's own caller taking a message lets \<open>Close\<close> return: it has
  cancelled the pump's context, which the delivery does not look at, and waits for the pump.
\<close>

theorem Conn_Close_hangs:
  assumes "runs (conn_outcomes unmarshal) (newConn NewClient NewChannel) evs c"
    and "co_pump c = PumpDeliver sid p" and "cl_heap (co_client c) sid = Some cs"
    and "length (cs_inbound cs) = respCap" and "\<not> cs_end cs"
    and "runs (conn_outcomes unmarshal) c evs' c'" and "\<forall>e. CoCall e \<in> set evs' \<longrightarrow> \<not> touches sid e"
  shows "co_pump c' = PumpDeliver sid p \<and> \<not> conn_closed c' \<and> \<not> ch_dcClosed (co_channel c')"
proof -
  let ?P = "\<lambda>c. client_wf (co_client c) \<and> co_pump c = PumpDeliver sid p \<and> length (co_log c) \<le> 1
    \<and> view (co_client c) sid = Some (cs_inbound cs, False) \<and> \<not> ch_dcClosed (co_channel c)"
  have keep: "\<not> ch_dcClosed (co_channel c) \<or> 3 \<le> length (co_log c)"
    using assms(1)
  proof (rule runs_invariant)
    show "\<not> ch_dcClosed (co_channel (newConn NewClient NewChannel)) \<or> 3 \<le> length (co_log (newConn NewClient NewChannel))"
      by (simp add: newConn_def NewChannel_def)
    show "\<not> ch_dcClosed (co_channel c2) \<or> 3 \<le> length (co_log c2)"
      if prev: "\<not> ch_dcClosed (co_channel c1) \<or> 3 \<le> length (co_log c1)" and st: "c2 \<in> set (conn_outcomes unmarshal c1 ev)" for c1 c2 ev
    proof -
      have same: "(ch, r) \<in> set (Recv (co_channel c1) x) \<Longrightarrow> ch_dcClosed ch = ch_dcClosed (co_channel c1)" for ch r x
        by (auto simp: Recv_def split: if_splits)
      have "(\<not> ch_dcClosed (co_channel c2) \<or> 3 \<le> length (co_log c2))" if "ev = CoPump"
        using prev st that same
        by (fastforce simp: conn_outcomes_def pump_step_def split: if_splits conn_pump.splits sum.splits option.splits pump_next.splits)
      with prev st show ?thesis
        by (cases ev) (auto simp: conn_outcomes_def OnMessage_def OnClose_def shutdown_def close_step_def split: if_splits)
    qed
  qed
  note inv = conn_inv_run [OF assms(1), unfolded conn_inv_def]
  have "?P c"
    using inv assms(2-5) keep by (auto simp: view_def not_le)
  with assms(6) have "?P c'"
  proof (rule runs_invariant)
    fix c1 c2 ev assume P: "?P c1" and ev: "ev \<in> set evs'" and step: "c2 \<in> set (conn_outcomes unmarshal c1 ev)"
    show "?P c2"
    proof (cases ev)
      case (CoCall e)
      then obtain cl where "c2 = c1\<lparr>co_client := cl\<rparr>" "cl \<in> set (client_outcomes (co_client c1) e)"
        using step by (auto simp: conn_outcomes_def split: if_splits)
      moreover have "\<not> touches sid e" using assms(7) ev CoCall by blast
      ultimately show ?thesis
        using P view_untouched [of "co_client c1" sid cl e] client_outcomes_keeps [of "co_client c1" cl e]
        by (auto simp: keeps_def)
    next
      case CoPump
      have "client_deliver (co_client c1) sid p = []" using P assms(4) by (simp add: client_deliver_view)
      with CoPump P step show ?thesis by (simp add: conn_outcomes_def pump_step_def split: if_splits)
    next
      case CoStep
      with P step show ?thesis by (auto simp: conn_outcomes_def close_step_def split: if_splits)
    qed (use P step in \<open>auto simp: conn_outcomes_def OnMessage_def OnClose_def shutdown_def split: if_splits\<close>)
  qed
  then show ?thesis by (auto simp: conn_closed_def)
qed

abbreviation flood_step :: "conn \<Rightarrow> conn_event \<Rightarrow> conn list" where
  "flood_step \<equiv> conn_outcomes (\<lambda>_. Some demo_msg)"

lemma flood_message:
  assumes "flooded cl n"
  shows "dispatch_start cl demo_msg = PnDeliver cl 0 [1]"
  using assms by (auto simp: flooded_def dispatch_start_def demo_msg_def Let_def)

lemma flood_arrive:
  assumes "flooded cl n"
  shows "runs flood_step (newConn cl NewChannel) [CoArrive [], CoPump] ((newConn cl NewChannel)\<lparr>co_pump := PumpDeliver 0 [1]\<rparr>)"
  using assms flood_message [OF assms]
  by (intro runs_Cons [OF runs_one, of _ _ "(newConn cl NewChannel)\<lparr>co_channel := NewChannel\<lparr>ch_recv := [[]]\<rparr>\<rparr>"])
    (simp_all add: conn_outcomes_def newConn_def NewChannel_def OnMessage_def recvCap_def pump_step_def Recv_def flooded_def)

lemma flood_round:
  assumes "flooded cl n" and "n < respCap"
  shows "\<exists>cl'. runs flood_step (newConn cl NewChannel) [CoArrive [], CoPump, CoPump] (newConn cl' NewChannel) \<and> flooded cl' (Suc n)"
proof -
  obtain cl' where cl': "cl' \<in> set (client_deliver cl 0 [1])" "flooded cl' (Suc n)"
    using assms by (auto simp: flooded_def client_deliver_def set_cs_def)
  have "newConn cl' NewChannel \<in> set (flood_step ((newConn cl NewChannel)\<lparr>co_pump := PumpDeliver 0 [1]\<rparr>) CoPump)"
    using cl'(1) assms(1) by (auto simp: conn_outcomes_def pump_step_def newConn_def flooded_def)
  from runs_trans [OF flood_arrive [OF assms(1)] runs_one [of _ flood_step, OF this]] cl'(2) show ?thesis by auto
qed

lemma flood_full:
  "flooded cl n \<Longrightarrow> n + k = respCap \<Longrightarrow> \<exists>evs cl'. runs flood_step (newConn cl NewChannel) evs (newConn cl' NewChannel) \<and> flooded cl' respCap"
proof (induction k arbitrary: cl n)
  case 0
  then show ?case using run_nil by fastforce
next
  case (Suc k)
  then obtain cl1 where 1: "runs flood_step (newConn cl NewChannel) [CoArrive [], CoPump, CoPump] (newConn cl1 NewChannel)"
    "flooded cl1 (Suc n)"
    using flood_round [of cl n] by auto
  with Suc.IH [of cl1 "Suc n"] Suc.prems(2) obtain evs cl' where
    "runs flood_step (newConn cl1 NewChannel) evs (newConn cl' NewChannel)" "flooded cl' respCap" by auto
  with runs_trans [OF 1(1)] show ?case by blast
qed

theorem Conn_Close_hangs_witness:
  "\<exists>evs c c'. runs flood_step (newConn NewClient NewChannel) evs c \<and> runs flood_step c [CoClose] c'
     \<and> \<not> conn_closed c'"
proof -
  obtain c1 where c1: "client_outcomes NewClient (CevUnary demo_ctx ''/s/m'' [7]) = [c1]" "flooded c1 0"
    by (simp add: client_eval demo_ctx_def flooded_def)
  have "newConn c1 NewChannel \<in> set (flood_step (newConn NewClient NewChannel) (CoCall (CevUnary demo_ctx ''/s/m'' [7])))"
    using c1(1) by (simp add: conn_outcomes_def newConn_def)
  then have r1: "runs flood_step (newConn NewClient NewChannel) [CoCall (CevUnary demo_ctx ''/s/m'' [7])] (newConn c1 NewChannel)"
    by (rule runs_one)
  obtain evs cl where full: "runs flood_step (newConn c1 NewChannel) evs (newConn cl NewChannel)" "flooded cl respCap"
    using flood_full [OF c1(2), of respCap] by auto
  obtain cs where cs: "cl_heap cl 0 = Some cs" "length (cs_inbound cs) = respCap" "\<not> cs_end cs"
    using full(2) by (auto simp: flooded_def)
  let ?c = "(newConn cl NewChannel)\<lparr>co_pump := PumpDeliver 0 [1]\<rparr>"
  let ?c' = "?c\<lparr>co_ctx := Some Canceled, co_log := [TdCancel]\<rparr>"
  have r: "runs flood_step (newConn NewClient NewChannel)
      ([CoCall (CevUnary demo_ctx ''/s/m'' [7])] @ evs @ [CoArrive [], CoPump]) ?c"
    by (rule runs_trans [OF r1 runs_trans [OF full(1) flood_arrive [OF full(2)]]])
  have r': "runs flood_step ?c [CoClose] ?c'"
    by (rule runs_one) (simp add: conn_outcomes_def newConn_def)
  have "\<not> conn_closed ?c'"
    using Conn_Close_hangs [OF r _ _ cs(2,3) r', of 0 "[1]"] cs(1) by (simp add: newConn_def)
  with r r' show ?thesis by blast
qed

end
