(* ===== verification/Listener.thy ===== *)
theory Listener
  imports Go_Prelude
begin

text \<open>
  The table of a listener (\<open>Listener\<close> in \<open>peerrpc/listen.go\<close>, \<open>ServerConn\<close> in \<open>peerrpc/server_conn.go\<close>): which
  accepted connections it tracks and which its \<open>Close\<close> closes, with any number of concurrent \<open>Accept\<close>s. Each
  step is one critical section or one channel operation of the code; what an \<open>Accept\<close> opens on the way is in
  \<open>Facade\<close>.
\<close>

section \<open>State and steps\<close>

record server_conn =
  sc_peerID :: string
  sc_open :: bool

text \<open>
  \<open>ln_accepting\<close> counts the \<open>Accept\<close> calls past their closed check, \<open>ln_untracked\<close> are the connections
  they have made and not yet tracked.
\<close>

record listener =
  ln_once :: bool
  ln_closed :: bool
  ln_conns :: "(string \<rightharpoonup> nat) option"
  ln_objs :: "nat \<Rightarrow> server_conn option"
  ln_next :: nat
  ln_accepting :: nat
  ln_untracked :: "nat list"

definition new_listener :: listener where
  "new_listener = \<lparr>ln_once = False, ln_closed = False, ln_conns = Some Map.empty, ln_objs = (\<lambda>_. None), ln_next = 0,
     ln_accepting = 0, ln_untracked = []\<rparr>"

definition ErrListenerClosed :: go_error where
  "ErrListenerClosed = ErrNew ''peerrpc: listener closed''"

definition sc_Close :: "server_conn \<Rightarrow> server_conn" where
  "sc_Close c = c\<lparr>sc_open := False\<rparr>"

definition close_objs :: "nat set \<Rightarrow> (nat \<Rightarrow> server_conn option) \<Rightarrow> nat \<Rightarrow> server_conn option" where
  "close_objs ids objs = (\<lambda>i. if i \<in> ids then map_option sc_Close (objs i) else objs i)"

definition track :: "listener \<Rightarrow> nat \<Rightarrow> listener" where
  "track l i = (case (ln_conns l, ln_objs l i) of
      (Some conns, Some c) \<Rightarrow> l\<lparr>ln_conns := Some (conns(sc_peerID c \<mapsto> i))\<rparr>
    | _ \<Rightarrow> l)"

definition untrack :: "listener \<Rightarrow> nat \<Rightarrow> listener" where
  "untrack l i = (case (ln_conns l, ln_objs l i) of
      (Some conns, Some c) \<Rightarrow> l\<lparr>ln_conns := Some (conns(sc_peerID c := None))\<rparr>
    | _ \<Rightarrow> l)"

datatype listener_event =
    LnAccept
  | LnAcceptFailed
  | LnAccepted string
  | LnTrack nat
  | LnServeDone nat
  | LnClose
  | LnSweep
  | LnConnClose nat

text \<open>
  \<open>LnServeDone\<close> is the deferred \<open>untrack\<close> of the goroutine that \<open>Serve\<close> starts; \<open>LnClose\<close> and \<open>LnSweep\<close> are
  the two parts of the body of \<open>Close\<close>; \<open>LnConnClose\<close> is a \<open>Close\<close> of the connection by its user.
\<close>

definition listener_outcomes :: "listener \<Rightarrow> listener_event \<Rightarrow> listener list" where
  "listener_outcomes l ev =
     (case ev of
        LnAccept \<Rightarrow> if ln_closed l then [l] else [l\<lparr>ln_accepting := Suc (ln_accepting l)\<rparr>]
      | LnAcceptFailed \<Rightarrow> if ln_accepting l = 0 then [] else [l\<lparr>ln_accepting := ln_accepting l - 1\<rparr>]
      | LnAccepted pid \<Rightarrow>
          if ln_accepting l = 0 then []
          else [l\<lparr>ln_accepting := ln_accepting l - 1, ln_next := Suc (ln_next l),
                  ln_objs := (ln_objs l)(ln_next l \<mapsto> \<lparr>sc_peerID = pid, sc_open = True\<rparr>),
                  ln_untracked := ln_untracked l @ [ln_next l]\<rparr>]
      | LnTrack i \<Rightarrow>
          if i \<in> set (ln_untracked l) then [(track l i)\<lparr>ln_untracked := remove1 i (ln_untracked l)\<rparr>] else []
      | LnServeDone i \<Rightarrow> if ln_objs l i = None then [] else [untrack l i]
      | LnClose \<Rightarrow> if ln_once l then [l] else [l\<lparr>ln_once := True, ln_closed := True\<rparr>]
      | LnSweep \<Rightarrow>
          (case ln_conns l of
             None \<Rightarrow> []
           | Some conns \<Rightarrow> if ln_once l
               then [l\<lparr>ln_objs := close_objs (ran conns) (ln_objs l), ln_conns := None\<rparr>] else [])
      | LnConnClose i \<Rightarrow>
          (case ln_objs l i of None \<Rightarrow> [] | Some c \<Rightarrow> [l\<lparr>ln_objs := (ln_objs l)(i \<mapsto> sc_Close c)\<rparr>]))"

definition is_open :: "listener \<Rightarrow> nat \<Rightarrow> bool" where
  "is_open l i \<longleftrightarrow> (\<exists>c. ln_objs l i = Some c \<and> sc_open c)"

section \<open>What Close closes\<close>

definition listener_wf :: "listener \<Rightarrow> bool" where
  "listener_wf l \<longleftrightarrow> (\<forall>i. ln_objs l i \<noteq> None \<longleftrightarrow> i < ln_next l) \<and> (ln_conns l = None \<longrightarrow> ln_closed l)
     \<and> (ln_once l \<longrightarrow> ln_closed l)"

lemma track_frame: "ln_objs (track l i) = ln_objs l \<and> ln_next (track l i) = ln_next l \<and> ln_closed (track l i) = ln_closed l
    \<and> ln_once (track l i) = ln_once l \<and> (ln_conns (track l i) = None \<longleftrightarrow> ln_conns l = None)"
  by (auto simp: track_def split: option.split)

lemma untrack_frame: "ln_objs (untrack l i) = ln_objs l \<and> ln_next (untrack l i) = ln_next l
    \<and> ln_closed (untrack l i) = ln_closed l \<and> ln_once (untrack l i) = ln_once l
    \<and> (ln_conns (untrack l i) = None \<longleftrightarrow> ln_conns l = None)"
  by (auto simp: untrack_def split: option.split)

lemma listener_wf_step:
  assumes "listener_wf l" and "l' \<in> set (listener_outcomes l ev)"
  shows "listener_wf l'"
proof (cases ev)
  case (LnConnClose i)
  with assms show ?thesis by (auto simp: listener_outcomes_def listener_wf_def split: option.splits if_splits)
next
  case LnSweep
  with assms show ?thesis by (auto simp: listener_outcomes_def listener_wf_def close_objs_def split: option.splits if_splits)
qed (use assms track_frame untrack_frame in \<open>auto simp: listener_outcomes_def listener_wf_def split: if_splits\<close>)

lemma listener_wf_run:
  assumes "runs listener_outcomes new_listener evs l"
  shows "listener_wf l"
  using assms
proof (rule runs_invariant)
  show "listener_wf new_listener" by (simp add: listener_wf_def new_listener_def)
qed (rule listener_wf_step)

text \<open>After the sweep only an acceptance opens a connection and only its user closes one.\<close>

lemma swept_step:
  assumes "l' \<in> set (listener_outcomes l ev)" and "listener_wf l" and "ln_conns l = None"
  shows "ln_conns l' = None \<and>
    (case ev of
       LnAccepted pid \<Rightarrow> ln_next l' = Suc (ln_next l) \<and> (\<forall>i. is_open l' i \<longleftrightarrow> i = ln_next l \<or> is_open l i)
     | LnConnClose j \<Rightarrow> j < ln_next l \<and> ln_next l' = ln_next l \<and> (\<forall>i. is_open l' i \<longleftrightarrow> i \<noteq> j \<and> is_open l i)
     | _ \<Rightarrow> ln_next l' = ln_next l \<and> (\<forall>i. is_open l' i \<longleftrightarrow> is_open l i))"
proof (cases ev)
  case (LnConnClose j)
  with assms show ?thesis
    by (auto simp: listener_outcomes_def listener_wf_def is_open_def sc_Close_def split: option.splits if_splits)
next
  case (LnAccepted pid)
  with assms show ?thesis by (auto simp: listener_outcomes_def is_open_def split: if_splits)
qed (use assms track_frame [of l] untrack_frame [of l] in
    \<open>auto simp: listener_outcomes_def is_open_def split: if_splits\<close>)

lemma is_open_next: "listener_wf l \<Longrightarrow> is_open l i \<Longrightarrow> i < ln_next l"
  by (auto simp: is_open_def listener_wf_def)

lemma open_after_sweep:
  assumes "runs listener_outcomes l1 evs l2" and "listener_wf l1" and "ln_conns l1 = None"
  shows "listener_wf l2 \<and> ln_conns l2 = None \<and> ln_next l1 \<le> ln_next l2 \<and>
    (\<forall>i. LnConnClose i \<in> set evs \<longrightarrow> i < ln_next l2) \<and>
    (\<forall>i. is_open l2 i \<longleftrightarrow> i < ln_next l2 \<and> LnConnClose i \<notin> set evs \<and> (ln_next l1 \<le> i \<or> is_open l1 i))"
  using assms
proof (induction rule: runs.induct)
  case (run_nil l)
  then show ?case using is_open_next [of l] by auto
next
  case (run_step l1 evs l2 l3 ev)
  note IH = run_step.IH [OF run_step.prems]
  have wf: "listener_wf l3" using IH [THEN conjunct1] run_step.hyps(2) by (rule listener_wf_step)
  have sw: "ln_conns l3 = None \<and>
    (case ev of
       LnAccepted pid \<Rightarrow> ln_next l3 = Suc (ln_next l2) \<and> (\<forall>i. is_open l3 i \<longleftrightarrow> i = ln_next l2 \<or> is_open l2 i)
     | LnConnClose j \<Rightarrow> j < ln_next l2 \<and> ln_next l3 = ln_next l2 \<and> (\<forall>i. is_open l3 i \<longleftrightarrow> i \<noteq> j \<and> is_open l2 i)
     | _ \<Rightarrow> ln_next l3 = ln_next l2 \<and> (\<forall>i. is_open l3 i \<longleftrightarrow> is_open l2 i))"
    by (rule swept_step [OF run_step.hyps(2) IH [THEN conjunct1] IH [THEN conjunct2, THEN conjunct1]])
  note n = IH [THEN conjunct2, THEN conjunct2, THEN conjunct1]
  note c = IH [THEN conjunct2, THEN conjunct2, THEN conjunct2, THEN conjunct1, rule_format]
  note o = IH [THEN conjunct2, THEN conjunct2, THEN conjunct2, THEN conjunct2, rule_format]
  consider (accepted) "ln_next l3 = Suc (ln_next l2)" "\<And>i. is_open l3 i \<longleftrightarrow> i = ln_next l2 \<or> is_open l2 i" "\<And>i. ev \<noteq> LnConnClose i"
    | (closed) j where "ev = LnConnClose j" "j < ln_next l2" "ln_next l3 = ln_next l2" "\<And>i. is_open l3 i \<longleftrightarrow> i \<noteq> j \<and> is_open l2 i"
    | (other) "ln_next l3 = ln_next l2" "\<And>i. is_open l3 i \<longleftrightarrow> is_open l2 i" "\<And>i. ev \<noteq> LnConnClose i"
    using sw by (cases ev) simp_all
  then show ?case
  proof cases
    case accepted
    have "is_open l3 i \<longleftrightarrow> i < ln_next l3 \<and> LnConnClose i \<notin> set (evs @ [ev]) \<and> (ln_next l1 \<le> i \<or> is_open l1 i)" for i
      using accepted o [of i] c [of i] n by (auto simp: less_Suc_eq)
    moreover have "LnConnClose i \<in> set (evs @ [ev]) \<Longrightarrow> i < ln_next l3" for i
      using accepted c [of i] by auto
    ultimately show ?thesis using wf sw n accepted(1) by simp
  next
    case closed
    have "is_open l3 i \<longleftrightarrow> i < ln_next l3 \<and> LnConnClose i \<notin> set (evs @ [ev]) \<and> (ln_next l1 \<le> i \<or> is_open l1 i)" for i
      using closed o [of i] by auto
    moreover have "LnConnClose i \<in> set (evs @ [ev]) \<Longrightarrow> i < ln_next l3" for i
      using closed c [of i] by auto
    ultimately show ?thesis using wf sw n closed(3) by simp
  next
    case other
    have "LnConnClose i \<in> set (evs @ [ev]) \<longleftrightarrow> LnConnClose i \<in> set evs" for i
      using other(3) [of i] by auto
    with wf sw n c o other(1,2) show ?thesis by simp
  qed
qed

text \<open>
  C29: What closing a listener closes. Closing sweeps its table once: the connections in the table at that
  moment are closed, nothing enters the table any more, and no connection is closed later by the listener. So a
  connection stays open until its user closes it exactly when it was open and not in the table at the sweep
  (its serving goroutine has removed it, or another connection with its peer id has displaced it), or when its
  \<open>Accept\<close> returns after the sweep.
\<close>

theorem listener_close_sweep:
  assumes "runs listener_outcomes new_listener evs l" and "ln_conns l = Some conns"
    and "l1 \<in> set (listener_outcomes l LnSweep)" and "runs listener_outcomes l1 evs' l2"
  shows "ln_conns l2 = None \<and> (is_open l2 i \<longleftrightarrow> i < ln_next l2 \<and> LnConnClose i \<notin> set evs'
      \<and> (ln_next l \<le> i \<or> is_open l i \<and> i \<notin> ran conns))"
proof -
  have l1: "l1 = l\<lparr>ln_objs := close_objs (ran conns) (ln_objs l), ln_conns := None\<rparr>"
    using assms(2,3) by (auto simp: listener_outcomes_def split: if_splits)
  have "listener_wf l1" using listener_wf_run [OF assms(1)] assms(3) by (rule listener_wf_step)
  moreover have "is_open l1 j \<longleftrightarrow> is_open l j \<and> j \<notin> ran conns" for j
    by (auto simp: l1 is_open_def close_objs_def sc_Close_def)
  ultimately show ?thesis using open_after_sweep [OF assms(4)] by (simp add: l1)
qed

definition listener_leak :: "(listener_event \<times> nat) list" where
  "listener_leak = map (\<lambda>e. (e, 0)) [LnAccept, LnAccepted ''p'', LnTrack 0, LnAccept, LnClose]"

theorem listener_close_sweep_witness:
  "\<exists>l l1 l2. runs listener_outcomes new_listener (map fst listener_leak) l \<and> l1 \<in> set (listener_outcomes l LnSweep)
     \<and> runs listener_outcomes l1 [LnAccepted ''q'', LnTrack 1] l2 \<and> \<not> is_open l2 0 \<and> is_open l2 1"
proof -
  obtain l conns l1 l2 where l: "play listener_outcomes new_listener listener_leak = Some l" "ln_conns l = Some conns"
    "listener_outcomes l LnSweep = [l1]" "ln_next l = 1" "0 \<in> ran conns"
    and l2: "play listener_outcomes l1 [(LnAccepted ''q'', 0), (LnTrack 1, 0)] = Some l2" "ln_next l2 = 2"
    by (simp add: listener_leak_def listener_outcomes_def new_listener_def track_def)
  then have l1: "l1 \<in> set (listener_outcomes l LnSweep)" by simp
  have r2: "runs listener_outcomes l1 [LnAccepted ''q'', LnTrack 1] l2" using play_runs [OF l2(1)] by simp
  note sweep = listener_close_sweep [OF play_runs [OF l(1)] l(2) l1 r2]
  have "\<not> is_open l2 0" "is_open l2 1" using sweep [of 0] sweep [of 1] l(4,5) l2(2) by auto
  with play_runs [OF l(1)] l1 r2 show ?thesis by blast
qed

end
