(* ===== verification/Observability.thy ===== *)
theory Observability
  imports Rpc_Types "HOL-Library.Char_ord"
begin

text \<open>
  Package \<open>observability\<close>: the status labels and the counters of \<open>metrics.go\<close>, the status code of
  \<open>logging.go\<close>, and the trace headers of \<open>tracing.go\<close>. Prometheus, slog and OpenTelemetry are libraries:
  a counter is a number, a span is a value of any type with the carrier its propagator writes.
\<close>

section \<open>Status labels\<close>

text \<open>The digits are put into a buffer from its end; here they are consed. \<open>i\<close> is an \<open>int32\<close>.\<close>

function itoa_loop :: "int \<Rightarrow> string \<Rightarrow> string" where
  "itoa_loop i b = (if i > 0 then itoa_loop (i div 10) (char_of (48 + nat (i mod 10)) # b) else b)"
  by pat_completeness auto
termination
  by (relation "measure (\<lambda>(i, _). nat i)") auto

declare itoa_loop.simps [simp del]

definition itoa :: "int \<Rightarrow> string" where
  "itoa i =
     (if i = 0 then ''0''
      else let neg = i < 0;
               i1 = (if neg then int32 (- i) else i);
               b = itoa_loop i1 []
           in if neg then CHR ''-'' # b else b)"

definition statusCode :: "rpc_status option \<Rightarrow> int" where
  "statusCode st = (case st of None \<Rightarrow> 0 | Some s \<Rightarrow> st_code s)"

definition codeLabel :: "rpc_status option \<Rightarrow> string" where
  "codeLabel st = (case st of None \<Rightarrow> ''0'' | Some s \<Rightarrow> if st_code s = 0 then ''0'' else itoa (st_code s))"

text \<open>What a decimal label denotes.\<close>

fun digits_value :: "int \<Rightarrow> string \<Rightarrow> int option" where
  "digits_value acc [] = Some acc"
| "digits_value acc (c # cs) =
     (if CHR ''0'' \<le> c \<and> c \<le> CHR ''9'' then digits_value (10 * acc + (of_char c - 48)) cs else None)"

definition label_value :: "string \<Rightarrow> int option" where
  "label_value s =
     (case s of [] \<Rightarrow> None
      | c # cs \<Rightarrow> if c = CHR ''-'' then (if cs = [] then None else map_option uminus (digits_value 0 cs))
                  else digits_value 0 s)"

lemma digit_char:
  assumes "0 \<le> d" and "d < 10"
  shows "CHR ''0'' \<le> char_of (48 + nat d) \<and> char_of (48 + nat d) \<le> CHR ''9'' \<and> of_char (char_of (48 + nat d)) = 48 + d
    \<and> char_of (48 + nat d) \<noteq> CHR ''-''"
proof -
  have "list_all (\<lambda>n. CHR ''0'' \<le> char_of (48 + n) \<and> char_of (48 + n) \<le> CHR ''9'' \<and> of_char (char_of (48 + n)) = 48 + int n
    \<and> char_of (48 + n) \<noteq> CHR ''-'') [0..<10]" by code_simp
  with assms show ?thesis by (auto simp: list_all_iff dest: bspec [of _ _ "nat d"])
qed

lemma digits_value_append: "digits_value acc (xs @ ys) = Option.bind (digits_value acc xs) (\<lambda>a. digits_value a ys)"
  by (induction xs arbitrary: acc) auto

lemma itoa_loop_append: "itoa_loop i b = itoa_loop i [] @ b"
proof (induction "nat i" arbitrary: i b rule: less_induct)
  case less
  show ?case
  proof (cases "i > 0")
    case True
    let ?c = "char_of (48 + nat (i mod 10)) :: char"
    have "nat (i div 10) < nat i" using True by (simp add: nat_less_eq_zless)
    then have "itoa_loop (i div 10) (?c # b) = itoa_loop (i div 10) [] @ ?c # b"
      "itoa_loop (i div 10) [?c] = itoa_loop (i div 10) [] @ [?c]"
      by (rule less)+
    with True show ?thesis by (simp add: itoa_loop.simps [of i])
  qed (simp add: itoa_loop.simps)
qed

lemma itoa_loop_value: "0 < i \<Longrightarrow> digits_value 0 (itoa_loop i []) = Some i \<and> itoa_loop i [] \<noteq> [] \<and> hd (itoa_loop i []) \<noteq> CHR ''-''"
proof (induction "nat i" arbitrary: i rule: less_induct)
  case less
  let ?c = "char_of (48 + nat (i mod 10)) :: char"
  have step: "itoa_loop i [] = itoa_loop (i div 10) [] @ [?c]"
    using less.prems itoa_loop_append [of "i div 10" "[?c]"] by (simp add: itoa_loop.simps [of i])
  note c = digit_char [of "i mod 10"]
  show ?case
  proof (cases "i div 10 > 0")
    case True
    with less.hyps [of "i div 10"] less.prems step c show ?thesis by (simp add: digits_value_append)
  next
    case False
    then have "i < 10" by simp
    moreover have "itoa_loop (i div 10) [] = []" using False by (simp add: itoa_loop.simps)
    ultimately show ?thesis using less.prems step c by simp
  qed
qed

text \<open>
  C40: Status labels. For every \<open>int32\<close> but the smallest, \<open>itoa\<close> is its decimal numeral, so that different status
  codes have different labels; the negation of the smallest wraps around, and its label is a lone minus sign.
\<close>

theorem itoa_correct:
  assumes "- (2 ^ 31) \<le> i" and "i < 2 ^ 31"
  shows "if i = - (2 ^ 31) then itoa i = ''-'' else label_value (itoa i) = Some i"
proof -
  consider "i = - (2 ^ 31)" | "i = 0" | "0 < i" | "- (2 ^ 31) < i" "i < 0" using assms(1) by linarith
  then show ?thesis
  proof cases
    case 1
    moreover have "int32 (2 ^ 31) = - (2 ^ 31)" by (simp add: int32_def signed_take_bit_eq_if_positive take_bit_eq_mod)
    ultimately show ?thesis by (simp add: itoa_def itoa_loop.simps Let_def)
  next
    case 2
    then show ?thesis by (simp add: itoa_def label_value_def)
  next
    case 3
    with itoa_loop_value [OF 3] show ?thesis
      by (cases "itoa_loop i []") (simp_all add: itoa_def label_value_def Let_def)
  next
    case 4
    then have "int32 (- i) = - i" by (intro int32_id) simp_all
    with 4 itoa_loop_value [of "- i"] show ?thesis
      by (cases "itoa_loop (- i) []") (simp_all add: itoa_def label_value_def Let_def)
  qed
qed

theorem itoa_correct_witness: "itoa (- (2 ^ 31)) = ''-'' \<and> label_value (itoa (- 14)) = Some (- 14)"
  using itoa_correct [of "- (2 ^ 31)"] itoa_correct [of "- 14"] by simp

section \<open>Counters\<close>

record metrics =
  mt_total :: "string \<times> string \<Rightarrow> nat"
  mt_inFlight :: "string \<Rightarrow> int"
  mt_durations :: "string \<Rightarrow> nat"

definition metrics_enter :: "string \<Rightarrow> metrics \<Rightarrow> metrics" where
  "metrics_enter path m = m\<lparr>mt_inFlight := (mt_inFlight m)(path := mt_inFlight m path + 1)\<rparr>"

definition metrics_observe :: "string \<Rightarrow> rpc_status option \<Rightarrow> metrics \<Rightarrow> metrics" where
  "metrics_observe path st m =
     m\<lparr>mt_total := (mt_total m)((path, codeLabel st) := mt_total m (path, codeLabel st) + 1),
       mt_durations := (mt_durations m)(path := mt_durations m path + 1)\<rparr>"

definition metrics_leave :: "string \<Rightarrow> metrics \<Rightarrow> metrics" where
  "metrics_leave path m = m\<lparr>mt_inFlight := (mt_inFlight m)(path := mt_inFlight m path - 1)\<rparr>"

text \<open>
  The interceptors around \<open>next\<close>, which changes a state of type \<open>'s\<close> and may panic; the metrics are a
  component of it. The deferred decrement also runs on a panic.
\<close>

definition MetricsServerStream ::
  "((metrics \<Rightarrow> metrics) \<Rightarrow> 's \<Rightarrow> 's) option \<Rightarrow> string \<Rightarrow> ('s \<Rightarrow> 's \<times> rpc_status option go) \<Rightarrow> 's \<Rightarrow> 's \<times> rpc_status option go"
where
  "MetricsServerStream m path next s =
     (case m of
        None \<Rightarrow> next s
      | Some upd \<Rightarrow>
          (case next (upd (metrics_enter path) s) of
             (s1, Panics e) \<Rightarrow> (upd (metrics_leave path) s1, Panics e)
           | (s1, Returns st) \<Rightarrow> (upd (metrics_leave path) (upd (metrics_observe path st) s1), Returns st)))"

definition MetricsUnaryClient ::
  "((metrics \<Rightarrow> metrics) \<Rightarrow> 's \<Rightarrow> 's) option \<Rightarrow> string \<Rightarrow> ('s \<Rightarrow> 's \<times> (bytes option \<times> rpc_status option) go) \<Rightarrow> 's
     \<Rightarrow> 's \<times> (bytes option \<times> rpc_status option) go"
where
  "MetricsUnaryClient m path next s =
     (case m of
        None \<Rightarrow> next s
      | Some upd \<Rightarrow>
          (case next s of
             (s1, Panics e) \<Rightarrow> (s1, Panics e)
           | (s1, Returns (resp, st)) \<Rightarrow> (upd (metrics_observe path st) s1, Returns (resp, st))))"

text \<open>A handler that keeps the gauge leaves it as it was, whether it returns or panics.\<close>

lemma gauge_balanced:
  assumes "\<And>m. fst (next m) = m \<and> snd (next m) = r"
  shows "mt_inFlight (fst (MetricsServerStream (Some (\<lambda>f. f)) path next m)) = mt_inFlight m
    \<and> mt_total (fst (MetricsServerStream (Some (\<lambda>f. f)) path next m)) =
        (case r of Panics _ \<Rightarrow> mt_total m
         | Returns st \<Rightarrow> (mt_total m)((path, codeLabel st) := mt_total m (path, codeLabel st) + 1))"
proof -
  have "next (metrics_enter path m) = (metrics_enter path m, r)" using assms by (simp add: prod_eq_iff)
  then show ?thesis
    by (simp add: MetricsServerStream_def metrics_enter_def metrics_leave_def metrics_observe_def split: go.split)
qed

section \<open>Trace headers\<close>

definition shortMethod :: "string \<Rightarrow> string" where
  "shortMethod path = (case dropWhile (\<lambda>c. c \<noteq> CHR ''/'') path of [] \<Rightarrow> path | _ # rest \<Rightarrow> rest)"

definition headerCarrier_Get :: "metadata \<Rightarrow> string \<Rightarrow> string" where
  "headerCarrier_Get c key = (case c key of Some (v # vs) \<Rightarrow> v | _ \<Rightarrow> [])"

definition headerCarrier_Set :: "metadata \<Rightarrow> string \<Rightarrow> string \<Rightarrow> metadata" where
  "headerCarrier_Set c key val = c(key \<mapsto> [val])"

text \<open>
  Header maps are shared by reference: a heap of maps, and in the context the address of the outgoing one.
  \<open>inject\<close> is the carrier the propagator fills for a span.
\<close>

record header_heap =
  hh_maps :: "nat \<Rightarrow> metadata"
  hh_next :: nat

definition append_carrier :: "metadata \<Rightarrow> metadata \<Rightarrow> metadata" where
  "append_carrier outgoing carrier =
     (\<lambda>k. case carrier k of Some (v # vs) \<Rightarrow> Some (md_values outgoing k @ [v]) | _ \<Rightarrow> outgoing k)"

text \<open>What \<open>TraceUnaryClient\<close> does before \<open>next\<close>: the heap after it and the address in the new context.\<close>

definition TraceUnaryClient_enter ::
  "('span \<Rightarrow> metadata) \<Rightarrow> 'span \<Rightarrow> nat option \<Rightarrow> header_heap \<Rightarrow> header_heap \<times> nat" where
  "TraceUnaryClient_enter inject span ctx h =
     (let (h1, a) = (case ctx of
            Some a \<Rightarrow> (h, a)
          | None \<Rightarrow> (h\<lparr>hh_maps := (hh_maps h)(hh_next h := Map.empty), hh_next := Suc (hh_next h)\<rparr>, hh_next h))
      in (h1\<lparr>hh_maps := (hh_maps h1)(a := append_carrier (hh_maps h1 a) (inject span))\<rparr>, a))"

text \<open>Calls made one after the other with the same context: the metadata each one sends.\<close>

fun traced_calls :: "('span \<Rightarrow> metadata) \<Rightarrow> 'span list \<Rightarrow> nat option \<Rightarrow> header_heap \<Rightarrow> metadata list" where
  "traced_calls inject [] ctx h = []"
| "traced_calls inject (s # ss) ctx h =
     (case TraceUnaryClient_enter inject s ctx h of
        (h1, a) \<Rightarrow> metadataFromKV (Some (hh_maps h1 a)) # traced_calls inject ss ctx h1)"

lemma traced_shared:
  assumes "\<And>s. inject s key = Some [tp s]"
  shows "length (traced_calls inject ss (Some a) h) = length ss \<and> (\<forall>i < length ss.
    md_values (traced_calls inject ss (Some a) h ! i) key = md_values (hh_maps h a) key @ map tp (take (Suc i) ss))"
proof (induction ss arbitrary: h)
  case (Cons s ss)
  let ?h1 = "h\<lparr>hh_maps := (hh_maps h)(a := append_carrier (hh_maps h a) (inject s))\<rparr>"
  have e: "TraceUnaryClient_enter inject s (Some a) h = (?h1, a)" by (simp add: TraceUnaryClient_enter_def)
  have m: "md_values (hh_maps ?h1 a) key = md_values (hh_maps h a) key @ [tp s]"
    using assms by (simp add: append_carrier_def md_values_def)
  have "md_values (traced_calls inject (s # ss) (Some a) h ! i) key = md_values (hh_maps h a) key @ map tp (take (Suc i) (s # ss))"
    if "i < length (s # ss)" for i
    using that Cons.IH [of ?h1] m e by (cases i) simp_all
  with e Cons.IH [of ?h1] show ?case by simp
qed simp

lemma traced_fresh:
  assumes "\<And>s. inject s key = Some [tp s]"
  shows "length (traced_calls inject ss None h) = length ss \<and> (\<forall>i < length ss.
    md_values (traced_calls inject ss None h ! i) key = [tp (ss ! i)])"
proof (induction ss arbitrary: h)
  case (Cons s ss)
  obtain h1 where e: "TraceUnaryClient_enter inject s None h = (h1, hh_next h)"
    "md_values (hh_maps h1 (hh_next h)) key = [tp s]"
    using assms by (simp add: TraceUnaryClient_enter_def Let_def append_carrier_def md_values_def)
  have "md_values (traced_calls inject (s # ss) None h ! i) key = [tp ((s # ss) ! i)]" if "i < length (s # ss)" for i
    using that Cons.IH [of h1] e by (cases i) simp_all
  with e Cons.IH [of h1] show ?case by simp
qed simp

lemma Get_md_values: "headerCarrier_Get c key = (case md_values c key of [] \<Rightarrow> [] | v # _ \<Rightarrow> v)"
  by (auto simp: headerCarrier_Get_def md_values_def split: option.split list.split)

text \<open>
  C39: Which span a traced call joins. The client interceptor appends its trace header to the outgoing header map
  of the context, in place, and the server reads the first value. So calls made with a context that carries
  no outgoing headers join each its own span; but when the context carries a header map, every call made with it
  joins the span of the first one (or a trace header that was there before), and the \<open>n\<close>-th call sends \<open>n\<close> of
  them.
\<close>

theorem trace_context_reused:
  assumes "\<And>s. inject s ''traceparent'' = Some [tp s]" and "i < length spans"
  shows "headerCarrier_Get (traced_calls inject spans None h ! i) ''traceparent'' = tp (spans ! i)
    \<and> md_values (traced_calls inject spans (Some a) h ! i) ''traceparent'' =
        md_values (hh_maps h a) ''traceparent'' @ map tp (take (Suc i) spans)
    \<and> headerCarrier_Get (traced_calls inject spans (Some a) h ! i) ''traceparent'' =
        (case md_values (hh_maps h a) ''traceparent'' of [] \<Rightarrow> tp (spans ! 0) | v # _ \<Rightarrow> v)"
proof -
  have "map tp (take (Suc i) spans) = tp (spans ! 0) # map tp (take i (tl spans))"
    using assms(2) by (cases spans) simp_all
  with traced_shared [of inject "''traceparent''" tp spans a h] traced_fresh [of inject "''traceparent''" tp spans h] assms
  show ?thesis by (auto simp: Get_md_values split: list.split)
qed

theorem trace_context_reused_witness:
  "headerCarrier_Get (traced_calls (\<lambda>s. [''traceparent'' \<mapsto> [s]]) [''s1'', ''s2''] (Some 0)
     \<lparr>hh_maps = (\<lambda>_. Map.empty), hh_next = 1\<rparr> ! 1) ''traceparent'' = ''s1''"
  using trace_context_reused [of "\<lambda>s. [''traceparent'' \<mapsto> [s]]" "\<lambda>s. s" 1 "[''s1'', ''s2'']" "\<lparr>hh_maps = (\<lambda>_. Map.empty), hh_next = 1\<rparr>" 0]
  by (simp add: md_values_def)

end
