(* ===== verification/Strconv.thy ===== *)
theory Strconv
  imports Url
begin

text \<open>
  What the sources use of \<open>strconv\<close> and of the \<open>%d\<close> verb: decimal numerals of natural numbers, and
  \<open>ParseInt(s, 10, 64)\<close>, which \<open>Atoi\<close> is on a 64-bit platform. \<open>None\<close> is any error.
\<close>

section \<open>Definitions\<close>

definition digit_of :: "nat \<Rightarrow> char" where
  "digit_of d = char_of (48 + d)"

fun show_nat :: "nat \<Rightarrow> string" where
  "show_nat n = (if n < 10 then [digit_of n] else show_nat (n div 10) @ [digit_of (n mod 10)])"

declare show_nat.simps [simp del]

fun digits_nat :: "nat \<Rightarrow> string \<Rightarrow> nat option" where
  "digits_nat acc [] = Some acc"
| "digits_nat acc (c # cs) =
     (if CHR ''0'' \<le> c \<and> c \<le> CHR ''9'' then digits_nat (10 * acc + (of_char c - 48)) cs else None)"

definition ParseInt64 :: "string \<Rightarrow> int option" where
  "ParseInt64 s =
     (let neg = (s \<noteq> [] \<and> hd s = CHR ''-'');
          ds = (if s \<noteq> [] \<and> (hd s = CHR ''-'' \<or> hd s = CHR ''+'') then tl s else s)
      in if ds = [] then None
         else case digits_nat 0 ds of
                None \<Rightarrow> None
              | Some n \<Rightarrow>
                  if neg then (if n \<le> 2 ^ 63 then Some (- int n) else None)
                  else (if n < 2 ^ 63 then Some (int n) else None))"

section \<open>Round trip\<close>

lemma digit_facts:
  assumes "d < 10"
  shows "CHR ''0'' \<le> digit_of d" and "digit_of d \<le> CHR ''9''" and "of_char (digit_of d) = 48 + d"
    and "digit_of d \<noteq> CHR ''-''" and "digit_of d \<noteq> CHR ''+''"
proof -
  have "list_all (\<lambda>d. CHR ''0'' \<le> digit_of d \<and> digit_of d \<le> CHR ''9'' \<and> of_char (digit_of d) = 48 + d
    \<and> digit_of d \<noteq> CHR ''-'' \<and> digit_of d \<noteq> CHR ''+'') [0..<10]" by code_simp
  with assms show "CHR ''0'' \<le> digit_of d" and "digit_of d \<le> CHR ''9''" and "of_char (digit_of d) = 48 + d"
    and "digit_of d \<noteq> CHR ''-''" and "digit_of d \<noteq> CHR ''+''" by (auto simp: list_all_iff)
qed

lemma digits_nat_append: "digits_nat acc (xs @ ys) = Option.bind (digits_nat acc xs) (\<lambda>a. digits_nat a ys)"
  by (induction xs arbitrary: acc) auto

lemma digits_show_nat: "digits_nat 0 (show_nat n) = Some n"
proof (induction n rule: show_nat.induct)
  case (1 n)
  show ?case
  proof (cases "n < 10")
    case True
    then show ?thesis by (simp add: show_nat.simps digit_facts)
  next
    case False
    with 1 show ?thesis by (subst show_nat.simps) (simp add: digits_nat_append digit_facts)
  qed
qed

lemma show_nat_chars: "c \<in> set (show_nat n) \<Longrightarrow> \<exists>d < 10. c = digit_of d"
proof (induction n rule: show_nat.induct)
  case (1 n)
  show ?case
  proof (cases "n < 10")
    case True
    with 1(2) show ?thesis by (auto simp: show_nat.simps)
  next
    case False
    with 1(2) have "c \<in> set (show_nat (n div 10)) \<or> c = digit_of (n mod 10)" by (subst (asm) show_nat.simps) auto
    moreover have "n mod 10 < 10" by simp
    ultimately show ?thesis using 1(1) [OF False] by blast
  qed
qed

lemma show_nat_nonempty [simp]: "show_nat n \<noteq> []"
  by (subst show_nat.simps) simp

lemma ParseInt64_show_nat: "n < 2 ^ 63 \<Longrightarrow> ParseInt64 (show_nat n) = Some (int n)"
proof -
  assume n: "n < 2 ^ 63"
  obtain d where "d < 10" "hd (show_nat n) = digit_of d" using show_nat_chars [of "hd (show_nat n)" n] by force
  with n show ?thesis by (simp add: ParseInt64_def digits_show_nat digit_facts Let_def)
qed

end
