(* ===== verification/Echo.thy ===== *)
theory Echo
  imports Handler_Runs Rpc_Server_Laws Auth Strconv
begin

text \<open>
  The echo service of \<open>examples/echo-server-go\<close>: its eight handlers as programs over a server stream, the
  parsers of download sizes and the byte pattern. \<open>quote\<close> is the \<open>%q\<close> verb. Strings are ASCII text where
  their case or their spaces matter.
\<close>

section \<open>Small messages\<close>

abbreviation bytes_of :: "string \<Rightarrow> bytes" where
  "bytes_of s \<equiv> map of_char s"

abbreviation string_of :: "bytes \<Rightarrow> string" where
  "string_of b \<equiv> map (\<lambda>x. char_of (unat x)) b"

definition failed :: "int \<Rightarrow> go_error \<Rightarrow> handler" where
  "failed code e = HReturn (Some (Err code (Some e)))"

text \<open>The last \<open>Send\<close> of a handler: \<open>Err(13, err)\<close> or \<open>OK()\<close>.\<close>

definition send_last :: "bytes \<Rightarrow> handler" where
  "send_last b = HSend b (\<lambda>err. case err of Some e \<Rightarrow> failed 13 e | None \<Rightarrow> HReturn (Some status_OK))"

definition echo_Echo :: handler where
  "echo_Echo = HRecv (\<lambda>r. case r of Inl e \<Rightarrow> failed 13 e | Inr req \<Rightarrow> send_last (bytes_of ''echo: '' @ req))"

definition chunk_text :: "(string \<Rightarrow> string) \<Rightarrow> bytes \<Rightarrow> nat \<Rightarrow> bytes" where
  "chunk_text quote req i = bytes_of (''chunk '' @ show_nat i @ '' for '' @ quote (string_of req))"

fun send_chunks :: "(string \<Rightarrow> string) \<Rightarrow> bytes \<Rightarrow> nat list \<Rightarrow> handler" where
  "send_chunks quote req [] = HReturn (Some status_OK)"
| "send_chunks quote req (i # is) =
     HSend (chunk_text quote req i) (\<lambda>err. case err of Some e \<Rightarrow> failed 13 e | None \<Rightarrow> send_chunks quote req is)"

text \<open>A request that may be missing: the end of the requests is no error.\<close>

definition recv_optional :: "(bytes \<Rightarrow> handler) \<Rightarrow> handler" where
  "recv_optional k =
     HRecv (\<lambda>r. case r of Inr req \<Rightarrow> k req | Inl e \<Rightarrow> if e = EOF then k [] else failed 13 e)"

definition echo_Stream :: "(string \<Rightarrow> string) \<Rightarrow> handler" where
  "echo_Stream quote = recv_optional (\<lambda>req. send_chunks quote req [1..<6])"

section \<open>Loops over the requests\<close>

definition collect_text :: "nat \<Rightarrow> nat \<Rightarrow> bytes" where
  "collect_text n tot = bytes_of (''received '' @ show_nat n @ '' messages ('' @ show_nat tot @ '' bytes)'')"

primcorec collect_loop :: "nat \<Rightarrow> nat \<Rightarrow> handler" where
  "collect_loop n tot = HRecv (\<lambda>r. case r of
       Inl e \<Rightarrow> if e = EOF then send_last (collect_text n tot) else failed 13 e
     | Inr msg \<Rightarrow> collect_loop (n + 1) (tot + length msg))"

text \<open>
  A loop that answers each message: \<open>None\<close> before \<open>Recv\<close>, \<open>Some msg\<close> before the \<open>Send\<close> of the answer; \<open>n\<close>
  counts the answers.
\<close>

primcorec answer_loop :: "(nat \<Rightarrow> bytes \<Rightarrow> bytes) \<Rightarrow> nat \<Rightarrow> bytes option \<Rightarrow> handler" where
  "answer_loop f n pending =
     (case pending of
        None \<Rightarrow> HRecv (\<lambda>r. case r of
            Inl e \<Rightarrow> if e = EOF then HReturn (Some status_OK) else failed 13 e
          | Inr msg \<Rightarrow> answer_loop f (n + 1) (Some msg))
      | Some msg \<Rightarrow> HSend (f n msg) (\<lambda>err. case err of
            Some e \<Rightarrow> failed 13 e
          | None \<Rightarrow> answer_loop f n None))"

definition ack_text :: "nat \<Rightarrow> bytes \<Rightarrow> bytes" where
  "ack_text n msg = bytes_of (''ack '' @ show_nat n @ '': '' @ string_of msg)"

definition echo_Collect :: handler where
  "echo_Collect = collect_loop 0 0"

definition echo_Chat :: handler where
  "echo_Chat = answer_loop ack_text 0 None"

definition echo_LargeEcho :: handler where
  "echo_LargeEcho = HRecv (\<lambda>r. case r of Inl e \<Rightarrow> failed 13 e | Inr req \<Rightarrow> send_last req)"

definition echo_LargeEchoStream :: handler where
  "echo_LargeEchoStream = answer_loop (\<lambda>_ msg. msg) 0 None"

section \<open>Download sizes\<close>

definition HasSuffix :: "string \<Rightarrow> string \<Rightarrow> bool" where
  "HasSuffix s t \<longleftrightarrow> length t \<le> length s \<and> drop (length s - length t) s = t"

text \<open>The \<open>switch\<close> on the unit, its cases in order: what is before the unit, and its power of two.\<close>

fun cut_unit :: "(string \<times> nat) list \<Rightarrow> string \<Rightarrow> string \<times> nat" where
  "cut_unit [] raw = (raw, 0)"
| "cut_unit ((suf, sh) # us) raw =
     (if HasSuffix raw suf then (take (length raw - length suf) raw, sh) else cut_unit us raw)"

definition download_units :: "(string \<times> nat) list" where
  "download_units = [(''mb'', 20), (''m'', 20), (''kb'', 10), (''k'', 10)]"

definition stream_units :: "(string \<times> nat) list" where
  "stream_units = [(''gb'', 30), (''g'', 30)] @ download_units"

definition maxDownloadBytes :: int where
  "maxDownloadBytes = 2 ^ 31 - 1"

definition maxStreamBytes :: int where
  "maxStreamBytes = 2 ^ 60"

definition parse_size :: "(string \<times> nat) list \<Rightarrow> int \<Rightarrow> string \<Rightarrow> bytes \<Rightarrow> go_error + int" where
  "parse_size units cap msg req =
     (let raw = TrimSpace (ToLower (string_of req))
      in if raw = [] then Inr (2 ^ 20)
         else let (num, sh) = cut_unit units raw
              in case ParseInt64 (TrimSpace num) of
                   None \<Rightarrow> Inl (ErrNew msg)
                 | Some n \<Rightarrow>
                     if n < 0 then Inl (ErrNew msg)
                     else let n1 = int64 (n * 2 ^ sh);
                              n2 = (if n1 < 1 then 1 else n1)
                          in Inr (if n2 > cap then cap else n2))"

definition parseDownloadSize :: "bytes \<Rightarrow> go_error + int" where
  "parseDownloadSize = parse_size download_units maxDownloadBytes
     ''large-download: size must be a non-negative decimal byte count''"

definition parseStreamSize :: "bytes \<Rightarrow> go_error + int" where
  "parseStreamSize = parse_size stream_units maxStreamBytes
     ''large-download-stream: size must be a non-negative decimal byte count''"

section \<open>Downloads\<close>

definition fillPattern :: "bytes \<Rightarrow> int \<Rightarrow> bytes" where
  "fillPattern dst base = map (\<lambda>i. word_of_int ((base + int i) mod 251)) [0..<length dst]"

definition makePattern :: "int \<Rightarrow> bytes" where
  "makePattern n = fillPattern (replicate (nat n) 0) 0"

definition echo_LargeDownload :: handler where
  "echo_LargeDownload = recv_optional (\<lambda>req. case parseDownloadSize req of
       Inl e \<Rightarrow> failed 3 e
     | Inr n \<Rightarrow> send_last (makePattern n))"

definition streamChunk :: int where
  "streamChunk = 16 * 1024 * 1024"

text \<open>The buffer is overwritten in full before every \<open>Send\<close>, which copies it, so it is a fresh one here.\<close>

function download_loop :: "int \<Rightarrow> int \<Rightarrow> handler" where
  "download_loop n sent =
     (if sent < n
      then let ende = (if sent + streamChunk > n then n else sent + streamChunk)
           in HSend (fillPattern (replicate (nat (ende - sent)) 0) sent)
                (\<lambda>err. case err of Some e \<Rightarrow> failed 13 e | None \<Rightarrow> download_loop n ende)
      else HReturn (Some status_OK))"
  by pat_completeness auto
termination
  by (relation "measure (\<lambda>(n, sent). nat (n - sent))") (auto simp: streamChunk_def split: if_splits)

declare download_loop.simps [simp del]

definition echo_LargeDownloadStream :: handler where
  "echo_LargeDownloadStream = recv_optional (\<lambda>req. case parseStreamSize req of
       Inl e \<Rightarrow> failed 3 e
     | Inr n \<Rightarrow> download_loop n 0)"

section \<open>The service\<close>

definition echo_service :: "(string \<Rightarrow> string) \<Rightarrow> service_desc" where
  "echo_service quote = \<lparr>sd_ServiceName = ''echo.Echo'', sd_Methods =
     [\<lparr>md_Method = ''Echo'', md_Kind = MethodKindUnary, md_Handler = echo_Echo\<rparr>,
      \<lparr>md_Method = ''Stream'', md_Kind = MethodKindServerStreaming, md_Handler = echo_Stream quote\<rparr>,
      \<lparr>md_Method = ''Collect'', md_Kind = MethodKindClientStreaming, md_Handler = echo_Collect\<rparr>,
      \<lparr>md_Method = ''Chat'', md_Kind = MethodKindBidiStreaming, md_Handler = echo_Chat\<rparr>,
      \<lparr>md_Method = ''LargeEcho'', md_Kind = MethodKindUnary, md_Handler = echo_LargeEcho\<rparr>,
      \<lparr>md_Method = ''LargeDownload'', md_Kind = MethodKindServerStreaming, md_Handler = echo_LargeDownload\<rparr>,
      \<lparr>md_Method = ''LargeEchoStream'', md_Kind = MethodKindBidiStreaming, md_Handler = echo_LargeEchoStream\<rparr>,
      \<lparr>md_Method = ''LargeDownloadStream'', md_Kind = MethodKindServerStreaming,
        md_Handler = echo_LargeDownloadStream\<rparr>]\<rparr>"

definition registerEcho :: "(string \<Rightarrow> string) \<Rightarrow> server \<Rightarrow> server go" where
  "registerEcho quote srv = RegisterService srv (echo_service quote)"

text \<open>The two methods of the smaller demonstration, \<open>examples/echo-go\<close>.\<close>

definition demo_Unary :: handler where
  "demo_Unary = HRecv (\<lambda>r. case r of
       Inl e \<Rightarrow> failed 13 e
     | Inr req \<Rightarrow> HSetHeader [''x-server'' \<mapsto> [''peerrpc-echo'']]
         (HSetTrailer [''x-consumed'' \<mapsto> [''1'']] (send_last (bytes_of ''echo: '' @ req))))"

definition demo_service :: "(string \<Rightarrow> string) \<Rightarrow> service_desc" where
  "demo_service quote = \<lparr>sd_ServiceName = ''echo.Echo'', sd_Methods =
     [\<lparr>md_Method = ''Unary'', md_Kind = MethodKindUnary, md_Handler = demo_Unary\<rparr>,
      \<lparr>md_Method = ''Stream'', md_Kind = MethodKindServerStreaming, md_Handler = echo_Stream quote\<rparr>]\<rparr>"

section \<open>What the service promises\<close>

text \<open>Payloads of at most \<open>k\<close> bytes.\<close>

function pieces :: "nat \<Rightarrow> bytes \<Rightarrow> bytes list" where
  "pieces k b = (if b = [] \<or> k = 0 then [] else take k b # pieces k (drop k b))"
  by pat_completeness auto
termination by (relation "measure (\<lambda>(_, b). length b)") auto

declare pieces.simps [simp del]

definition numbered :: "(nat \<Rightarrow> bytes \<Rightarrow> bytes) \<Rightarrow> bytes list \<Rightarrow> bytes list" where
  "numbered f ins = map (\<lambda>(i, m). f i m) (enumerate 1 ins)"

text \<open>The messages and the status each method answers to the requests \<open>ins\<close> of a half-closed call.\<close>

definition echo_spec :: "(string \<Rightarrow> string) \<Rightarrow> string \<Rightarrow> bytes list \<Rightarrow> bytes list \<times> rpc_status" where
  "echo_spec quote name ins =
     (let req = (case ins of [] \<Rightarrow> [] | r # _ \<Rightarrow> r);
          unary = (\<lambda>out. if ins = [] then ([], Err 13 (Some EOF)) else ([out], status_OK));
          download = (\<lambda>sz outs. case sz of Inl e \<Rightarrow> ([], Err 3 (Some e)) | Inr n \<Rightarrow> (outs n, status_OK))
      in if name = ''Echo'' then unary (bytes_of ''echo: '' @ req)
         else if name = ''LargeEcho'' then unary req
         else if name = ''Stream'' then (map (chunk_text quote req) [1, 2, 3, 4, 5], status_OK)
         else if name = ''Collect'' then ([collect_text (length ins) (sum_list (map length ins))], status_OK)
         else if name = ''Chat'' then (numbered ack_text ins, status_OK)
         else if name = ''LargeEchoStream'' then (ins, status_OK)
         else if name = ''LargeDownload'' then download (parseDownloadSize req) (\<lambda>n. [makePattern n])
         else download (parseStreamSize req) (\<lambda>n. pieces (nat streamChunk) (makePattern n)))"

lemma pieces_of:
  assumes "0 < k"
  shows "concat (pieces k b) = b" and "list_all (\<lambda>p. p \<noteq> [] \<and> length p \<le> k) (pieces k b)"
proof -
  have "concat (pieces k b) = b \<and> list_all (\<lambda>p. p \<noteq> [] \<and> length p \<le> k) (pieces k b)"
    using assms by (induction k b rule: pieces.induct) (subst (1 2) pieces.simps, simp)
  then show "concat (pieces k b) = b" and "list_all (\<lambda>p. p \<noteq> [] \<and> length p \<le> k) (pieces k b)" by simp_all
qed

lemma says_send_last [intro!]: "says (send_last b) ins [b] status_OK"
  by (auto simp: send_last_def)

lemma says_failed [intro!]: "says (failed code e) ins [] (Err code (Some e))"
  by (auto simp: failed_def)

lemma says_optional:
  "says (k (case ins of [] \<Rightarrow> [] | r # _ \<Rightarrow> r)) (tl ins) outs status \<Longrightarrow> says (recv_optional k) ins outs status"
  by (cases ins) (auto simp: recv_optional_def)

lemma says_send_chunks: "says (send_chunks quote req is) ins (map (chunk_text quote req) is) status_OK"
  by (induction "is") auto

lemma says_collect:
  "says (collect_loop n tot) ins [collect_text (n + length ins) (tot + sum_list (map length ins))] status_OK"
proof (induction ins arbitrary: n tot)
  case Nil
  show ?case by (subst collect_loop.code) auto
next
  case (Cons a ins)
  show ?case using Cons [of "n + 1" "tot + length a"] by (subst collect_loop.code) (auto simp: add.assoc)
qed

lemma answer_loop_recv: "answer_loop f n None = HRecv (\<lambda>r. case r of
     Inl e \<Rightarrow> if e = EOF then HReturn (Some status_OK) else failed 13 e
   | Inr msg \<Rightarrow> answer_loop f (n + 1) (Some msg))"
  by (subst answer_loop.code) simp

lemma answer_loop_send: "answer_loop f n (Some msg) = HSend (f n msg) (\<lambda>err. case err of
     Some e \<Rightarrow> failed 13 e | None \<Rightarrow> answer_loop f n None)"
  by (subst answer_loop.code) simp

lemma says_answer_loop: "says (answer_loop f n None) ins (map (\<lambda>(i, m). f i m) (enumerate (Suc n) ins)) status_OK"
proof (induction ins arbitrary: n)
  case Nil
  show ?case by (subst answer_loop_recv) auto
next
  case (Cons a ins)
  from Cons [of "Suc n"] show ?case by (subst answer_loop_recv) (auto simp: answer_loop_send)
qed

lemma length_makePattern [simp]: "length (makePattern n) = nat n"
  by (simp add: makePattern_def fillPattern_def)

lemma drop_makePattern:
  assumes "0 \<le> sent" and "sent \<le> ende" and "ende \<le> n"
  shows "take (nat (ende - sent)) (drop (nat sent) (makePattern n)) = fillPattern (replicate (nat (ende - sent)) 0) sent"
proof -
  have "word_of_int ((int (nat sent) + int i) mod 251) = (word_of_int ((sent + int i) mod 251) :: byte)" for i
    using assms by simp
  with assms show ?thesis
    by (intro nth_equalityI) (simp_all add: makePattern_def fillPattern_def nat_diff_distrib)
qed

lemma says_download_loop:
  "0 \<le> sent \<Longrightarrow> says (download_loop n sent) ins (pieces (nat streamChunk) (drop (nat sent) (makePattern n))) status_OK"
proof (induction n sent rule: download_loop.induct)
  case (1 n sent)
  let ?rest = "drop (nat sent) (makePattern n)"
  show ?case
  proof (cases "sent < n")
    case False
    with 1(2) show ?thesis by (subst download_loop.simps) (auto simp: pieces.simps)
  next
    case True
    let ?e = "if sent + streamChunk > n then n else sent + streamChunk"
    have e: "sent < ?e" "?e \<le> n" "?e = min n (sent + streamChunk)" using True by (auto simp: streamChunk_def)
    have "?rest \<noteq> []" using True 1(2) by simp
    then have p: "pieces (nat streamChunk) ?rest =
        take (nat streamChunk) ?rest # pieces (nat streamChunk) (drop (nat streamChunk) ?rest)"
      by (subst pieces.simps) (simp add: streamChunk_def)
    have "take (nat streamChunk) ?rest = take (nat (?e - sent)) ?rest"
    proof (cases "n \<le> sent + streamChunk")
      case True
      then have "length ?rest \<le> nat streamChunk" "?e = n" using 1(2) by (simp_all add: streamChunk_def)
      then show ?thesis using 1(2) by (simp add: nat_diff_distrib)
    next
      case False
      then show ?thesis by simp
    qed
    also have "\<dots> = fillPattern (replicate (nat (?e - sent)) 0) sent"
      using e 1(2) by (intro drop_makePattern) simp_all
    finally have t: "take (nat streamChunk) ?rest = fillPattern (replicate (nat (?e - sent)) 0) sent" .
    have "drop (nat streamChunk) ?rest = drop (nat ?e) (makePattern n)"
      using e 1(2) by (auto simp: min_def streamChunk_def nat_add_distrib add.commute split: if_splits)
    with 1(1) [OF True refl] 1(2) e(1) p t show ?thesis
      by (subst download_loop.simps) (auto simp: True Let_def simp del: replicate.simps)
  qed
qed

text \<open>The handler registered under a method's path, by name.\<close>

definition echo_handler :: "(string \<Rightarrow> string) \<Rightarrow> string \<Rightarrow> handler" where
  "echo_handler quote name =
     (if name = ''Echo'' then echo_Echo else if name = ''LargeEcho'' then echo_LargeEcho
      else if name = ''Stream'' then echo_Stream quote else if name = ''Collect'' then echo_Collect
      else if name = ''Chat'' then echo_Chat else if name = ''LargeEchoStream'' then echo_LargeEchoStream
      else if name = ''LargeDownload'' then echo_LargeDownload else echo_LargeDownloadStream)"

definition echo_names :: "string list" where
  "echo_names = [''Echo'', ''Stream'', ''Collect'', ''Chat'', ''LargeEcho'', ''LargeDownload'', ''LargeEchoStream'',
     ''LargeDownloadStream'']"

lemma echo_service_methods:
  "map md_Method (sd_Methods (echo_service quote)) = echo_names"
  "d \<in> set (sd_Methods (echo_service quote)) \<Longrightarrow> md_Handler d = echo_handler quote (md_Method d)"
  by (auto simp: echo_service_def echo_names_def echo_handler_def)

lemma says_download:
  assumes "\<And>n. sz = Inr n \<Longrightarrow> says (k n) ins (outs n) status_OK"
  shows "says (case sz of Inl e \<Rightarrow> failed 3 e | Inr n \<Rightarrow> k n) ins
    (fst (case sz of Inl e \<Rightarrow> ([], Err 3 (Some e)) | Inr n \<Rightarrow> (outs n, status_OK)))
    (snd (case sz of Inl e \<Rightarrow> ([], Err 3 (Some e)) | Inr n \<Rightarrow> (outs n, status_OK)))"
  using assms by (cases sz) auto

lemma echo_says:
  assumes "name \<in> set echo_names"
  shows "says (echo_handler quote name) ins (fst (echo_spec quote name ins)) (snd (echo_spec quote name ins))"
proof -
  let ?req = "case ins of [] \<Rightarrow> [] | r # _ \<Rightarrow> r"
  have "name = ''Echo'' \<or> name = ''LargeEcho'' \<or> name = ''Stream'' \<or> name = ''Collect'' \<or> name = ''Chat''
    \<or> name = ''LargeEchoStream'' \<or> name = ''LargeDownload'' \<or> name = ''LargeDownloadStream''"
    using assms unfolding echo_names_def list.set insert_iff empty_iff by argo
  then show ?thesis
  proof (elim disjE)
    assume n1: "name = ''Echo''"
    then show ?thesis by (cases ins) (auto simp: echo_handler_def echo_spec_def echo_Echo_def Let_def)
  next
    assume n2: "name = ''LargeEcho''"
    then show ?thesis by (cases ins) (auto simp: echo_handler_def echo_spec_def echo_LargeEcho_def Let_def)
  next
    assume n3: "name = ''Stream''"
    have "says (echo_Stream quote) ins (map (chunk_text quote ?req) [1..<6]) status_OK"
      unfolding echo_Stream_def by (intro says_optional says_send_chunks)
    moreover have "[1..<6] = [1, 2, 3, 4, 5 :: nat]" by code_simp
    ultimately show ?thesis using n3 by (simp add: echo_handler_def echo_spec_def Let_def)
  next
    assume n4: "name = ''Collect''"
    then show ?thesis using says_collect [of 0 0 ins] by (simp add: echo_handler_def echo_spec_def echo_Collect_def Let_def)
  next
    assume n5: "name = ''Chat''"
    then show ?thesis using says_answer_loop [of ack_text 0 ins]
      by (simp add: echo_handler_def echo_spec_def echo_Chat_def numbered_def Let_def)
  next
    assume n6: "name = ''LargeEchoStream''"
    have "map (\<lambda>(i, m). m) (enumerate k ins) = ins" for k by (induction ins arbitrary: k) simp_all
    with n6 show ?thesis using says_answer_loop [of "\<lambda>_ m. m" 0 ins]
      by (simp add: echo_handler_def echo_spec_def echo_LargeEchoStream_def Let_def)
  next
    assume n7: "name = ''LargeDownload''"
    have "says echo_LargeDownload ins
      (fst (case parseDownloadSize ?req of Inl e \<Rightarrow> ([], Err 3 (Some e)) | Inr n \<Rightarrow> ([makePattern n], status_OK)))
      (snd (case parseDownloadSize ?req of Inl e \<Rightarrow> ([], Err 3 (Some e)) | Inr n \<Rightarrow> ([makePattern n], status_OK)))"
      unfolding echo_LargeDownload_def by (intro says_optional says_download says_send_last)
    with n7 show ?thesis by (simp add: echo_handler_def echo_spec_def Let_def)
  next
    assume n8: "name = ''LargeDownloadStream''"
    have "says (download_loop n 0) (tl ins) (pieces (nat streamChunk) (makePattern n)) status_OK" for n
      using says_download_loop [of 0 n "tl ins"] by simp
    then have "says echo_LargeDownloadStream ins
      (fst (case parseStreamSize ?req of Inl e \<Rightarrow> ([], Err 3 (Some e))
         | Inr n \<Rightarrow> (pieces (nat streamChunk) (makePattern n), status_OK)))
      (snd (case parseStreamSize ?req of Inl e \<Rightarrow> ([], Err 3 (Some e))
         | Inr n \<Rightarrow> (pieces (nat streamChunk) (makePattern n), status_OK)))"
      unfolding echo_LargeDownloadStream_def by (intro says_optional says_download)
    with n8 show ?thesis by (simp add: echo_handler_def echo_spec_def Let_def)
  qed
qed

lemma registerEcho_finds:
  assumes "registerEcho quote (NewServer []) = Returns s" and "name \<in> set echo_names"
  shows "\<exists>d. findMethod s (method_path ''echo.Echo'' name) = Some d \<and> handler_chain s d = echo_handler quote name"
proof -
  from assms(2) obtain d where d: "d \<in> set (sd_Methods (echo_service quote))" "md_Method d = name"
    using echo_service_methods(1) [of quote] by (metis in_set_conv_nth length_map nth_map nth_mem)
  moreover have "sv_streamInterceptors s = []"
    using assms(1) register_interceptors by (fastforce simp: registerEcho_def NewServer_def)
  ultimately show ?thesis
    using register_finds [of "NewServer []" "echo_service quote" s d] assms(1) echo_service_methods(2) [OF d(1)]
    by (simp add: registerEcho_def handler_chain_def chainStreamServer_def)
      (simp add: echo_service_def)
qed

lemma registerEcho_ok: "\<exists>s. registerEcho quote (NewServer []) = Returns s"
  by (simp add: registerEcho_def RegisterService_def echo_service_def NewServer_def Let_def)

section \<open>Properties\<close>

text \<open>
  C30: The echo service answers what its documentation says. On a server with the service registered, take any
  accepted and half-closed call of one of its methods, with any requests queued. Steps of its handler alone
  bring the response to its end, and the frames it has put on the wire are exactly the messages and the status
  of \<open>echo_spec\<close>: the echo, the five chunks, the count of messages and bytes, a numbered acknowledgement per
  request, every request back in order, or the pattern in one message or in pieces of 16 MiB.
\<close>

theorem echo_service_replies:
  assumes "registerEcho quote (NewServer []) = Returns s" and "name \<in> set echo_names"
    and "findMethod s (method_path ''echo.Echo'' name) = Some d"
    and "accepted s d md tmo m sid st" and "live m" and "mx_crashed m = None" and "ss_halfClose st"
  shows "\<exists>n m'. finals (mux_outcomes s) m (replicate n (EvHandler sid)) = [m'] \<and> mx_out m' = mx_out m @
    reply_frames (ss_seq st) (fst (echo_spec quote name (ss_inbound st))) (snd (echo_spec quote name (ss_inbound st)))"
proof -
  have "handler_chain s d = echo_handler quote name" using registerEcho_finds [OF assms(1,2)] assms(3) by auto
  with echo_says [OF assms(2)] have "says (handler_chain s d) (ss_inbound st)
    (fst (echo_spec quote name (ss_inbound st))) (snd (echo_spec quote name (ss_inbound st)))" by metis
  from says_answers [OF this assms(4-7)] show ?thesis .
qed

theorem echo_service_replies_witness:
  "\<exists>s m sid (st :: server_stream) n m'. registerEcho (\<lambda>_. []) (NewServer []) = Returns s \<and> ss_inbound st = [[7]]
     \<and> finals (mux_outcomes s) m (replicate n (EvHandler sid)) = [m']
     \<and> mx_out m' = mx_out m @ reply_frames (ss_seq st) [[7]] status_OK"
proof -
  obtain s where s: "registerEcho (\<lambda>_. []) (NewServer []) = Returns s" using registerEcho_ok by blast
  have n: "''LargeEchoStream'' \<in> set echo_names" by (simp add: echo_names_def)
  obtain d where d: "findMethod s (method_path ''echo.Echo'' ''LargeEchoStream'') = Some d"
    using registerEcho_finds [OF s n] by blast
  have "live (newMultiplexer None)" "mx_streams (newMultiplexer None) 3 = None"
    "needs_fresh (mx_reasm (newMultiplexer None)) 3 (int (length [7 :: byte]))" "int32 3 = 3" "length [7 :: byte] < 2 ^ 31"
    by (simp_all add: live_def newMultiplexer_def needs_fresh_def NewReassembler_def int32_id)
  from request_delivered [OF this(1-3) d this(4,5), where md = None and ctx = demo_ctx] obtain m sid st where
    m: "accepted s d None (durationFromMs (deadline_ms demo_ctx)) m sid st" "ss_inbound st = [[7]]" "ss_halfClose st"
      "live m" "mx_crashed m = None" by (auto simp: newMultiplexer_def)
  from echo_service_replies [OF s n d m(1,4,5,3)] obtain n' m' where
    "finals (mux_outcomes s) m (replicate n' (EvHandler sid)) = [m']"
    "mx_out m' = mx_out m @ reply_frames (ss_seq st) [[7]] status_OK" by (auto simp: m(2) echo_spec_def Let_def)
  with s m(2) show ?thesis by (intro exI conjI) assumption+
qed

text \<open>
  The echo service, end to end. Whenever the service answers a request with one message and status OK
  (\<open>Echo\<close>, \<open>LargeEcho\<close>, \<open>Collect\<close>, a \<open>LargeDownload\<close> of a readable size), a unary call of that method by any
  reachable client over any live connection does so: the frames of the call handled by the server, the steps
  of the handler, and the frames of the answer dispatched by the client leave the caller with exactly that
  message and OK, or, if its \<open>select\<close> takes the end of the stream, with no data and OK.
\<close>

theorem echo_end_to_end:
  assumes "registerEcho quote (NewServer []) = Returns s" and "name \<in> set echo_names"
    and "echo_spec quote name [req] = ([resp], status_OK)"
    and "client_run NewClient evs c" and "unary_start c ctx (method_path ''echo.Echo'' name) req = (c1, sid)"
    and "seq = snd (nextSeq (cl_seqAlloc c))"
    and "live m" and "mx_crashed m = None" and "mx_streams m seq = None"
    and "length req < 2 ^ 31" and "length resp < 2 ^ 31"
    and "needs_fresh (mx_reasm m) seq (int (length req))" and "needs_fresh (cl_reasm c) seq (int (length resp))"
  shows "\<exists>m1 hid n m2 c2.
      finals (\<lambda>m fr. handleFrame m s fr) m (drop (length (cl_sent c)) (cl_sent c1)) = [m1]
    \<and> finals (mux_outcomes s) m1 (replicate n (EvHandler hid)) = [m2]
    \<and> finals dispatch c1 (drop (length (mx_out m)) (mx_out m2)) = [c2]
    \<and> map snd (unary_step c2 sid None UnaryFirst) = [UnaryEnd resp, UnaryDone None status_OK]
    \<and> (\<forall>c3. (c3, UnaryEnd resp) \<in> set (unary_step c2 sid None UnaryFirst) \<longrightarrow>
        map snd (unary_step c3 sid None (UnaryEnd resp)) = [UnaryDone (Some resp) status_OK])"
proof -
  obtain d where d: "findMethod s (method_path ''echo.Echo'' name) = Some d" "handler_chain s d = echo_handler quote name"
    using registerEcho_finds [OF assms(1,2)] by blast
  obtain m1 hid st c2 md tmo where r: "finals (\<lambda>m fr. handleFrame m s fr) m (drop (length (cl_sent c)) (cl_sent c1)) = [m1]"
    "accepted s d md tmo m1 hid st" "ss_seq st = seq" "ss_inbound st = [req]" "ss_halfClose st" "mx_out m1 = mx_out m"
    "live m1" "mx_crashed m1 = None" "finals dispatch c1 (response_frames seq resp) = [c2]"
    "map snd (unary_step c2 sid None UnaryFirst) = [UnaryEnd resp, UnaryDone None status_OK]"
    "\<forall>c3. (c3, UnaryEnd resp) \<in> set (unary_step c2 sid None UnaryFirst) \<longrightarrow>
        map snd (unary_step c3 sid None (UnaryEnd resp)) = [UnaryDone (Some resp) status_OK]"
    using unary_round [OF assms(4-9) d(1) assms(10-13)] by (elim exE conjE) (rule that, assumption+)
  have "says (handler_chain s d) (ss_inbound st) [resp] status_OK"
    using echo_says [OF assms(2), of quote "[req]"] assms(3) d(2) r(4) by simp
  from says_answers [OF this r(2,7,8,5)] obtain n m2 where
    "finals (mux_outcomes s) m1 (replicate n (EvHandler hid)) = [m2]" "mx_out m2 = mx_out m @ response_frames seq resp"
    using r(3,6) by (auto simp: response_reply_frames)
  moreover from this r(9) have "finals dispatch c1 (drop (length (mx_out m)) (mx_out m2)) = [c2]" by simp
  ultimately show ?thesis using r(1,10,11) by (intro exI conjI) assumption+
qed

lemma echo_demo_start:
  "unary_start NewClient demo_ctx path req = (fst (unary_start NewClient demo_ctx path req), 0)"
  by (simp add: prod_eq_iff unary_start_def open_half_closed_def client_openStream_def NewClient_def nextSeq_1 Let_def)

theorem echo_end_to_end_witness:
  "\<exists>s m1 hid n m2 c2. registerEcho (\<lambda>_. []) (NewServer []) = Returns s
    \<and> finals (\<lambda>m fr. handleFrame m s fr) (newMultiplexer None) (drop (length (cl_sent NewClient))
        (cl_sent (fst (unary_start NewClient demo_ctx (method_path ''echo.Echo'' ''Echo'') [33])))) = [m1]
    \<and> finals (mux_outcomes s) m1 (replicate n (EvHandler hid)) = [m2]
    \<and> finals dispatch (fst (unary_start NewClient demo_ctx (method_path ''echo.Echo'' ''Echo'') [33]))
        (drop (length (mx_out (newMultiplexer None))) (mx_out m2)) = [c2]
    \<and> map snd (unary_step c2 0 None UnaryFirst) = [UnaryEnd (bytes_of ''echo: '' @ [33]), UnaryDone None status_OK]"
proof -
  obtain s where s: "registerEcho (\<lambda>_. []) (NewServer []) = Returns s" using registerEcho_ok by blast
  have "\<exists>m1 hid n m2 c2.
      finals (\<lambda>m fr. handleFrame m s fr) (newMultiplexer None) (drop (length (cl_sent NewClient))
        (cl_sent (fst (unary_start NewClient demo_ctx (method_path ''echo.Echo'' ''Echo'') [33])))) = [m1]
    \<and> finals (mux_outcomes s) m1 (replicate n (EvHandler hid)) = [m2]
    \<and> finals dispatch (fst (unary_start NewClient demo_ctx (method_path ''echo.Echo'' ''Echo'') [33]))
        (drop (length (mx_out (newMultiplexer None))) (mx_out m2)) = [c2]
    \<and> map snd (unary_step c2 0 None UnaryFirst) = [UnaryEnd (bytes_of ''echo: '' @ [33]), UnaryDone None status_OK]
    \<and> (\<forall>c3. (c3, UnaryEnd (bytes_of ''echo: '' @ [33])) \<in> set (unary_step c2 0 None UnaryFirst) \<longrightarrow>
        map snd (unary_step c3 0 None (UnaryEnd (bytes_of ''echo: '' @ [33]))) =
          [UnaryDone (Some (bytes_of ''echo: '' @ [33])) status_OK])"
    by (rule echo_end_to_end [OF s _ _ run_nil echo_demo_start refl])
      (simp_all add: echo_names_def echo_spec_def live_def newMultiplexer_def needs_fresh_def NewReassembler_def NewClient_def)
  with s show ?thesis by (elim exE conjE) (intro exI conjI, assumption+)
qed

text \<open>
  The metadata of the smaller demonstration. Its header and its trailer are kept in one map, so the Begin frame
  carries the trailer as well and the End frame the header.
\<close>

lemma demo_metadata:
  "talk hc seq inc demo_Unary Map.empty False [req]
     (begin_frame seq [''x-server'' \<mapsto> [''peerrpc-echo''], ''x-consumed'' \<mapsto> [''1'']]
      # map (data_frame seq) (payload_contents (bytes_of ''echo: '' @ req))
      @ [end_frame seq (end_with status_OK [''x-server'' \<mapsto> [''peerrpc-echo''], ''x-consumed'' \<mapsto> [''1'']])])"
proof -
  have "mergeMetadata [''x-server'' \<mapsto> [''peerrpc-echo'']] [''x-consumed'' \<mapsto> [''1'']] =
    [''x-server'' \<mapsto> [''peerrpc-echo''], ''x-consumed'' \<mapsto> [''1'']]"
    by (auto simp: mergeMetadata_def md_values_def fun_eq_iff)
  then show ?thesis by (simp add: demo_Unary_def send_last_def talk_simps begin_once_def)
qed

section \<open>Sizes\<close>

lemma HasSuffix_rev: "HasSuffix s t \<longleftrightarrow> take (length t) (rev s) = rev t"
  by (auto simp: HasSuffix_def rev_drop [symmetric] take_rev dest: arg_cong [where f = length])

text \<open>The last character of a number decides the \<open>switch\<close>.\<close>

lemma rev_show_nat: "\<exists>d r. rev (show_nat n) = digit_of d # r \<and> d < 10"
proof -
  have "rev (show_nat n) \<noteq> []" by simp
  then obtain x r where x: "rev (show_nat n) = x # r" by (cases "rev (show_nat n)") simp_all
  then have "x \<in> set (show_nat n)" by (metis list.set_intros(1) set_rev)
  with x show_nat_chars [of x n] show ?thesis by auto
qed

lemma digit_of_letter: "d < 10 \<Longrightarrow> digit_of d \<notin> set ''bmkg''"
  using digit_facts(2) [of d] by (auto simp: less_eq_char_def)

lemma cut_unit_numeral:
  assumes "units \<in> {download_units, stream_units}" and "(suf, sh) \<in> insert ([], 0) (set units)"
  shows "cut_unit units (show_nat n @ suf) = (show_nat n, sh)"
proof -
  obtain d r where d: "rev (show_nat n) = digit_of d # r" "digit_of d \<notin> set ''bmkg''"
    using rev_show_nat [of n] digit_of_letter by blast
  show ?thesis
    using assms d by (auto simp: download_units_def stream_units_def HasSuffix_rev)
qed

lemma char_of_byte [simp]: "char_of (unat (of_char c :: byte)) = c"
proof -
  have "(of_char c :: byte) = word_of_nat (of_char c)" by (simp add: of_nat_of_char)
  moreover have "of_char c < (256 :: nat)" by simp
  ultimately have "unat (of_char c :: byte) = of_char c" by (simp only: unat_of_nat) (simp add: take_bit_nat_eq_self)
  then show ?thesis by simp
qed

definition plain :: "char \<Rightarrow> bool" where
  "plain c \<longleftrightarrow> \<not> is_space c \<and> lower c = c"

lemma plain_text:
  assumes "list_all plain s"
  shows "TrimSpace s = s" and "ToLower s = s"
proof -
  have "dropWhile is_space xs = xs" if "list_all plain xs" for xs
    using that by (cases xs) (simp_all add: plain_def)
  with assms show "TrimSpace s = s" by (simp add: TrimSpace_def list_all_rev)
  show "ToLower s = s" using assms by (auto simp: ToLower_def list_all_iff plain_def intro: map_idI)
qed

lemma plain_numeral:
  assumes "(suf, sh) \<in> insert ([], 0) (set stream_units)"
  shows "list_all plain (show_nat n)" and "list_all plain (show_nat n @ suf)"
proof -
  have "list_all (\<lambda>d. plain (digit_of d)) [0..<10]" by code_simp
  then have d: "plain (digit_of k)" if "k < 10" for k using that by (simp add: list_all_iff)
  have "plain x" if "x \<in> set (show_nat n)" for x using show_nat_chars [OF that] d by auto
  then show l: "list_all plain (show_nat n)" by (simp add: list_all_iff)
  have "list_all (\<lambda>u. list_all plain (fst u)) stream_units" by code_simp
  with assms l show "list_all plain (show_nat n @ suf)" by (auto simp: list_all_iff)
qed

lemma parse_size_numeral:
  assumes "units \<in> {download_units, stream_units}" and "(suf, sh) \<in> insert ([], 0) (set units)" and "n < 2 ^ 63"
    and "1 \<le> cap"
  shows "parse_size units cap msg (bytes_of (show_nat n @ suf)) = Inr (max 1 (min cap (int64 (int n * 2 ^ sh))))"
proof -
  have "(suf, sh) \<in> insert ([], 0) (set stream_units)" using assms(1,2) by (auto simp: stream_units_def)
  note p = plain_text [OF plain_numeral(1) [OF this, of n]] plain_text [OF plain_numeral(2) [OF this, of n]]
  show ?thesis
    using p cut_unit_numeral [OF assms(1,2), of n] ParseInt64_show_nat [OF assms(3)] assms(4)
    by (simp add: parse_size_def Let_def comp_def max_def min_def)
qed

lemma parse_size_range:
  "parse_size units cap msg req = Inr v \<Longrightarrow> 2 ^ 20 \<le> cap \<Longrightarrow> 1 \<le> v \<and> v \<le> cap"
  by (auto simp: parse_size_def Let_def split: if_splits option.splits prod.splits)

lemma int64_id: "- (2 ^ 63) \<le> n \<Longrightarrow> n < 2 ^ 63 \<Longrightarrow> int64 n = n"
  by (simp add: int64_def signed_take_bit_int_eq_self)

lemma int64_wrap: "2 ^ 63 \<le> n \<Longrightarrow> n \<le> 2 ^ 64 \<Longrightarrow> int64 n \<le> 0"
proof -
  assume n: "2 ^ 63 \<le> n" "n \<le> 2 ^ 64"
  have "int64 n = (n + 2 ^ 63) mod 2 ^ 64 - 2 ^ 63"
    by (simp add: int64_def signed_take_bit_eq_take_bit_shift take_bit_eq_mod)
  also have "(n + 2 ^ 63) mod 2 ^ 64 = n + 2 ^ 63 - 2 ^ 64"
    using n by (subst mod_pos_geq) (simp_all add: mod_pos_pos_trivial)
  finally show ?thesis using n by simp
qed

text \<open>
  The sizes a download may ask for. Whatever the request, an accepted size lies between one byte and the
  cap, \<open>2 ^ 31 - 1\<close> or \<open>2 ^ 60\<close>. A numeral \<open>n < 2 ^ 63\<close> with a unit asks for \<open>n\<close> units, cut to that range, when
  the product is below \<open>2 ^ 63\<close>; when it lies between \<open>2 ^ 63\<close> and \<open>2 ^ 64\<close> the multiplication wraps around,
  and the download is one byte long.
\<close>

theorem download_sizes:
  assumes "n < 2 ^ 63" and "(suf, sh) \<in> insert ([], 0) (set stream_units)"
  shows "(parseDownloadSize req = Inr v \<longrightarrow> 1 \<le> v \<and> v \<le> 2 ^ 31 - 1) \<and> (parseStreamSize req = Inr v \<longrightarrow> 1 \<le> v \<and> v \<le> 2 ^ 60)
    \<and> (int n * 2 ^ sh < 2 ^ 63 \<longrightarrow>
        parseStreamSize (bytes_of (show_nat n @ suf)) = Inr (max 1 (min (2 ^ 60) (int n * 2 ^ sh)))
        \<and> (sh < 30 \<longrightarrow> parseDownloadSize (bytes_of (show_nat n @ suf)) = Inr (max 1 (min (2 ^ 31 - 1) (int n * 2 ^ sh)))))
    \<and> (2 ^ 63 \<le> int n * 2 ^ sh \<and> int n * 2 ^ sh \<le> 2 ^ 64 \<longrightarrow>
        parseStreamSize (bytes_of (show_nat n @ suf)) = Inr 1
        \<and> (sh < 30 \<longrightarrow> parseDownloadSize (bytes_of (show_nat n @ suf)) = Inr 1))"
proof -
  have s: "parseStreamSize (bytes_of (show_nat n @ suf)) = Inr (max 1 (min (2 ^ 60) (int64 (int n * 2 ^ sh))))"
    unfolding parseStreamSize_def maxStreamBytes_def using assms by (intro parse_size_numeral) simp_all
  have "(suf, sh) \<in> insert ([], 0) (set download_units)" if "sh < 30"
    using assms(2) that by (auto simp: stream_units_def)
  then have d: "parseDownloadSize (bytes_of (show_nat n @ suf)) = Inr (max 1 (min (2 ^ 31 - 1) (int64 (int n * 2 ^ sh))))"
    if "sh < 30"
    unfolding parseDownloadSize_def maxDownloadBytes_def using assms(1) that by (intro parse_size_numeral) simp_all
  have "int64 (int n * 2 ^ sh) = int n * 2 ^ sh" if "int n * 2 ^ sh < 2 ^ 63"
    using that by (intro int64_id) (simp_all add: order_trans [of _ 0])
  moreover have "max 1 (min c (int64 (int n * 2 ^ sh))) = 1" if "2 ^ 63 \<le> int n * 2 ^ sh" "int n * 2 ^ sh \<le> 2 ^ 64" for c
    using int64_wrap [OF that] by simp
  moreover have "parseDownloadSize req = Inr v \<longrightarrow> 1 \<le> v \<and> v \<le> 2 ^ 31 - 1"
    "parseStreamSize req = Inr v \<longrightarrow> 1 \<le> v \<and> v \<le> 2 ^ 60"
    using parse_size_range [of download_units maxDownloadBytes _ req v] parse_size_range [of stream_units maxStreamBytes _ req v]
    by (simp_all add: parseDownloadSize_def parseStreamSize_def maxDownloadBytes_def maxStreamBytes_def)
  ultimately show ?thesis using s d by simp
qed

theorem download_sizes_witness:
  "parseDownloadSize (bytes_of (show_nat 9007199254740992 @ ''k'')) = Inr 1
    \<and> parseStreamSize (bytes_of (show_nat 3 @ ''gb'')) = Inr (3 * 2 ^ 30)"
proof
  show "parseDownloadSize (bytes_of (show_nat 9007199254740992 @ ''k'')) = Inr 1"
    using download_sizes [of 9007199254740992 "''k''" 10] by (simp add: stream_units_def download_units_def)
  show "parseStreamSize (bytes_of (show_nat 3 @ ''gb'')) = Inr (3 * 2 ^ 30)"
    using download_sizes [of 3 "''gb''" 30] by (simp add: stream_units_def)
qed

end
