(* ===== verification/Signal_WS_Client.thy ===== *)
theory Signal_WS_Client
  imports Signal_WS Auth "HOL-Library.Sublist"
begin

text \<open>
  The client of the WebSocket backend (\<open>signal/ws.go\<close>): its options, the URL it dials, \<open>Exchange\<close>, and the
  session with its two pump goroutines.

  \<^item> \<open>url.Parse\<close> and \<open>URL.String\<close> are parameters \<open>parse\<close> and \<open>print\<close>; a URL is its path, its raw query and the
    rest. \<open>quote\<close> is the \<open>%q\<close> verb.
  \<^item> \<open>dial\<close> is \<open>DialContext\<close> of the WebSocket library on a handshake timeout, a URL and an \<open>Authorization\<close> header
    (\<open>None\<close> when it is not set); a connection is a value of any type. \<open>announce\<close> is the outcome of writing the
    first frame.
\<close>

section \<open>Construction\<close>

record 'd ws_backend =
  wb_baseURL :: string
  wb_token :: string
  wb_dialer :: "'d option"
  wb_handshakeTimeout :: int

datatype 'd ws_option = WithToken string | WithDialer "'d option" | WithHandshakeTimeout int

fun apply_ws_option :: "'d ws_backend \<Rightarrow> 'd ws_option \<Rightarrow> 'd ws_backend" where
  "apply_ws_option w (WithToken t) = w\<lparr>wb_token := t\<rparr>"
| "apply_ws_option w (WithDialer d) = w\<lparr>wb_dialer := d\<rparr>"
| "apply_ws_option w (WithHandshakeTimeout n) = w\<lparr>wb_handshakeTimeout := n\<rparr>"

definition NewWS :: "string \<Rightarrow> 'd ws_option list \<Rightarrow> 'd ws_backend" where
  "NewWS baseURL opts = foldl apply_ws_option
     \<lparr>wb_baseURL = baseURL, wb_token = [], wb_dialer = None, wb_handshakeTimeout = 0\<rparr> opts"

section \<open>The URL\<close>

record 'r url =
  ur_Path :: string
  ur_RawQuery :: string
  ur_rest :: 'r

definition HasPrefix :: "string \<Rightarrow> string \<Rightarrow> bool" where
  "HasPrefix s p \<longleftrightarrow> take (length p) s = p"

text \<open>The \<open>switch\<close>: what is given to \<open>url.Parse\<close>.\<close>

definition ws_scheme :: "string \<Rightarrow> string" where
  "ws_scheme raw =
     (if HasPrefix raw ''http://'' then ''ws://'' @ drop (length ''http://'') raw
      else if HasPrefix raw ''https://'' then ''wss://'' @ drop (length ''https://'') raw
      else if HasPrefix raw ''ws://'' \<or> HasPrefix raw ''wss://'' then raw
      else ''ws://'' @ raw)"

definition ws_url ::
  "(string \<Rightarrow> string) \<Rightarrow> (string \<Rightarrow> go_error + 'r url) \<Rightarrow> 'd ws_backend \<Rightarrow> go_error + 'r url" where
  "ws_url quote parse w =
     (let raw = TrimSpace (wb_baseURL w)
      in if raw = [] then Inl (ErrNew ''signal: empty ws url'')
         else case parse (ws_scheme raw) of
                Inl e \<Rightarrow> Inl (Errorf (''signal: parse ws url '' @ quote raw @ '': '') e)
              | Inr u \<Rightarrow>
                  let u1 = (if ur_Path u = [] \<or> ur_Path u = ''/'' then u\<lparr>ur_Path := ''/ws''\<rparr> else u)
                  in Inr (if wb_token w \<noteq> []
                          then u1\<lparr>ur_RawQuery :=
                                 Values_Encode (Values_Set (fst (ParseQuery quote (ur_RawQuery u1))) ''token'' (wb_token w))\<rparr>
                          else u1))"

definition wsURL ::
  "(string \<Rightarrow> string) \<Rightarrow> (string \<Rightarrow> go_error + 'r url) \<Rightarrow> ('r url \<Rightarrow> string) \<Rightarrow> 'd ws_backend \<Rightarrow> go_error + string" where
  "wsURL quote parse print w = (case ws_url quote parse w of Inl e \<Rightarrow> Inl e | Inr u \<Rightarrow> Inr (print u))"

section \<open>Sessions\<close>

text \<open>
  \<open>wx_sent\<close>, \<open>wx_wire\<close>, \<open>wx_read\<close> and \<open>wx_got\<close> are histories: the messages \<open>Send\<close> has accepted, the protobuf
  messages written to the connection and read from it, and the messages the application has received.
\<close>

record ws_session =
  wx_service :: string
  wx_peerID :: string
  wx_out :: "signal_message list"
  wx_in :: "signal_message list"
  wx_inClosed :: bool
  wx_done :: bool
  wx_canceled :: bool
  wx_connOpen :: bool
  wx_outPump :: bool
  wx_inPump :: bool
  wx_sent :: "signal_message list"
  wx_wire :: "pb_signal list"
  wx_read :: "pb_signal list"
  wx_got :: "signal_message list"

definition new_ws_session :: "string \<Rightarrow> string \<Rightarrow> ws_session" where
  "new_ws_session service peerID =
     \<lparr>wx_service = service, wx_peerID = peerID, wx_out = [], wx_in = [], wx_inClosed = False, wx_done = False,
      wx_canceled = False, wx_connOpen = True, wx_outPump = True, wx_inPump = True, wx_sent = [],
      wx_wire = [ws_announce service peerID], wx_read = [], wx_got = []\<rparr>"

text \<open>The handshake timeout of the dialer \<open>Exchange\<close> makes when none is given, in nanoseconds.\<close>

definition exchange_timeout :: "'d ws_backend \<Rightarrow> int" where
  "exchange_timeout w = (if wb_handshakeTimeout w = 0 then 10000000000 else wb_handshakeTimeout w)"

text \<open>The result, and whether a connection has been closed again.\<close>

definition WS_Exchange ::
  "(string \<Rightarrow> string) \<Rightarrow> (string \<Rightarrow> go_error + 'r url) \<Rightarrow> ('r url \<Rightarrow> string) \<Rightarrow>
   ('d + int \<Rightarrow> string \<Rightarrow> string option \<Rightarrow> go_error + 'c) \<Rightarrow> ('c \<Rightarrow> pb_signal \<Rightarrow> go_error option) \<Rightarrow>
   'd ws_backend \<Rightarrow> string \<Rightarrow> string \<Rightarrow> (go_error + 'c \<times> ws_session) \<times> 'c option" where
  "WS_Exchange quote parse print dial announce w service peerID =
     (if service = [] then (Inl (ErrNew ''signal: empty service''), None)
      else if peerID = [] then (Inl (ErrNew ''signal: empty peer id''), None)
      else case wsURL quote parse print w of
             Inl e \<Rightarrow> (Inl e, None)
           | Inr url \<Rightarrow>
               (case dial (case wb_dialer w of Some d \<Rightarrow> Inl d | None \<Rightarrow> Inr (exchange_timeout w)) url
                       (if wb_token w \<noteq> [] then Some (''Bearer '' @ wb_token w) else None) of
                  Inl e \<Rightarrow> (Inl (Errorf (''signal: ws dial '' @ quote url @ '': '') e), None)
                | Inr conn \<Rightarrow>
                    (case announce conn (ws_announce service peerID) of
                       Some e \<Rightarrow> (Inl (Errorf ''signal: send announce: '' e), Some conn)
                     | None \<Rightarrow> (Inr (conn, new_ws_session service peerID), None))))"

definition WS_Send :: "ws_session \<Rightarrow> ctx_err option \<Rightarrow> signal_message \<Rightarrow> (ws_session \<times> go_error option) list" where
  "WS_Send s ctx_done msg =
     (let m = msg\<lparr>sg_Service := wx_service s\<rparr>
      in select
        [(length (wx_out s) < chanCap, (s\<lparr>wx_out := wx_out s @ [m], wx_sent := wx_sent s @ [m]\<rparr>, None)),
         (wx_done s, (s, Some (ErrNew ''signal: session closed''))),
         (ctx_done \<noteq> None, (s, Some (CtxErr (the ctx_done))))])"

text \<open>\<open>Close\<close>, with the cleanup \<open>Exchange\<close> installs: cancel and close the connection.\<close>

definition WS_Close :: "ws_session \<Rightarrow> ws_session" where
  "WS_Close s = (if wx_done s then s else s\<lparr>wx_canceled := True, wx_connOpen := False, wx_done := True\<rparr>)"

text \<open>
  One iteration of the outbound pump. \<open>write_ok\<close> is the outcome of \<open>writeFrame\<close>, which fails on a closed connection.
  The channel is never closed, so the half-close branch is not reachable.
\<close>

definition ws_out_pump :: "ws_session \<Rightarrow> bool \<Rightarrow> ws_session list" where
  "ws_out_pump s write_ok =
     (if \<not> wx_outPump s then []
      else select
        [(wx_out s \<noteq> [],
            let s1 = s\<lparr>wx_out := tl (wx_out s)\<rparr>
            in case ws_outbound (wx_service s) (hd (wx_out s)) of
                 [] \<Rightarrow> s1
               | pb # _ \<Rightarrow> if write_ok \<and> wx_connOpen s then s1\<lparr>wx_wire := wx_wire s @ [pb]\<rparr>
                           else s1\<lparr>wx_outPump := False\<rparr>),
         (wx_canceled s, s\<lparr>wx_outPump := False\<rparr>)])"

text \<open>
  One iteration of the inbound pump, \<open>None\<close> a failed read (the only outcome on a closed connection): it closes
  the session's channel and cancels the context the outbound pump runs under.
\<close>

definition ws_in_pump :: "ws_session \<Rightarrow> pb_signal option \<Rightarrow> ws_session list" where
  "ws_in_pump s inp =
     (if \<not> wx_inPump s then []
      else case inp of
             None \<Rightarrow> [s\<lparr>wx_inClosed := True, wx_inPump := False, wx_canceled := True\<rparr>]
           | Some pb \<Rightarrow> if wx_connOpen s then [s\<lparr>wx_in := ws_inbound (wx_in s) pb, wx_read := wx_read s @ [pb]\<rparr>] else [])"

datatype wx_event =
    WxSend "ctx_err option" signal_message | WxClose | WxCancel | WxOut bool | WxIn "pb_signal option" | WxReceive

definition wx_outcomes :: "ws_session \<Rightarrow> wx_event \<Rightarrow> ws_session list" where
  "wx_outcomes s ev =
     (case ev of
        WxSend ctx msg \<Rightarrow> map fst (WS_Send s ctx msg)
      | WxClose \<Rightarrow> [WS_Close s]
      | WxCancel \<Rightarrow> [s\<lparr>wx_canceled := True\<rparr>]
      | WxOut ok \<Rightarrow> ws_out_pump s ok
      | WxIn inp \<Rightarrow> ws_in_pump s inp
      | WxReceive \<Rightarrow> if wx_in s \<noteq> [] then [s\<lparr>wx_in := tl (wx_in s), wx_got := wx_got s @ [hd (wx_in s)]\<rparr>] else [])"

section \<open>The token\<close>

lemma fold_Add_other: "k \<notin> fst ` set ps \<Longrightarrow> map_of (foldl (\<lambda>m (k, v). Values_Add m k v) q ps) k = map_of q k"
  by (induction ps arbitrary: q) (auto simp: Values_Add_def update_conv')

lemma fold_Add_key:
  "map_of (foldl (\<lambda>m (k, v). Values_Add m k v) q (map (Pair k) vs)) k =
     (if vs = [] then map_of q k else Some ((case map_of q k of None \<Rightarrow> [] | Some us \<Rightarrow> us) @ vs))"
  by (induction vs arbitrary: q) (auto simp: Values_Add_def update_conv')

text \<open>Parsing the encoding of a query gives every key the values it had.\<close>

lemma fold_Add_pairs:
  assumes "distinct (map fst kvs)"
  shows "map_of (foldl (\<lambda>m (k, v). Values_Add m k v) q (concat (map (\<lambda>(k, vs). map (Pair k) vs) kvs))) k =
    (case map_of kvs k of None \<Rightarrow> map_of q k
     | Some vs \<Rightarrow> if vs = [] then map_of q k else Some ((case map_of q k of None \<Rightarrow> [] | Some us \<Rightarrow> us) @ vs))"
  using assms
proof (induction kvs arbitrary: q)
  case (Cons p kvs)
  obtain k' vs where p: "p = (k', vs)" by (cases p)
  show ?case
  proof (cases "k' = k")
    case True
    with p Cons.prems have "map_of kvs k = None" by (auto simp: map_of_eq_None_iff)
    with p True Cons.IH [of "foldl (\<lambda>m (k, v). Values_Add m k v) q (map (Pair k) vs)"] Cons.prems show ?thesis
      by (auto simp: fold_Add_key split: option.splits)
  next
    case False
    then have "map_of (foldl (\<lambda>m (k, v). Values_Add m k v) q (map (Pair k') vs)) k = map_of q k"
      by (intro fold_Add_other) auto
    with p False Cons.IH [of "foldl (\<lambda>m (k, v). Values_Add m k v) q (map (Pair k') vs)"] Cons.prems show ?thesis
      by (simp split: option.split)
  qed
qed simp

lemma Values_Get_encoded:
  assumes "distinct (map fst q)"
  shows "Values_Get (fst (ParseQuery quote (Values_Encode q))) k = Values_Get q k"
proof -
  have p: "distinct (map fst (sort_key fst q))"
    using assms mset_eq_imp_distinct_iff [of "map fst (sort_key fst q)" "map fst q"] by simp
  then have "map_of (sort_key fst q) = map_of q" using assms by (simp add: map_of_inject_set)
  then show ?thesis
    using fold_Add_pairs [OF p, of "[]" k]
    by (auto simp: ParseQuery_Encode value_pairs_def Values_Get_def split: option.splits list.splits)
qed

lemma distinct_Add: "distinct (map fst q) \<Longrightarrow> distinct (map fst (Values_Add q k v))"
  by (simp add: Values_Add_def distinct_update)

lemma distinct_parse_loop:
  "distinct (map fst m) \<Longrightarrow> distinct (map fst (fst (parse_query_loop quote m err query)))"
proof (induction "length query" arbitrary: m err query rule: less_induct)
  case less
  show ?case
  proof (cases "query = []")
    case True
    with less.prems show ?thesis by (simp add: parse_query_loop.simps)
  next
    case False
    obtain setting rest f where s: "str_Cut query CHR ''&'' = (setting, rest, f)" by (cases "str_Cut query CHR ''&''")
    obtain k v g where kv: "str_Cut setting CHR ''='' = (k, v, g)" by (cases "str_Cut setting CHR ''=''")
    have "length rest < length query" by (rule str_Cut_length [OF s False])
    note ih = less.hyps [OF this]
    show ?thesis
      by (subst parse_query_loop.simps)
        (simp add: False s kv ih less.prems distinct_Add split: sum.split)
  qed
qed

lemma distinct_ParseQuery: "distinct (map fst (fst (ParseQuery quote query)))"
  by (simp add: ParseQuery_def distinct_parse_loop)

lemma Values_Get_Set: "Values_Get (Values_Set q k v) k' = (if k' = k then v else Values_Get q k')"
  by (auto simp: Values_Get_def Values_Set_def update_conv')

text \<open>The query \<open>wsURL\<close> builds: the token under its name, every other parameter as it was.\<close>

lemma ws_url_query:
  assumes "ws_url quote parse w = Inr u" and "parse (ws_scheme (TrimSpace (wb_baseURL w))) = Inr u0"
  shows "Values_Get (fst (ParseQuery quote (ur_RawQuery u))) k =
    (if wb_token w \<noteq> [] \<and> k = ''token'' then wb_token w else Values_Get (fst (ParseQuery quote (ur_RawQuery u0))) k)"
  using assms distinct_ParseQuery [of quote "ur_RawQuery u0"]
  by (auto simp: ws_url_def Let_def Values_Get_encoded Values_Set_def distinct_update
      Values_Get_Set [unfolded Values_Set_def] split: if_splits)

text \<open>
  C31: How a client's token reaches the server. Given a base URL that parses, \<open>Exchange\<close> dials exactly one
  URL and succeeds exactly when the dialer and the announcement do. That URL is the base URL with the path
  \<open>/ws\<close> when it had none, and with every query parameter as it was, except that a token given to \<open>WithToken\<close>
  is the \<open>token\<close> parameter; the same token is in the \<open>Authorization\<close> header. Each of the two is enough for the
  server: from the query alone \<open>tokenFromRequest\<close> reads the token of the client, or without one that of the
  base URL, and from the header alone it reads the token whatever the query says.
\<close>

theorem ws_token_carried:
  assumes "service \<noteq> []" and "peerID \<noteq> []" and "TrimSpace (wb_baseURL w) \<noteq> []"
    and "parse (ws_scheme (TrimSpace (wb_baseURL w))) = Inr u0"
  shows "\<exists>u. ws_url quote parse w = Inr u
    \<and> (\<forall>c s. fst (WS_Exchange quote parse print dial announce w service peerID) = Inr (c, s) \<longleftrightarrow>
         dial (case wb_dialer w of Some d \<Rightarrow> Inl d | None \<Rightarrow> Inr (exchange_timeout w)) (print u)
           (if wb_token w \<noteq> [] then Some (''Bearer '' @ wb_token w) else None) = Inr c
         \<and> announce c (ws_announce service peerID) = None \<and> s = new_ws_session service peerID)
    \<and> ur_rest u = ur_rest u0
    \<and> ur_Path u = (if ur_Path u0 = [] \<or> ur_Path u0 = ''/'' then ''/ws'' else ur_Path u0)
    \<and> (\<forall>k. Values_Get (fst (ParseQuery quote (ur_RawQuery u))) k =
         (if wb_token w \<noteq> [] \<and> k = ''token'' then wb_token w
          else Values_Get (fst (ParseQuery quote (ur_RawQuery u0))) k))
    \<and> (\<forall>up. tokenFromRequest quote \<lparr>rq_Authorization = [], rq_RawQuery = ur_RawQuery u, rq_Upgrade = up\<rparr> =
         (if wb_token w \<noteq> [] then wb_token w
          else Values_Get (fst (ParseQuery quote (ur_RawQuery u0))) ''token''))
    \<and> (\<forall>query up. wb_token w \<noteq> [] \<longrightarrow>
         tokenFromRequest quote \<lparr>rq_Authorization = ''Bearer '' @ wb_token w, rq_RawQuery = query, rq_Upgrade = up\<rparr> = wb_token w)"
proof -
  obtain u where u: "ws_url quote parse w = Inr u" "ur_rest u = ur_rest u0"
    "ur_Path u = (if ur_Path u0 = [] \<or> ur_Path u0 = ''/'' then ''/ws'' else ur_Path u0)"
    using assms(3,4) by (simp add: ws_url_def Let_def)
  have ex: "fst (WS_Exchange quote parse print dial announce w service peerID) = Inr (c, s) \<longleftrightarrow>
      dial (case wb_dialer w of Some d \<Rightarrow> Inl d | None \<Rightarrow> Inr (exchange_timeout w)) (print u)
        (if wb_token w \<noteq> [] then Some (''Bearer '' @ wb_token w) else None) = Inr c
      \<and> announce c (ws_announce service peerID) = None \<and> s = new_ws_session service peerID" for c s
    using assms(1,2) by (auto simp: WS_Exchange_def wsURL_def u(1) split: sum.split option.split)
  have "tokenFromRequest quote \<lparr>rq_Authorization = [], rq_RawQuery = ur_RawQuery u, rq_Upgrade = up\<rparr> =
      (if wb_token w \<noteq> [] then wb_token w else Values_Get (fst (ParseQuery quote (ur_RawQuery u0))) ''token'')" for up
    using ws_url_query [OF u(1) assms(4), of "''token''"] by (simp add: tokenFromRequest_def bearerToken_def)
  with u ex ws_url_query [OF u(1) assms(4)] show ?thesis
    by (simp add: tokenFromRequest_def bearerToken_def)
qed

definition demo_parse :: "string \<Rightarrow> go_error + string url" where
  "demo_parse s = (case str_Cut s CHR ''?'' of (a, q, _) \<Rightarrow> Inr \<lparr>ur_Path = [], ur_RawQuery = q, ur_rest = a\<rparr>)"

definition demo_print :: "string url \<Rightarrow> string" where
  "demo_print u = ur_rest u @ ur_Path u @ CHR ''?'' # ur_RawQuery u"

definition demo_dial :: "unit + int \<Rightarrow> string \<Rightarrow> string option \<Rightarrow> go_error + nat" where
  "demo_dial d url hdr =
     (if url = ''wss://h/ws?room=1&token=a+b'' \<and> hdr = Some ''Bearer a b'' then Inr 1 else Inl (ErrNew ''refused''))"

definition demo_ws :: "unit ws_backend" where
  "demo_ws = NewWS '' https://h?token=x&room=1'' [WithToken ''a b'']"

theorem ws_token_carried_witness:
  "fst (WS_Exchange id demo_parse demo_print demo_dial (\<lambda>_ _. None) demo_ws ''v'' ''p'') = Inr (1, new_ws_session ''v'' ''p'')
     \<and> (\<exists>u. ws_url id demo_parse demo_ws = Inr u \<and> demo_print u = ''wss://h/ws?room=1&token=a+b''
          \<and> tokenFromRequest id \<lparr>rq_Authorization = [], rq_RawQuery = ur_RawQuery u, rq_Upgrade = True\<rparr> = ''a b'')"
proof -
  have b: "TrimSpace (wb_baseURL demo_ws) \<noteq> []" by code_simp
  have p: "demo_parse (ws_scheme (TrimSpace (wb_baseURL demo_ws))) =
      Inr \<lparr>ur_Path = [], ur_RawQuery = ''token=x&room=1'', ur_rest = ''wss://h''\<rparr>" by code_simp
  have w: "wsURL id demo_parse demo_print demo_ws = Inr ''wss://h/ws?room=1&token=a+b''" by code_simp
  have t: "wb_token demo_ws = ''a b''" by code_simp
  have sp: "''v'' \<noteq> []" "''p'' \<noteq> []" by simp_all
  obtain u where u: "ws_url id demo_parse demo_ws = Inr u"
    "fst (WS_Exchange id demo_parse demo_print demo_dial (\<lambda>_ _. None) demo_ws ''v'' ''p'') = Inr (1, new_ws_session ''v'' ''p'') \<longleftrightarrow>
       demo_dial (case wb_dialer demo_ws of Some d \<Rightarrow> Inl d | None \<Rightarrow> Inr (exchange_timeout demo_ws)) (demo_print u)
         (Some (''Bearer '' @ ''a b'')) = Inr 1"
    "tokenFromRequest id \<lparr>rq_Authorization = [], rq_RawQuery = ur_RawQuery u, rq_Upgrade = True\<rparr> = ''a b''"
    using ws_token_carried [where service = "''v''" and peerID = "''p''" and w = demo_ws and parse = demo_parse and quote = id
        and print = demo_print and dial = demo_dial and announce = "\<lambda>_ _. None", OF sp b p] t by auto
  moreover have "demo_print u = ''wss://h/ws?room=1&token=a+b''" using w u(1) by (simp add: wsURL_def)
  ultimately show ?thesis by (simp add: demo_dial_def)
qed

section \<open>Delivery\<close>

text \<open>
  What the histories say of a session: all accepted messages but those still queued, and but the one whose write
  failed, have been written in order; what the application gets are messages read, in order.
\<close>

definition wx_inv :: "string \<Rightarrow> string \<Rightarrow> ws_session \<Rightarrow> bool" where
  "wx_inv service peerID s \<longleftrightarrow> wx_service s = service
     \<and> (\<exists>written lost. wx_sent s = written @ lost @ wx_out s
          \<and> wx_wire s = ws_announce service peerID # concat (map (ws_outbound service) written)
          \<and> length lost \<le> (if wx_outPump s then 0 else 1))
     \<and> subseq (wx_got s @ wx_in s) (List.map_filter fromProtoMessage (wx_read s))
     \<and> length (wx_out s) \<le> chanCap \<and> length (wx_in s) \<le> chanCap"

lemma ws_outbound_cases:
  obtains "ws_outbound service msg = []" | pb where "ws_outbound service msg = [pb]"
  by (cases "toProtoMessage msg") (auto simp: ws_outbound_def)

lemma wx_inv_out:
  assumes "wx_inv service peerID s" and "s' \<in> set (ws_out_pump s ok)"
  shows "wx_inv service peerID s'"
proof -
  from assms(1) obtain written where w: "wx_service s = service" "wx_outPump s \<longrightarrow> wx_sent s = written @ wx_out s"
    "wx_outPump s \<longrightarrow> wx_wire s = ws_announce service peerID # concat (map (ws_outbound service) written)"
    by (cases "wx_outPump s") (auto simp: wx_inv_def)
  from assms(2) have p: "wx_outPump s" by (auto simp: ws_out_pump_def split: if_splits)
  let ?inv = "\<lambda>written lost. wx_sent s' = written @ lost @ wx_out s'
        \<and> wx_wire s' = ws_announce service peerID # concat (map (ws_outbound service) written)
        \<and> length lost \<le> (if wx_outPump s' then 0 else 1)"
  have k: "wx_service s' = service" "wx_got s' = wx_got s" "wx_in s' = wx_in s" "wx_read s' = wx_read s"
    "length (wx_out s') \<le> length (wx_out s)"
    using assms(2) p w(1) by (auto simp: ws_out_pump_def Let_def split: if_splits list.splits)
  have "\<exists>written lost. ?inv written lost"
  proof (cases "wx_out s")
    case Nil
    then have "?inv written []" using assms(2) p w by (auto simp: ws_out_pump_def split: if_splits)
    then show ?thesis by blast
  next
    case (Cons m ms)
    have "?inv (written @ [m]) [] \<or> ?inv written [m] \<or> ?inv written []"
      using assms(2) p Cons w by (cases rule: ws_outbound_cases [of service m]) (auto simp: ws_out_pump_def Let_def split: if_splits)
    then show ?thesis by blast
  qed
  moreover have "subseq (wx_got s' @ wx_in s') (List.map_filter fromProtoMessage (wx_read s'))"
    "length (wx_out s') \<le> chanCap" "length (wx_in s') \<le> chanCap"
    using assms(1) k by (auto simp: wx_inv_def)
  ultimately show ?thesis using k(1) unfolding wx_inv_def by blast
qed

lemma ws_inbound_subseq:
  assumes "subseq (gt @ q) (List.map_filter fromProtoMessage read)" and "length q \<le> chanCap"
  shows "subseq (gt @ ws_inbound q pb) (List.map_filter fromProtoMessage (read @ [pb])) \<and> length (ws_inbound q pb) \<le> chanCap"
proof -
  have m: "List.map_filter fromProtoMessage (read @ [pb]) =
      List.map_filter fromProtoMessage read @ (case fromProtoMessage pb of None \<Rightarrow> [] | Some x \<Rightarrow> [x])"
    by (simp add: List.map_filter_def split: option.split)
  show ?thesis
    using assms m list_emb_append_mono [OF assms(1)] list_emb_append2 by (auto simp: ws_inbound_def split: option.split)
qed

lemma wx_inv_step:
  assumes "wx_inv service peerID s" and "s' \<in> set (wx_outcomes s ev)"
  shows "wx_inv service peerID s'"
proof (cases ev)
  case (WxSend ctx msg)
  then have "s' = s \<or> (\<exists>m. s' = s\<lparr>wx_out := wx_out s @ [m], wx_sent := wx_sent s @ [m]\<rparr> \<and> length (wx_out s) < chanCap)"
    using assms(2) by (auto simp: wx_outcomes_def WS_Send_def Let_def split: if_splits)
  moreover have "wx_inv service peerID (s\<lparr>wx_out := wx_out s @ [m], wx_sent := wx_sent s @ [m]\<rparr>)"
    if "length (wx_out s) < chanCap" for m
    using assms(1) that unfolding wx_inv_def by simp
  ultimately show ?thesis using assms(1) by auto
next
  case WxClose
  with assms show ?thesis by (auto simp: wx_outcomes_def WS_Close_def wx_inv_def)
next
  case WxCancel
  with assms show ?thesis by (auto simp: wx_outcomes_def wx_inv_def)
next
  case (WxOut ok)
  with assms wx_inv_out show ?thesis by (simp add: wx_outcomes_def)
next
  case (WxIn inp)
  with assms(2) consider "s' = s\<lparr>wx_inClosed := True, wx_inPump := False, wx_canceled := True\<rparr>"
    | pb where "s' = s\<lparr>wx_in := ws_inbound (wx_in s) pb, wx_read := wx_read s @ [pb]\<rparr>"
    by (auto simp: wx_outcomes_def ws_in_pump_def split: if_splits option.splits)
  then show ?thesis
    using assms(1) ws_inbound_subseq [of "wx_got s" "wx_in s" "wx_read s"] by cases (auto simp: wx_inv_def)
next
  case WxReceive
  with assms show ?thesis by (cases "wx_in s") (auto simp: wx_outcomes_def wx_inv_def)
qed

lemma wx_pump_ended:
  assumes "runs wx_outcomes s evs s'" and "\<not> wx_outPump s"
  shows "wx_wire s' = wx_wire s \<and> \<not> wx_outPump s'"
  by (rule runs_invariant [OF assms(1)])
    (use assms(2) in \<open>auto simp: wx_outcomes_def WS_Send_def WS_Close_def ws_out_pump_def ws_in_pump_def Let_def
       split: wx_event.splits if_splits option.splits\<close>)

text \<open>
  C32: What a WebSocket session delivers. In every run of a session, the messages \<open>Send\<close> has accepted are the ones
  written to the connection after the announcement, in order and each as the protobuf message of its body, then at
  most one whose write failed, then those still queued, at most 32. The application receives, in order, a
  subsequence of the messages read. Once the outbound pump has ended, as it does when the connection is lost,
  nothing is written any more whatever happens; but until the session is closed \<open>Send\<close> goes on returning nil for as
  long as the queue has room.
\<close>

theorem ws_session_delivery:
  assumes "runs wx_outcomes (new_ws_session service peerID) evs s"
  shows "(\<exists>written lost. wx_sent s = written @ lost @ wx_out s
        \<and> wx_wire s = ws_announce service peerID # concat (map (ws_outbound service) written)
        \<and> length lost \<le> (if wx_outPump s then 0 else 1))
    \<and> subseq (wx_got s @ wx_in s) (List.map_filter fromProtoMessage (wx_read s))
    \<and> length (wx_out s) \<le> 32 \<and> length (wx_in s) \<le> 32
    \<and> (\<not> wx_outPump s \<longrightarrow> (\<forall>evs' s'. runs wx_outcomes s evs' s' \<longrightarrow> wx_wire s' = wx_wire s))
    \<and> (\<not> wx_done s \<and> length (wx_out s) < 32 \<longrightarrow> map snd (WS_Send s None msg) = [None])"
proof -
  have "wx_inv service peerID (new_ws_session service peerID)" by (simp add: wx_inv_def new_ws_session_def)
  with assms have "wx_inv service peerID s" by (rule runs_invariant) (rule wx_inv_step)
  moreover have "\<forall>evs' s'. runs wx_outcomes s evs' s' \<longrightarrow> wx_wire s' = wx_wire s" if "\<not> wx_outPump s"
    using that wx_pump_ended by blast
  moreover have "map snd (WS_Send s None msg) = [None]" if "\<not> wx_done s" "length (wx_out s) < 32"
    using that by (simp add: WS_Send_def Let_def chanCap_def)
  ultimately show ?thesis unfolding wx_inv_def chanCap_def by blast
qed

definition lost_run :: "(wx_event \<times> nat) list" where
  "lost_run = [(WxIn None, 0), (WxOut True, 0),
     (WxSend None \<lparr>sg_Service = [], sg_Body = empty_body\<lparr>sb_Ping := Some 1\<rparr>\<rparr>, 0)]"

theorem ws_session_delivery_witness:
  "\<exists>s. runs wx_outcomes (new_ws_session ''v'' ''p'') (map fst lost_run) s \<and> length (wx_sent s) = 1 \<and> \<not> wx_outPump s
     \<and> (\<forall>evs' s'. runs wx_outcomes s evs' s' \<longrightarrow> wx_wire s' = [ws_announce ''v'' ''p''])"
proof -
  obtain s where s: "play wx_outcomes (new_ws_session ''v'' ''p'') lost_run = Some s" "length (wx_sent s) = 1"
    "\<not> wx_outPump s" "wx_wire s = [ws_announce ''v'' ''p'']"
    by (simp add: lost_run_def wx_outcomes_def new_ws_session_def ws_in_pump_def ws_out_pump_def WS_Send_def chanCap_def Let_def)
  have r: "runs wx_outcomes (new_ws_session ''v'' ''p'') (map fst lost_run) s" by (rule play_runs [OF s(1)])
  from ws_session_delivery [OF r] s show ?thesis by (intro exI [of _ s]) (simp add: r)
qed

end
