(* ===== verification/Signal_WS_Net.thy ===== *)
theory Signal_WS_Net
  imports Signal_WS_Client
begin

text \<open>
  The WebSocket signaling system as a whole: any number of client sessions (\<open>signal/ws.go\<close>), each over a
  connection to one server (\<open>signalserver/ws.go\<close>) with its in-memory store. A connection carries the frames
  of each side in order, as TCP does; frames decode to the messages they encode (\<open>signaling_roundtrip\<close>).
  The theorem says where a message an application receives comes from.
\<close>

section \<open>The store under the server\<close>

text \<open>\<open>nm\<close> gives each service object the name it was created for, registered or not.\<close>

definition names :: "'b store \<Rightarrow> (nat \<Rightarrow> string) \<Rightarrow> bool" where
  "names r nm \<longleftrightarrow> (\<forall>n s. rg_services r n = Some s \<longrightarrow> nm s = n)
     \<and> (\<forall>s i po p. member_of r s i po \<longrightarrow> rg_peers r po = Some p \<longrightarrow> po_service p = nm s)"

text \<open>A critical section that adds no service, no member and no object.\<close>

definition keeps_names :: "'b store \<Rightarrow> 'b store \<Rightarrow> bool" where
  "keeps_names r r' \<longleftrightarrow> rg_services r' \<subseteq>\<^sub>m rg_services r \<and> rg_nextSvc r' = rg_nextSvc r
     \<and> (\<forall>s i po. member_of r' s i po \<longrightarrow> member_of r s i po)
     \<and> (\<forall>po p'. rg_peers r' po = Some p' \<longrightarrow>
          (\<exists>p. rg_peers r po = Some p \<and> po_id p' = po_id p \<and> po_service p' = po_service p))
     \<and> (\<forall>po p. rg_peers r po = Some p \<longrightarrow>
          (\<exists>p'. rg_peers r' po = Some p' \<and> po_id p' = po_id p \<and> po_service p' = po_service p))"

definition keeps_inboxes :: "'b store \<Rightarrow> 'b store \<Rightarrow> bool" where
  "keeps_inboxes r r' \<longleftrightarrow> (\<forall>po p'. rg_peers r' po = Some p' \<longrightarrow>
     (\<exists>p. rg_peers r po = Some p \<and> po_id p' = po_id p \<and> po_service p' = po_service p \<and> set (po_inbox p') \<subseteq> set (po_inbox p)))"

lemma names_kept: "names r nm \<Longrightarrow> keeps_names r r' \<Longrightarrow> names r' nm"
  unfolding names_def keeps_names_def map_le_def by (metis domI)

lemma Leave_keeps: "keeps_names r (Leave r peer)" "keeps_inboxes r (Leave r peer)"
  by (auto simp: keeps_names_def keeps_inboxes_def Leave_def remove_peer_def close_inbox_def gc_service_def member_of_def
      AList.delete_eq Let_def map_le_def split: option.splits if_splits)

lemma Leave_wf: "reg_wf r \<Longrightarrow> reg_wf (Leave r peer)"
  by (cases peer) (simp add: Leave_ok(1))

lemma pop_stays:
  assumes "rg_peers r po = Some p" and "po_inbox p = m # ms"
  shows "keeps_names r (r\<lparr>rg_peers := (rg_peers r)(po := Some (p\<lparr>po_inbox := ms\<rparr>))\<rparr>)"
    and "keeps_inboxes r (r\<lparr>rg_peers := (rg_peers r)(po := Some (p\<lparr>po_inbox := ms\<rparr>))\<rparr>)"
  using assms by (auto simp: keeps_names_def keeps_inboxes_def member_of_def)

lemma got_keeps: "keeps_names r (r\<lparr>rg_peers := got sender m ps (rg_peers r)\<rparr>)"
  by (auto simp: keeps_names_def member_of_def got_def split: if_splits)

lemma service_for_names:
  assumes "reg_wf r" and "names r nm" and "service_for r v = (r1, svc)"
  shows "names r1 (nm(svc := v)) \<and> (\<forall>s < rg_nextSvc r. (nm(svc := v)) s = nm s) \<and> rg_nextSvc r \<le> rg_nextSvc r1"
proof (cases "rg_services r v")
  case (Some s)
  then have "r1 = r" "svc = s" "nm s = v" using assms(2,3) by (auto simp: service_for_def names_def)
  moreover from this have "nm(svc := v) = nm" by auto
  ultimately show ?thesis using assms(2) by simp
next
  case None
  note f = service_for_wf [OF assms(1,3)]
  have svc: "svc = rg_nextSvc r" "rg_nextSvc r \<le> rg_nextSvc r1" using assms(3) None by (auto simp: service_for_def)
  have "po_service p = (nm(svc := v)) s" if m: "member_of r1 s i po" "rg_peers r1 po = Some p" for s i po p
    using assms(2) m f svc wf_member [OF assms(1), of s i po] unfolding names_def by auto
  moreover have "(nm(svc := v)) s = n" if "rg_services r1 n = Some s" for n s
    using that assms(2) f svc wf_names [OF assms(1), of n s] unfolding names_def by (cases "n = v") auto
  ultimately show ?thesis using svc unfolding names_def by auto
qed

lemma add_peer_names:
  assumes "reg_wf r" and "names r nm" and "nm svc = v" and "add_peer r svc v p = (r', po)"
  shows "names r' nm"
proof -
  have "\<not> member_of r s i (rg_nextPeer r)" for s i using wf_member [OF assms(1), of s i "rg_nextPeer r"] by auto
  with assms show ?thesis by (auto simp: names_def add_peer_def Let_def member_of_def split: if_splits)
qed

section \<open>Where the server's messages come from\<close>

text \<open>\<open>rd j\<close> are the frames connection \<open>j\<close> has read: the announcement and the others.\<close>

definition announced :: "(nat \<Rightarrow> pb_signal list) \<Rightarrow> nat \<Rightarrow> string \<Rightarrow> string \<Rightarrow> bool" where
  "announced rd j service pid \<longleftrightarrow> (\<exists>pb a rest. rd j = pb # rest \<and> announce_of pb = Some a
     \<and> pb_Service pb = service \<and> an_PeerID a = pid)"

definition origin :: "(nat \<Rightarrow> pb_signal list) \<Rightarrow> string \<Rightarrow> string \<Rightarrow> pb_signal \<Rightarrow> bool" where
  "origin rd service pid pb \<longleftrightarrow> (\<exists>j pid' pb0. announced rd j service pid' \<and> pid' \<noteq> pid \<and> pb0 \<in> set (tl (rd j))
     \<and> pb = pb0\<lparr>pb_Service := service\<rparr>)"

definition joined :: "ws_conn \<Rightarrow> bool" where
  "joined w \<longleftrightarrow> wc_phase w = WsServing \<or> wc_phase w = WsClosing"

definition seated :: "pb_signal store \<Rightarrow> (nat \<Rightarrow> string) \<Rightarrow> ws_conn \<Rightarrow> bool" where
  "seated r nm w \<longleftrightarrow> sd_service (wc_sender w) < rg_nextSvc r \<and> nm (sd_service (wc_sender w)) = pr_service (wc_peer w)
     \<and> (\<exists>p. rg_peers r (sd_peer (wc_sender w)) = Some p \<and> po_id p = pr_id (wc_peer w) \<and> po_service p = pr_service (wc_peer w))"

definition conn_ok :: "(nat \<Rightarrow> pb_signal list) \<Rightarrow> nat \<Rightarrow> ws_conn \<Rightarrow> bool" where
  "conn_ok rd j w \<longleftrightarrow> (wc_phase w = WsAnnounce \<longrightarrow> rd j = []) \<and> (wc_pump w \<longrightarrow> joined w)
     \<and> (joined w \<longrightarrow> announced rd j (pr_service (wc_peer w)) (pr_id (wc_peer w)))
     \<and> (\<forall>pb \<in> set (wc_written w). \<exists>service pid. announced rd j service pid \<and> origin rd service pid pb)"

definition inboxes_ok :: "(nat \<Rightarrow> pb_signal list) \<Rightarrow> pb_signal store \<Rightarrow> bool" where
  "inboxes_ok rd r \<longleftrightarrow> (\<forall>po p m. rg_peers r po = Some p \<longrightarrow> m \<in> set (po_inbox p) \<longrightarrow> origin rd (po_service p) (po_id p) (sm_body m))"

definition srv_inv :: "(nat \<Rightarrow> pb_signal list) \<Rightarrow> ws_server \<Rightarrow> bool" where
  "srv_inv rd v \<longleftrightarrow> reg_wf (wv_store v) \<and> wv_panic v = None \<and> inboxes_ok rd (wv_store v)
     \<and> (\<forall>j. conn_ok rd j (wv_conns v j))
     \<and> (\<exists>nm. names (wv_store v) nm \<and> (\<forall>j. joined (wv_conns v j) \<longrightarrow> seated (wv_store v) nm (wv_conns v j)))"

lemma srv_invD:
  assumes "srv_inv rd v"
  shows "reg_wf (wv_store v)" "wv_panic v = None" "inboxes_ok rd (wv_store v)" "conn_ok rd j (wv_conns v j)"
  using assms by (auto simp: srv_inv_def)

definition reads_more :: "(nat \<Rightarrow> pb_signal list) \<Rightarrow> (nat \<Rightarrow> pb_signal list) \<Rightarrow> bool" where
  "reads_more rd rd' \<longleftrightarrow> (\<forall>j. \<exists>ys. rd' j = rd j @ ys)"

lemma reads_more_refl [simp]: "reads_more rd rd"
  by (simp add: reads_more_def)

lemma reads_more_one [simp]: "reads_more rd (rd(j := rd j @ ys))"
  by (simp add: reads_more_def)

lemma announced_more: "reads_more rd rd' \<Longrightarrow> announced rd j service pid \<Longrightarrow> announced rd' j service pid"
  unfolding reads_more_def announced_def by (metis append_Cons)

lemma announced_unique: "announced rd j service pid \<Longrightarrow> announced rd j service' pid' \<Longrightarrow> service' = service \<and> pid' = pid"
  by (auto simp: announced_def)

lemma origin_more:
  assumes "reads_more rd rd'" and "origin rd service pid pb"
  shows "origin rd' service pid pb"
proof -
  obtain j pid' pb0 where o: "announced rd j service pid'" "pid' \<noteq> pid" "pb0 \<in> set (tl (rd j))" "pb = pb0\<lparr>pb_Service := service\<rparr>"
    using assms(2) by (auto simp: origin_def)
  obtain ys where "rd' j = rd j @ ys" using assms(1) by (auto simp: reads_more_def)
  with o announced_more [OF assms(1) o(1)] show ?thesis
    unfolding origin_def by (intro exI [of _ j] exI [of _ pid'] exI [of _ pb0]) (cases "rd j"; simp)
qed

lemma conn_ok_more:
  assumes "reads_more rd rd'" and "conn_ok rd j w" and "rd' j = rd j \<or> wc_phase w \<noteq> WsAnnounce"
  shows "conn_ok rd' j w"
  using assms(2,3) announced_more [OF assms(1)] origin_more [OF assms(1)] unfolding conn_ok_def by metis

lemma inboxes_more: "reads_more rd rd' \<Longrightarrow> inboxes_ok rd r \<Longrightarrow> inboxes_ok rd' r"
  using origin_more unfolding inboxes_ok_def by blast

lemma inboxes_kept: "inboxes_ok rd r \<Longrightarrow> keeps_inboxes r r' \<Longrightarrow> inboxes_ok rd r'"
  unfolding inboxes_ok_def keeps_inboxes_def by fastforce

lemma seated_kept: "seated r nm w \<Longrightarrow> keeps_names r r' \<Longrightarrow> seated r' nm w"
  unfolding seated_def keeps_names_def by fastforce

text \<open>A step of connection \<open>j\<close> that adds nothing to the registry.\<close>

lemma put_conn_inv:
  assumes inv: "srv_inv rd v" and more: "reads_more rd rd'" and same: "\<And>i. i \<noteq> j \<Longrightarrow> rd' i = rd i"
    and wf: "reg_wf r" and nms: "keeps_names (wv_store v) r" and box: "inboxes_ok rd' r"
    and ok: "conn_ok rd' j w" and was: "joined w \<longrightarrow> joined (wv_conns v j) \<and> wc_sender w = wc_sender (wv_conns v j)
      \<and> wc_peer w = wc_peer (wv_conns v j)"
  shows "srv_inv rd' (put_conn v j (r, w))"
proof -
  obtain nm where nm: "names (wv_store v) nm" "\<And>i. joined (wv_conns v i) \<Longrightarrow> seated (wv_store v) nm (wv_conns v i)"
    using inv by (auto simp: srv_inv_def)
  have "seated r nm w" if "joined w"
  proof -
    have "seated (wv_store v) nm (wv_conns v j)" using that was nm(2) by simp
    then have "seated (wv_store v) nm w" using that was by (simp add: seated_def)
    then show ?thesis by (rule seated_kept [OF _ nms])
  qed
  moreover have "seated r nm (wv_conns v i)" if "joined (wv_conns v i)" for i
    by (rule seated_kept [OF nm(2) [OF that] nms])
  moreover have "conn_ok rd' i (wv_conns v i)" if "i \<noteq> j" for i
    using conn_ok_more [OF more srv_invD(4) [OF inv]] same [OF that] by simp
  ultimately show ?thesis
    using wf box ok names_kept [OF nm(1) nms] srv_invD(2) [OF inv]
    by (simp add: srv_inv_def put_conn_def) (intro exI [of _ nm], auto)
qed

lemma Join_error:
  assumes "Join r peer = (r', Inl e)"
  shows "r' = r"
proof (cases "rg_services r (pr_service peer)")
  case None
  with assms show ?thesis
    by (auto simp: Join_def Join_insert_def service_for_def add_peer_def MaxPeersPerService_def Let_def split: if_splits)
next
  case (Some svc)
  with assms show ?thesis by (auto simp: Join_def Join_insert_def service_for_def Let_def split: if_splits prod.splits)
qed

definition read_frame :: "nat \<Rightarrow> pb_signal option \<Rightarrow> (nat \<Rightarrow> pb_signal list) \<Rightarrow> nat \<Rightarrow> pb_signal list" where
  "read_frame j inp rd = rd(j := rd j @ (case inp of None \<Rightarrow> [] | Some pb \<Rightarrow> [pb]))"

lemma read_frame_more [simp]: "reads_more rd (read_frame j inp rd)"
  by (simp add: read_frame_def)

lemma ws_first_inv:
  assumes inv: "srv_inv rd v" and ph: "wc_phase (wv_conns v j) = WsAnnounce"
  shows "srv_inv (read_frame j inp rd) (put_conn v j (ws_first (wv_store v) (wv_conns v j) inp))"
proof -
  let ?w = "wv_conns v j" and ?r = "wv_store v" and ?rd = "read_frame j inp rd"
  have rd: "rd j = []" and w: "\<not> wc_pump ?w" "wc_written ?w = []"
    using srv_invD(4) [OF inv, of j] ph by (auto simp: conn_ok_def joined_def announced_def)
  have stop: "srv_inv ?rd (put_conn v j (?r, ?w\<lparr>wc_phase := WsFinished\<rparr>))"
    using srv_invD(1,3) [OF inv] w
    by (intro put_conn_inv [OF inv, where rd' = ?rd])
      (auto simp: read_frame_def joined_def conn_ok_def keeps_names_def map_le_def intro: inboxes_more [OF reads_more_one])
  show ?thesis
  proof (cases "\<exists>pb a r1 s. inp = Some pb \<and> announce_of pb = Some a \<and> pb_Service pb \<noteq> [] \<and> an_PeerID a \<noteq> []
      \<and> Join ?r \<lparr>pr_id = an_PeerID a, pr_service = pb_Service pb\<rparr> = (r1, Inr s)")
    case False
    have "ws_first ?r ?w inp = (?r, ?w\<lparr>wc_phase := WsFinished\<rparr>)"
      using False Join_error by (auto simp: ws_first_def Let_def split: option.split prod.split sum.split)
    with stop show ?thesis by simp
  next
    case True
    then obtain pb a r1 s where f: "inp = Some pb" "announce_of pb = Some a" "pb_Service pb \<noteq> []" "an_PeerID a \<noteq> []"
      "Join ?r \<lparr>pr_id = an_PeerID a, pr_service = pb_Service pb\<rparr> = (r1, Inr s)" by blast
    let ?w1 = "?w\<lparr>wc_phase := WsServing, wc_peer := \<lparr>pr_id = an_PeerID a, pr_service = pb_Service pb\<rparr>, wc_sender := s, wc_pump := True\<rparr>"
    have first: "ws_first ?r ?w inp = (r1, ?w1)" using f by (simp add: ws_first_def Let_def)
    note wf = srv_invD(1) [OF inv]
    note jn = Join_ok [OF wf f(5)]
    obtain nm where nm: "names ?r nm" "\<And>i. joined (wv_conns v i) \<Longrightarrow> seated ?r nm (wv_conns v i)"
      using inv by (auto simp: srv_inv_def)
    obtain r0 where r0: "service_for ?r (pb_Service pb) = (r0, sd_service s)"
      "an_PeerID a \<notin> fst ` set (rg_svcs r0 (sd_service s))"
      "add_peer r0 (sd_service s) (pb_Service pb) (an_PeerID a) = (r1, sd_peer s)"
      using Join_cases [OF wf f(5)] by blast
    note sf = service_for_wf [OF wf r0(1)]
    have r0w: "reg_wf r0" "rg_peers r0 = rg_peers ?r" using sf by blast+
    have r1: "rg_nextSvc r1 = rg_nextSvc r0" "sd_peer s = rg_nextPeer r0" "rg_peers r1 = (rg_peers ?r)(sd_peer s := Some
        \<lparr>po_id = an_PeerID a, po_service = pb_Service pb, po_inbox = [], po_closed = False\<rparr>)"
      using r0(3) r0w by (auto simp: add_peer_def Let_def)
    have fresh: "rg_peers ?r (sd_peer s) = None"
      using wf_heap [OF r0w(1), of "sd_peer s"] r0w(2) r1(2) by (cases "rg_peers ?r (sd_peer s)") auto
    let ?nm = "nm(sd_service s := pb_Service pb)"
    note sn = service_for_names [OF wf nm(1) r0(1)]
    have "names r1 ?nm" by (rule add_peer_names [OF r0w(1) _ _ r0(3)]) (use sn in simp_all)
    moreover have "seated r1 ?nm (wv_conns v i)" if "joined (wv_conns v i)" for i
      using nm(2) [OF that] sn r1 fresh unfolding seated_def by auto
    moreover have "seated r1 ?nm ?w1" using sf r1 by (simp add: seated_def)
    moreover have "announced ?rd j (pb_Service pb) (an_PeerID a)" using rd f by (simp add: announced_def read_frame_def)
    then have "conn_ok ?rd j ?w1" using w by (simp add: conn_ok_def joined_def)
    moreover have "conn_ok ?rd i (wv_conns v i)" if "i \<noteq> j" for i
      using conn_ok_more [OF read_frame_more srv_invD(4) [OF inv, of i], of j inp] that by (simp add: read_frame_def)
    moreover have "inboxes_ok ?rd r1"
      using inboxes_more [OF read_frame_more srv_invD(3) [OF inv]] r1(3) by (auto simp: inboxes_ok_def)
    ultimately show ?thesis
      unfolding first using jn(1) srv_invD(2) [OF inv]
      by (simp add: srv_inv_def put_conn_def) (intro exI [of _ ?nm], auto)
  qed
qed

lemma serving_object:
  assumes inv: "srv_inv rd v" and jn: "joined (wv_conns v j)"
  shows "\<exists>p. rg_peers (wv_store v) (sd_peer (wc_sender (wv_conns v j))) = Some p
    \<and> announced rd j (po_service p) (po_id p)
    \<and> (\<forall>i po q. member_of (wv_store v) (sd_service (wc_sender (wv_conns v j))) i po \<longrightarrow>
          rg_peers (wv_store v) po = Some q \<longrightarrow> po_service q = po_service p \<and> po_id q = i)"
proof -
  obtain nm where nm: "names (wv_store v) nm" "seated (wv_store v) nm (wv_conns v j)"
    using inv jn by (auto simp: srv_inv_def)
  then obtain p where p: "rg_peers (wv_store v) (sd_peer (wc_sender (wv_conns v j))) = Some p"
    "po_id p = pr_id (wc_peer (wv_conns v j))" "po_service p = pr_service (wc_peer (wv_conns v j))"
    "nm (sd_service (wc_sender (wv_conns v j))) = po_service p" by (auto simp: seated_def)
  have "announced rd j (po_service p) (po_id p)" using srv_invD(4) [OF inv, of j] jn p by (simp add: conn_ok_def)
  moreover have "po_service q = po_service p \<and> po_id q = i"
    if "member_of (wv_store v) (sd_service (wc_sender (wv_conns v j))) i po" "rg_peers (wv_store v) po = Some q" for i po q
    using that nm(1) p(4) wf_member [OF srv_invD(1) [OF inv] that(1)] by (auto simp: names_def)
  ultimately show ?thesis using p(1) by blast
qed

lemma ws_next_inv:
  assumes inv: "srv_inv rd v" and ph: "wc_phase (wv_conns v j) = WsServing"
  shows "\<exists>x. ws_next (wv_store v) (wv_conns v j) inp = Returns x \<and> srv_inv (read_frame j inp rd) (put_conn v j x)"
proof -
  let ?w = "wv_conns v j" and ?r = "wv_store v"
  have jn: "joined ?w" using ph by (simp add: joined_def)
  obtain p where p: "rg_peers ?r (sd_peer (wc_sender ?w)) = Some p" "announced rd j (po_service p) (po_id p)"
    "\<And>i po q. member_of ?r (sd_service (wc_sender ?w)) i po \<Longrightarrow> rg_peers ?r po = Some q \<Longrightarrow>
       po_service q = po_service p \<and> po_id q = i"
    using serving_object [OF inv jn] by blast
  show ?thesis
  proof (cases inp)
    case None
    let ?x = "(Leave ?r \<lparr>pr_id = po_id p, pr_service = po_service p\<rparr>, ?w\<lparr>wc_phase := WsClosing\<rparr>)"
    have "ws_next ?r ?w inp = Returns ?x" using None p(1) by (simp add: ws_next_def store_Close_def)
    moreover have "srv_inv rd (put_conn v j ?x)"
      using srv_invD(4) [OF inv, of j] jn
      by (intro put_conn_inv [OF inv reads_more_refl] Leave_wf Leave_keeps srv_invD(1) [OF inv]
          inboxes_kept [OF srv_invD(3) [OF inv]]) (auto simp: conn_ok_def joined_def)
    ultimately show ?thesis using None by (simp add: read_frame_def)
  next
    case (Some pb)
    let ?m = "\<lparr>sm_service = po_service p, sm_sender = po_id p, sm_body = pb\<lparr>pb_Service := pr_service (wc_peer ?w)\<rparr>\<rparr>"
    let ?ps = "rg_svcs ?r (sd_service (wc_sender ?w))"
    let ?r1 = "?r\<lparr>rg_peers := got (po_id p) ?m ?ps (rg_peers ?r)\<rparr>"
    let ?rd = "read_frame j inp rd"
    have an: "pr_service (wc_peer ?w) = po_service p"
      using srv_invD(4) [OF inv, of j] jn p(2) announced_unique [of rd j] by (auto simp: conn_ok_def)
    have b: "broadcast_svc ?r (sd_service (wc_sender ?w)) (po_id p) ?m = Returns ?r1" "reg_wf ?r1"
      using broadcast_wf [OF srv_invD(1) [OF inv], of "sd_service (wc_sender ?w)" "po_id p" ?m] by auto
    have "ws_next ?r ?w inp = Returns (?r1, ?w)"
      using Some p(1) b(1) by (simp add: ws_next_def store_Send_def Let_def)
    moreover have "origin ?rd (po_service q) (po_id q) (sm_body ?m)"
      if "(i, po) \<in> set ?ps" "i \<noteq> po_id p" "rg_peers ?r po = Some q" for i po q
    proof -
      have q: "po_service q = po_service p" "po_id q = i" using p(3) [of i po q] that by (auto simp: member_of_def)
      have "announced ?rd j (po_service p) (po_id p)" by (rule announced_more [OF read_frame_more p(2)])
      moreover have "pb \<in> set (tl (?rd j))" using p(2) Some by (auto simp: announced_def read_frame_def)
      ultimately show ?thesis
        unfolding origin_def using q that(2) an by (intro exI [of _ j] exI [of _ "po_id p"] exI [of _ pb]) auto
    qed
    then have "inboxes_ok ?rd ?r1"
      using inboxes_more [OF read_frame_more srv_invD(3) [OF inv]] enq_set
      by (fastforce simp: inboxes_ok_def got_def split: if_splits option.splits)
    then have "srv_inv ?rd (put_conn v j (?r1, ?w))"
      using conn_ok_more [OF read_frame_more srv_invD(4) [OF inv, of j]] ph
      by (intro put_conn_inv [OF inv read_frame_more] b(2) got_keeps) (auto simp: read_frame_def)
    ultimately show ?thesis by blast
  qed
qed

lemma ws_pump_inv:
  assumes inv: "srv_inv rd v" and x: "x \<in> set (ws_pump (wv_store v) (wv_conns v j) ok)"
  shows "srv_inv rd (put_conn v j x)"
proof -
  let ?w = "wv_conns v j" and ?r = "wv_store v"
  have pump: "wc_pump ?w" using x by (auto simp: ws_pump_def split: if_splits)
  then have jn: "joined ?w" using srv_invD(4) [OF inv, of j] by (simp add: conn_ok_def)
  obtain p where p: "rg_peers ?r (sd_peer (wc_sender ?w)) = Some p" "announced rd j (po_service p) (po_id p)"
    using serving_object [OF inv jn] by blast
  have stop: "conn_ok rd j (?w\<lparr>wc_pump := False\<rparr>)" using srv_invD(4) [OF inv, of j] by (simp add: conn_ok_def joined_def)
  show ?thesis
  proof (cases "po_inbox p")
    case Nil
    then have "x = (?r, ?w\<lparr>wc_pump := False\<rparr>)" using x p(1) pump by (auto simp: ws_pump_def split: if_splits)
    with stop srv_invD(1,3) [OF inv] show ?thesis
      by (auto intro!: put_conn_inv [OF inv reads_more_refl] simp: keeps_names_def map_le_def joined_def)
  next
    case (Cons m ms)
    let ?r1 = "?r\<lparr>rg_peers := (rg_peers ?r)(sd_peer (wc_sender ?w) := Some (p\<lparr>po_inbox := ms\<rparr>))\<rparr>"
    have "origin rd (po_service p) (po_id p) (sm_body m)"
      using srv_invD(3) [OF inv] p(1) Cons by (simp add: inboxes_ok_def)
    then have "conn_ok rd j (?w\<lparr>wc_written := wc_written ?w @ [sm_body m]\<rparr>)"
      using srv_invD(4) [OF inv, of j] p(2) by (auto simp: conn_ok_def joined_def)
    moreover obtain w1 where x1: "x = (?r1, w1)" "w1 = ?w\<lparr>wc_written := wc_written ?w @ [sm_body m]\<rparr> \<or> w1 = ?w\<lparr>wc_pump := False\<rparr>"
      using x p(1) pump Cons by (auto simp: ws_pump_def Let_def split: if_splits)
    ultimately have "conn_ok rd j w1" using stop by auto
    then show ?thesis
      unfolding x1(1) using x1(2)
      by (intro put_conn_inv [OF inv reads_more_refl] pop_inbox_wf pop_stays(1) [OF p(1) Cons] srv_invD(1) [OF inv]
          inboxes_kept [OF srv_invD(3) [OF inv] pop_stays(2) [OF p(1) Cons]] p(1)) (auto simp: joined_def)
  qed
qed

lemma ws_finish_inv:
  assumes inv: "srv_inv rd v" and "wc_phase (wv_conns v j) = WsClosing" and "\<not> wc_pump (wv_conns v j)"
  shows "srv_inv rd (put_conn v j (ws_finish (wv_store v) (wv_conns v j)))"
  unfolding ws_finish_def using srv_invD(4) [OF inv, of j] assms(2,3)
  by (intro put_conn_inv [OF inv reads_more_refl] Leave_wf Leave_keeps srv_invD(1) [OF inv]
      inboxes_kept [OF srv_invD(3) [OF inv]]) (auto simp: conn_ok_def joined_def)

fun event_reads :: "ws_event \<Rightarrow> (nat \<Rightarrow> pb_signal list) \<Rightarrow> nat \<Rightarrow> pb_signal list" where
  "event_reads (WsRead j inp) rd = read_frame j inp rd"
| "event_reads _ rd = rd"

lemma srv_step:
  assumes inv: "srv_inv rd v" and v': "v' \<in> set (ws_outcomes v ev)"
  shows "srv_inv (event_reads ev rd) v'"
proof (cases ev)
  case (WsRead j inp)
  have np: "wv_panic v = None" by (rule srv_invD(2) [OF inv])
  show ?thesis
  proof (cases "wc_phase (wv_conns v j)")
    case WsAnnounce
    with WsRead v' np ws_first_inv [OF inv WsAnnounce, of inp] show ?thesis by (simp add: ws_outcomes_def Let_def)
  next
    case WsServing
    from ws_next_inv [OF inv WsServing, of inp] WsRead v' np WsServing show ?thesis
      by (auto simp: ws_outcomes_def Let_def)
  qed (use WsRead v' np in \<open>simp_all add: ws_outcomes_def\<close>)
next
  case (WsPump j ok)
  with v' ws_pump_inv [OF inv, of _ j ok] show ?thesis by (auto simp: ws_outcomes_def split: if_splits)
next
  case (WsFinish j)
  with v' ws_finish_inv [OF inv, of j] show ?thesis by (auto simp: ws_outcomes_def Let_def split: if_splits)
qed

section \<open>Sessions and server\<close>

text \<open>
  \<open>wn_up i\<close> and \<open>wn_down i\<close> count the frames of connection \<open>i\<close> the server and the client have read. Session \<open>i\<close>
  is what \<open>Exchange\<close> returns for the service and peer id \<open>who i\<close>; it may be idle for as long as one likes.
\<close>

record ws_net =
  wn_server :: ws_server
  wn_sess :: "nat \<Rightarrow> ws_session"
  wn_up :: "nat \<Rightarrow> nat"
  wn_down :: "nat \<Rightarrow> nat"

definition new_net :: "(nat \<Rightarrow> string \<times> string) \<Rightarrow> ws_net" where
  "new_net who = \<lparr>wn_server = new_server, wn_sess = (\<lambda>i. new_ws_session (fst (who i)) (snd (who i))),
     wn_up = (\<lambda>_. 0), wn_down = (\<lambda>_. 0)\<rparr>"

datatype net_event =
    NetClient nat wx_event | NetUp nat | NetDrop nat | NetDown nat | NetPump nat bool | NetFinish nat

definition put_session :: "ws_net \<Rightarrow> nat \<Rightarrow> ws_session \<Rightarrow> ws_net" where
  "put_session y i s = y\<lparr>wn_sess := (wn_sess y)(i := s)\<rparr>"

fun local_event :: "wx_event \<Rightarrow> bool" where
  "local_event (WxIn (Some _)) = False"
| "local_event _ = True"

definition net_outcomes :: "ws_net \<Rightarrow> net_event \<Rightarrow> ws_net list" where
  "net_outcomes y ev =
     (case ev of
        NetClient i e \<Rightarrow> if local_event e then map (put_session y i) (wx_outcomes (wn_sess y i) e) else []
      | NetUp i \<Rightarrow>
          (if wn_up y i < length (wx_wire (wn_sess y i))
           then map (\<lambda>v. y\<lparr>wn_server := v, wn_up := (wn_up y)(i := Suc (wn_up y i))\<rparr>)
                  (ws_outcomes (wn_server y) (WsRead i (Some (wx_wire (wn_sess y i) ! wn_up y i))))
           else [])
      | NetDrop i \<Rightarrow> map (\<lambda>v. y\<lparr>wn_server := v\<rparr>) (ws_outcomes (wn_server y) (WsRead i None))
      | NetDown i \<Rightarrow>
          (let ws = wc_written (wv_conns (wn_server y) i)
           in if wn_down y i < length ws
              then map (\<lambda>s. (put_session y i s)\<lparr>wn_down := (wn_down y)(i := Suc (wn_down y i))\<rparr>)
                     (wx_outcomes (wn_sess y i) (WxIn (Some (ws ! wn_down y i))))
              else [])
      | NetPump i ok \<Rightarrow> map (\<lambda>v. y\<lparr>wn_server := v\<rparr>) (ws_outcomes (wn_server y) (WsPump i ok))
      | NetFinish i \<Rightarrow> map (\<lambda>v. y\<lparr>wn_server := v\<rparr>) (ws_outcomes (wn_server y) (WsFinish i)))"

definition net_reads :: "ws_net \<Rightarrow> nat \<Rightarrow> pb_signal list" where
  "net_reads y i = take (wn_up y i) (wx_wire (wn_sess y i))"

definition net_inv :: "(nat \<Rightarrow> string \<times> string) \<Rightarrow> ws_net \<Rightarrow> bool" where
  "net_inv who y \<longleftrightarrow> srv_inv (net_reads y) (wn_server y)
     \<and> (\<forall>i. wx_inv (fst (who i)) (snd (who i)) (wn_sess y i) \<and> wn_up y i \<le> length (wx_wire (wn_sess y i))
         \<and> wn_down y i \<le> length (wc_written (wv_conns (wn_server y) i))
         \<and> wx_read (wn_sess y i) = take (wn_down y i) (wc_written (wv_conns (wn_server y) i)))"

lemma net_reads_server [simp]: "net_reads (y\<lparr>wn_server := v\<rparr>) = net_reads y"
  by (simp add: net_reads_def fun_eq_iff)

lemma local_keeps:
  assumes "s' \<in> set (wx_outcomes s e)" and "local_event e"
  shows "wx_read s' = wx_read s \<and> (\<exists>ys. wx_wire s' = wx_wire s @ ys)"
proof (cases e)
  case (WxIn inp)
  with assms show ?thesis by (cases inp) (auto simp: wx_outcomes_def ws_in_pump_def split: if_splits)
qed (use assms in \<open>auto simp: wx_outcomes_def WS_Send_def WS_Close_def ws_out_pump_def Let_def split: if_splits list.splits\<close>)

lemma remote_keeps:
  assumes "s' \<in> set (wx_outcomes s (WxIn (Some pb)))"
  shows "wx_read s' = wx_read s @ [pb] \<and> wx_wire s' = wx_wire s"
  using assms by (auto simp: wx_outcomes_def ws_in_pump_def split: if_splits)

lemma handler_writes:
  "wc_written (snd (ws_first r w inp)) = wc_written w"
  "ws_next r w inp = Returns x \<Longrightarrow> wc_written (snd x) = wc_written w"
  "wc_written (snd (ws_finish r w)) = wc_written w"
  by (auto simp: ws_first_def ws_next_def ws_finish_def Let_def split: option.splits go.splits prod.splits sum.splits)

lemma pump_writes:
  assumes "x \<in> set (ws_pump r w ok)"
  shows "\<exists>ys. wc_written (snd x) = wc_written w @ ys"
proof -
  have "wc_pump w" using assms by (auto simp: ws_pump_def split: if_splits)
  moreover from this obtain p where "rg_peers r (sd_peer (wc_sender w)) = Some p"
    using assms by (cases "rg_peers r (sd_peer (wc_sender w))") (auto simp: ws_pump_def)
  ultimately show ?thesis using assms by (cases "po_inbox p") (auto simp: ws_pump_def Let_def split: if_splits)
qed

lemma written_grows:
  assumes "v' \<in> set (ws_outcomes v ev)"
  shows "\<exists>ys. wc_written (wv_conns v' i) = wc_written (wv_conns v i) @ ys"
proof (cases ev)
  case (WsRead j inp)
  with assms handler_writes(1,2) show ?thesis
    by (auto simp: ws_outcomes_def put_conn_def Let_def split: if_splits ws_phase.splits go.splits)
next
  case (WsPump j ok)
  with assms pump_writes show ?thesis by (fastforce simp: ws_outcomes_def put_conn_def split: if_splits)
next
  case (WsFinish j)
  with assms handler_writes(3) show ?thesis by (auto simp: ws_outcomes_def put_conn_def Let_def split: if_splits)
qed

lemma net_server_inv:
  assumes inv: "net_inv who y" and v: "v \<in> set (ws_outcomes (wn_server y) ev)"
    and up: "\<And>i. up i \<le> length (wx_wire (wn_sess y i))"
    and rd: "event_reads ev (net_reads y) = net_reads (y\<lparr>wn_server := v, wn_up := up\<rparr>)"
  shows "net_inv who (y\<lparr>wn_server := v, wn_up := up\<rparr>)"
proof -
  have "srv_inv (net_reads (y\<lparr>wn_server := v, wn_up := up\<rparr>)) v"
    using srv_step [OF _ v, of "net_reads y"] inv rd by (simp add: net_inv_def)
  moreover have "wn_down y i \<le> length (wc_written (wv_conns v i))
      \<and> take (wn_down y i) (wc_written (wv_conns v i)) = take (wn_down y i) (wc_written (wv_conns (wn_server y) i))" for i
  proof -
    obtain ys where "wc_written (wv_conns v i) = wc_written (wv_conns (wn_server y) i) @ ys"
      using written_grows [OF v, of i] by blast
    moreover have "wn_down y i \<le> length (wc_written (wv_conns (wn_server y) i))" using inv by (simp add: net_inv_def)
    ultimately show ?thesis by simp
  qed
  ultimately show ?thesis using inv up by (simp add: net_inv_def)
qed

lemma net_step:
  assumes inv: "net_inv who y" and y': "y' \<in> set (net_outcomes y ev)"
  shows "net_inv who y'"
proof (cases ev)
  case (NetClient i e)
  with y' obtain s where s: "s \<in> set (wx_outcomes (wn_sess y i) e)" "local_event e" "y' = put_session y i s"
    by (auto simp: net_outcomes_def split: if_splits)
  obtain ys where k: "wx_read s = wx_read (wn_sess y i)" "wx_wire s = wx_wire (wn_sess y i) @ ys"
    using local_keeps [OF s(1,2)] by blast
  have up: "wn_up y i \<le> length (wx_wire (wn_sess y i))" using inv by (simp add: net_inv_def)
  have "net_reads y' = net_reads y" using k up by (auto simp: net_reads_def s(3) put_session_def)
  moreover have "wx_inv (fst (who i)) (snd (who i)) s" using inv by (intro wx_inv_step [OF _ s(1)]) (simp add: net_inv_def)
  moreover have "wn_up y i \<le> length (wx_wire s)" using up k by simp
  ultimately show ?thesis using inv k(1) by (auto simp: net_inv_def s(3) put_session_def)
next
  case (NetUp i)
  let ?pb = "wx_wire (wn_sess y i) ! wn_up y i"
  from NetUp y' obtain v where v: "v \<in> set (ws_outcomes (wn_server y) (WsRead i (Some ?pb)))"
    "wn_up y i < length (wx_wire (wn_sess y i))" "y' = y\<lparr>wn_server := v, wn_up := (wn_up y)(i := Suc (wn_up y i))\<rparr>"
    by (auto simp: net_outcomes_def split: if_splits)
  show ?thesis
    unfolding v(3)
  proof (rule net_server_inv [OF inv v(1)])
    show "((wn_up y)(i := Suc (wn_up y i))) j \<le> length (wx_wire (wn_sess y j))" for j
      using v(2) inv by (simp add: net_inv_def)
    show "event_reads (WsRead i (Some ?pb)) (net_reads y) =
        net_reads (y\<lparr>wn_server := v, wn_up := (wn_up y)(i := Suc (wn_up y i))\<rparr>)"
      using v(2) by (auto simp: net_reads_def read_frame_def take_Suc_conv_app_nth)
  qed
next
  case (NetDrop i)
  with y' obtain v where v: "v \<in> set (ws_outcomes (wn_server y) (WsRead i None))" "y' = y\<lparr>wn_server := v\<rparr>"
    by (auto simp: net_outcomes_def)
  have "net_inv who (y\<lparr>wn_server := v, wn_up := wn_up y\<rparr>)"
    by (rule net_server_inv [OF inv v(1)]) (use inv in \<open>simp_all add: net_inv_def read_frame_def\<close>)
  with v(2) show ?thesis by simp
next
  case (NetPump i ok)
  with y' obtain v where v: "v \<in> set (ws_outcomes (wn_server y) (WsPump i ok))" "y' = y\<lparr>wn_server := v\<rparr>"
    by (auto simp: net_outcomes_def)
  have "net_inv who (y\<lparr>wn_server := v, wn_up := wn_up y\<rparr>)"
    by (rule net_server_inv [OF inv v(1)]) (use inv in \<open>simp_all add: net_inv_def\<close>)
  with v(2) show ?thesis by simp
next
  case (NetFinish i)
  with y' obtain v where v: "v \<in> set (ws_outcomes (wn_server y) (WsFinish i))" "y' = y\<lparr>wn_server := v\<rparr>"
    by (auto simp: net_outcomes_def)
  have "net_inv who (y\<lparr>wn_server := v, wn_up := wn_up y\<rparr>)"
    by (rule net_server_inv [OF inv v(1)]) (use inv in \<open>simp_all add: net_inv_def\<close>)
  with v(2) show ?thesis by simp
next
  case (NetDown i)
  let ?ws = "wc_written (wv_conns (wn_server y) i)"
  from NetDown y' obtain s where s: "s \<in> set (wx_outcomes (wn_sess y i) (WxIn (Some (?ws ! wn_down y i))))"
    "wn_down y i < length ?ws" "y' = (put_session y i s)\<lparr>wn_down := (wn_down y)(i := Suc (wn_down y i))\<rparr>"
    by (auto simp: net_outcomes_def Let_def split: if_splits)
  note k = remote_keeps [OF s(1)]
  have "net_reads y' = net_reads y" using k by (auto simp: net_reads_def s(3) put_session_def)
  moreover have "wx_inv (fst (who i)) (snd (who i)) s" using inv by (intro wx_inv_step [OF _ s(1)]) (simp add: net_inv_def)
  ultimately show ?thesis
    using inv k s(2) by (auto simp: net_inv_def s(3) put_session_def take_Suc_conv_app_nth)
qed

lemma new_net_inv: "net_inv who (new_net who)"
proof -
  have "srv_inv (net_reads (new_net who)) new_server"
    using empty_registry_wf
    by (auto simp: srv_inv_def new_server_def new_conn_def conn_ok_def joined_def inboxes_ok_def names_def NewMemory_def
        empty_registry_def net_reads_def new_net_def member_of_def)
  then show ?thesis
    by (simp add: net_inv_def new_net_def new_ws_session_def wx_inv_def new_server_def new_conn_def List.map_filter_def)
qed

section \<open>Provenance\<close>


definition meet :: "nat \<Rightarrow> string \<times> string" where
  "meet i = (''v'', if i = 0 then ''a'' else ''b'')"

definition meet_run :: "(net_event \<times> nat) list" where
  "meet_run = [(NetUp 0, 0), (NetUp 1, 0), (NetClient 0 (WxSend None \<lparr>sg_Service = [], sg_Body = empty_body\<lparr>sb_Ping := Some 1\<rparr>\<rparr>), 0),
     (NetClient 0 (WxOut True), 0), (NetUp 0, 0), (NetPump 1 True, 0), (NetDown 1, 0), (NetClient 1 WxReceive, 0)]"


end
