(* ===== verification/Telemetry.thy ===== *)
theory Telemetry
  imports Observability
begin

text \<open>
  The interceptors of package \<open>observability\<close> as they are installed: logging, metrics and tracing around a
  handler of the server and around a call of the client, composed by the chains of package \<open>rpc\<close>.

  \<^item> The state a chain runs in is the telemetry the interceptors write and the state of what they wrap; the result
    is a status, or a panic, which runs the deferred calls only. The time of a call is a clock's and is left out.
  \<^item> OpenTelemetry is a library: a context is a value of any type, \<open>remote\<close> and \<open>inject\<close> are its propagator,
    \<open>start c n\<close> is the context \<open>c\<close> with the span numbered \<open>n\<close>. What is recorded of a span is written out.
\<close>

section \<open>Records\<close>

datatype span_kind = SpanKindServer | SpanKindClient

datatype span_status = SpanOk | SpanError string

record 'ctx span =
  sn_name :: string
  sn_kind :: span_kind
  sn_method :: string
  sn_parent :: 'ctx
  sn_status :: "span_status option"
  sn_code :: "int option"
  sn_ended :: bool

record log_entry =
  lg_text :: string
  lg_method :: string
  lg_code :: int

record 'ctx telemetry =
  tl_metrics :: metrics
  tl_log :: "log_entry list"
  tl_spans :: "'ctx span list"

definition new_span :: "span_kind \<Rightarrow> string \<Rightarrow> 'ctx \<Rightarrow> 'ctx span" where
  "new_span kind path parent =
     \<lparr>sn_name = ''peerrpc.'' @ shortMethod path, sn_kind = kind, sn_method = path, sn_parent = parent, sn_status = None,
      sn_code = None, sn_ended = False\<rparr>"

definition status_span :: "rpc_status option \<Rightarrow> 'ctx span \<Rightarrow> 'ctx span" where
  "status_span st sp =
     (case st of
        Some s \<Rightarrow> if st_code s \<noteq> 0 then sp\<lparr>sn_status := Some (SpanError (st_message s)), sn_code := Some (st_code s)\<rparr>
                  else sp\<lparr>sn_status := Some SpanOk\<rparr>
      | None \<Rightarrow> sp\<lparr>sn_status := Some SpanOk\<rparr>)"

definition end_span :: "'ctx span \<Rightarrow> 'ctx span" where
  "end_span sp = sp\<lparr>sn_ended := True\<rparr>"

definition update_span :: "nat \<Rightarrow> ('ctx span \<Rightarrow> 'ctx span) \<Rightarrow> 'ctx telemetry \<Rightarrow> 'ctx telemetry" where
  "update_span n f tel = tel\<lparr>tl_spans := (tl_spans tel)[n := f (tl_spans tel ! n)]\<rparr>"

definition add_span :: "'ctx span \<Rightarrow> 'ctx telemetry \<Rightarrow> 'ctx telemetry" where
  "add_span sp tel = tel\<lparr>tl_spans := tl_spans tel @ [sp]\<rparr>"

definition add_log :: "string \<Rightarrow> string \<Rightarrow> rpc_status option \<Rightarrow> 'ctx telemetry \<Rightarrow> 'ctx telemetry" where
  "add_log txt path st tel = tel\<lparr>tl_log := tl_log tel @ [\<lparr>lg_text = txt, lg_method = path, lg_code = statusCode st\<rparr>]\<rparr>"

definition count_in :: "(metrics \<Rightarrow> metrics) \<Rightarrow> 'ctx telemetry \<times> 'x \<Rightarrow> 'ctx telemetry \<times> 'x" where
  "count_in f w = (case w of (tel, x) \<Rightarrow> (tel\<lparr>tl_metrics := f (tl_metrics tel)\<rparr>, x))"

section \<open>Server interceptors\<close>

text \<open>The stream as the interceptors use it: its context, the metadata it was called with, and the rest.\<close>

record ('ctx, 'x) obs_stream =
  os_ctx :: 'ctx
  os_incoming :: "metadata option"
  os_rest :: 'x

type_synonym ('ctx, 'x) server_action =
  "'ctx telemetry \<times> ('ctx, 'x) obs_stream \<Rightarrow> ('ctx telemetry \<times> ('ctx, 'x) obs_stream) \<times> rpc_status option go"

definition LogServerStream :: "('ctx, 's, ('ctx, 'x) server_action) StreamServerInterceptor" where
  "LogServerStream ctx s info next w =
     (case next ctx s w of
        (w1, Panics e) \<Rightarrow> (w1, Panics e)
      | ((tel, x), Returns st) \<Rightarrow> ((add_log ''rpc completed'' (info_Method info) st tel, x), Returns st))"

definition TraceServerStream ::
  "('ctx \<Rightarrow> metadata \<Rightarrow> 'ctx) \<Rightarrow> ('ctx \<Rightarrow> nat \<Rightarrow> 'ctx) \<Rightarrow> ('ctx, 's, ('ctx, 'x) server_action) StreamServerInterceptor"
where
  "TraceServerStream remote start ctx s info next w =
     (case w of (tel, x) \<Rightarrow>
        let extractedCtx = remote ctx (copyMetadata (os_incoming x));
            n = length (tl_spans tel);
            spanCtx = start extractedCtx n
        in case next spanCtx s (add_span (new_span SpanKindServer (info_Method info) extractedCtx) tel, x\<lparr>os_ctx := spanCtx\<rparr>) of
             ((tel1, x1), Panics e) \<Rightarrow> ((update_span n end_span tel1, x1), Panics e)
           | ((tel1, x1), Returns st) \<Rightarrow> ((update_span n (end_span \<circ> status_span st) tel1, x1), Returns st))"

datatype server_obs = ObsLog | ObsMetrics bool | ObsTrace

fun server_interceptor ::
  "('ctx \<Rightarrow> metadata \<Rightarrow> 'ctx) \<Rightarrow> ('ctx \<Rightarrow> nat \<Rightarrow> 'ctx) \<Rightarrow> server_obs
     \<Rightarrow> ('ctx, 's, ('ctx, 'x) server_action) StreamServerInterceptor" where
  "server_interceptor remote start ObsLog = LogServerStream"
| "server_interceptor remote start (ObsMetrics on) =
     (\<lambda>ctx s info next. MetricsServerStream (if on then Some count_in else None) (info_Method info) (next ctx s))"
| "server_interceptor remote start ObsTrace = TraceServerStream remote start"

section \<open>Client interceptors\<close>

text \<open>The context of a call: the span it carries and the address of its outgoing headers.\<close>

record 'ctx client_ctx =
  kc_span :: 'ctx
  kc_outgoing :: "nat option"

type_synonym ('ctx, 'x) client_action =
  "'ctx telemetry \<times> header_heap \<times> 'x \<Rightarrow> ('ctx telemetry \<times> header_heap \<times> 'x) \<times> (bytes option \<times> rpc_status option) go"

definition LogUnaryClient :: "('ctx client_ctx, ('ctx, 'x) client_action) UnaryClientInterceptor" where
  "LogUnaryClient ctx path req next w =
     (case next ctx path req w of
        (w1, Panics e) \<Rightarrow> (w1, Panics e)
      | ((tel, x), Returns (resp, st)) \<Rightarrow> ((add_log ''rpc invoked'' path st tel, x), Returns (resp, st)))"

definition TraceUnaryClient ::
  "('ctx \<Rightarrow> metadata) \<Rightarrow> ('ctx \<Rightarrow> nat \<Rightarrow> 'ctx) \<Rightarrow> ('ctx client_ctx, ('ctx, 'x) client_action) UnaryClientInterceptor" where
  "TraceUnaryClient inject start ctx path req next w =
     (case w of (tel, h, x) \<Rightarrow>
        let n = length (tl_spans tel);
            c = start (kc_span ctx) n;
            (h1, a) = TraceUnaryClient_enter inject c (kc_outgoing ctx) h
        in case next \<lparr>kc_span = c, kc_outgoing = Some a\<rparr> path req
               (add_span (new_span SpanKindClient path (kc_span ctx)) tel, h1, x) of
             ((tel1, x1), Panics e) \<Rightarrow> ((update_span n end_span tel1, x1), Panics e)
           | ((tel1, x1), Returns (resp, st)) \<Rightarrow>
               ((update_span n (end_span \<circ> status_span st) tel1, x1), Returns (resp, st)))"

fun client_interceptor ::
  "('ctx \<Rightarrow> metadata) \<Rightarrow> ('ctx \<Rightarrow> nat \<Rightarrow> 'ctx) \<Rightarrow> server_obs \<Rightarrow> ('ctx client_ctx, ('ctx, 'x) client_action) UnaryClientInterceptor"
where
  "client_interceptor inject start ObsLog = LogUnaryClient"
| "client_interceptor inject start (ObsMetrics on) =
     (\<lambda>ctx path req next. MetricsUnaryClient (if on then Some count_in else None) path (next ctx path req))"
| "client_interceptor inject start ObsTrace = TraceUnaryClient inject start"

section \<open>What a chain records\<close>

text \<open>The span of a call with parent \<open>p\<close> that ended with \<open>r\<close>.\<close>

definition final_span :: "span_kind \<Rightarrow> string \<Rightarrow> 'ctx \<Rightarrow> rpc_status option go \<Rightarrow> 'ctx span" where
  "final_span kind path p r =
     end_span ((case r of Panics _ \<Rightarrow> (\<lambda>sp. sp) | Returns st \<Rightarrow> status_span st) (new_span kind path p))"

text \<open>
  The parents of the spans a chain opens, the innermost last, and the context it hands to the handler; \<open>join\<close> is
  the context a span is opened under, \<open>n\<close> the number of the next span.
\<close>

fun span_parents :: "('ctx \<Rightarrow> 'ctx) \<Rightarrow> ('ctx \<Rightarrow> nat \<Rightarrow> 'ctx) \<Rightarrow> nat \<Rightarrow> 'ctx \<Rightarrow> server_obs list \<Rightarrow> 'ctx list \<times> 'ctx" where
  "span_parents join start n ctx [] = ([], ctx)"
| "span_parents join start n ctx (i # is) =
     (if i = ObsTrace
      then let p = join ctx; (ps, c) = span_parents join start (Suc n) (start p n) is in (p # ps, c)
      else span_parents join start n ctx is)"

definition recorded ::
  "span_kind \<Rightarrow> string \<Rightarrow> string \<Rightarrow> server_obs list \<Rightarrow> 'ctx list \<Rightarrow> rpc_status option go \<Rightarrow> 'ctx telemetry \<Rightarrow> 'ctx telemetry"
where
  "recorded kind txt path is parents r tel =
     \<lparr>tl_metrics = (case r of Panics _ \<Rightarrow> tl_metrics tel
        | Returns st \<Rightarrow> (metrics_observe path st ^^ count_list is (ObsMetrics True)) (tl_metrics tel)),
      tl_log = tl_log tel @ (case r of Panics _ \<Rightarrow> []
        | Returns st \<Rightarrow> replicate (count_list is ObsLog) \<lparr>lg_text = txt, lg_method = path, lg_code = statusCode st\<rparr>),
      tl_spans = tl_spans tel @ map (\<lambda>p. final_span kind path p r) parents\<rparr>"

lemma metrics_bracket:
  "metrics_leave path (metrics_enter path m) = m"
  "metrics_leave path (metrics_observe path st m) = metrics_observe path st (metrics_leave path m)"
  by (simp_all add: metrics_leave_def metrics_enter_def metrics_observe_def)

lemma metrics_leave_pow:
  "metrics_leave path ((metrics_observe path st ^^ k) m) = (metrics_observe path st ^^ k) (metrics_leave path m)"
  by (induction k) (simp_all add: metrics_bracket)

lemmas telemetry_simps = recorded_def add_log_def update_span_def add_span_def final_span_def count_in_def


lemma recorded_extend:
  "add_log txt path st (recorded kind txt path is ps (Returns st) tel) = recorded kind txt path (ObsLog # is) ps (Returns st) tel"
  "recorded kind txt path (ObsLog # is) ps (Panics e) tel = recorded kind txt path is ps (Panics e) tel"
  "recorded kind txt path (ObsMetrics False # is) ps r tel = recorded kind txt path is ps r tel"
  by (simp_all add: recorded_def add_log_def replicate_append_same split: go.split)

lemma recorded_metrics:
  "(recorded kind txt path is ps (Panics e) (tel\<lparr>tl_metrics := metrics_enter path (tl_metrics tel)\<rparr>))
     \<lparr>tl_metrics := metrics_leave path (tl_metrics (recorded kind txt path is ps (Panics e)
        (tel\<lparr>tl_metrics := metrics_enter path (tl_metrics tel)\<rparr>)))\<rparr> =
   recorded kind txt path (ObsMetrics True # is) ps (Panics e) tel"
  "(recorded kind txt path is ps (Returns st) (tel\<lparr>tl_metrics := metrics_enter path (tl_metrics tel)\<rparr>))
     \<lparr>tl_metrics := metrics_leave path (metrics_observe path st (tl_metrics (recorded kind txt path is ps (Returns st)
        (tel\<lparr>tl_metrics := metrics_enter path (tl_metrics tel)\<rparr>))))\<rparr> =
   recorded kind txt path (ObsMetrics True # is) ps (Returns st) tel"
  "(recorded kind txt path is ps (Returns st) tel)
     \<lparr>tl_metrics := metrics_observe path st (tl_metrics (recorded kind txt path is ps (Returns st) tel))\<rparr> =
   recorded kind txt path (ObsMetrics True # is) ps (Returns st) tel"
  "recorded kind txt path (ObsMetrics True # is) ps (Panics e) tel = recorded kind txt path is ps (Panics e) tel"
  by (simp_all add: recorded_def metrics_bracket metrics_leave_pow)

lemma recorded_trace:
  "update_span (length (tl_spans tel)) end_span (recorded kind txt path is ps (Panics e) (add_span (new_span kind path p) tel)) =
   recorded kind txt path (ObsTrace # is) (p # ps) (Panics e) tel"
  "update_span (length (tl_spans tel)) (end_span \<circ> status_span st)
     (recorded kind txt path is ps (Returns st) (add_span (new_span kind path p) tel)) =
   recorded kind txt path (ObsTrace # is) (p # ps) (Returns st) tel"
  by (simp_all add: recorded_def update_span_def add_span_def final_span_def nth_append list_update_append)

lemma length_spans_enter: "length (tl_spans (add_span sp tel)) = Suc (length (tl_spans tel))"
  by (simp add: add_span_def)

section \<open>Chains\<close>

lemma server_chain_records:
  assumes "\<And>c md n. view (start (remote c md) n) = view c"
    and "\<And>c tel x. fin c s (tel, x) =
      (case g (view c) (os_incoming x) (os_rest x) of (y, r) \<Rightarrow> ((tel, x\<lparr>os_rest := y\<rparr>), r))"
    and "g (view ctx) (os_incoming x) (os_rest x) = (y, r)"
  shows "\<exists>oc. foldr (\<lambda>i h ctx s. i ctx s info h) (map (server_interceptor remote start) is) fin ctx s (tel, x) =
    ((recorded SpanKindServer ''rpc completed'' (info_Method info) is
        (fst (span_parents (\<lambda>c. remote c (copyMetadata (os_incoming x))) start (length (tl_spans tel)) ctx is)) r tel,
      x\<lparr>os_ctx := oc, os_rest := y\<rparr>), r)"
  using assms(3)
proof (induction "is" arbitrary: ctx tel x)
  case Nil
  have "recorded SpanKindServer ''rpc completed'' (info_Method info) [] [] r tel = tel"
    by (simp add: recorded_def split: go.split)
  with Nil assms(2) show ?case by (intro exI [of _ "os_ctx x"]) simp
next
  case (Cons i "is")
  show ?case
  proof (cases i)
    case ObsLog
    from Cons.IH [OF Cons.prems, of tel] obtain oc where oc:
      "foldr (\<lambda>i h ctx s. i ctx s info h) (map (server_interceptor remote start) is) fin ctx s (tel, x) =
        ((recorded SpanKindServer ''rpc completed'' (info_Method info) is
            (fst (span_parents (\<lambda>c. remote c (copyMetadata (os_incoming x))) start (length (tl_spans tel)) ctx is)) r tel,
          x\<lparr>os_ctx := oc, os_rest := y\<rparr>), r)" by blast
    with ObsLog show ?thesis
      by (intro exI [of _ oc]) (cases r; simp add: LogServerStream_def recorded_extend)
  next
    case (ObsMetrics on)
    show ?thesis
    proof (cases on)
      case True
      let ?tel1 = "tel\<lparr>tl_metrics := metrics_enter (info_Method info) (tl_metrics tel)\<rparr>"
      from Cons.IH [OF Cons.prems, of ?tel1] obtain oc where
        "foldr (\<lambda>i h ctx s. i ctx s info h) (map (server_interceptor remote start) is) fin ctx s (?tel1, x) =
          ((recorded SpanKindServer ''rpc completed'' (info_Method info) is
              (fst (span_parents (\<lambda>c. remote c (copyMetadata (os_incoming x))) start (length (tl_spans tel)) ctx is)) r ?tel1,
            x\<lparr>os_ctx := oc, os_rest := y\<rparr>), r)" by auto
      with ObsMetrics True show ?thesis
        by (intro exI [of _ oc]) (cases r; simp add: MetricsServerStream_def count_in_def recorded_metrics(1,2))
    next
      case False
      with Cons.IH [OF Cons.prems, of tel] ObsMetrics show ?thesis by (simp add: MetricsServerStream_def recorded_extend)
    qed
  next
    case ObsTrace
    let ?p = "remote ctx (copyMetadata (os_incoming x))"
    let ?n = "length (tl_spans tel)"
    let ?tel1 = "add_span (new_span SpanKindServer (info_Method info) ?p) tel"
    let ?x1 = "x\<lparr>os_ctx := start ?p ?n\<rparr>"
    have "g (view (start ?p ?n)) (os_incoming ?x1) (os_rest ?x1) = (y, r)" using Cons.prems assms(1) by simp
    from Cons.IH [OF this, of ?tel1] obtain oc where
      "foldr (\<lambda>i h ctx s. i ctx s info h) (map (server_interceptor remote start) is) fin (start ?p ?n) s (?tel1, ?x1) =
        ((recorded SpanKindServer ''rpc completed'' (info_Method info) is
            (fst (span_parents (\<lambda>c. remote c (copyMetadata (os_incoming x))) start (Suc ?n) (start ?p ?n) is)) r ?tel1,
          x\<lparr>os_ctx := oc, os_rest := y\<rparr>), r)" by (auto simp: length_spans_enter)
    with ObsTrace show ?thesis
      by (intro exI [of _ oc])
        (cases r; simp add: TraceServerStream_def Let_def recorded_trace split: prod.split)
  qed
qed

lemma count_parents: "length (fst (span_parents join start n c is)) = count_list is ObsTrace"
  by (induction "is" arbitrary: n c) (simp_all add: Let_def case_prod_beta)

text \<open>
  C33: Logging, metrics and tracing change nothing about a call. Let any list of these interceptors, in any order and
  number, be installed around a handler that acts on the stream and on what a derived context shares with the
  original. Then the chain has the handler's effect on the stream and its result, a panic included. It leaves
  one log line per logger and one more call in the counters of each metrics interceptor, both only when the
  handler returns, the in-flight gauges as they were in either case, and one ended span per tracer, marked with the
  status; the first is a child of the context extracted from the caller's metadata.
\<close>

theorem interceptors_transparent:
  assumes "\<And>c md n. view (start (remote c md) n) = view c"
    and "\<And>c tel x. fin c s (tel, x) =
      (case g (view c) (os_incoming x) (os_rest x) of (y, r) \<Rightarrow> ((tel, x\<lparr>os_rest := y\<rparr>), r))"
    and "chainStreamServer (map (server_interceptor remote start) is) info fin ctx s (tel, x) = ((tel1, x1), r)"
  shows "(os_rest x1, r) = g (view ctx) (os_incoming x) (os_rest x)
    \<and> tl_log tel1 = tl_log tel @ (case r of Panics _ \<Rightarrow> []
        | Returns st \<Rightarrow> replicate (count_list is ObsLog)
            \<lparr>lg_text = ''rpc completed'', lg_method = info_Method info, lg_code = statusCode st\<rparr>)
    \<and> mt_inFlight (tl_metrics tel1) = mt_inFlight (tl_metrics tel)
    \<and> mt_total (tl_metrics tel1) = (case r of Panics _ \<Rightarrow> mt_total (tl_metrics tel)
        | Returns st \<Rightarrow> (mt_total (tl_metrics tel))((info_Method info, codeLabel st) :=
            mt_total (tl_metrics tel) (info_Method info, codeLabel st) + count_list is (ObsMetrics True)))
    \<and> (\<exists>parents. tl_spans tel1 = tl_spans tel @ map (\<lambda>p. final_span SpanKindServer (info_Method info) p r) parents
         \<and> length parents = count_list is ObsTrace
         \<and> (parents \<noteq> [] \<longrightarrow> hd parents = remote ctx (copyMetadata (os_incoming x))))"
proof -
  obtain y r0 where g: "g (view ctx) (os_incoming x) (os_rest x) = (y, r0)" by fastforce
  note chain = server_chain_records [where view = view and start = start and remote = remote and fin = fin and g = g]
  from chain [OF assms(1,2) g, of info "is" tel] assms(3)
    chainStreamServer_foldr [of "map (server_interceptor remote start) is" info fin]
  have t: "tel1 = recorded SpanKindServer ''rpc completed'' (info_Method info) is
      (fst (span_parents (\<lambda>c. remote c (copyMetadata (os_incoming x))) start (length (tl_spans tel)) ctx is)) r tel"
    "r = r0" "os_rest x1 = y" by auto
  have o: "mt_inFlight ((metrics_observe path st ^^ k) m) = mt_inFlight m
      \<and> mt_total ((metrics_observe path st ^^ k) m) = (mt_total m)((path, codeLabel st) := mt_total m (path, codeLabel st) + k)"
    for path st k and m :: metrics by (induction k) (auto simp: metrics_observe_def fun_eq_iff)
  have p: "length (fst (span_parents join start n c is)) = count_list is ObsTrace
      \<and> (fst (span_parents join start n c is) \<noteq> [] \<longrightarrow> hd (fst (span_parents join start n c is)) = join c)"
    for join n c by (induction "is" arbitrary: n c) (simp_all add: Let_def case_prod_beta)
  let ?ps = "fst (span_parents (\<lambda>c. remote c (copyMetadata (os_incoming x))) start (length (tl_spans tel)) ctx is)"
  have "tl_spans tel1 = tl_spans tel @ map (\<lambda>p. final_span SpanKindServer (info_Method info) p r) ?ps"
    using t(1) by (simp add: recorded_def)
  with p have "\<exists>parents. tl_spans tel1 = tl_spans tel @ map (\<lambda>p. final_span SpanKindServer (info_Method info) p r) parents
      \<and> length parents = count_list is ObsTrace \<and> (parents \<noteq> [] \<longrightarrow> hd parents = remote ctx (copyMetadata (os_incoming x)))"
    by blast
  with t g o show ?thesis by (simp add: recorded_def split: go.split)
qed

definition demo_telemetry :: "(nat \<times> nat list) telemetry" where
  "demo_telemetry =
     \<lparr>tl_metrics = \<lparr>mt_total = (\<lambda>_. 0), mt_inFlight = (\<lambda>_. 0), mt_durations = (\<lambda>_. 0)\<rparr>, tl_log = [], tl_spans = []\<rparr>"

theorem interceptors_transparent_witness:
  "\<exists>tel1 x1. chainStreamServer
       (map (server_interceptor (\<lambda>c md. (fst c, [7])) (\<lambda>c n. (fst c, n # snd c))) [ObsLog, ObsTrace, ObsMetrics True, ObsTrace])
       \<lparr>info_Method = ''/s/m'', info_Kind = MethodKindUnary\<rparr>
       (\<lambda>c s (tel, x). ((tel, x\<lparr>os_rest := fst c + os_rest x\<rparr>), Returns (Some (Err 5 None)))) (3, []) ()
       (demo_telemetry, \<lparr>os_ctx = (3, []), os_incoming = None, os_rest = 4\<rparr>) = ((tel1, x1), Returns (Some (Err 5 None)))
     \<and> os_rest x1 = 7 \<and> length (tl_log tel1) = 1 \<and> length (tl_spans tel1) = 2
     \<and> mt_total (tl_metrics tel1) (''/s/m'', codeLabel (Some (Err 5 None))) = 1"
proof -
  let ?f = "\<lambda>c (s :: unit) (tel, x). ((tel :: (nat \<times> nat list) telemetry, x\<lparr>os_rest := fst c + os_rest x\<rparr>), Returns (Some (Err 5 None)))"
  let ?is = "[ObsLog, ObsTrace, ObsMetrics True, ObsTrace]"
  let ?c = "chainStreamServer (map (server_interceptor (\<lambda>c md. (fst c, [7])) (\<lambda>c n. (fst c, n # snd c))) ?is)
    \<lparr>info_Method = ''/s/m'', info_Kind = MethodKindUnary\<rparr> ?f (3, []) ()
    (demo_telemetry, \<lparr>os_ctx = (3, []), os_incoming = None, os_rest = 4\<rparr>)"
  obtain tel1 x1 r where c: "?c = ((tel1, x1), r)" by (cases ?c) auto
  from interceptors_transparent [where view = fst and g = "\<lambda>v inc y. (v + y, Returns (Some (Err 5 None)))", OF _ _ c]
  show ?thesis using c by (auto simp: demo_telemetry_def)
qed

section \<open>Calls\<close>

text \<open>The context and the headers a chain of the client hands to the call.\<close>

fun client_enter ::
  "('ctx \<Rightarrow> metadata) \<Rightarrow> ('ctx \<Rightarrow> nat \<Rightarrow> 'ctx) \<Rightarrow> nat \<Rightarrow> 'ctx client_ctx \<Rightarrow> header_heap \<Rightarrow> server_obs list
     \<Rightarrow> 'ctx client_ctx \<times> header_heap" where
  "client_enter inject start n ctx h [] = (ctx, h)"
| "client_enter inject start n ctx h (i # is) =
     (if i = ObsTrace
      then let c = start (kc_span ctx) n; (h1, a) = TraceUnaryClient_enter inject c (kc_outgoing ctx) h
           in client_enter inject start (Suc n) \<lparr>kc_span = c, kc_outgoing = Some a\<rparr> h1 is
      else client_enter inject start n ctx h is)"

definition result_status :: "(bytes option \<times> rpc_status option) go \<Rightarrow> rpc_status option go" where
  "result_status r = (case r of Panics e \<Rightarrow> Panics e | Returns (resp, st) \<Rightarrow> Returns st)"

lemma client_chain_records:
  assumes "\<And>c tel h x. invoke c path req (tel, h, x) = (case g c h x of ((h1, y), r) \<Rightarrow> ((tel, h1, y), r))"
    and "client_enter inject start (length (tl_spans tel)) ctx h is = (ctx1, h1)" and "g ctx1 h1 x = ((h2, y), r)"
  shows "foldr (\<lambda>i v ctx path req. i ctx path req v) (map (client_interceptor inject start) is) invoke ctx path req (tel, h, x) =
    ((recorded SpanKindClient ''rpc invoked'' path is
        (fst (span_parents (\<lambda>c. c) start (length (tl_spans tel)) (kc_span ctx) is)) (result_status r) tel, h2, y), r)"
  using assms(2,3)
proof (induction "is" arbitrary: ctx tel h)
  case Nil
  have "recorded SpanKindClient ''rpc invoked'' path [] [] (result_status r) tel = tel"
    by (simp add: recorded_def split: go.split)
  with Nil assms(1) show ?case by simp
next
  case (Cons i "is")
  let ?rec = "\<lambda>is ps tel. recorded SpanKindClient ''rpc invoked'' path is ps (result_status r) tel"
  show ?case
  proof (cases i)
    case ObsLog
    with Cons.IH [of tel ctx h] Cons.prems show ?thesis
      by (cases r) (auto simp: LogUnaryClient_def recorded_extend result_status_def)
  next
    case (ObsMetrics on)
    with Cons.IH [of tel ctx h] Cons.prems show ?thesis
      by (cases r; cases on)
        (auto simp: MetricsUnaryClient_def count_in_def recorded_metrics(3,4) recorded_extend result_status_def)
  next
    case ObsTrace
    let ?n = "length (tl_spans tel)"
    let ?c = "start (kc_span ctx) ?n"
    obtain h' a where e: "TraceUnaryClient_enter inject ?c (kc_outgoing ctx) h = (h', a)" by fastforce
    from Cons.IH [of "add_span (new_span SpanKindClient path (kc_span ctx)) tel" "\<lparr>kc_span = ?c, kc_outgoing = Some a\<rparr>" h']
      Cons.prems ObsTrace e
    show ?thesis
      by (cases r) (auto simp: TraceUnaryClient_def Let_def recorded_trace length_spans_enter result_status_def
          split: prod.splits)
  qed
qed

lemma client_enter_span: "kc_span (fst (client_enter inject start n ctx h is)) = snd (span_parents (\<lambda>c. c) start n (kc_span ctx) is)"
  by (induction "is" arbitrary: n ctx h) (simp_all add: Let_def case_prod_beta)

definition outgoing_values :: "header_heap \<Rightarrow> nat option \<Rightarrow> string \<Rightarrow> string list" where
  "outgoing_values h a k = (case a of None \<Rightarrow> [] | Some b \<Rightarrow> md_values (hh_maps h b) k)"

lemma enter_values:
  assumes "inject c key = Some [v]" and "TraceUnaryClient_enter inject c a h = (h1, b)"
  shows "outgoing_values h1 (Some b) key = outgoing_values h a key @ [v]"
  using assms by (auto simp: TraceUnaryClient_enter_def outgoing_values_def append_carrier_def md_values_def Let_def
      split: option.splits)

lemma client_enter_values:
  assumes "\<And>c. inject c key = Some [tp c]"
    and "client_enter inject start n ctx h is = (ctx1, h1)" and "span_parents (\<lambda>c. c) start n (kc_span ctx) is = (ps, c1)"
  shows "outgoing_values h1 (kc_outgoing ctx1) key =
    outgoing_values h (kc_outgoing ctx) key @ map tp (if ps = [] then [] else tl ps @ [c1])"
  using assms(2,3)
proof (induction "is" arbitrary: n ctx h ps)
  case (Cons i "is")
  show ?case
  proof (cases "i = ObsTrace")
    case True
    let ?c = "start (kc_span ctx) n"
    obtain h' a where e: "TraceUnaryClient_enter inject ?c (kc_outgoing ctx) h = (h', a)" by fastforce
    obtain ps' where p: "span_parents (\<lambda>c. c) start (Suc n) ?c is = (ps', c1)" "ps = kc_span ctx # ps'"
      using Cons.prems(2) True by (auto simp: Let_def split: prod.splits)
    have "client_enter inject start (Suc n) \<lparr>kc_span = ?c, kc_outgoing = Some a\<rparr> h' is = (ctx1, h1)"
      using Cons.prems(1) True e by (simp add: Let_def)
    from Cons.IH [OF this, of ps'] p have "outgoing_values h1 (kc_outgoing ctx1) key =
        outgoing_values h' (Some a) key @ map tp (if ps' = [] then [] else tl ps' @ [c1])" by simp
    moreover have "ps' \<noteq> [] \<Longrightarrow> hd ps' = ?c" "ps' = [] \<Longrightarrow> c1 = ?c"
      using p(1) by (induction "is" arbitrary: ps') (auto simp: Let_def split: prod.splits if_splits)
    ultimately show ?thesis using p(2) enter_values [of inject ?c key, OF assms(1) e] by (cases ps') simp_all
  next
    case False
    with Cons.IH [of n ctx h ps] Cons.prems show ?thesis by simp
  qed
qed simp

lemma span_parents_first: "span_parents (\<lambda>c. c) start n c is = (ps, c1) \<Longrightarrow> hd (ps @ [c1]) = c"
  by (induction "is" arbitrary: n c ps) (auto simp: Let_def split: prod.splits if_splits)

lemma span_parents_second:
  "span_parents (\<lambda>c. c) start n c is = (ps, c1) \<Longrightarrow> ps \<noteq> [] \<Longrightarrow> hd (tl ps @ [c1]) = start c n"
  by (induction "is") (auto simp: Let_def span_parents_first split: prod.splits if_splits)

lemma client_enter_none:
  "client_enter inject start n ctx h is = (ctx1, h1) \<Longrightarrow> fst (span_parents (\<lambda>c. c) start n (kc_span ctx) is) = [] \<Longrightarrow>
   ctx1 = ctx \<and> h1 = h"
  by (induction "is") (auto simp: Let_def split: prod.splits if_splits)

text \<open>
  What the client's interceptors do to a call. Let any list of loggers, metrics and tracers be installed on a client
  and let the call act on its context, the headers and the rest of the state. The chain makes the call once, with the
  same method and request, and returns its result. When \<open>k\<close> tracers are installed the call carries
  \<open>k\<close> more values of the trace header, after those that were there, the outermost tracer's first, and the headers are
  those of the context when there is none. A server that extracts the first value joins the outermost span
  exactly when no trace header was there before. The telemetry is as on the server.
\<close>

theorem client_interceptors_transparent:
  assumes "\<And>c. inject c ''traceparent'' = Some [tp c]"
    and "\<And>c tel h x. invoke c path req (tel, h, x) = (case g c h x of ((h1, y), r) \<Rightarrow> ((tel, h1, y), r))"
    and "chainUnaryClient (map (client_interceptor inject start) is) invoke ctx path req (tel, h, x) = ((tel2, h2, y), r)"
  shows "\<exists>ctx1 h1 spans. ((h2, y), r) = g ctx1 h1 x \<and> length spans = count_list is ObsTrace
    \<and> (spans = [] \<longrightarrow> ctx1 = ctx \<and> h1 = h)
    \<and> (spans \<noteq> [] \<longrightarrow> hd spans = start (kc_span ctx) (length (tl_spans tel)) \<and> last spans = kc_span ctx1)
    \<and> outgoing_values h1 (kc_outgoing ctx1) ''traceparent'' =
        outgoing_values h (kc_outgoing ctx) ''traceparent'' @ map tp spans
    \<and> tl_spans tel2 = tl_spans tel @
        map (\<lambda>p. final_span SpanKindClient path p (result_status r)) (if spans = [] then [] else kc_span ctx # butlast spans)
    \<and> tl_log tel2 = tl_log tel @ (case result_status r of Panics _ \<Rightarrow> []
        | Returns st \<Rightarrow> replicate (count_list is ObsLog) \<lparr>lg_text = ''rpc invoked'', lg_method = path, lg_code = statusCode st\<rparr>)"
proof -
  let ?n = "length (tl_spans tel)"
  obtain ctx1 h1 where e: "client_enter inject start ?n ctx h is = (ctx1, h1)" by fastforce
  obtain ps c1 where p: "span_parents (\<lambda>c. c) start ?n (kc_span ctx) is = (ps, c1)" by fastforce
  obtain h3 y3 r3 where g: "g ctx1 h1 x = ((h3, y3), r3)" by (cases "g ctx1 h1 x") auto
  have t: "tel2 = recorded SpanKindClient ''rpc invoked'' path is ps (result_status r) tel" "((h2, y), r) = g ctx1 h1 x"
    using client_chain_records [where invoke = invoke and path = path and req = req and g = g, OF assms(2) e g] assms(3) p g
      chainUnaryClient_foldr [of "map (client_interceptor inject start) is" invoke] by auto
  define spans where "spans = (if ps = [] then [] else tl ps @ [c1])"
  have "length ps = count_list is ObsTrace" using count_parents [of "\<lambda>c. c" start ?n "kc_span ctx" "is"] p by simp
  moreover note span_parents_first [OF p] span_parents_second [OF p]
  moreover have "ps = [] \<Longrightarrow> ctx1 = ctx \<and> h1 = h" using client_enter_none [OF e] p by simp
  moreover have "c1 = kc_span ctx1" using client_enter_span [of inject start ?n ctx h "is"] e p by simp
  ultimately show ?thesis
    using t client_enter_values [where inject = inject and tp = tp, OF assms(1) e p]
    by (intro exI [of _ ctx1] exI [of _ h1] exI [of _ spans])
      (cases ps, auto simp: spans_def recorded_def split: go.split)
qed

theorem client_interceptors_transparent_witness:
  "\<exists>tel2 h2. chainUnaryClient
       (map (client_interceptor (\<lambda>c. [''traceparent'' \<mapsto> [c]]) (\<lambda>c n. CHR ''x'' # c)) [ObsTrace, ObsLog, ObsTrace])
       (\<lambda>c path req (tel, h, x). ((tel, h, outgoing_values h (kc_outgoing c) ''traceparent''), Returns (Some req, Some status_OK)))
       \<lparr>kc_span = ''c'', kc_outgoing = Some 0\<rparr> ''/s/m'' [1]
       (\<lparr>tl_metrics = undefined, tl_log = [], tl_spans = []\<rparr>, \<lparr>hh_maps = (\<lambda>_. Map.empty), hh_next = 1\<rparr>, [])
       = ((tel2, h2, [''xc'', ''xxc'']), Returns (Some [1], Some status_OK))
     \<and> length (tl_spans tel2) = 2 \<and> length (tl_log tel2) = 1"
proof -
  let ?f = "\<lambda>c path req (tel, h, x). ((tel, h, outgoing_values h (kc_outgoing c) ''traceparent''), Returns (Some req, Some status_OK))"
  let ?c = "chainUnaryClient
    (map (client_interceptor (\<lambda>c. [''traceparent'' \<mapsto> [c]]) (\<lambda>c n. CHR ''x'' # c)) [ObsTrace, ObsLog, ObsTrace])
    ?f \<lparr>kc_span = ''c'', kc_outgoing = Some 0\<rparr> ''/s/m'' [1]
    (\<lparr>tl_metrics = undefined, tl_log = [], tl_spans = []\<rparr>, \<lparr>hh_maps = (\<lambda>_. Map.empty), hh_next = 1\<rparr>, [])"
  obtain tel2 h2 y r where c: "?c = ((tel2, h2, y), r)" by (cases ?c) auto
  from client_interceptors_transparent [where tp = "\<lambda>c. c"
      and g = "\<lambda>c h x. ((h, outgoing_values h (kc_outgoing c) ''traceparent''), Returns (Some [1], Some status_OK))", OF _ _ c]
  have s: "r = Returns (Some [1], Some status_OK)" "length (tl_spans tel2) = 2" "length (tl_log tel2) = 1"
    by (auto simp: outgoing_values_def md_values_def result_status_def)
  have "y = [''xc'', ''xxc'']"
    using c by (simp add: chainUnaryClient_foldr TraceUnaryClient_def LogUnaryClient_def TraceUnaryClient_enter_def Let_def
        outgoing_values_def append_carrier_def md_values_def)
  with c s show ?thesis by blast
qed

end
