(* ===== verification/Rpc_Typing.thy ===== *)
theory Rpc_Typing
  imports Rpc_EndToEnd
begin

text \<open>
  A type discipline for the frames of the protocol, in the sense of a type system: what a client puts on the wire is
  well typed in every run, and a well-typed frame is handled by a server, or by a client, without a panic in
  any state. The one way to leave it is a payload of 2 GiB or more, whose size does not fit the \<open>int32\<close>
  fields of a chunk.
\<close>

section \<open>Types\<close>

definition typed_seq :: "int option \<Rightarrow> bool" where
  "typed_seq r \<longleftrightarrow> (\<exists>seq. r = Some seq \<and> 0 < seq \<and> seq < 2 ^ 31)"

definition typed_chunk :: "chunk \<Rightarrow> bool" where
  "typed_chunk k \<longleftrightarrow> 0 \<le> ch_offset k \<and> 0 < length (ch_data k) \<and> length (ch_data k) \<le> ChunkSize
     \<and> ch_offset k + int (length (ch_data k)) \<le> ch_total_size k \<and> ch_total_size k < 2 ^ 31"

fun typed_data :: "data_content option option \<Rightarrow> bool" where
  "typed_data (Some (Some (Data_Message b))) \<longleftrightarrow> length b \<le> MessageMax"
| "typed_data (Some (Some (Data_Chunk k))) \<longleftrightarrow> typed_chunk k"
| "typed_data _ \<longleftrightarrow> False"

definition typed_call :: "call \<Rightarrow> bool" where
  "typed_call c \<longleftrightarrow> c_protocol_version c = 1 \<and> - (2 ^ 31) \<le> c_deadline_ms c \<and> c_deadline_ms c < 2 ^ 31
     \<and> (case c_inline_data c of None \<Rightarrow> True | Some b \<Rightarrow> b \<noteq> [] \<and> length b \<le> InlineMax)"

text \<open>A client ends its side or cancels the call; it sends no trailer.\<close>

definition typed_end :: "end_msg \<Rightarrow> bool" where
  "typed_end e \<longleftrightarrow> e_trailer e = None \<and> (e_close_send e \<longleftrightarrow> e_status e = None)"

fun typed_type :: "frame_type option \<Rightarrow> bool" where
  "typed_type (Some (Frame_Call (Some c))) \<longleftrightarrow> typed_call c"
| "typed_type (Some (Frame_Data d)) \<longleftrightarrow> typed_data d"
| "typed_type (Some (Frame_End (Some e))) \<longleftrightarrow> typed_end e"
| "typed_type _ \<longleftrightarrow> False"

definition typed_frame :: "frame \<Rightarrow> bool" where
  "typed_frame f \<longleftrightarrow> typed_seq (f_routing f) \<and> odd (routing_seq (f_routing f)) \<and> typed_type (f_type f)"

fun typed_response_type :: "response_type option \<Rightarrow> bool" where
  "typed_response_type (Some (ResponseFrame_Begin (Some b))) \<longleftrightarrow> b_header b \<noteq> None \<and> b_inline_data b = None"
| "typed_response_type (Some (ResponseFrame_Data d)) \<longleftrightarrow> typed_data d"
| "typed_response_type (Some (ResponseFrame_End (Some e))) \<longleftrightarrow> \<not> e_close_send e \<and> e_status e \<noteq> None"
| "typed_response_type _ \<longleftrightarrow> False"

section \<open>Payloads\<close>

definition small :: "bytes \<Rightarrow> bool" where
  "small b \<longleftrightarrow> length b < 2 ^ 31"

lemma typed_contents:
  assumes "small b"
  shows "list_all (\<lambda>x. typed_data (Some (Some x))) (payload_contents b)"
proof -
  have "list_all typed_chunk (chunk_loop b 0)"
    using chunk_loop_tiles [of b 0] assms by (auto simp: small_def list_all_iff piece_of_def typed_chunk_def)
  then show ?thesis by (auto simp: payload_contents_def list_all_iff)
qed

lemma typed_reassembles: "typed_chunk k \<Longrightarrow> Reassemble r seq (ch_total_size k) (ch_offset k) (ch_data k) \<noteq> Panics e"
  using Reassemble_panics_iff [of r seq "ch_total_size k" "ch_offset k" "ch_data k"] by (auto simp: typed_chunk_def)

text \<open>A payload between 2 and 4 GiB: its first chunk announces a negative size, and the receiver panics on it.\<close>

lemma huge_payload_panics:
  assumes "2 ^ 31 \<le> length b" and "length b < 2 ^ 32" and "r seq = NewReassembler seq"
  shows "\<exists>k ks e. payload_contents b = Data_Chunk k # ks \<and> Reassemble r seq (ch_total_size k) (ch_offset k) (ch_data k) = Panics e"
proof -
  have neg: "int32 (int (length b)) = int (length b) - 2 ^ 32"
    using assms(1,2) int32_wrap [of "int (length b)"] by simp
  have "0 < length b" using assms(1) by (cases b) simp_all
  then obtain k ks where k: "chunk_loop b 0 = k # ks" "ch_total_size k = int32 (int (length b))"
    using chunk_loop.simps [of b 0] by (auto simp: Let_def)
  moreover have "\<not> length b \<le> MessageMax" using assms(1) by (simp add: thresholds)
  ultimately show ?thesis
    using neg assms(2,3) Reassemble_panics_iff [of r seq "ch_total_size k" "ch_offset k" "ch_data k"]
    by (auto simp: payload_contents_def needs_fresh_def NewReassembler_def)
qed

definition reasm_small :: "reassembler \<Rightarrow> bool" where
  "reasm_small r \<longleftrightarrow> (\<forall>seq a. r seq = Some a \<longrightarrow> small (a_buf a))"

lemma reassemble_small:
  assumes "reasm_small r" and "tot < 2 ^ 31" and "0 \<le> offset" and "Reassemble r seq tot offset dat = Returns (r1, z)"
  shows "reasm_small r1 \<and> (case z of None \<Rightarrow> True | Some b \<Rightarrow> small b)"
proof -
  let ?a = "acquire r seq tot"
  have a: "small (a_buf ?a)"
    using assms(1,2) by (auto simp: acquire_def needs_fresh_def reasm_small_def small_def split: option.splits)
  moreover have "offset + int (length dat) \<le> int (length (a_buf ?a)) \<Longrightarrow> small (overwrite (a_buf ?a) (nat offset) dat)"
    using a assms(3) by (simp add: small_def nat_le_iff)
  ultimately show ?thesis
    using assms(1,3,4) by (auto simp: Reassemble_def reasm_small_def Let_def split: if_splits)
qed

section \<open>Clients\<close>

fun small_event :: "client_event \<Rightarrow> bool" where
  "small_event (CevUnary ctx method b) \<longleftrightarrow> small b"
| "small_event (CevServerStreaming ctx method b hdr) \<longleftrightarrow> small b"
| "small_event (CevClientStreaming ctx method b hdr) \<longleftrightarrow> (case b of None \<Rightarrow> True | Some x \<Rightarrow> small x)"
| "small_event (CevSend sid b) \<longleftrightarrow> small b"
| "small_event _ \<longleftrightarrow> True"

definition sends_typed :: "client \<Rightarrow> client \<Rightarrow> bool" where
  "sends_typed c c' \<longleftrightarrow> (\<exists>fs. cl_sent c' = cl_sent c @ fs \<and> list_all typed_frame fs)"

lemma sends_same: "cl_sent c' = cl_sent c \<Longrightarrow> sends_typed c c'"
  by (simp add: sends_typed_def)

lemma sends_frame: "typed_frame f \<Longrightarrow> sends_typed c (client_sendFrame c f)"
  by (simp add: sends_typed_def client_sendFrame_def)

lemma sends_trans [trans]: "sends_typed c c1 \<Longrightarrow> sends_typed c1 c2 \<Longrightarrow> sends_typed c c2"
  unfolding sends_typed_def by auto

lemma typed_mk_frame: "odd seq \<Longrightarrow> 0 < seq \<Longrightarrow> seq < 2 ^ 31 \<Longrightarrow> typed_frame (mk_frame seq t) \<longleftrightarrow> typed_type (Some t)"
  by (simp add: typed_frame_def mk_frame_def typed_seq_def int32_seq)

lemma sends_payload:
  assumes "odd seq" and "0 < seq" and "seq < 2 ^ 31" and "small b"
  shows "sends_typed c (sendPayload c seq b)"
  unfolding sends_typed_def sendPayload_def sent_foldl
  using typed_contents [OF assms(4)] typed_mk_frame [OF assms(1-3)] by (auto simp: list_all_iff)

lemma typed_mk_call: "(case inl of None \<Rightarrow> True | Some b \<Rightarrow> b \<noteq> [] \<and> length b \<le> InlineMax) \<Longrightarrow> typed_call (mk_call method md ctx inl)"
  using int32_range by (auto simp: typed_call_def mk_call_def deadline_ms_def split: option.split)

lemma typed_closing:
  assumes "odd seq" and "0 < seq" and "seq < 2 ^ 31"
  shows "typed_frame (close_send_frame seq)" and "typed_frame (cancel_frame seq)"
  by (simp_all add: close_send_frame_def cancel_frame_def typed_mk_frame [OF assms] typed_end_def)

lemma openStream_seq:
  assumes "odd (uint (cl_seqAlloc c))" and "client_openStream c method = (c0, sid, seq)"
  shows "odd seq \<and> 0 < seq \<and> seq < 2 ^ 31 \<and> cl_sent c0 = cl_sent c"
  using assms nextSeq_range [OF assms(1)] by (auto simp: client_openStream_def Let_def split: prod.splits)

lemma sent_watchCancel [simp]: "cl_sent (watchCancel c sid) = cl_sent c"
  by (simp add: watchCancel_def set_cs_def split: option.split)

lemma open_half_closed_typed:
  assumes "odd (uint (cl_seqAlloc c))" and "small req"
  shows "sends_typed c (fst (open_half_closed c method md ctx req))"
proof -
  obtain c0 sid seq where o: "client_openStream c method = (c0, sid, seq)" by (cases "client_openStream c method")
  note q = openStream_seq [OF assms(1) o]
  let ?inl = "if length req \<le> InlineMax then append_nil req else None"
  let ?c1 = "watchCancel c0 sid"
  let ?c2 = "client_sendFrame ?c1 (mk_frame seq (Frame_Call (Some (mk_call method md ctx ?inl))))"
  let ?c3 = "if ?inl = None then sendPayload ?c2 seq req else ?c2"
  have "sends_typed c ?c1" using q by (simp add: sends_same)
  also have "sends_typed ?c1 ?c2"
    using q by (intro sends_frame) (auto simp: typed_mk_frame append_nil_def intro!: typed_mk_call)
  also have "sends_typed ?c2 ?c3" using q sends_payload [OF _ _ _ assms(2)] by (simp add: sends_same)
  also have "sends_typed ?c3 (client_sendFrame ?c3 (close_send_frame seq))"
    using q typed_closing by (intro sends_frame) simp
  finally show ?thesis using o by (simp add: open_half_closed_def Let_def)
qed

lemma InvokeClientStreaming_typed:
  assumes "odd (uint (cl_seqAlloc c))" and "case firstReq of None \<Rightarrow> True | Some b \<Rightarrow> small b"
  shows "sends_typed c (fst (InvokeClientStreaming c ctx method firstReq hdr))"
proof -
  obtain c0 sid seq where o: "client_openStream c method = (c0, sid, seq)" by (cases "client_openStream c method")
  note q = openStream_seq [OF assms(1) o]
  let ?first = "case firstReq of None \<Rightarrow> [] | Some b \<Rightarrow> b"
  let ?inl = "if length ?first > 0 \<and> length ?first \<le> InlineMax then append_nil ?first else None"
  let ?c1 = "watchCancel c0 sid"
  let ?c2 = "client_sendFrame ?c1 (mk_frame seq (Frame_Call (Some (mk_call method (Some (metadataFromKV hdr)) ctx ?inl))))"
  have sm: "small ?first" using assms(2) by (cases firstReq) (simp_all add: small_def)
  have "sends_typed c ?c1" using q by (simp add: sends_same)
  also have "sends_typed ?c1 ?c2"
    using q by (intro sends_frame) (auto simp: typed_mk_frame append_nil_def intro!: typed_mk_call)
  also have "sends_typed ?c2 (if firstReq \<noteq> None \<and> ?inl = None then sendPayload ?c2 seq ?first else ?c2)"
    using q sends_payload [OF _ _ _ sm] by (simp add: sends_same)
  finally show ?thesis by (simp only: InvokeClientStreaming_def o Let_def prod.case fst_conv)
qed

lemma client_deliver_sent: "c' \<in> set (client_deliver c sid b) \<Longrightarrow> cl_sent c' = cl_sent c"
  by (auto simp: client_deliver_def set_cs_def split: option.splits if_splits)

lemma client_data_sent: "c' \<in> set (client_data c sid seq d) \<Longrightarrow> cl_sent c' = cl_sent c"
  by (cases "(d, sid)" rule: prod.exhaust)
    (auto simp: client_data_def dest!: client_deliver_sent split: option.splits data_content.splits go.splits)

lemma dispatch_sent: "c' \<in> set (dispatch c f) \<Longrightarrow> cl_sent c' = cl_sent c"
  by (cases "r_type f"; cases "cl_streams c (routing_seq (r_routing f))")
    (auto simp: dispatch_def client_end_def set_cs_def Let_def dest!: client_deliver_sent client_data_sent
      split: option.splits response_type.splits if_splits)

lemma waiting_sent:
  "c' \<in> fst ` set (unary_step c sid cd u) \<Longrightarrow> cl_sent c' = cl_sent c"
  "c' \<in> set (recv_outcomes c sid cd) \<Longrightarrow> cl_sent c' = cl_sent c"
proof -
  assume c': "c' \<in> fst ` set (unary_step c sid cd u)"
  show "cl_sent c' = cl_sent c"
  proof (cases "cl_heap c sid")
    case (Some cs)
    with c' show ?thesis
      by (cases u; cases "ir_err (hd (cs_inbound cs))")
        (auto simp: unary_step_def set_cs_def cleanupStream_def Let_def split: if_splits)
  qed (use c' in \<open>simp add: unary_step_def\<close>)
next
  assume "c' \<in> set (recv_outcomes c sid cd)"
  then show "cl_sent c' = cl_sent c"
    by (cases "cl_heap c sid") (auto simp: recv_outcomes_def set_cs_def split: option.splits)
qed

lemma client_step_typed:
  assumes wf: "client_wf c" and sm: "small_event ev" and c': "c' \<in> set (client_outcomes c ev)"
  shows "sends_typed c c'"
proof -
  note a = wf_alloc [OF wf]
  have seq: "odd (cs_seq cs) \<and> 0 < cs_seq cs \<and> cs_seq cs < 2 ^ 31" if "cl_heap c sid = Some cs" for sid cs
    using wf_stream [OF wf that] by (simp add: stream_ok_def)
  show ?thesis
  proof (cases ev)
    case (CevFrame f)
    with c' show ?thesis by (intro sends_same) (auto simp: client_outcomes_def dispatch_sent split: if_splits)
  next
    case (CevFail e)
    with c' show ?thesis by (intro sends_same) (auto simp: client_outcomes_def failAll_def split: if_splits)
  next
    case (CevUnary ctx m b)
    with c' sm open_half_closed_typed [OF a] show ?thesis by (auto simp: client_outcomes_def unary_start_def split: if_splits)
  next
    case (CevUnaryStep sid cd u)
    with c' show ?thesis
      by (intro sends_same) (auto simp: client_outcomes_def split: if_splits intro!: waiting_sent(1) [of _ c sid cd u])
  next
    case (CevServerStreaming ctx m b hdr)
    with c' sm open_half_closed_typed [OF a] show ?thesis
      by (auto simp: client_outcomes_def InvokeServerStreaming_def split: if_splits)
  next
    case (CevClientStreaming ctx m b hdr)
    with c' sm InvokeClientStreaming_typed [OF a] show ?thesis by (auto simp: client_outcomes_def split: if_splits)
  next
    case (CevSend sid b)
    with c' sm seq [of sid] show ?thesis
      by (cases "cl_heap c sid") (auto simp: client_outcomes_def cs_Send_def sends_same split: if_splits intro!: sends_payload)
  next
    case (CevCloseSend sid)
    show ?thesis
    proof (cases "cl_heap c sid")
      case (Some cs)
      have "sends_typed c (client_sendFrame (set_cs c sid x) (close_send_frame (cs_seq cs)))" for x
        using sends_frame [of "close_send_frame (cs_seq cs)" "set_cs c sid x"] typed_closing seq [OF Some]
        by (simp add: sends_typed_def set_cs_def)
      with Some c' CevCloseSend show ?thesis by (auto simp: client_outcomes_def cs_CloseSend_def sends_same split: if_splits)
    qed (use c' CevCloseSend in \<open>auto simp: client_outcomes_def cs_CloseSend_def sends_same split: if_splits\<close>)
  next
    case (CevRecv sid cd)
    with c' show ?thesis by (intro sends_same) (auto simp: client_outcomes_def waiting_sent(2) split: if_splits)
  next
    case (CevWatch sid cd)
    show ?thesis
    proof (cases "cl_heap c sid")
      case (Some cs)
      have "sends_typed c (client_sendFrame (set_cs c sid x) (cancel_frame (cs_seq cs)))" for x
        using sends_frame [of "cancel_frame (cs_seq cs)" "set_cs c sid x"] typed_closing seq [OF Some]
        by (simp add: sends_typed_def set_cs_def)
      moreover have "sends_typed c (set_cs c sid x)" for x by (simp add: sends_same set_cs_def)
      ultimately show ?thesis
        using Some c' CevWatch by (auto simp: client_outcomes_def watch_step_def Let_def split: if_splits)
    qed (use c' CevWatch in \<open>auto simp: client_outcomes_def watch_step_def split: if_splits\<close>)
  qed
qed

section \<open>Servers\<close>

definition typed_response :: "response_frame \<Rightarrow> bool" where
  "typed_response f \<longleftrightarrow> typed_seq (r_routing f) \<and> typed_response_type (r_type f)"

text \<open>A handler that sends no payload of 2 GiB or more unless it receives one.\<close>

coinductive polite :: "handler \<Rightarrow> bool" where
  polite_return: "polite (HReturn st)"
| polite_send: "small b \<Longrightarrow> (\<And>e. polite (k e)) \<Longrightarrow> polite (HSend b k)"
| polite_recv: "(\<And>r. (case r of Inl _ \<Rightarrow> True | Inr b \<Rightarrow> small b) \<Longrightarrow> polite (kr r)) \<Longrightarrow> polite (HRecv kr)"
| polite_set_header: "polite h \<Longrightarrow> polite (HSetHeader kv h)"
| polite_set_trailer: "polite h \<Longrightarrow> polite (HSetTrailer kv h)"
| polite_incoming: "(\<And>md. polite (km md)) \<Longrightarrow> polite (HIncomingHeader km)"
| polite_header: "(\<And>md. polite (km md)) \<Longrightarrow> polite (HHeader km)"

inductive_simps polite_simps [simp]:
  "polite (HReturn st)" "polite (HSend b k)" "polite (HRecv kr)" "polite (HSetHeader kv h)" "polite (HSetTrailer kv h)"
  "polite (HIncomingHeader km)" "polite (HHeader km)"

definition stream_typed :: "server_stream \<Rightarrow> bool" where
  "stream_typed st \<longleftrightarrow> 0 < ss_seq st \<and> ss_seq st < 2 ^ 31 \<and> \<not> ss_hdrState st
     \<and> list_all small (ss_inbound st) \<and> (case ss_prog st of None \<Rightarrow> True | Some h \<Rightarrow> polite h)"

definition srv_typed :: "mux \<Rightarrow> bool" where
  "srv_typed m \<longleftrightarrow> list_all typed_response (mx_out m) \<and> mx_crashed m = None \<and> reasm_small (mx_reasm m)
     \<and> (\<forall>sid st. mx_heap m sid = Some st \<longrightarrow> stream_typed st)"

lemma srv_typedD: "srv_typed m \<Longrightarrow> mx_heap m sid = Some st \<Longrightarrow> stream_typed st"
  by (simp add: srv_typed_def)

lemma lookup_typed: "srv_typed m \<Longrightarrow> lookupStream m seq = Some (sid, st) \<Longrightarrow> stream_typed st"
  by (auto simp: lookupStream_def srv_typed_def split: option.splits)

lemma srv_typed_set: "srv_typed m \<Longrightarrow> stream_typed st \<Longrightarrow> srv_typed (set_stream m sid st)"
  by (simp add: srv_typed_def set_stream_def)

lemma srv_typed_fields:
  "srv_typed m \<Longrightarrow> srv_typed (m\<lparr>mx_streams := x\<rparr>)" "srv_typed m \<Longrightarrow> reasm_small y \<Longrightarrow> srv_typed (m\<lparr>mx_reasm := y\<rparr>)"
  "srv_typed m \<Longrightarrow> srv_typed (m\<lparr>mx_streams := x, mx_next := n\<rparr>)" "srv_typed m \<Longrightarrow> srv_typed (m\<lparr>mx_done := b\<rparr>)"
  by (simp_all add: srv_typed_def)

lemma stream_typed_fields [simp]:
  "stream_typed (st\<lparr>ss_headerSent := b\<rparr>) = stream_typed st"
  "stream_typed (st\<lparr>ss_halfClose := b\<rparr>) = stream_typed st" "stream_typed (st\<lparr>ss_ctx := c\<rparr>) = stream_typed st"
  "stream_typed (st\<lparr>ss_waiting := b\<rparr>) = stream_typed st" "stream_typed (st\<lparr>ss_hdr := h\<rparr>) = stream_typed st"
  "stream_typed (cancel_stream st) = stream_typed st"
  by (simp_all add: stream_typed_def cancel_stream_def)

lemma stream_typed_inbound: "stream_typed st \<Longrightarrow> small b \<Longrightarrow> stream_typed (st\<lparr>ss_inbound := ss_inbound st @ [b]\<rparr>)"
  by (simp add: stream_typed_def)

lemma stream_typed_prog: "stream_typed st \<Longrightarrow> polite h \<Longrightarrow> stream_typed (st\<lparr>ss_prog := Some h\<rparr>)"
  by (simp add: stream_typed_def)

lemma typed_resp_frame:
  "0 < seq \<Longrightarrow> seq < 2 ^ 31 \<Longrightarrow> typed_response (resp_frame seq t) \<longleftrightarrow> typed_response_type (Some t)"
  by (simp add: typed_response_def resp_frame_def typed_seq_def int32_seq)

lemma queue_typed: "(m1, e) \<in> set (queue m f) \<Longrightarrow> srv_typed m \<Longrightarrow> typed_response f \<Longrightarrow> srv_typed m1"
  by (auto simp: queue_def srv_typed_def Let_def split: if_splits)

lemma queue_all_typed:
  "(m1, e) \<in> set (queue_all m fs) \<Longrightarrow> srv_typed m \<Longrightarrow> list_all typed_response fs \<Longrightarrow> srv_typed m1"
proof (induction fs arbitrary: m)
  case (Cons f fs)
  then obtain m2 e2 where q: "(m2, e2) \<in> set (queue m f)"
    "(m1, e) \<in> set (case e2 of Some x \<Rightarrow> [(m2, Some x)] | None \<Rightarrow> queue_all m2 fs)" by auto
  have "srv_typed m2" using queue_typed [OF q(1)] Cons.prems by simp
  with q(2) Cons.IH [of m2] Cons.prems(3) show ?case by (cases e2) auto
qed simp

lemma flushBeginOnce_typed:
  assumes "(m1, e) \<in> set (flushBeginOnce m s)" and "srv_typed m" and "stream_typed s"
  shows "srv_typed m1"
proof (cases "lookupStream m (ss_seq s)")
  case None
  with assms show ?thesis by (simp add: flushBeginOnce_def)
next
  case (Some p)
  obtain sid st where p: "p = (sid, st)" by (cases p)
  have t: "srv_typed (set_stream m sid (st\<lparr>ss_headerSent := True\<rparr>))"
    using lookup_typed [OF assms(2)] Some p by (intro srv_typed_set [OF assms(2)]) simp
  have "typed_response (begin_frame (ss_seq s) (Snapshot (ss_hdr s)))"
    using assms(3) by (simp add: begin_frame_def typed_resp_frame stream_typed_def)
  then show ?thesis
    using assms(1) Some p t queue_typed [OF _ t] by (auto simp: flushBeginOnce_def Let_def split: if_splits)
qed

lemma Send_typed:
  assumes "(m1, e) \<in> set (Send m s b)" and "srv_typed m" and "stream_typed s" and "small b"
  shows "srv_typed m1"
proof -
  obtain m2 e2 where q: "(m2, e2) \<in> set (flushBeginOnce m s)" "(m1, e) \<in> set (case e2 of Some x \<Rightarrow> [(m2, Some x)]
      | None \<Rightarrow> queue_all m2 (map (data_frame (ss_seq s)) (payload_contents b)))"
    using assms(1) by (auto simp: Send_def)
  have t: "srv_typed m2" by (rule flushBeginOnce_typed [OF q(1) assms(2,3)])
  have "list_all typed_response (map (data_frame (ss_seq s)) (payload_contents b))"
    using typed_contents [OF assms(4)] assms(3) by (auto simp: list_all_iff data_frame_def typed_resp_frame stream_typed_def)
  with q(2) t queue_all_typed [OF _ t] show ?thesis by (cases e2) auto
qed

lemma endStream_typed:
  assumes "m' \<in> set (endStream m seq e)" and "srv_typed m" and "0 < seq" and "seq < 2 ^ 31"
    and "\<not> e_close_send e" and "e_status e \<noteq> None"
  shows "srv_typed m'"
proof -
  have b: "typed_response (begin_frame seq (Snapshot h))" and f: "typed_response (end_frame seq e)" for h
    using assms(3-6) by (simp_all add: begin_frame_def end_frame_def typed_resp_frame)
  obtain m1 e1 where m1: "srv_typed m1" "(m', e1) \<in> set (queue (m1\<lparr>mx_streams := (mx_streams m1)(seq := None)\<rparr>) (end_frame seq e))"
  proof (cases "lookupStream m seq")
    case None
    with assms(1,2) that show thesis by (fastforce simp: endStream_def)
  next
    case (Some p)
    obtain sid st where p: "p = (sid, st)" by (cases p)
    have t: "srv_typed (set_stream m sid (st\<lparr>ss_headerSent := True\<rparr>))"
      using lookup_typed [OF assms(2)] Some p by (intro srv_typed_set [OF assms(2)]) simp
    with assms(1) Some p that queue_typed [OF _ t b] show thesis
      by (fastforce simp: endStream_def Let_def split: if_splits)
  qed
  show ?thesis by (rule queue_typed [OF m1(2) srv_typed_fields(1) [OF m1(1)] f])
qed

lemma finishHandler_typed:
  assumes "m' \<in> set (finishHandler m sid st status)" and "srv_typed m" and "stream_typed st"
  shows "srv_typed m'"
proof -
  obtain m1 where m1: "m1 \<in> set (endStream m (ss_seq st) \<lparr>e_close_send = False, e_status = Some (toProto status),
      e_trailer = Some (Snapshot (ss_hdr st))\<rparr>)"
    "m' = (case mx_heap m1 sid of None \<Rightarrow> m1 | Some st1 \<Rightarrow> set_stream m1 sid (cancel_stream (st1\<lparr>ss_prog := None\<rparr>)))"
    using assms(1) by (auto simp: finishHandler_def Let_def)
  have t: "srv_typed m1"
    by (rule endStream_typed [OF m1(1) assms(2)]) (use assms(3) in \<open>simp_all add: stream_typed_def\<close>)
  have "stream_typed (st1\<lparr>ss_prog := None\<rparr>)" if "mx_heap m1 sid = Some st1" for st1
    using srv_typedD [OF t that] by (simp add: stream_typed_def)
  with m1(2) t show ?thesis by (auto simp: srv_typed_set split: option.split)
qed

definition polite_server :: "server \<Rightarrow> bool" where
  "polite_server s \<longleftrightarrow> (\<forall>path d. findMethod s path = Some d \<longrightarrow> polite (handler_chain s d))"

lemma openStream_typed:
  assumes "m' \<in> set (openStream m s seq c)" and "srv_typed m" and "0 < seq" and "seq < 2 ^ 31" and "polite_server s"
    and "case c of None \<Rightarrow> True | Some x \<Rightarrow> typed_call x"
  shows "srv_typed m'"
proof -
  show ?thesis
  proof (cases "c = None \<or> findMethod s (c_method (the c)) = None \<or> mx_streams m seq \<noteq> None")
    case True
    then obtain code msg where "m' \<in> set (endStream m seq (status_end code msg))"
      using assms(1) by (auto simp: openStream_def Let_def split: option.splits)
    then show ?thesis by (rule endStream_typed [OF _ assms(2-4)]) (simp_all add: status_end_def)
  next
    case False
    then obtain x d where x: "c = Some x" "findMethod s (c_method x) = Some d" "mx_streams m seq = None" by auto
    let ?st = "(newServerStream (mx_ctx m) (durationFromMs (c_deadline_ms x)) (c_method x) d seq)\<lparr>ss_incoming := c_metadata x\<rparr>"
    have st: "stream_typed (?st\<lparr>ss_prog := Some (handler_chain s d)\<rparr>)"
      "small q \<Longrightarrow> stream_typed (?st\<lparr>ss_inbound := [q], ss_prog := Some (handler_chain s d)\<rparr>)" for q
      using assms(3-5) x(2) by (auto simp: stream_typed_def newServerStream_def polite_server_def)
    show ?thesis
    proof (cases "c_inline_data x")
      case None
      with assms(1) x st(1) show ?thesis
        by (simp add: openStream_def Let_def srv_typed_set [OF srv_typed_fields(3) [OF assms(2)]])
    next
      case (Some q)
      have "m' = set_stream (m\<lparr>mx_streams := (mx_streams m)(seq \<mapsto> mx_next m), mx_next := Suc (mx_next m)\<rparr>) (mx_next m)
          (?st\<lparr>ss_inbound := ss_inbound ?st @ [q], ss_prog := Some (handler_chain s d)\<rparr>)
        \<or> m' = set_stream (m\<lparr>mx_streams := (mx_streams m)(seq \<mapsto> mx_next m), mx_next := Suc (mx_next m)\<rparr>) (mx_next m)
          (?st\<lparr>ss_prog := Some (handler_chain s d)\<rparr>)"
        using assms(1) x Some by (simp add: openStream_def Let_def split: if_splits)
      moreover have "small q" using assms(6) x(1) Some by (auto simp: typed_call_def small_def thresholds)
      moreover have "ss_inbound ?st = []" by (simp add: newServerStream_def)
      ultimately show ?thesis using st srv_typed_set [OF srv_typed_fields(3) [OF assms(2)]] by auto
    qed
  qed
qed

lemma deliverPayload_typed: "m' \<in> set (deliverPayload m seq b) \<Longrightarrow> srv_typed m \<Longrightarrow> small b \<Longrightarrow> srv_typed m'"
  by (cases "lookupStream m seq")
    (auto simp: deliverPayload_def dest: lookup_typed split: if_splits intro!: srv_typed_set stream_typed_inbound)

lemma deliverData_typed:
  assumes "m' \<in> set (deliverData m seq d)" and "srv_typed m" and "typed_data d"
  shows "srv_typed m'"
proof -
  obtain x where d: "d = Some (Some x)" using assms(3) by (cases d; cases "the d") simp_all
  show ?thesis
  proof (cases x)
    case (Data_Message b)
    with assms d deliverPayload_typed show ?thesis by (simp add: deliverData_def small_def thresholds)
  next
    case (Data_Chunk k)
    have k: "typed_chunk k" using assms(3) d Data_Chunk by simp
    note np = typed_reassembles [OF this]
    then obtain r z where ro: "Reassemble (mx_reasm m) (int32 seq) (ch_total_size k) (ch_offset k) (ch_data k) = Returns (r, z)"
      by (cases "Reassemble (mx_reasm m) (int32 seq) (ch_total_size k) (ch_offset k) (ch_data k)") auto
    have "reasm_small r \<and> (case z of None \<Rightarrow> True | Some b \<Rightarrow> small b)"
      using assms(2) k by (intro reassemble_small [OF _ _ _ ro]) (simp_all add: srv_typed_def typed_chunk_def)
    with ro assms(1,2) d Data_Chunk deliverPayload_typed [of m' "m\<lparr>mx_reasm := r\<rparr>" seq] show ?thesis
      by (cases z) (auto simp: deliverData_def srv_typed_fields)
  qed
qed

lemma handleEnd_typed: "m' \<in> set (handleEnd m seq e) \<Longrightarrow> srv_typed m \<Longrightarrow> srv_typed m'"
  by (cases e; cases "lookupStream m seq")
    (auto simp: handleEnd_def dest: lookup_typed split: if_splits intro!: srv_typed_set srv_typed_fields(1))

lemma handleFrame_typed:
  assumes "m' \<in> set (handleFrame m s f)" and "srv_typed m" and "typed_frame f" and "polite_server s"
  shows "srv_typed m'"
proof -
  obtain seq where seq: "f_routing f = Some seq" "0 < seq" "seq < 2 ^ 31" using assms(3) by (auto simp: typed_frame_def typed_seq_def)
  obtain t where t: "f_type f = Some t" "typed_type (Some t)" using assms(3) by (cases "f_type f") (auto simp: typed_frame_def)
  show ?thesis
  proof (cases t)
    case (Frame_Call c)
    with t(2) have "case c of None \<Rightarrow> True | Some x \<Rightarrow> typed_call x" by (cases c) simp_all
    with Frame_Call assms seq t openStream_typed [OF _ assms(2) seq(2,3) assms(4)] show ?thesis by (simp add: handleFrame_def)
  next
    case (Frame_Data d)
    with assms seq t deliverData_typed [OF _ assms(2)] show ?thesis by (simp add: handleFrame_def)
  next
    case (Frame_End e)
    with assms seq t handleEnd_typed [OF _ assms(2)] show ?thesis by (simp add: handleFrame_def)
  qed
qed

lemma handler_step_typed:
  assumes "m' \<in> set (handler_step m sid)" and "srv_typed m"
  shows "srv_typed m'"
proof -
  obtain st h where st: "mx_heap m sid = Some st" "ss_prog st = Some h"
    using assms(1) by (cases "mx_heap m sid"; cases "ss_prog (the (mx_heap m sid))") (simp_all add: handler_step_def)
  note t = srv_typedD [OF assms(2) st(1)]
  have p: "polite h" "\<not> ss_hdrState st" using t st(2) by (simp_all add: stream_typed_def)
  note set = srv_typed_set [OF assms(2)]
  show ?thesis
  proof (cases h)
    case (HReturn r)
    with assms(1) st finishHandler_typed [OF _ assms(2) t] show ?thesis by (simp add: handler_step_def)
  next
    case (HSend b k)
    with assms(1) st obtain m1 e where m1: "(m1, e) \<in> set (Send m st b)" "m' = set_prog m1 sid (Some (k e))"
      by (auto simp: handler_step_def)
    have t1: "srv_typed m1" using p(1) HSend by (intro Send_typed [OF m1(1) assms(2) t]) simp
    have "stream_typed (st1\<lparr>ss_prog := Some (k e), ss_waiting := False\<rparr>)" if "mx_heap m1 sid = Some st1" for st1
      using srv_typedD [OF t1 that] p(1) HSend by (simp add: stream_typed_def)
    with m1(2) t1 show ?thesis by (auto simp: set_prog_def srv_typed_set split: option.split)
  next
    case (HRecv k)
    have "stream_typed (st\<lparr>ss_inbound := tl (ss_inbound st), ss_prog := Some (k (Inr (hd (ss_inbound st)))), ss_waiting := w\<rparr>)"
      "stream_typed (st\<lparr>ss_inbound := tl (ss_inbound st), ss_prog := Some (k (Inr (hd (ss_inbound st))))\<rparr>)"
      if "ss_inbound st \<noteq> []" for w
      using t p(1) HRecv that by (cases "ss_inbound st"; simp add: stream_typed_def)+
    moreover have "stream_typed (st\<lparr>ss_prog := Some (k (Inl e)), ss_waiting := w\<rparr>)" for e w
      using t p(1) HRecv by (simp add: stream_typed_def)
    ultimately show ?thesis
      using assms(1) st HRecv t
      by (auto simp: handler_step_def Recv_wait_def Recv_poll_def select_default_def split: if_splits intro!: set)
  next
    case (HSetHeader kv h1)
    with assms(1) st p t show ?thesis
      by (auto simp: handler_step_def SetHeader_def intro!: set stream_typed_prog)
  next
    case (HSetTrailer kv h1)
    with assms(1) st p t show ?thesis by (auto simp: handler_step_def SetTrailer_def intro!: set stream_typed_prog)
  next
    case (HIncomingHeader k)
    with assms(1) st p t show ?thesis by (auto simp: handler_step_def intro!: set stream_typed_prog)
  next
    case (HHeader k)
    with assms(1) st p t show ?thesis by (auto simp: handler_step_def intro!: set stream_typed_prog)
  qed
qed

lemma mux_step_typed:
  assumes "m' \<in> set (mux_outcomes s m ev)" and "srv_typed m" and "polite_server s"
    and "case ev of EvFrame f \<Rightarrow> typed_frame f | _ \<Rightarrow> True"
  shows "srv_typed m'"
proof (cases ev)
  case (EvFrame f)
  with assms handleFrame_typed show ?thesis by (auto simp: mux_outcomes_def split: if_splits)
next
  case (EvHandler sid)
  with assms handler_step_typed show ?thesis by (auto simp: mux_outcomes_def split: if_splits)
next
  case (EvDeadline sid)
  with assms show ?thesis
    by (cases "mx_heap m sid") (auto simp: mux_outcomes_def expire_def srv_typedD split: if_splits intro!: srv_typed_set)
next
  case (EvCancel e)
  with assms show ?thesis by (auto simp: mux_outcomes_def cancel_ctx_def srv_typed_def split: if_splits)
next
  case EvShutdown
  with assms show ?thesis by (auto simp: mux_outcomes_def srv_typed_fields split: if_splits)
qed

section \<open>Receiving responses\<close>

lemma client_deliver_crashed: "c' \<in> set (client_deliver c sid b) \<Longrightarrow> cl_crashed c' = cl_crashed c"
  by (auto simp: client_deliver_def set_cs_def split: option.splits if_splits)

lemma dispatch_typed:
  assumes "typed_response f" and "c' \<in> set (dispatch c f)"
  shows "cl_crashed c' = cl_crashed c"
proof -
  have d: "cl_crashed x = cl_crashed c" if td: "typed_data d" and x: "x \<in> set (client_data c sid seq d)" for x d sid seq
  proof -
    obtain y where y: "d = Some (Some y)" using td by (cases d; cases "the d") simp_all
    show ?thesis
    proof (cases y)
      case (Data_Message b)
      with x y client_deliver_crashed show ?thesis by (simp add: client_data_def)
    next
      case (Data_Chunk k)
      have "typed_chunk k" using td y Data_Chunk by simp
      note np = typed_reassembles [OF this]
      then obtain r z where ro: "Reassemble (cl_reasm c) (int32 seq) (ch_total_size k) (ch_offset k) (ch_data k) = Returns (r, z)"
        by (cases "Reassemble (cl_reasm c) (int32 seq) (ch_total_size k) (ch_offset k) (ch_data k)") auto
      with x y Data_Chunk client_deliver_crashed [of x "c\<lparr>cl_reasm := r\<rparr>"] show ?thesis
        by (cases z) (auto simp: client_data_def)
    qed
  qed
  show ?thesis
    using assms d
    by (cases "r_type f"; cases "cl_streams c (routing_seq (r_routing f))")
      (auto simp: dispatch_def client_end_def set_cs_def typed_response_def Let_def dest!: client_deliver_crashed
        split: option.splits response_type.splits if_splits)
qed

section \<open>Soundness\<close>

text \<open>
  C35: Well-typed clients do not go wrong. In every run of a client in which the application passes no payload of 2 GiB or
  more (\<open>small_event\<close>), every frame sent is well typed: a positive odd \<open>int32\<close> sequence number; a Call of protocol
  version 1 with an \<open>int32\<close> deadline and at most \<open>InlineMax\<close> bytes of inline data; a message of at most
  \<open>MessageMax\<close> bytes or a chunk that lies within its announced total; an End that half-closes or cancels. And a server
  whose handlers, given payloads below 2 GiB, send none of 2 GiB or more (\<open>polite_server\<close>) never panics when all
  frames it reads are among those of such a client, whatever else happens to its handlers, contexts and deadlines.
  Without the client's bound it can: \<open>huge_payload_panics\<close>.
\<close>

theorem client_frames_typed:
  assumes "client_run NewClient cevs c" and "\<forall>ev \<in> set cevs. small_event ev"
    and "mux_run s (newMultiplexer ctx) evs m" and "\<forall>f. EvFrame f \<in> set evs \<longrightarrow> f \<in> set (cl_sent c)" and "polite_server s"
  shows "list_all typed_frame (cl_sent c) \<and> mx_crashed m = None"
proof -
  have "client_wf c \<and> list_all typed_frame (cl_sent c)"
  proof (rule runs_invariant [OF assms(1)])
    show "client_wf NewClient \<and> list_all typed_frame (cl_sent NewClient)" by (simp add: NewClient_wf) (simp add: NewClient_def)
    fix c1 c2 ev
    assume "client_wf c1 \<and> list_all typed_frame (cl_sent c1)" "ev \<in> set cevs" "c2 \<in> set (client_outcomes c1 ev)"
    then show "client_wf c2 \<and> list_all typed_frame (cl_sent c2)"
      using client_step_typed [of c1 ev c2] client_outcomes_keeps [of c1 c2 ev] assms(2)
      by (auto simp: keeps_def sends_typed_def)
  qed
  then have c: "list_all typed_frame (cl_sent c)" by blast
  have "srv_typed m"
  proof (rule runs_invariant [OF assms(3)])
    show "srv_typed (newMultiplexer ctx)"
      by (simp add: srv_typed_def newMultiplexer_def reasm_small_def NewReassembler_def)
    fix m1 m2 ev
    assume "srv_typed m1" "ev \<in> set evs" "m2 \<in> set (mux_outcomes s m1 ev)"
    then show "srv_typed m2"
      using mux_step_typed [of m2 s m1 ev] c assms(4,5) by (cases ev) (auto simp: list_all_iff)
  qed
  with c show ?thesis by (simp add: srv_typed_def)
qed

lemma one_method_polite: "polite_server (one_method echo_handler)"
  by (auto simp: polite_server_def findMethod_def one_method_def handler_chain_def echo_handler_def split: sum.split if_splits)

lemma echo_run_output:
  "\<exists>m. play (mux_outcomes (one_method echo_handler)) (newMultiplexer None) echo_run = Some m \<and> mx_out m \<noteq> []"
  by (simp add: echo_run_def echo_handler_def run_eval Let_def durationFromMs_def cancel_stream_def thresholds)

lemma demo_call: "\<exists>c. play client_outcomes NewClient [(CevUnary demo_ctx ''/s/m'' [7], 0)] = Some c
    \<and> call_frame 3 (Some [7]) \<in> set (cl_sent c)"
  by (simp add: client_eval demo_ctx_def mk_frame_def mk_call_def call_frame_def int32_id)

theorem client_frames_typed_witness:
  "\<exists>(c :: client) m. mux_run (one_method echo_handler) (newMultiplexer None) (map fst echo_run) m
     \<and> call_frame 3 (Some [7]) \<in> set (cl_sent c) \<and> list_all typed_frame (cl_sent c) \<and> mx_crashed m = None"
proof -
  obtain m where m: "play (mux_outcomes (one_method echo_handler)) (newMultiplexer None) echo_run = Some m"
    using echo_run_output by blast
  obtain c where c: "play client_outcomes NewClient [(CevUnary demo_ctx ''/s/m'' [7], 0)] = Some c"
    "call_frame 3 (Some [7]) \<in> set (cl_sent c)" using demo_call by blast
  have r: "mux_run (one_method echo_handler) (newMultiplexer None) (map fst echo_run) m" by (rule play_runs [OF m])
  have "list_all typed_frame (cl_sent c) \<and> mx_crashed m = None"
    using client_frames_typed [OF play_runs [OF c(1)] _ r _ one_method_polite] c(2)
    by (auto simp: small_def echo_run_def)
  with r c(2) show ?thesis by blast
qed

text \<open>
  C36: Well-typed servers do not go wrong either. In every run of a server that reads well-typed frames and whose handlers
  send no payload of 2 GiB or more, every response frame is well typed, and no client in any state panics on it.
\<close>

theorem server_frames_typed:
  assumes "mux_run s (newMultiplexer ctx) evs m" and "\<forall>f. EvFrame f \<in> set evs \<longrightarrow> typed_frame f" and "polite_server s"
    and "f \<in> set (mx_out m)" and "c' \<in> set (dispatch c f)"
  shows "typed_response f \<and> cl_crashed c' = cl_crashed c"
proof -
  have "srv_typed m"
  proof (rule runs_invariant [OF assms(1)])
    show "srv_typed (newMultiplexer ctx)"
      by (simp add: srv_typed_def newMultiplexer_def reasm_small_def NewReassembler_def)
    fix m1 m2 ev
    assume "srv_typed m1" "ev \<in> set evs" "m2 \<in> set (mux_outcomes s m1 ev)"
    then show "srv_typed m2"
      using mux_step_typed [of m2 s m1 ev] assms(2,3) by (cases ev) auto
  qed
  then have "typed_response f" using assms(4) by (simp add: srv_typed_def list_all_iff)
  with dispatch_typed [OF this assms(5)] show ?thesis by blast
qed

text \<open>The client that made the call takes the first frame of the server's answer.\<close>

lemma echo_answer_taken:
  "\<exists>c c' m. play client_outcomes NewClient [(CevUnary demo_ctx ''/s/m'' [7], 0)] = Some c
    \<and> play (mux_outcomes (one_method echo_handler)) (newMultiplexer None) echo_run = Some m
    \<and> mx_out m \<noteq> [] \<and> c' \<in> set (dispatch c (hd (mx_out m)))
    \<and> cl_streams c 3 = Some 0"
  by (simp add: echo_run_def echo_handler_def run_eval Let_def durationFromMs_def cancel_stream_def thresholds
      client_eval demo_ctx_def mk_frame_def mk_call_def call_frame_def int32_id dispatch_def begin_frame_def resp_frame_def)

theorem server_frames_typed_witness:
  "\<exists>c c' m f. play client_outcomes NewClient [(CevUnary demo_ctx ''/s/m'' [7], 0)] = Some c \<and> cl_streams c 3 = Some 0
     \<and> mux_run (one_method echo_handler) (newMultiplexer None) (map fst echo_run) m \<and> f \<in> set (mx_out m)
     \<and> c' \<in> set (dispatch c f) \<and> typed_response f \<and> cl_crashed c' = cl_crashed c"
proof -
  obtain c c' m where m: "play client_outcomes NewClient [(CevUnary demo_ctx ''/s/m'' [7], 0)] = Some c"
    "play (mux_outcomes (one_method echo_handler)) (newMultiplexer None) echo_run = Some m" "mx_out m \<noteq> []"
    "c' \<in> set (dispatch c (hd (mx_out m)))" "cl_streams c 3 = Some 0"
    using echo_answer_taken by blast
  have r: "mux_run (one_method echo_handler) (newMultiplexer None) (map fst echo_run) m" by (rule play_runs [OF m(2)])
  have f: "hd (mx_out m) \<in> set (mx_out m)" using m(3) by simp
  have "\<forall>f. EvFrame f \<in> set (map fst echo_run) \<longrightarrow> typed_frame f"
    by (auto simp: echo_run_def call_frame_def typed_frame_def typed_seq_def typed_call_def thresholds)
  from server_frames_typed [OF r this one_method_polite f m(4)] m r f show ?thesis by blast
qed

end
