(* ===== verification/Command.thy ===== *)
theory Command
  imports Facade Bridge Relay
begin

text \<open>
  The subcommands of the \<open>peerrpc\<close> command (\<open>cmd/peerrpc\<close>): what \<open>bridge\<close> mounts, joins, serves and releases,
  how \<open>signal\<close> chooses its certificate, its validator and its routes, and when \<open>signal\<close> and \<open>relay\<close> end. Flags are
  parsed by cobra; the records of flags are what it leaves. Log lines are left out, but for the one that reports TLS.
\<close>

section \<open>The bridge command\<close>

record bridge_flags =
  bf_upstream :: string
  bf_signalAddr :: string
  bf_room :: string
  bf_peerID :: string
  bf_role :: string
  bf_services :: "string list"
  bf_streamServices :: "string list"

text \<open>The flags when only the two required ones are given.\<close>

definition bridge_defaults :: "string \<Rightarrow> string \<Rightarrow> bridge_flags" where
  "bridge_defaults upstream room = \<lparr>bf_upstream = upstream, bf_signalAddr = [], bf_room = room, bf_peerID = ''bridge'',
     bf_role = ''answerer'', bf_services = [], bf_streamServices = []\<rparr>"

text \<open>What the command uses besides the surroundings of a dialing facade: two signaling backends and HTTP.\<close>

record ('w, 'sess, 'ch) command_env = "('w, 'sess, 'ch) facade_env" +
  ce_ws :: "string \<Rightarrow> ('w, 'sess) exchange"
  ce_local :: "('w, 'sess) exchange"
  ce_newreq :: "string \<Rightarrow> go_error option"
  ce_json :: json_error
  ce_iter :: "metadata \<Rightarrow> kv_list"
  ce_send :: http_send

text \<open>The loop over one kind of specs; \<open>mount\<close> is its \<open>MountConnectService\<close> call.\<close>

fun mount_specs :: "(server \<Rightarrow> string \<Rightarrow> string list \<Rightarrow> server go) \<Rightarrow> server \<Rightarrow> string list \<Rightarrow> (go_error + server) go" where
  "mount_specs mount srv [] = Returns (Inr srv)"
| "mount_specs mount srv (spec # specs) =
     (case ParseServiceSpec spec of
        Inl err \<Rightarrow> Returns (Inl err)
      | Inr (name, methods) \<Rightarrow>
          (case mount srv name methods of
             Panics e \<Rightarrow> Panics e
           | Returns srv1 \<Rightarrow> mount_specs mount srv1 specs))"

definition bridge_mount ::
  "(metadata \<Rightarrow> kv_list) \<Rightarrow> invoker \<Rightarrow> stream_invoker \<Rightarrow> string list \<Rightarrow> string list \<Rightarrow> (go_error + server) go" where
  "bridge_mount iter invoke streamInvoke services streamServices =
     (case mount_specs (\<lambda>srv name methods. MountConnectService iter srv name methods invoke) (NewServer []) services of
        Panics e \<Rightarrow> Panics e
      | Returns (Inl err) \<Rightarrow> Returns (Inl err)
      | Returns (Inr srv) \<Rightarrow>
          mount_specs (\<lambda>srv name methods.
            MountConnectServiceWithStreaming iter srv name methods methods invoke streamInvoke) srv streamServices)"

text \<open>The two uses of the one \<open>HTTPClientInvoker\<close>. Reading a response stream always ends (\<open>stream_loop_terminates\<close>).\<close>

definition upstream_invoke :: "('w, 'sess, 'ch) command_env \<Rightarrow> string \<Rightarrow> invoker" where
  "upstream_invoke env base = Client_Invoke (ce_newreq env) (fe_fmt env) base (ce_send env)"

definition upstream_stream :: "('w, 'sess, 'ch) command_env \<Rightarrow> string \<Rightarrow> stream_invoker" where
  "upstream_stream env base procedure req hdr =
     the (Client_InvokeStream (ce_newreq env) (ce_json env) (fe_fmt env) base (ce_send env) procedure req hdr)"

text \<open>
  The rest of \<open>runBridge\<close>, with the deferred calls of each return. The error of \<open>Serve\<close> is not used, so serving
  ends the command with success.
\<close>

datatype 'ch bridge_outcome = BridgeFailed go_error | BridgeServed server 'ch

definition bridge_connect ::
  "('w, 'sess, 'ch) command_env \<Rightarrow> bridge_flags \<Rightarrow> server \<Rightarrow> 'w \<Rightarrow> 'w \<times> 'sess effect list \<times> 'ch bridge_outcome" where
  "bridge_connect env fl srv w =
     (case (if bf_signalAddr fl \<noteq> [] then ce_ws env (bf_signalAddr fl) else ce_local env) w (bf_room fl) (bf_peerID fl) of
        (w1, Inl err) \<Rightarrow> (w1, [], BridgeFailed err)
      | (w1, Inr s) \<Rightarrow>
          (let early = (\<lambda>err. (fe_closeSession env w1 s, [Opened (ResSession s), Closed (ResSession s)], BridgeFailed err))
           in case ParseRole (fe_quote env) (bf_role fl) of
                Inl err \<Rightarrow> early err
              | Inr r \<Rightarrow>
                  (case NewPeer (fe_newPeerConnection env) r
                      \<lparr>pc_ICEServers = None, pc_DataChannelLabel = [], pc_NegotiationTimeout = 0\<rparr> of
                     Inl err \<Rightarrow> early err
                   | Inr p \<Rightarrow>
                       (fe_closeSession env (fe_during env w1) s,
                        [Opened (ResSession s), Opened ResPeer, Closed ResPeer, Closed (ResSession s)],
                        case peer_result (if r = RoleClient then Dial_start (fe_pion env) p else Accept_start p)
                            (fe_negotiated env) of
                          Inl err \<Rightarrow> BridgeFailed err
                        | Inr ch \<Rightarrow> BridgeServed srv ch))))"

definition runBridge ::
  "('w, 'sess, 'ch) command_env \<Rightarrow> bridge_flags \<Rightarrow> 'w \<Rightarrow> ('w \<times> 'sess effect list \<times> 'ch bridge_outcome) go" where
  "runBridge env fl w =
     (case bridge_mount (ce_iter env) (upstream_invoke env (bf_upstream fl)) (upstream_stream env (bf_upstream fl))
         (bf_services fl) (bf_streamServices fl) of
        Panics e \<Rightarrow> Panics e
      | Returns (Inl err) \<Rightarrow> Returns (w, [], BridgeFailed err)
      | Returns (Inr srv) \<Rightarrow> Returns (bridge_connect env fl srv w))"

section \<open>What the bridge serves\<close>

text \<open>The methods a list of specs asks for, by path; a spec that does not parse asks for none.\<close>

definition spec_ok :: "string \<Rightarrow> bool" where
  "spec_ok spec \<longleftrightarrow> (\<exists>x. ParseServiceSpec spec = Inr x)"

definition spec_methods :: "(string \<Rightarrow> method_desc) \<Rightarrow> string \<Rightarrow> (string \<times> method_desc) list" where
  "spec_methods desc spec =
     (case ParseServiceSpec spec of
        Inl _ \<Rightarrow> []
      | Inr (name, methods) \<Rightarrow> map (\<lambda>m. (method_path name m, desc (method_path name m))) methods)"

definition unary_desc :: "('w, 'sess, 'ch) command_env \<Rightarrow> string \<Rightarrow> string \<Rightarrow> method_desc" where
  "unary_desc env base path = \<lparr>md_Method = path, md_Kind = MethodKindUnary,
     md_Handler = bridge_UnaryHandler (ce_iter env) (upstream_invoke env base) path\<rparr>"

definition stream_desc :: "('w, 'sess, 'ch) command_env \<Rightarrow> string \<Rightarrow> string \<Rightarrow> method_desc" where
  "stream_desc env base path = \<lparr>md_Method = path, md_Kind = MethodKindServerStreaming,
     md_Handler = ServerStreamingHandler (ce_iter env) (upstream_stream env base) path\<rparr>"

definition bridge_methods :: "('w, 'sess, 'ch) command_env \<Rightarrow> bridge_flags \<Rightarrow> (string \<times> method_desc) list" where
  "bridge_methods env fl =
     concat (map (spec_methods (unary_desc env (bf_upstream fl))) (bf_services fl))
     @ concat (map (spec_methods (stream_desc env (bf_upstream fl))) (bf_streamServices fl))"

definition extend_server :: "server \<Rightarrow> (string \<times> method_desc) list \<Rightarrow> server" where
  "extend_server srv ms = srv\<lparr>sv_methods := sv_methods srv ++ map_of ms\<rparr>"

definition can_extend :: "server \<Rightarrow> (string \<times> method_desc) list \<Rightarrow> bool" where
  "can_extend srv ms \<longleftrightarrow> distinct (map fst ms) \<and> (\<forall>p \<in> set (map fst ms). sv_methods srv p = None)"

text \<open>A mount function registers the described methods of one service, or panics.\<close>

definition mounts :: "(server \<Rightarrow> string \<Rightarrow> string list \<Rightarrow> server go) \<Rightarrow> (string \<Rightarrow> method_desc) \<Rightarrow> bool" where
  "mounts mount desc \<longleftrightarrow> (\<forall>srv name ms srv'.
     (mount srv name ms = Returns srv') \<longleftrightarrow>
     can_extend srv (map (\<lambda>m. (method_path name m, desc (method_path name m))) ms)
       \<and> srv' = extend_server srv (map (\<lambda>m. (method_path name m, desc (method_path name m))) ms))"

lemma RegisterService_mounts:
  assumes "\<And>m. (f m)\<lparr>md_Method := method_path name m\<rparr> = desc (method_path name m)" and "\<And>m. md_Method (f m) = m"
  shows "RegisterService srv \<lparr>sd_ServiceName = name, sd_Methods = map f ms\<rparr> = Returns srv' \<longleftrightarrow>
    can_extend srv (map (\<lambda>m. (method_path name m, desc (method_path name m))) ms)
      \<and> srv' = extend_server srv (map (\<lambda>m. (method_path name m, desc (method_path name m))) ms)"
proof -
  have e: "(md_Method (f m), (f m)\<lparr>md_Method := method_path name (md_Method (f m))\<rparr>) = (m, desc (method_path name m))" for m
    using assms by simp
  show ?thesis
    by (auto simp: RegisterService_def register_loop_iff can_extend_def extend_server_def comp_def assms)
qed

lemma unary_mounts:
  "mounts (\<lambda>srv name ms. MountConnectService (ce_iter env) srv name ms (upstream_invoke env base)) (unary_desc env base)"
  unfolding mounts_def MountConnectService_def
  by (intro allI RegisterService_mounts) (simp_all add: unary_desc_def)

lemma stream_mounts:
  "mounts (\<lambda>srv name ms. MountConnectServiceWithStreaming (ce_iter env) srv name ms ms (upstream_invoke env base)
     (upstream_stream env base)) (stream_desc env base)"
proof -
  have *: "map (\<lambda>m. if m \<in> set ms then f m else g m) ms = map f ms" for f g :: "string \<Rightarrow> method_desc" and ms
    by simp
  show ?thesis
    unfolding mounts_def MountConnectServiceWithStreaming_def *
    by (intro allI RegisterService_mounts) (simp_all add: stream_desc_def)
qed

lemma can_extend_append:
  "can_extend srv (xs @ ys) \<longleftrightarrow> can_extend srv xs \<and> can_extend (extend_server srv xs) ys"
proof -
  have d: "distinct (map fst xs @ map fst ys) \<longleftrightarrow>
      distinct (map fst xs) \<and> distinct (map fst ys) \<and> (\<forall>p \<in> set (map fst ys). p \<notin> set (map fst xs))"
    by (simp only: distinct_append disjoint_iff) blast
  have n: "sv_methods (extend_server srv xs) p = None \<longleftrightarrow> p \<notin> set (map fst xs) \<and> sv_methods srv p = None" for p
    by (simp add: extend_server_def map_of_eq_None_iff)
  show ?thesis unfolding can_extend_def d n map_append set_append ball_Un by blast
qed

lemma extend_server_append:
  assumes "can_extend srv (xs @ ys)"
  shows "extend_server (extend_server srv xs) ys = extend_server srv (xs @ ys)"
proof -
  have "dom (map_of xs) \<inter> dom (map_of ys) = {}"
    using assms by (auto simp: can_extend_def dom_map_of_conv_image_fst)
  then have "map_of xs ++ map_of ys = map_of ys ++ map_of xs" by (rule map_add_comm)
  then show ?thesis by (simp add: extend_server_def flip: map_add_assoc)
qed

lemma mount_specs_Returns:
  assumes "mounts mount desc"
  shows "mount_specs mount srv specs = Returns (Inr srv') \<longleftrightarrow>
    list_all spec_ok specs \<and> can_extend srv (concat (map (spec_methods desc) specs))
      \<and> srv' = extend_server srv (concat (map (spec_methods desc) specs))"
proof (induction specs arbitrary: srv)
  case Nil
  then show ?case by (auto simp: can_extend_def extend_server_def)
next
  case (Cons spec specs)
  show ?case
  proof (cases "ParseServiceSpec spec")
    case (Inl e)
    then show ?thesis by (simp add: spec_ok_def)
  next
    case (Inr x)
    obtain name ms where x: "x = (name, ms)" by (cases x)
    let ?e = "map (\<lambda>m. (method_path name m, desc (method_path name m))) ms"
    have e: "spec_methods desc spec = ?e" "spec_ok spec" using Inr x by (simp_all add: spec_methods_def spec_ok_def)
    have m: "mount srv name ms = Returns s1 \<longleftrightarrow> can_extend srv ?e \<and> s1 = extend_server srv ?e" for s1
      using assms unfolding mounts_def by blast
    show ?thesis
    proof (cases "mount srv name ms")
      case (Returns s1)
      then have "can_extend srv ?e" "s1 = extend_server srv ?e" using m [of s1] by simp_all
      then show ?thesis
        using Inr x e Returns Cons.IH [of s1] by (auto simp: can_extend_append extend_server_append)
    next
      case (Panics e)
      with m have "\<not> can_extend srv ?e" by auto
      then show ?thesis using Inr x e(1) Panics by (simp add: can_extend_append)
    qed
  qed
qed

text \<open>Specs are mounted until one does not parse, and mounting panics exactly when two methods until then clash.\<close>

lemma mount_specs_Panics:
  assumes "mounts mount desc"
  shows "(\<exists>e. mount_specs mount srv specs = Panics e) \<longleftrightarrow>
    \<not> can_extend srv (concat (map (spec_methods desc) (takeWhile spec_ok specs)))"
proof (induction specs arbitrary: srv)
  case Nil
  then show ?case by (simp add: can_extend_def)
next
  case (Cons spec specs)
  show ?case
  proof (cases "ParseServiceSpec spec")
    case (Inl e)
    then show ?thesis by (simp add: spec_ok_def can_extend_def)
  next
    case (Inr x)
    obtain name ms where x: "x = (name, ms)" by (cases x)
    let ?e = "map (\<lambda>m. (method_path name m, desc (method_path name m))) ms"
    have e: "spec_methods desc spec = ?e" "spec_ok spec" using Inr x by (simp_all add: spec_methods_def spec_ok_def)
    have m: "mount srv name ms = Returns s1 \<longleftrightarrow> can_extend srv ?e \<and> s1 = extend_server srv ?e" for s1
      using assms unfolding mounts_def by blast
    show ?thesis
    proof (cases "mount srv name ms")
      case (Returns s1)
      then have "can_extend srv ?e" "s1 = extend_server srv ?e" using m [of s1] by simp_all
      then show ?thesis
        using Inr x e Returns Cons.IH [of s1] by (simp add: can_extend_append)
    next
      case (Panics e)
      with m have "\<not> can_extend srv ?e" by auto
      then show ?thesis using Inr x e Panics by (simp add: can_extend_append)
    qed
  qed
qed

text \<open>A failure is that of a spec that does not parse.\<close>

lemma mount_specs_failed:
  "mount_specs mount srv specs = Returns (Inl err) \<Longrightarrow>
     err = ErrNew ''expected Name:Method1,Method2'' \<and> \<not> list_all spec_ok specs"
  by (induction specs arbitrary: srv)
    (auto simp: spec_ok_def ParseServiceSpec_def split: sum.splits go.splits prod.splits if_splits)

lemma bridge_mount_Returns:
  "bridge_mount (ce_iter env) (upstream_invoke env (bf_upstream fl)) (upstream_stream env (bf_upstream fl))
      (bf_services fl) (bf_streamServices fl) = Returns (Inr srv) \<longleftrightarrow>
    list_all spec_ok (bf_services fl @ bf_streamServices fl) \<and> distinct (map fst (bridge_methods env fl))
      \<and> srv = extend_server (NewServer []) (bridge_methods env fl)"
  (is "?m = _ \<longleftrightarrow> _")
proof -
  let ?u = "concat (map (spec_methods (unary_desc env (bf_upstream fl))) (bf_services fl))"
  let ?s = "concat (map (spec_methods (stream_desc env (bf_upstream fl))) (bf_streamServices fl))"
  have new: "can_extend (NewServer []) (?u @ ?s) \<longleftrightarrow> distinct (map fst (?u @ ?s))"
    by (simp add: can_extend_def NewServer_def)
  have mounted: "?m = Returns (Inr srv) \<longleftrightarrow> (\<exists>s1.
      mount_specs (\<lambda>srv name methods. MountConnectService (ce_iter env) srv name methods (upstream_invoke env (bf_upstream fl)))
        (NewServer []) (bf_services fl) = Returns (Inr s1)
      \<and> mount_specs (\<lambda>srv name methods. MountConnectServiceWithStreaming (ce_iter env) srv name methods methods
          (upstream_invoke env (bf_upstream fl)) (upstream_stream env (bf_upstream fl))) s1 (bf_streamServices fl) =
        Returns (Inr srv))"
    by (auto simp: bridge_mount_def split: go.splits sum.splits)
  have "?m = Returns (Inr srv) \<longleftrightarrow> list_all spec_ok (bf_services fl) \<and> can_extend (NewServer []) ?u
      \<and> list_all spec_ok (bf_streamServices fl) \<and> can_extend (extend_server (NewServer []) ?u) ?s
      \<and> srv = extend_server (extend_server (NewServer []) ?u) ?s"
    unfolding mounted mount_specs_Returns [OF unary_mounts] mount_specs_Returns [OF stream_mounts] by blast
  then show ?thesis
    using extend_server_append [of "NewServer []" ?u ?s] new
    by (auto simp: bridge_methods_def can_extend_append)
qed

text \<open>The methods mounted before the first spec that does not parse: all of them if every spec does.\<close>

definition reached_methods :: "('w, 'sess, 'ch) command_env \<Rightarrow> bridge_flags \<Rightarrow> (string \<times> method_desc) list" where
  "reached_methods env fl =
     concat (map (spec_methods (unary_desc env (bf_upstream fl))) (takeWhile spec_ok (bf_services fl)))
     @ (if list_all spec_ok (bf_services fl)
        then concat (map (spec_methods (stream_desc env (bf_upstream fl))) (takeWhile spec_ok (bf_streamServices fl)))
        else [])"

lemma takeWhile_all: "list_all P xs \<Longrightarrow> takeWhile P xs = xs"
  by (induction xs) simp_all

lemma reached_all: "list_all spec_ok (bf_services fl @ bf_streamServices fl) \<Longrightarrow> reached_methods env fl = bridge_methods env fl"
  by (simp add: reached_methods_def bridge_methods_def takeWhile_all)

lemma bridge_mount_Panics:
  "(\<exists>e. bridge_mount (ce_iter env) (upstream_invoke env (bf_upstream fl)) (upstream_stream env (bf_upstream fl))
      (bf_services fl) (bf_streamServices fl) = Panics e) \<longleftrightarrow> \<not> distinct (map fst (reached_methods env fl))"
  (is "?p \<longleftrightarrow> _")
proof -
  let ?M = "mount_specs (\<lambda>srv name methods. MountConnectService (ce_iter env) srv name methods (upstream_invoke env (bf_upstream fl)))
        (NewServer []) (bf_services fl)"
  let ?N = "\<lambda>s1. mount_specs (\<lambda>srv name methods. MountConnectServiceWithStreaming (ce_iter env) srv name methods methods
          (upstream_invoke env (bf_upstream fl)) (upstream_stream env (bf_upstream fl))) s1 (bf_streamServices fl)"
  let ?u = "concat (map (spec_methods (unary_desc env (bf_upstream fl))) (takeWhile spec_ok (bf_services fl)))"
  let ?s = "concat (map (spec_methods (stream_desc env (bf_upstream fl))) (takeWhile spec_ok (bf_streamServices fl)))"
  have new: "can_extend (NewServer []) xs \<longleftrightarrow> distinct (map fst xs)" for xs
    by (simp add: can_extend_def NewServer_def)
  have split: "?p \<longleftrightarrow> (\<exists>e. ?M = Panics e) \<or> (\<exists>s1. ?M = Returns (Inr s1) \<and> (\<exists>e. ?N s1 = Panics e))"
    by (auto simp: bridge_mount_def split: go.splits sum.splits)
  show ?thesis
  proof (cases "list_all spec_ok (bf_services fl)")
    case True
    then have "reached_methods env fl = ?u @ ?s" "takeWhile spec_ok (bf_services fl) = bf_services fl"
      by (simp_all add: reached_methods_def takeWhile_all)
    then show ?thesis
      unfolding split mount_specs_Panics [OF unary_mounts] mount_specs_Panics [OF stream_mounts]
        mount_specs_Returns [OF unary_mounts]
      using True new [of "?u @ ?s", symmetric] by (simp only: can_extend_append) blast
  next
    case False
    then have "reached_methods env fl = ?u" by (simp add: reached_methods_def)
    then show ?thesis
      unfolding split mount_specs_Panics [OF unary_mounts] mount_specs_Returns [OF unary_mounts]
      using False new [of ?u, symmetric] by (simp only: simp_thms)
  qed
qed

lemma bridge_mount_failed:
  "bridge_mount iter invoke sinvoke services streams = Returns (Inl err) \<Longrightarrow>
     err = ErrNew ''expected Name:Method1,Method2'' \<and> \<not> list_all spec_ok (services @ streams)"
  using mount_specs_failed by (auto simp: bridge_mount_def split: go.splits sum.splits)

text \<open>The room is joined first; every other outcome comes after it and closes what has been opened.\<close>

definition joins_room :: "('w, 'sess, 'ch) command_env \<Rightarrow> bridge_flags \<Rightarrow> 'w \<Rightarrow> 'w \<times> (go_error + 'sess)" where
  "joins_room env fl w =
     (if bf_signalAddr fl \<noteq> [] then ce_ws env (bf_signalAddr fl) else ce_local env) w (bf_room fl) (bf_peerID fl)"

definition after_joining ::
  "('w, 'sess, 'ch) command_env \<Rightarrow> bridge_flags \<Rightarrow> 'w \<Rightarrow> 'sess \<Rightarrow> 'w \<times> 'sess effect list \<times> 'ch bridge_outcome \<Rightarrow> bool" where
  "after_joining env fl w1 s res \<longleftrightarrow> (case res of (w', es, out) \<Rightarrow>
     hd es = Opened (ResSession s) \<and> last es = Closed (ResSession s) \<and> open_after es = {}
     \<and> (bf_role fl \<notin> {''offerer'', ''answerer''} \<longrightarrow>
          w' = fe_closeSession env w1 s \<and> es = [Opened (ResSession s), Closed (ResSession s)]
          \<and> (\<exists>err. ParseRole (fe_quote env) (bf_role fl) = Inl err \<and> out = BridgeFailed err))
     \<and> (Opened ResPeer \<in> set es \<longrightarrow> w' = fe_closeSession env (fe_during env w1) s))"

lemma bridge_connect_joins:
  "case joins_room env fl w of
     (w1, Inl err) \<Rightarrow> bridge_connect env fl srv w = (w1, [], BridgeFailed err)
   | (w1, Inr s) \<Rightarrow> after_joining env fl w1 s (bridge_connect env fl srv w)
       \<and> (\<forall>srv' ch. snd (snd (bridge_connect env fl srv w)) = BridgeServed srv' ch \<longrightarrow> srv' = srv)"
  by (auto simp: joins_room_def after_joining_def bridge_connect_def Let_def open_after_def ParseRole_def
      split: prod.splits sum.splits if_splits)

text \<open>
  C37: What the bridge command does with its flags. It mounts the specs in order and panics exactly when two methods
  clash before the first spec that does not parse. Otherwise such a spec ends it with the parser's error, before it
  joins the signaling room. If all specs parse, it joins the room; if that fails, it ends with that error and has
  opened nothing. Once it has joined, everything it opens, the session first, is closed again, the session last,
  however it ends. Only then is the role looked at: with a bad one it closes the session and ends with the error
  of \<open>ParseRole\<close>. When it serves, the server has exactly the methods of the specs, unary ones for
  \<open>--service\<close> and streaming ones for \<open>--stream-service\<close>, each forwarding to the upstream URL.
\<close>

theorem bridge_command:
  "((\<exists>e. runBridge env fl w = Panics e) \<longleftrightarrow> \<not> distinct (map fst (reached_methods env fl)))
   \<and> (distinct (map fst (reached_methods env fl)) \<longrightarrow>
       (if list_all spec_ok (bf_services fl @ bf_streamServices fl)
        then case joins_room env fl w of
               (w1, Inl err) \<Rightarrow> runBridge env fl w = Returns (w1, [], BridgeFailed err)
             | (w1, Inr s) \<Rightarrow> \<exists>res. runBridge env fl w = Returns res \<and> after_joining env fl w1 s res
                 \<and> (\<forall>srv ch. snd (snd res) = BridgeServed srv ch \<longrightarrow>
                      findMethod srv = map_of (bridge_methods env fl))
        else runBridge env fl w = Returns (w, [], BridgeFailed (ErrNew ''expected Name:Method1,Method2''))))"
proof -
  let ?m = "bridge_mount (ce_iter env) (upstream_invoke env (bf_upstream fl)) (upstream_stream env (bf_upstream fl))
      (bf_services fl) (bf_streamServices fl)"
  have panics: "(\<exists>e. runBridge env fl w = Panics e) \<longleftrightarrow> \<not> distinct (map fst (reached_methods env fl))"
    unfolding bridge_mount_Panics [symmetric] by (auto simp: runBridge_def split: go.splits sum.splits)
  consider e where "?m = Panics e" | err where "?m = Returns (Inl err)" | srv where "?m = Returns (Inr srv)"
    by (metis go.exhaust sum.exhaust)
  then show ?thesis
  proof cases
    case 1
    then have "runBridge env fl w = Panics e" by (simp add: runBridge_def)
    then show ?thesis using panics by blast
  next
    case 2
    then have "runBridge env fl w = Returns (w, [], BridgeFailed (ErrNew ''expected Name:Method1,Method2''))"
      "\<not> list_all spec_ok (bf_services fl @ bf_streamServices fl)"
      using bridge_mount_failed [OF 2] by (simp_all add: runBridge_def)
    moreover from this have "distinct (map fst (reached_methods env fl))" using panics by auto
    ultimately show ?thesis by (simp only: if_False simp_thms go.distinct)
  next
    case 3
    note ok = bridge_mount_Returns [THEN iffD1, OF 3]
    have "findMethod srv = map_of (bridge_methods env fl)"
      using ok by (simp add: findMethod_def [abs_def] extend_server_def NewServer_def)
    moreover have "runBridge env fl w = Returns (bridge_connect env fl srv w)" using 3 by (simp add: runBridge_def)
    ultimately show ?thesis
      using panics ok bridge_connect_joins [where env = env and fl = fl and w = w and srv = srv] by (auto split: prod.splits sum.splits)
  qed
qed

definition demo_command :: "(nat, string, unit) command_env" where
  "demo_command = \<lparr>fe_quote = id, fe_fmt = (\<lambda>_. []), fe_registry = Map.empty, fe_closeSession = (\<lambda>w s. w - 1),
     fe_newPeerConnection = (\<lambda>_. None), fe_pion = demo_pion, fe_negotiated = Inr (), fe_during = id,
     ce_ws = (\<lambda>_ w room pid. (w, Inl EOF)), ce_local = (\<lambda>w room pid. (w + 1, Inr pid)), ce_newreq = (\<lambda>_. None),
     ce_json = (\<lambda>_. None), ce_iter = (\<lambda>_. []), ce_send = (\<lambda>_. Inl EOF)\<rparr>"

definition demo_bridge :: bridge_flags where
  "demo_bridge = (bridge_defaults ''http://up'' ''r'')\<lparr>bf_services := [''A:m''], bf_streamServices := [''B:n, k'']\<rparr>"

text \<open>Valid flags serve; with a bad role the room is joined and left again.\<close>

theorem bridge_command_witness:
  "\<exists>srv err. runBridge demo_command demo_bridge 0 =
      Returns (0, [Opened (ResSession ''bridge''), Opened ResPeer, Closed ResPeer, Closed (ResSession ''bridge'')],
        BridgeServed srv ())
    \<and> findMethod srv ''/B/k'' = Some (stream_desc demo_command ''http://up'' ''/B/k'')
    \<and> runBridge demo_command (demo_bridge\<lparr>bf_role := ''both''\<rparr>) 0 =
      Returns (0, [Opened (ResSession ''bridge''), Closed (ResSession ''bridge'')], BridgeFailed err)"
proof -
  let ?bad = "demo_bridge\<lparr>bf_role := ''both''\<rparr>"
  have "ParseServiceSpec ''A:m'' = Inr (''A'', [''m''])" "ParseServiceSpec ''B:n, k'' = Inr (''B'', [''n'', ''k''])"
    by (simp_all add: ParseServiceSpec_def str_Cut_def str_Split.simps TrimSpace_def is_space_def)
  then have e: "list_all spec_ok (bf_services demo_bridge @ bf_streamServices demo_bridge)"
    "bridge_methods demo_command demo_bridge = [(''/A/m'', unary_desc demo_command ''http://up'' ''/A/m''),
       (''/B/n'', stream_desc demo_command ''http://up'' ''/B/n''), (''/B/k'', stream_desc demo_command ''http://up'' ''/B/k'')]"
    by (simp_all add: spec_ok_def bridge_methods_def spec_methods_def demo_bridge_def bridge_defaults_def method_path_def)
  have bad: "reached_methods demo_command ?bad = reached_methods demo_command demo_bridge"
    "list_all spec_ok (bf_services ?bad @ bf_streamServices ?bad)"
    using e(1) by (simp_all add: reached_methods_def)
  have d: "distinct (map fst (reached_methods demo_command demo_bridge))" using reached_all [OF e(1), of demo_command] e(2) by simp
  have j: "joins_room demo_command demo_bridge 0 = (1, Inr ''bridge'')" "joins_room demo_command ?bad 0 = (1, Inr ''bridge'')"
    "fe_closeSession demo_command 1 ''bridge'' = 0" "bf_role ?bad \<notin> {''offerer'', ''answerer''}"
    by (simp_all add: joins_room_def demo_command_def demo_bridge_def bridge_defaults_def)
  let ?srv = "extend_server (NewServer []) (bridge_methods demo_command demo_bridge)"
  note m = bridge_mount_Returns [where fl = demo_bridge and env = demo_command and srv = ?srv, THEN iffD2]
  have served: "runBridge demo_command demo_bridge 0 =
      Returns (0, [Opened (ResSession ''bridge''), Opened ResPeer, Closed ResPeer, Closed (ResSession ''bridge'')],
        BridgeServed ?srv ())"
    using m e by (simp add: runBridge_def bridge_connect_def demo_command_def demo_bridge_def bridge_defaults_def ParseRole_def
        NewPeer_def peer_result_def Accept_start_def RoleServer_def RoleClient_def Let_def)
  obtain res where "runBridge demo_command demo_bridge 0 = Returns res"
    "\<forall>srv ch. snd (snd res) = BridgeServed srv ch \<longrightarrow> findMethod srv = map_of (bridge_methods demo_command demo_bridge)"
    using conjunct2 [OF bridge_command [where env = demo_command and fl = demo_bridge and w = 0]] d e(1) j(1) by auto
  with served have "findMethod ?srv = map_of (bridge_methods demo_command demo_bridge)" by simp
  moreover obtain res' where "runBridge demo_command ?bad 0 = Returns res'" "after_joining demo_command ?bad 1 ''bridge'' res'"
    using conjunct2 [OF bridge_command [where env = demo_command and fl = ?bad and w = 0]] d bad j(2) by auto
  ultimately show ?thesis
    using served j(3,4) by (cases res') (auto simp: e(2) after_joining_def)
qed

section \<open>Certificates for the signal command\<close>

text \<open>
  \<open>generateSelfSignedCert\<close> over the libraries it calls: temporary directories, ECDSA, X.509 and files. Times are
  seconds.
\<close>

record cert_template =
  ct_SerialNumber :: nat
  ct_CommonName :: string
  ct_NotBefore :: int
  ct_NotAfter :: int
  ct_KeyUsage :: "string list"
  ct_ExtKeyUsage :: "string list"
  ct_IPAddresses :: "string list"
  ct_DNSNames :: "string list"

record 'k tls_lib =
  tl_MkdirTemp :: "string \<Rightarrow> go_error + string"
  tl_Join :: "string \<Rightarrow> string \<Rightarrow> string"
  tl_GenerateKey :: "go_error + 'k"
  tl_serial :: nat
  tl_CreateCertificate :: "cert_template \<Rightarrow> 'k \<Rightarrow> go_error + bytes"
  tl_MarshalECPrivateKey :: "'k \<Rightarrow> go_error + bytes"
  tl_pem :: "string \<Rightarrow> bytes \<Rightarrow> bytes"
  tl_WriteFile :: "string \<Rightarrow> go_error option"

datatype file_write = FileWrite string bytes nat

definition self_signed_template :: "nat \<Rightarrow> int \<Rightarrow> cert_template" where
  "self_signed_template serial now = \<lparr>ct_SerialNumber = serial, ct_CommonName = ''localhost'', ct_NotBefore = now - 60,
     ct_NotAfter = now + 24 * 3600, ct_KeyUsage = [''DigitalSignature'', ''KeyEncipherment''],
     ct_ExtKeyUsage = [''ServerAuth''], ct_IPAddresses = [''127.0.0.1'', ''::1''], ct_DNSNames = [''localhost'']\<rparr>"

definition generateSelfSignedCert :: "'k tls_lib \<Rightarrow> int \<Rightarrow> file_write list \<times> (go_error + string \<times> string)" where
  "generateSelfSignedCert lib now =
     (case tl_MkdirTemp lib ''peerrpc-tls-'' of
        Inl err \<Rightarrow> ([], Inl err)
      | Inr tmp \<Rightarrow>
          (let certPath = tl_Join lib tmp ''cert.pem'';
               keyPath = tl_Join lib tmp ''key.pem''
           in case tl_GenerateKey lib of
                Inl err \<Rightarrow> ([], Inl err)
              | Inr key \<Rightarrow>
                  (case tl_CreateCertificate lib (self_signed_template (tl_serial lib) now) key of
                     Inl err \<Rightarrow> ([], Inl err)
                   | Inr certDER \<Rightarrow>
                       (case tl_WriteFile lib certPath of
                          Some err \<Rightarrow> ([], Inl err)
                        | None \<Rightarrow>
                            (let cert = FileWrite certPath (tl_pem lib ''CERTIFICATE'' certDER) 0x1A4
                             in case tl_MarshalECPrivateKey lib key of
                                  Inl err \<Rightarrow> ([cert], Inl err)
                                | Inr keyDER \<Rightarrow>
                                    (case tl_WriteFile lib keyPath of
                                       Some err \<Rightarrow> ([cert], Inl err)
                                     | None \<Rightarrow> ([cert, FileWrite keyPath (tl_pem lib ''EC PRIVATE KEY'' keyDER) 0x180],
                                                Inr (certPath, keyPath))))))))"

text \<open>The returned paths name a certificate and the key it was made with; only the owner may read the key.\<close>

lemma self_signed_pair:
  assumes "generateSelfSignedCert lib now = (ws, Inr (cert, key))"
  shows "\<exists>k certDER keyDER. tl_CreateCertificate lib (self_signed_template (tl_serial lib) now) k = Inr certDER
    \<and> tl_MarshalECPrivateKey lib k = Inr keyDER
    \<and> ws = [FileWrite cert (tl_pem lib ''CERTIFICATE'' certDER) (6 * 64 + 4 * 8 + 4),
           FileWrite key (tl_pem lib ''EC PRIVATE KEY'' keyDER) (6 * 64)]"
  using assms by (auto simp: generateSelfSignedCert_def Let_def split: sum.splits option.splits)

section \<open>The signal command\<close>

record signal_flags =
  sf_addr :: string
  sf_authStatic :: string
  sf_jwtSecret :: string
  sf_tlsCert :: string
  sf_tlsKey :: string
  sf_autoTLS :: bool

definition signal_defaults :: signal_flags where
  "signal_defaults = \<lparr>sf_addr = '':8080'', sf_authStatic = [], sf_jwtSecret = [], sf_tlsCert = [], sf_tlsKey = [],
     sf_autoTLS = False\<rparr>"

definition auto_tls :: "go_error + string \<times> string \<Rightarrow> signal_flags \<Rightarrow> go_error + signal_flags" where
  "auto_tls generated fl =
     (if sf_autoTLS fl \<and> (sf_tlsCert fl = [] \<or> sf_tlsKey fl = [])
      then case generated of
             Inl err \<Rightarrow> Inl err
           | Inr (cert, key) \<Rightarrow> Inr (fl\<lparr>sf_tlsCert := cert, sf_tlsKey := key\<rparr>)
      else Inr fl)"

datatype listen_mode = ListenAndServe | ListenAndServeTLS string string

text \<open>The configuration \<open>runSignal\<close> ends up with; \<open>sg_logsTLS\<close> is what its log line says about TLS.\<close>

record signal_server =
  sg_listen :: listen_mode
  sg_addr :: string
  sg_validator :: "validator option"
  sg_logsTLS :: bool

definition signal_setup ::
  "(string \<Rightarrow> string) \<Rightarrow> (bytes \<Rightarrow> validator) \<Rightarrow> go_error + string \<times> string \<Rightarrow> signal_flags \<Rightarrow> go_error + signal_server" where
  "signal_setup quote adapter generated fl0 =
     (case auto_tls generated fl0 of
        Inl err \<Rightarrow> Inl err
      | Inr fl \<Rightarrow>
          (case signal_validator quote adapter (sf_jwtSecret fl) (sf_authStatic fl) of
             Inl err \<Rightarrow> Inl err
           | Inr validate \<Rightarrow> Inr
               \<lparr>sg_listen = (if sf_tlsCert fl \<noteq> [] \<and> sf_tlsKey fl \<noteq> [] then ListenAndServeTLS (sf_tlsCert fl) (sf_tlsKey fl)
                            else ListenAndServe),
                sg_addr = sf_addr fl, sg_validator = validate, sg_logsTLS = sf_tlsCert fl \<noteq> []\<rparr>))"

text \<open>Its routes. Only \<open>/ws\<close> has a gate; a status is all that \<open>/stats\<close> answers.\<close>

datatype signal_route = RouteWS "validator option" | RouteText int string | RouteMetrics | RouteNotFound

definition signal_route_of :: "signal_server \<Rightarrow> string \<Rightarrow> signal_route" where
  "signal_route_of sv path =
     (if path = ''/ws'' then RouteWS (sg_validator sv)
      else if path = ''/healthz'' then RouteText 200 ''ok''
      else if path = ''/stats'' then RouteText 200 []
      else if path = ''/metrics'' then RouteMetrics
      else RouteNotFound)"

text \<open>
  \<open>WebSocketHandler\<close> behind \<open>/ws\<close>: the gate, the upgrade, and \<open>serveWebSocket\<close> on a new connection. The identity the
  gate has found is dropped: it limits neither the service nor the peer id a client may announce.
\<close>

datatype ws_admission = WsRefused gate | WsUpgradeFailed go_error | WsServing ws_conn

definition WebSocketHandler ::
  "(string \<Rightarrow> string) \<Rightarrow> validator option \<Rightarrow> (http_request \<Rightarrow> go_error option) \<Rightarrow> http_request \<Rightarrow> ws_admission" where
  "WebSocketHandler quote validate upgrade r =
     (case AuthorizeRequest quote r validate of
        Refused code conn text \<Rightarrow> WsRefused (Refused code conn text)
      | Authorized _ \<Rightarrow> (case upgrade r of Some err \<Rightarrow> WsUpgradeFailed err | None \<Rightarrow> WsServing new_conn))"

lemma WebSocketHandler_serves:
  "WebSocketHandler quote validate upgrade r = WsServing c \<longleftrightarrow>
     (\<exists>i. AuthorizeRequest quote r validate = Authorized i) \<and> upgrade r = None \<and> c = new_conn"
  by (auto simp: WebSocketHandler_def split: gate.splits option.splits)

text \<open>
  The process: the listening goroutine exits the process on an error other than \<open>ErrServerClosed\<close>; the main one
  waits for a signal, then shuts down.
\<close>

datatype signal_proc = SgServing | SgShutdown | SgReturned "go_error option" | SgExited int
datatype signal_event = SgListenError go_error | SgInterrupt | SgShutdownDone "go_error option"

definition ErrServerClosed :: go_error where
  "ErrServerClosed = ErrNew ''http: Server closed''"

definition signal_outcomes :: "signal_proc \<Rightarrow> signal_event \<Rightarrow> signal_proc list" where
  "signal_outcomes pr ev =
     (case ev of
        SgListenError err \<Rightarrow>
          if pr = SgServing \<or> pr = SgShutdown then [if err \<noteq> ErrServerClosed then SgExited 1 else pr] else []
      | SgInterrupt \<Rightarrow> if pr = SgServing then [SgShutdown] else []
      | SgShutdownDone err \<Rightarrow> if pr = SgShutdown then [SgReturned err] else [])"

text \<open>\<open>main\<close>: an error of the command is exit status 1.\<close>

definition main_exit :: "go_error option \<Rightarrow> int" where
  "main_exit err = (if err \<noteq> None then 1 else 0)"

lemma auto_tls_paths:
  assumes "auto_tls generated fl0 = Inr fl" and "\<And>c k. generated = Inr (c, k) \<Longrightarrow> c \<noteq> [] \<and> k \<noteq> []"
  shows "sf_tlsCert fl \<noteq> [] \<and> sf_tlsKey fl \<noteq> [] \<longleftrightarrow> sf_autoTLS fl0 \<or> sf_tlsCert fl0 \<noteq> [] \<and> sf_tlsKey fl0 \<noteq> []"
    and "sf_tlsCert fl \<noteq> [] \<longleftrightarrow> sf_autoTLS fl0 \<or> sf_tlsCert fl0 \<noteq> []"
  using assms by (auto simp: auto_tls_def split: if_splits sum.splits)

text \<open>
  When the signaling server is encrypted and gated. It listens in the clear exactly without \<open>--auto-tls\<close> and with
  one of the two paths missing; given a certificate without a key it does so and its log line says TLS. It lets
  everybody in exactly when neither a secret nor static tokens are given.
\<close>

lemma signal_command_exposure:
  assumes "signal_setup quote adapter generated fl = Inr sv" and "\<And>c k. generated = Inr (c, k) \<Longrightarrow> c \<noteq> [] \<and> k \<noteq> []"
  shows "(sg_listen sv = ListenAndServe \<longleftrightarrow> \<not> sf_autoTLS fl \<and> (sf_tlsCert fl = [] \<or> sf_tlsKey fl = []))
    \<and> (sg_listen sv = ListenAndServe \<and> sg_logsTLS sv \<longleftrightarrow> \<not> sf_autoTLS fl \<and> sf_tlsCert fl \<noteq> [] \<and> sf_tlsKey fl = [])
    \<and> (sf_jwtSecret fl = [] \<and> sf_authStatic fl = [] \<longrightarrow> (\<forall>r. AuthorizeRequest quote r (sg_validator sv) = Authorized no_identity))
    \<and> (sg_validator sv = None \<longleftrightarrow> sf_jwtSecret fl = [] \<and> sf_authStatic fl = [])"
proof -
  obtain fl1 where f: "auto_tls generated fl = Inr fl1" using assms(1) by (auto simp: signal_setup_def split: sum.splits)
  have same: "sf_jwtSecret fl1 = sf_jwtSecret fl" "sf_authStatic fl1 = sf_authStatic fl"
    using f by (auto simp: auto_tls_def split: if_splits sum.splits)
  obtain v where v: "signal_validator quote adapter (sf_jwtSecret fl) (sf_authStatic fl) = Inr v" "sg_validator sv = v"
    using assms(1) f same by (auto simp: signal_setup_def split: sum.splits)
  have none: "v = None \<longleftrightarrow> sf_jwtSecret fl = [] \<and> sf_authStatic fl = []"
    using v(1) by (auto simp: signal_validator_def split: if_splits sum.splits)
  have sv: "sg_listen sv = ListenAndServe \<longleftrightarrow> \<not> (sf_tlsCert fl1 \<noteq> [] \<and> sf_tlsKey fl1 \<noteq> [])" "sg_logsTLS sv \<longleftrightarrow> sf_tlsCert fl1 \<noteq> []"
    using assms(1) f by (auto simp: signal_setup_def split: sum.splits if_splits)
  have listen: "sg_listen sv = ListenAndServe \<longleftrightarrow> \<not> (sf_autoTLS fl \<or> sf_tlsCert fl \<noteq> [] \<and> sf_tlsKey fl \<noteq> [])"
    using sv(1) auto_tls_paths(1) [OF f assms(2)] by blast
  have logs: "sg_logsTLS sv \<longleftrightarrow> sf_autoTLS fl \<or> sf_tlsCert fl \<noteq> []"
    using sv(2) auto_tls_paths(2) [OF f assms(2)] by blast
  show ?thesis
    unfolding listen logs v(2) using none by (auto simp: AuthorizeRequest_def)
qed

section \<open>The relay command\<close>

record relay_flags =
  lf_signalAddr :: string
  lf_service :: string
  lf_peerID :: string
  lf_bufSize :: int

definition relay_defaults :: "string \<Rightarrow> relay_flags" where
  "relay_defaults service = \<lparr>lf_signalAddr = [], lf_service = service, lf_peerID = ''relay'', lf_bufSize = 256\<rparr>"

text \<open>
  \<open>runRelay\<close> starts \<open>Serve\<close> in a goroutine, whose error goes into a buffered channel nobody reads, and waits for a
  signal. It has set a backend, so \<open>relay.New\<close> succeeds.
\<close>

datatype signaling_choice = RemoteSignaling string | InProcessSignaling

definition relay_signaling :: "relay_flags \<Rightarrow> signaling_choice" where
  "relay_signaling fl = (if lf_signalAddr fl \<noteq> [] then RemoteSignaling (lf_signalAddr fl) else InProcessSignaling)"

datatype relay_command = RcFailed go_error | RcWaiting "go_error option option" | RcReturned
datatype relay_command_event = RcServeReturned "go_error option" | RcInterrupt

definition runRelay_start :: "relay_flags \<Rightarrow> relay_command" where
  "runRelay_start fl = (case NewRelay True (lf_bufSize fl) of Inl err \<Rightarrow> RcFailed err | Inr _ \<Rightarrow> RcWaiting None)"

definition runRelay_outcomes :: "relay_command \<Rightarrow> relay_command_event \<Rightarrow> relay_command list" where
  "runRelay_outcomes pr ev =
     (case (pr, ev) of
        (RcWaiting None, RcServeReturned err) \<Rightarrow> [RcWaiting (Some err)]
      | (RcWaiting _, RcInterrupt) \<Rightarrow> [RcReturned]
      | _ \<Rightarrow> [])"

text \<open>
  The relay's failure is not noticed: whatever \<open>Serve\<close> returns, and even at once, the command keeps running until it
  is interrupted, and then it reports success.
\<close>

lemma relay_command_ignores_failure:
  assumes "runs runRelay_outcomes (runRelay_start fl) evs pr" and "RcInterrupt \<notin> set evs"
  shows "\<exists>e. pr = RcWaiting e"
proof -
  have "\<exists>e. pr = RcWaiting e"
  proof (rule runs_invariant [OF assms(1)])
    show "\<exists>e. runRelay_start fl = RcWaiting e" by (simp add: runRelay_start_def NewRelay_def)
    fix p p' ev
    assume "\<exists>e. p = RcWaiting e" "ev \<in> set evs" "p' \<in> set (runRelay_outcomes p ev)"
    then show "\<exists>e. p' = RcWaiting e"
      using assms(2) by (auto simp: runRelay_outcomes_def split: option.splits relay_command_event.splits)
  qed
  then show ?thesis .
qed

end
