(* ===== verification/Signal_Stats.thy ===== *)
theory Signal_Stats
  imports Signal_Store Signal_Local
begin

text \<open>
  The statistics of the two registries (\<open>Memory.Stats\<close> of \<open>signalserver/store/memory.go\<close>, \<open>Local.Stats\<close> of
  \<open>signal/local.go\<close>). Go iterates over a map in an unspecified order: the order is an argument \<open>ids\<close> that
  enumerates the services, and the theorem says that the result does not depend on it.
\<close>

record stats =
  st_Services :: nat
  st_Peers :: nat
  st_ServicePeers :: "string \<rightharpoonup> nat"

fun stats_loop :: "'m registry \<Rightarrow> string list \<Rightarrow> stats \<Rightarrow> stats" where
  "stats_loop r [] out = out"
| "stats_loop r (name # ids) out =
     (case rg_services r name of
        None \<Rightarrow> stats_loop r ids out
      | Some svc \<Rightarrow>
          (let n = length (rg_svcs r svc)
           in stats_loop r ids
                (out\<lparr>st_ServicePeers := (st_ServicePeers out)(name \<mapsto> n), st_Peers := st_Peers out + n\<rparr>)))"

definition store_Stats :: "'b store \<Rightarrow> string list \<Rightarrow> stats" where
  "store_Stats r ids = stats_loop r ids \<lparr>st_Services = length ids, st_Peers = 0, st_ServicePeers = Map.empty\<rparr>"

definition local_Stats :: "'m registry \<Rightarrow> string list \<Rightarrow> stats" where
  "local_Stats l ids = stats_loop l ids \<lparr>st_Services = length ids, st_Peers = 0, st_ServicePeers = Map.empty\<rparr>"

section \<open>What the statistics count\<close>

definition enumerates :: "string list \<Rightarrow> 'm registry \<Rightarrow> bool" where
  "enumerates ids r \<longleftrightarrow> distinct ids \<and> set ids = dom (rg_services r)"

definition joined_peers :: "'m registry \<Rightarrow> string \<Rightarrow> string set" where
  "joined_peers r v = {p. inbox_of r v p \<noteq> None}"

lemma joined_peers_eq:
  assumes "reg_wf r"
  shows "joined_peers r v = (case rg_services r v of None \<Rightarrow> {} | Some svc \<Rightarrow> fst ` set (rg_svcs r svc))"
proof -
  have "inbox_of r v p \<noteq> None \<longleftrightarrow> (\<exists>svc. rg_services r v = Some svc \<and> p \<in> fst ` set (rg_svcs r svc))" for p
    using inbox_of_None [OF assms, of v p] by (force simp: member_of_def)
  then show ?thesis by (auto simp: joined_peers_def split: option.splits)
qed

lemma card_joined_peers:
  assumes "reg_wf r" and "rg_services r v = Some svc"
  shows "card (joined_peers r v) = length (rg_svcs r svc)" and "finite (joined_peers r v)"
proof -
  have "card (set (map fst (rg_svcs r svc))) = length (map fst (rg_svcs r svc))"
    by (intro distinct_card wf_distinct [OF assms(1)])
  then show "card (joined_peers r v) = length (rg_svcs r svc)" "finite (joined_peers r v)"
    by (simp_all add: joined_peers_eq [OF assms(1)] assms(2))
qed

lemma stats_loop_counts:
  assumes "reg_wf r" and "set ids \<subseteq> dom (rg_services r)"
  shows "stats_loop r ids out = out\<lparr>
    st_Peers := st_Peers out + sum_list (map (\<lambda>v. card (joined_peers r v)) ids),
    st_ServicePeers := (\<lambda>v. if v \<in> set ids then Some (card (joined_peers r v)) else st_ServicePeers out v)\<rparr>"
  using assms(2)
proof (induction ids arbitrary: out)
  case (Cons v ids)
  then obtain svc where svc: "rg_services r v = Some svc" by auto
  with Cons card_joined_peers(1) [OF assms(1) svc] show ?case by (simp add: Let_def fun_eq_iff)
qed simp

lemma loop_counts_all:
  assumes "reg_wf r" and "enumerates ids r"
  shows "stats_loop r ids \<lparr>st_Services = length ids, st_Peers = 0, st_ServicePeers = Map.empty\<rparr> =
    \<lparr>st_Services = card (dom (rg_services r)), st_Peers = card (SIGMA v : dom (rg_services r). joined_peers r v),
     st_ServicePeers = (\<lambda>v. if v \<in> dom (rg_services r) then Some (card (joined_peers r v)) else None)\<rparr>"
proof -
  have ids: "distinct ids" "set ids = dom (rg_services r)" using assms(2) by (simp_all add: enumerates_def)
  then have "finite (dom (rg_services r))" by (metis List.finite_set)
  moreover have "\<forall>v \<in> dom (rg_services r). finite (joined_peers r v)" using card_joined_peers(2) [OF assms(1)] by blast
  ultimately have "card (SIGMA v : dom (rg_services r). joined_peers r v) = (\<Sum>v \<in> dom (rg_services r). card (joined_peers r v))"
    by (rule card_SigmaI)
  also have "\<dots> = sum_list (map (\<lambda>v. card (joined_peers r v)) ids)"
    using ids by (simp add: sum_list_distinct_conv_sum_set)
  finally show ?thesis
    using stats_loop_counts [OF assms(1), of ids] ids distinct_card [OF ids(1)] by (simp add: fun_eq_iff)
qed

section \<open>Services without members\<close>

lemma Join_no_empty:
  assumes wf: "reg_wf r" and ne: "no_empty_service r"
  shows "no_empty_service (fst (Join r \<lparr>pr_id = p, pr_service = v\<rparr>))"
proof -
  obtain r1 svc where r1: "service_for r v = (r1, svc)" by (cases "service_for r v")
  have others: "s = svc" if "rg_services r1 n = Some s" "rg_svcs r1 s = []" for n s
    using service_for_others [OF wf ne r1] that by blast
  have "no_empty_service (fst (Join_insert r1 svc \<lparr>pr_id = p, pr_service = v\<rparr>))"
    by (auto dest: others simp: Join_insert_def no_empty_service_def add_peer_def Let_def MaxPeersPerService_def)
  with ne r1 show ?thesis by (simp add: Join_def)
qed

lemma Leave_no_empty:
  assumes wf: "reg_wf r" and ne: "no_empty_service r"
  shows "no_empty_service (Leave r peer)"
  using leaving_no_empty [OF wf ne _ refl] ne
  by (auto simp: Leave_def Let_def split: option.splits)

text \<open>The service cap: \<open>Join\<close> checks it, nothing else adds a member.\<close>

lemma Join_capped:
  assumes "capped r" shows "capped (fst (Join r \<lparr>pr_id = p, pr_service = v\<rparr>))"
proof -
  have s: "length (rg_svcs (fst (service_for r v)) s) \<le> MaxPeersPerService" for s
    using assms by (auto simp: service_for_def capped_def split: option.splits)
  have "capped (fst (Join_insert r1 svc peer))" if "capped r1" for r1 :: "'a store" and svc peer
    using that by (auto simp: capped_def Join_insert_def add_peer_def Let_def)
  then show ?thesis
    using assms s by (cases "service_for r v") (auto simp: Join_def capped_def)
qed

lemma Leave_capped: "capped r \<Longrightarrow> capped (Leave r peer)"
proof -
  have "length (AList.delete k xs) \<le> length xs" for k :: string and xs :: members
    by (simp add: AList.delete_eq)
  then show "capped r \<Longrightarrow> capped (Leave r peer)"
    by (auto simp: capped_def Leave_def remove_peer_def close_inbox_def gc_service_def Let_def
        split: option.splits intro: order_trans)
qed

definition counted :: "'b served_store \<Rightarrow> bool" where
  "counted s \<longleftrightarrow> served_wf s \<and> capped (fst s)"

lemma mem_step_counted:
  assumes "counted s"
  shows "counted (mem_step s op)"
proof -
  have wf: "served_wf s" using assms by (simp add: counted_def)
  have "capped (fst (mem_step s op))"
  proof (cases op)
    case (RvJoin v p)
    then show ?thesis
      using assms Join_capped [of "fst s" p v]
      by (auto simp: mem_step_def rv_step_def mem_join_def counted_def split: prod.splits sum.splits)
  next
    case (RvLeave v p)
    then show ?thesis
      using assms Leave_capped [of "fst s"] by (simp add: mem_step_def rv_step_def mem_leave_def counted_def)
  next
    case (RvSend h m)
    then show ?thesis
      using assms
      by (auto simp: mem_step_def rv_step_def mem_send_def store_Send_def broadcast_svc_def counted_def capped_def
          split: option.splits go.splits)
  next
    case (RvRecv v p)
    then show ?thesis
      using assms
      by (auto simp: mem_step_def rv_step_def mem_recv_def take_message_def counted_def capped_def split: option.splits)
  qed
  with memory.step_wf [OF wf, of op] show ?thesis by (simp add: counted_def mem_step_def)
qed

lemma mem_run_counted: "counted (foldl mem_step (NewMemory, []) ops)"
proof -
  have "counted s \<Longrightarrow> counted (foldl mem_step s ops)" for s :: "'a served_store"
    by (induction ops arbitrary: s) (simp_all add: mem_step_counted)
  moreover have "counted (NewMemory :: 'a store, [])"
    using new_served by (simp add: counted_def) (simp add: capped_def NewMemory_def empty_registry_def)
  ultimately show ?thesis by blast
qed

lemma joined_services:
  assumes "reg_wf r" and "no_empty_service r"
  shows "dom (rg_services r) = {v. joined_peers r v \<noteq> {}}"
  using assms(2) by (auto simp: joined_peers_eq [OF assms(1)] no_empty_service_def split: option.splits)

text \<open>
  The statistics are exact. After any sequence of whole operations, and in whatever order the services are
  visited, the store reports as services those that somebody is in, as peers all pairs of a service and a peer
  in it, and for each service the number of its peers; never more than ten times as many peers as services.
\<close>

theorem stats_exact:
  assumes "r = fst (foldl mem_step (NewMemory, []) ops)" and "enumerates ids r"
  shows "store_Stats r ids =
      \<lparr>st_Services = card {v. joined_peers r v \<noteq> {}}, st_Peers = card {(v, p). inbox_of r v p \<noteq> None},
       st_ServicePeers = (\<lambda>v. if joined_peers r v \<noteq> {} then Some (card (joined_peers r v)) else None)\<rparr>
    \<and> st_Peers (store_Stats r ids) \<le> 10 * st_Services (store_Stats r ids)"
proof -
  have c: "reg_wf r" "no_empty_service r" "capped r"
    using mem_run_counted [of ops] assms(1) by (simp_all add: counted_def served_wf_def)
  have d: "dom (rg_services r) = {v. joined_peers r v \<noteq> {}}" by (rule joined_services [OF c(1,2)])
  have s: "(SIGMA v : dom (rg_services r). joined_peers r v) = {(v, p). inbox_of r v p \<noteq> None}"
    unfolding d by (auto simp: joined_peers_def)
  have n: "card (joined_peers r v) \<le> 10" if "v \<in> dom (rg_services r)" for v
    using that card_joined_peers(1) [OF c(1), of v] c(3) by (auto simp: capped_def MaxPeersPerService_def)
  have "finite (dom (rg_services r))" using assms(2) by (metis enumerates_def List.finite_set)
  moreover have "\<forall>v \<in> dom (rg_services r). finite (joined_peers r v)" using card_joined_peers(2) [OF c(1)] by blast
  ultimately have "card (SIGMA v : dom (rg_services r). joined_peers r v) = (\<Sum>v \<in> dom (rg_services r). card (joined_peers r v))"
    by (rule card_SigmaI)
  also have "\<dots> \<le> of_nat (card (dom (rg_services r))) * 10" by (rule sum_bounded_above) (rule n)
  finally have "card {(v, p). inbox_of r v p \<noteq> None} \<le> 10 * card {v. joined_peers r v \<noteq> {}}"
    unfolding s unfolding d by simp
  with loop_counts_all [OF c(1) assms(2), unfolded s, unfolded d] show ?thesis by (simp add: store_Stats_def)
qed

theorem stats_exact_witness:
  "\<exists>r :: nat store. store_Stats r [''v''] = \<lparr>st_Services = 1, st_Peers = 1, st_ServicePeers = [''v'' \<mapsto> 1]\<rparr>
     \<and> card {(v, p). inbox_of r v p \<noteq> None} = 1"
proof -
  define r where "r = (fst (foldl mem_step (NewMemory, []) [RvJoin ''v'' ''a'']) :: nat store)"
  have e: "enumerates [''v''] r" "store_Stats r [''v''] = \<lparr>st_Services = 1, st_Peers = 1, st_ServicePeers = [''v'' \<mapsto> 1]\<rparr>"
    by (simp_all add: r_def enumerates_def store_Stats_def mem_step_def rv_step_def mem_join_def Join_def Join_insert_def service_for_def
        add_peer_def Let_def NewMemory_def empty_registry_def MaxPeersPerService_def)
  from stats_exact [OF r_def e(1)] e(2) show ?thesis by auto
qed

text \<open>The in-process backend counts the same way.\<close>

lemma local_stats_exact:
  assumes "reg_wf l" and "enumerates ids l"
  shows "local_Stats l ids = \<lparr>st_Services = card (dom (rg_services l)),
    st_Peers = card (SIGMA v : dom (rg_services l). joined_peers l v),
    st_ServicePeers = (\<lambda>v. if v \<in> dom (rg_services l) then Some (card (joined_peers l v)) else None)\<rparr>"
  using loop_counts_all [OF assms] by (simp add: local_Stats_def)

end
