(* ===== verification/Rpc_Writer.thy ===== *)
theory Rpc_Writer
  imports Rpc_Server "HOL-Library.Sublist"
begin

text \<open>
  The outbound side of the server's multiplexer in detail (\<open>queue\<close>, \<open>runWriter\<close> and \<open>shutdown\<close> of \<open>rpc/server.go\<close>): the
  channel \<open>m.out\<close>, the writer goroutine, and any number of goroutines inside \<open>queue\<close>. \<open>Rpc_Server\<close> treats a call of \<open>queue\<close>
  as one step; here it is refined to the steps it consists of, which interleave with the writer, and this shows two things
  the single step hides: a frame the transport has refused counts as sent, and a call can be stuck when the writer is gone.
\<close>

section \<open>State\<close>

text \<open>
  A call of \<open>queue\<close> has a ticket, which stands for the identity of its \<open>done\<close> channel: before its \<open>select\<close>, waiting
  for \<open>done\<close>, or returned.
\<close>

datatype queue_call =
    QcEnter response_frame
  | QcWait response_frame
  | QcReturned response_frame "go_error option"

datatype writer_pc = WtSelect | WtSend nat response_frame | WtGone

text \<open>
  \<open>wr_entered\<close>, \<open>wr_tried\<close>, \<open>wr_errs\<close> and \<open>wr_wire\<close> are histories: the frames that entered the channel, those the writer has
  given to \<open>SendFrame\<close>, what \<open>SendFrame\<close> returned for them, and the frames it has put on the wire. \<open>wr_acked\<close> are the
  \<open>done\<close> channels that are closed.
\<close>

record writer =
  wr_ctx :: "ctx_err option"
  wr_done :: bool
  wr_out :: "(nat \<times> response_frame) list"
  wr_pc :: writer_pc
  wr_acked :: "nat set"
  wr_calls :: "nat \<rightharpoonup> queue_call"
  wr_next :: nat
  wr_entered :: "(nat \<times> response_frame) list"
  wr_tried :: "(nat \<times> response_frame) list"
  wr_errs :: "go_error option list"
  wr_wire :: "response_frame list"

definition outCap :: nat where "outCap = 256"

definition new_writer :: "ctx_err option \<Rightarrow> writer" where
  "new_writer ctx = \<lparr>wr_ctx = ctx, wr_done = False, wr_out = [], wr_pc = WtSelect, wr_acked = {}, wr_calls = Map.empty,
     wr_next = 0, wr_entered = [], wr_tried = [], wr_errs = [], wr_wire = []\<rparr>"

section \<open>Steps\<close>

definition queue_start :: "writer \<Rightarrow> response_frame \<Rightarrow> writer" where
  "queue_start w f = w\<lparr>wr_calls := (wr_calls w)(wr_next w \<mapsto> QcEnter f), wr_next := Suc (wr_next w)\<rparr>"

definition set_call :: "writer \<Rightarrow> nat \<Rightarrow> queue_call \<Rightarrow> writer" where
  "set_call w i q = w\<lparr>wr_calls := (wr_calls w)(i \<mapsto> q)\<rparr>"

text \<open>The two nested \<open>select\<close> statements of \<open>queue\<close>.\<close>

definition queue_step :: "writer \<Rightarrow> nat \<Rightarrow> writer list" where
  "queue_step w i =
     (case wr_calls w i of
        None \<Rightarrow> []
      | Some (QcEnter f) \<Rightarrow> select
          [(length (wr_out w) < outCap, (set_call w i (QcWait f))\<lparr>wr_out := wr_out w @ [(i, f)], wr_entered := wr_entered w @ [(i, f)]\<rparr>),
           (wr_done w, set_call w i (QcReturned f (Some ErrClosedPipe))),
           (wr_ctx w \<noteq> None, set_call w i (QcReturned f (Some (CtxErr (the (wr_ctx w))))))]
      | Some (QcWait f) \<Rightarrow> select
          [(i \<in> wr_acked w, set_call w i (QcReturned f None)),
           (wr_ctx w \<noteq> None, set_call w i (QcReturned f (Some (CtxErr (the (wr_ctx w))))))]
      | Some (QcReturned f r) \<Rightarrow> [])"

text \<open>The \<open>select\<close> of \<open>runWriter\<close>, and the end of its \<open>SendFrame\<close>, whose error is dropped.\<close>

definition writer_select :: "writer \<Rightarrow> writer list" where
  "writer_select w =
     (if wr_pc w = WtSelect
      then select
        [(wr_out w \<noteq> [],
            w\<lparr>wr_out := tl (wr_out w), wr_pc := WtSend (fst (hd (wr_out w))) (snd (hd (wr_out w))),
              wr_tried := wr_tried w @ [hd (wr_out w)]\<rparr>),
         (wr_done w, w\<lparr>wr_pc := WtGone\<rparr>),
         (wr_ctx w \<noteq> None, w\<lparr>wr_pc := WtGone\<rparr>)]
      else [])"

definition writer_sent :: "writer \<Rightarrow> go_error option \<Rightarrow> writer list" where
  "writer_sent w err =
     (case wr_pc w of
        WtSend i f \<Rightarrow> [w\<lparr>wr_pc := WtSelect, wr_acked := insert i (wr_acked w),
                        wr_errs := wr_errs w @ [err],
                        wr_wire := (if err = None then wr_wire w @ [f] else wr_wire w)\<rparr>]
      | _ \<Rightarrow> [])"

definition mux_shutdown :: "writer \<Rightarrow> writer" where
  "mux_shutdown w = w\<lparr>wr_done := True\<rparr>"

datatype writer_event =
    WeQueue response_frame | WeCall nat | WeWriter | WeSent "go_error option" | WeShutdown | WeCancel ctx_err

definition writer_outcomes :: "writer \<Rightarrow> writer_event \<Rightarrow> writer list" where
  "writer_outcomes w ev =
     (case ev of
        WeQueue f \<Rightarrow> [queue_start w f]
      | WeCall i \<Rightarrow> queue_step w i
      | WeWriter \<Rightarrow> writer_select w
      | WeSent err \<Rightarrow> writer_sent w err
      | WeShutdown \<Rightarrow> [mux_shutdown w]
      | WeCancel e \<Rightarrow> [w\<lparr>wr_ctx := (case wr_ctx w of None \<Rightarrow> Some e | Some e' \<Rightarrow> Some e')\<rparr>])"

section \<open>The invariant\<close>

text \<open>The frames in the writer's hands, in the order they reach \<open>SendFrame\<close>, and those it is done with.\<close>

definition entered :: "writer \<Rightarrow> (nat \<times> response_frame) list" where
  "entered w = wr_tried w @ wr_out w"

fun done_with :: "writer_pc \<Rightarrow> 'a list \<Rightarrow> 'a list" where
  "done_with (WtSend i f) xs = butlast xs"
| "done_with _ xs = xs"

definition finished :: "writer \<Rightarrow> (nat \<times> response_frame) list" where
  "finished w = done_with (wr_pc w) (wr_tried w)"

text \<open>The frames of \<open>ts\<close> for which \<open>SendFrame\<close> returned nil.\<close>

definition accepted :: "(nat \<times> response_frame) list \<Rightarrow> go_error option list \<Rightarrow> response_frame list" where
  "accepted ts errs = map (snd \<circ> fst) (filter (\<lambda>x. snd x = None) (zip ts errs))"

lemma accepted_snoc: "length ts = length errs \<Longrightarrow> accepted (ts @ [t]) (errs @ [e]) = accepted ts errs @ (if e = None then [snd t] else [])"
  by (simp add: accepted_def)

lemma accepted_done: "length (done_with pc ts) = length errs \<Longrightarrow> accepted ts errs = accepted (done_with pc ts) errs"
  by (cases pc; cases ts rule: rev_cases) (simp_all add: accepted_def zip_append1)

lemma done_with_subset: "set (done_with pc xs) \<subseteq> set xs"
  by (cases pc) (auto dest: in_set_butlastD)

lemma done_with_subseq: "subseq (done_with pc xs) xs"
  by (cases pc) (auto simp: butlast_conv_take intro: prefix_imp_subseq take_is_prefix)

text \<open>What a call has to do with the channel.\<close>

fun call_ok :: "writer \<Rightarrow> nat \<Rightarrow> queue_call \<Rightarrow> bool" where
  "call_ok w i (QcEnter f) \<longleftrightarrow> i \<notin> fst ` set (entered w)"
| "call_ok w i (QcWait f) \<longleftrightarrow> (i, f) \<in> set (entered w)"
| "call_ok w i (QcReturned f None) \<longleftrightarrow> (i, f) \<in> set (finished w)"
| "call_ok w i (QcReturned f (Some e)) \<longleftrightarrow>
     e = ErrClosedPipe \<and> wr_done w \<and> i \<notin> fst ` set (entered w)
     \<or> (\<exists>c. e = CtxErr c \<and> wr_ctx w = Some c)"

definition writer_inv :: "writer \<Rightarrow> bool" where
  "writer_inv w \<longleftrightarrow>
     distinct (map fst (entered w)) \<and> (\<forall>i \<in> fst ` set (entered w). i < wr_next w)
     \<and> (\<forall>i q. wr_calls w i = Some q \<longrightarrow> i < wr_next w \<and> call_ok w i q)
     \<and> (\<forall>i f. wr_pc w = WtSend i f \<longrightarrow> wr_tried w \<noteq> [] \<and> last (wr_tried w) = (i, f))
     \<and> wr_acked w = fst ` set (finished w) \<and> length (wr_out w) \<le> outCap
     \<and> length (finished w) = length (wr_errs w) \<and> wr_wire w = accepted (finished w) (wr_errs w)
     \<and> wr_entered w = entered w
     \<and> (\<forall>i. i < wr_next w \<longrightarrow> wr_calls w i \<noteq> None)"

lemma writer_invD:
  assumes "writer_inv w"
  shows "distinct (map fst (entered w))" and "i \<in> fst ` set (entered w) \<Longrightarrow> i < wr_next w"
    and "wr_calls w i = Some q \<Longrightarrow> i < wr_next w \<and> call_ok w i q"
    and "wr_pc w = WtSend i f \<Longrightarrow> wr_tried w \<noteq> [] \<and> last (wr_tried w) = (i, f)"
    and "wr_acked w = fst ` set (finished w)" and "wr_entered w = entered w"
    and "length (wr_out w) \<le> outCap" and "i < wr_next w \<Longrightarrow> wr_calls w i \<noteq> None"
    and "length (finished w) = length (wr_errs w)" and "wr_wire w = accepted (finished w) (wr_errs w)"
  using assms unfolding writer_inv_def by blast+

lemma call_ok_mono:
  assumes "call_ok w i q" and "entered w' = entered w" and "set (finished w) \<subseteq> set (finished w')"
    and "wr_done w \<Longrightarrow> wr_done w'" and "\<And>c. wr_ctx w = Some c \<Longrightarrow> wr_ctx w' = Some c"
  shows "call_ok w' i q"
  using assms by (cases "(w, i, q)" rule: call_ok.cases) auto

text \<open>A step that leaves the calls and the order of entry alone keeps the invariant if the rest of it does.\<close>

lemma writer_inv_keep:
  assumes inv: "writer_inv w" and "entered w' = entered w" and "set (finished w) \<subseteq> set (finished w')"
    and "wr_done w \<Longrightarrow> wr_done w'" and "\<And>c. wr_ctx w = Some c \<Longrightarrow> wr_ctx w' = Some c"
    and "wr_calls w' = wr_calls w" and "wr_next w' = wr_next w"
    and "\<And>i f. wr_pc w' = WtSend i f \<Longrightarrow> wr_tried w' \<noteq> [] \<and> last (wr_tried w') = (i, f)"
    and "wr_acked w' = fst ` set (finished w')" and "wr_entered w' = wr_entered w"
    and "length (wr_out w') \<le> outCap"
    and "length (finished w') = length (wr_errs w')" and "wr_wire w' = accepted (finished w') (wr_errs w')"
  shows "writer_inv w'"
  unfolding writer_inv_def
proof (intro conjI allI impI ballI)
  fix i q assume q: "wr_calls w' i = Some q"
  with inv assms(6) have c: "i < wr_next w" "call_ok w i q" using writer_invD(3) [of w i q] by auto
  show "i < wr_next w'" using c(1) assms(7) by simp
  show "call_ok w' i q" using c(2) assms(2-5) by (rule call_ok_mono)
next
  fix i assume "i < wr_next w'"
  then show "wr_calls w' i \<noteq> None" using writer_invD(8) [OF inv, of i] assms(6,7) by simp
next
  fix i assume "i \<in> fst ` set (entered w')"
  then show "i < wr_next w'" using writer_invD(2) [OF inv, of i] assms(2,7) by simp
qed (use assms(2,8-13) writer_invD(1,6) [OF inv] in simp_all)

text \<open>A step of one call that does not put its frame into the channel.\<close>

lemma writer_inv_call:
  assumes inv: "writer_inv w" and "wr_calls w i = Some q0" and "call_ok w i q"
  shows "writer_inv (set_call w i q)"
proof -
  let ?w = "set_call w i q"
  have same: "entered ?w = entered w" "finished ?w = finished w" "wr_done ?w = wr_done w" "wr_ctx ?w = wr_ctx w"
    by (simp_all add: entered_def finished_def set_call_def)
  have ok: "call_ok ?w j p \<longleftrightarrow> call_ok w j p" for j p
    using same by (cases "(w, j, p)" rule: call_ok.cases) auto
  have "j < wr_next w \<and> call_ok w j p" if "wr_calls ?w j = Some p" for j p
    using that writer_invD(3) [OF inv, of j p] writer_invD(3) [OF inv assms(2)] assms(3)
    by (cases "j = i") (auto simp: set_call_def)
  then show ?thesis
    unfolding writer_inv_def ok same
    using writer_invD [OF inv] by (auto simp: set_call_def)
qed

lemma queue_start_inv:
  assumes inv: "writer_inv w"
  shows "writer_inv (queue_start w f)"
proof -
  let ?w = "queue_start w f"
  have same: "entered ?w = entered w" "finished ?w = finished w" "wr_done ?w = wr_done w" "wr_ctx ?w = wr_ctx w"
    by (simp_all add: entered_def finished_def queue_start_def)
  have ok: "call_ok ?w j p \<longleftrightarrow> call_ok w j p" for j p
    using same by (cases "(w, j, p)" rule: call_ok.cases) auto
  have new: "wr_next w \<notin> fst ` set (entered w)" using writer_invD(2) [OF inv, of "wr_next w"] by blast
  have "j < wr_next ?w \<and> call_ok w j p" if c: "wr_calls ?w j = Some p" for j p
  proof (cases "j = wr_next w")
    case True
    with c have "p = QcEnter f" by (simp add: queue_start_def)
    then show ?thesis using True new by (simp add: queue_start_def)
  next
    case False
    with c writer_invD(3) [OF inv, of j p] show ?thesis by (simp add: queue_start_def)
  qed
  moreover have "wr_calls ?w j \<noteq> None" if "j < wr_next ?w" for j
    using that writer_invD(8) [OF inv, of j] by (cases "j = wr_next w") (auto simp: queue_start_def)
  moreover have "j < wr_next ?w" if "j \<in> fst ` set (entered w)" for j
    using writer_invD(2) [OF inv that] by (simp add: queue_start_def)
  ultimately show ?thesis
    unfolding writer_inv_def ok same
    using writer_invD(1,4,5,6,7,9,10) [OF inv] by (auto simp: queue_start_def)
qed

lemma queue_step_inv:
  assumes inv: "writer_inv w" and w': "w' \<in> set (queue_step w i)"
  shows "writer_inv w'"
proof -
  obtain q where q: "wr_calls w i = Some q" using w' by (cases "wr_calls w i") (auto simp: queue_step_def)
  note ok = writer_invD(3) [OF inv q]
  consider (enter) f where "q = QcEnter f" | (wait) f where "q = QcWait f"
    using w' q by (cases q) (auto simp: queue_step_def)
  then show ?thesis
  proof cases
    case wait
    then have "w' = set_call w i (QcReturned f None) \<and> i \<in> wr_acked w
        \<or> (\<exists>c. wr_ctx w = Some c \<and> w' = set_call w i (QcReturned f (Some (CtxErr c))))"
      using w' q by (auto simp: queue_step_def split: if_splits)
    moreover have "(i, f) \<in> set (finished w)" if "i \<in> wr_acked w"
    proof -
      have "i \<in> fst ` set (finished w)" using that writer_invD(5) [OF inv] by simp
      moreover have "set (finished w) \<subseteq> set (entered w)"
        using done_with_subset [of "wr_pc w" "wr_tried w"] by (auto simp: finished_def entered_def)
      ultimately obtain g where g: "(i, g) \<in> set (finished w)" "(i, g) \<in> set (entered w)" by auto
      moreover have "(i, f) \<in> set (entered w)" using ok wait by simp
      ultimately show ?thesis using writer_invD(1) [OF inv] by (metis eq_key_imp_eq_value)
    qed
    ultimately show ?thesis using writer_inv_call [OF inv q] by auto
  next
    case enter
    let ?push = "(set_call w i (QcWait f))\<lparr>wr_out := wr_out w @ [(i, f)], wr_entered := wr_entered w @ [(i, f)]\<rparr>"
    have "w' = ?push \<and> length (wr_out w) < outCap \<or> wr_done w \<and> w' = set_call w i (QcReturned f (Some ErrClosedPipe))
        \<or> (\<exists>c. wr_ctx w = Some c \<and> w' = set_call w i (QcReturned f (Some (CtxErr c))))"
      using w' q enter by (auto simp: queue_step_def split: if_splits)
    moreover have "writer_inv ?push" if "length (wr_out w) < outCap"
    proof -
      have e: "entered ?push = entered w @ [(i, f)]" "finished ?push = finished w"
        by (simp_all add: entered_def finished_def set_call_def)
      have new: "i \<notin> fst ` set (entered w)" using ok enter by simp
      have "call_ok ?push j p" if c: "wr_calls ?push j = Some p" for j p
      proof (cases "j = i")
        case True
        with c e show ?thesis by (auto simp: set_call_def)
      next
        case False
        with c have "call_ok w j p" using writer_invD(3) [OF inv, of j p] by (simp add: set_call_def)
        then show ?thesis
          using False e by (cases "(w, j, p)" rule: call_ok.cases) (auto simp: set_call_def)
      qed
      moreover have "j < wr_next w" if "wr_calls ?push j = Some p" for j p
        using that ok writer_invD(3) [OF inv, of j p] by (cases "j = i") (auto simp: set_call_def)
      moreover have "wr_calls ?push j \<noteq> None" if "j < wr_next w" for j
        using that writer_invD(8) [OF inv, of j] by (auto simp: set_call_def)
      ultimately show ?thesis
        unfolding writer_inv_def e
        using writer_invD(1,4,5,6,9,10) [OF inv] writer_invD(2) [OF inv] new ok that by (auto simp: set_call_def)
    qed
    ultimately show ?thesis using writer_inv_call [OF inv q] ok enter by auto
  qed
qed

lemma writer_select_inv:
  assumes inv: "writer_inv w" and w': "w' \<in> set (writer_select w)"
  shows "writer_inv w'"
proof -
  have pc: "wr_pc w = WtSelect" using w' by (auto simp: writer_select_def split: if_splits)
  then have "w' = w\<lparr>wr_pc := WtGone\<rparr> \<or> (wr_out w \<noteq> [] \<and> w' = w\<lparr>wr_out := tl (wr_out w),
      wr_pc := WtSend (fst (hd (wr_out w))) (snd (hd (wr_out w))), wr_tried := wr_tried w @ [hd (wr_out w)]\<rparr>)"
    using w' by (auto simp: writer_select_def split: if_splits)
  then show ?thesis
    using pc writer_invD(5-7,9,10) [OF inv]
    by (elim disjE conjE; intro writer_inv_keep [OF inv]) (auto simp: entered_def finished_def)
qed

lemma writer_sent_inv:
  assumes inv: "writer_inv w" and w': "w' \<in> set (writer_sent w err)"
  shows "writer_inv w'"
proof -
  obtain i f where pc: "wr_pc w = WtSend i f" using w' by (cases "wr_pc w") (auto simp: writer_sent_def)
  have t: "wr_tried w = butlast (wr_tried w) @ [(i, f)]"
    using writer_invD(4) [OF inv pc] by (metis append_butlast_last_id)
  have fin: "finished w = butlast (wr_tried w)" by (simp add: finished_def pc)
  have w'_eq: "w' = w\<lparr>wr_pc := WtSelect, wr_acked := insert i (wr_acked w), wr_errs := wr_errs w @ [err],
      wr_wire := (if err = None then wr_wire w @ [f] else wr_wire w)\<rparr>"
    using w' pc by (simp add: writer_sent_def)
  have fin': "finished w' = finished w @ [(i, f)]" using t by (simp add: w'_eq finished_def pc)
  show ?thesis
  proof (rule writer_inv_keep [OF inv])
    have "wr_acked w' = insert i (wr_acked w)" by (simp add: w'_eq)
    then show "wr_acked w' = fst ` set (finished w')" using writer_invD(5) [OF inv] by (simp add: fin')
    have "wr_wire w' = wr_wire w @ (if err = None then [f] else [])" by (simp add: w'_eq)
    then show "wr_wire w' = accepted (finished w') (wr_errs w')"
      using writer_invD(9,10) [OF inv] by (simp add: fin' accepted_snoc) (simp add: w'_eq accepted_snoc)
    show "length (finished w') = length (wr_errs w')" using writer_invD(9) [OF inv] by (simp add: fin') (simp add: w'_eq)
  qed (use fin' writer_invD(7) [OF inv] in \<open>auto simp: w'_eq entered_def\<close>)
qed

lemma writer_step_inv:
  assumes inv: "writer_inv w" and w': "w' \<in> set (writer_outcomes w ev)"
  shows "writer_inv w'"
proof (cases ev)
  case WeShutdown
  then show ?thesis using w' writer_invD(4-7,9,10) [OF inv]
    by (intro writer_inv_keep [OF inv]) (auto simp: writer_outcomes_def mux_shutdown_def entered_def finished_def)
next
  case (WeCancel e)
  then show ?thesis using w' writer_invD(4-7,9,10) [OF inv]
    by (intro writer_inv_keep [OF inv]) (auto simp: writer_outcomes_def entered_def finished_def)
qed (use w' queue_start_inv [OF inv] queue_step_inv [OF inv] writer_select_inv [OF inv] writer_sent_inv [OF inv] in
    \<open>auto simp: writer_outcomes_def\<close>)

lemma new_writer_inv: "writer_inv (new_writer ctx)"
  by (simp add: writer_inv_def new_writer_def entered_def finished_def accepted_def)

lemma writer_run_inv: "runs writer_outcomes (new_writer ctx) evs w \<Longrightarrow> writer_inv w"
  by (rule runs_invariant [of writer_outcomes "new_writer ctx" evs w "writer_inv"])
    (auto intro: new_writer_inv writer_step_inv)

section \<open>What a call of queue achieves\<close>

text \<open>
  C38: The step \<open>queue\<close> of the multiplexer's model is what the goroutines do. In every interleaving of any number of calls
  with the writer, a call that has returned has a result the step \<open>queue\<close> allows, where the frame counts as written if the
  writer has given it to \<open>SendFrame\<close>. The channel is first-in first-out: the frames given to \<open>SendFrame\<close>, then those
  in the channel, at most 256, are the frames that entered it, each once and in the order of entry. The wire
  carries exactly the frames for which \<open>SendFrame\<close> returned nil, in that order; the calls of the others return nil all
  the same.
\<close>

theorem queue_refined:
  assumes "runs writer_outcomes (new_writer ctx) evs w" and "wr_calls w i = Some (QcReturned f r)"
    and "mx_done m = wr_done w" and "mx_ctx m = wr_ctx w"
  shows "((if (i, f) \<in> set (wr_tried w) then m\<lparr>mx_out := mx_out m @ [f]\<rparr> else m), r) \<in> set (queue m f)
    \<and> wr_entered w = wr_tried w @ wr_out w \<and> distinct (map fst (wr_entered w)) \<and> length (wr_out w) \<le> 256
    \<and> wr_wire w = map (snd \<circ> fst) (filter (\<lambda>x. snd x = None) (zip (wr_tried w) (wr_errs w)))
    \<and> length (wr_errs w) = (case wr_pc w of WtSend _ _ \<Rightarrow> length (wr_tried w) - 1 | _ \<Rightarrow> length (wr_tried w))"
proof -
  have inv: "writer_inv w" by (rule writer_run_inv [OF assms(1)])
  have ok: "call_ok w i (QcReturned f r)" using writer_invD(3) [OF inv assms(2)] by blast
  have fin: "set (finished w) \<subseteq> set (wr_tried w)"
    using done_with_subset [of "wr_pc w" "wr_tried w"] by (simp add: finished_def)
  have "((if (i, f) \<in> set (wr_tried w) then m\<lparr>mx_out := mx_out m @ [f]\<rparr> else m), r) \<in> set (queue m f)"
  proof (cases r)
    case None
    then show ?thesis using ok fin by (auto simp: queue_def Let_def)
  next
    case (Some e)
    then show ?thesis using ok assms(3,4) by (force simp: queue_def Let_def entered_def)
  qed
  moreover have "wr_wire w = accepted (wr_tried w) (wr_errs w)"
    using writer_invD(9,10) [OF inv] accepted_done [of "wr_pc w" "wr_tried w"] by (simp add: finished_def)
  moreover have "length (wr_errs w) = (case wr_pc w of WtSend _ _ \<Rightarrow> length (wr_tried w) - 1 | _ \<Rightarrow> length (wr_tried w))"
    unfolding writer_invD(9) [OF inv, symmetric] finished_def by (simp split: writer_pc.split)
  ultimately show ?thesis
    using writer_invD(1,6,7) [OF inv] unfolding accepted_def by (simp add: entered_def outCap_def)
qed

definition demo_response :: response_frame where
  "demo_response = end_frame 1 (status_end 0 [])"

lemmas writer_eval = writer_outcomes_def queue_start_def queue_step_def set_call_def writer_select_def writer_sent_def
  mux_shutdown_def new_writer_def outCap_def Let_def

text \<open>Two calls; the transport refuses the frame of the first, whose call returns nil, and takes that of the second.\<close>

definition second_response :: response_frame where
  "second_response = end_frame 3 (status_end 0 [])"

definition refused_run :: "(writer_event \<times> nat) list" where
  "refused_run = [(WeQueue demo_response, 0), (WeQueue second_response, 0), (WeCall 0, 0), (WeCall 1, 0), (WeWriter, 0),
     (WeSent (Some ErrClosedPipe), 0), (WeCall 0, 0), (WeWriter, 0), (WeSent None, 0)]"

theorem queue_refined_witness:
  "\<exists>w. runs writer_outcomes (new_writer None) (map fst refused_run) w
     \<and> wr_calls w 0 = Some (QcReturned demo_response None)
     \<and> ((newMultiplexer None)\<lparr>mx_out := [demo_response]\<rparr>, None) \<in> set (queue (newMultiplexer None) demo_response)
     \<and> wr_tried w = [(0, demo_response), (1, second_response)] \<and> wr_errs w = [Some ErrClosedPipe, None]
     \<and> wr_wire w = [second_response]"
proof -
  obtain w where w: "play writer_outcomes (new_writer None) refused_run = Some w"
    "wr_calls w 0 = Some (QcReturned demo_response None)" "wr_tried w = [(0, demo_response), (1, second_response)]"
    "wr_errs w = [Some ErrClosedPipe, None]" "wr_done w = False" "wr_ctx w = None"
    by (simp add: refused_run_def writer_eval)
  from queue_refined [OF play_runs [OF w(1)] w(2), of "newMultiplexer None"] w show ?thesis
    using play_runs [OF w(1)] by (auto simp: newMultiplexer_def)
qed

section \<open>Calls that never return\<close>

text \<open>
  A call that waits for its \<open>done\<close> channel when the writer has ended waits for the context alone: the second \<open>select\<close> of
  \<open>queue\<close> does not look at \<open>m.done\<close>. \<open>Serve\<close> ends the writer when the transport is lost, but does not cancel its context,
  so the handler goroutine stays there until the server's owner cancels it.
\<close>

definition stuck :: "nat \<Rightarrow> response_frame \<Rightarrow> writer \<Rightarrow> bool" where
  "stuck i f w \<longleftrightarrow> wr_calls w i = Some (QcWait f) \<and> i \<notin> wr_acked w \<and> wr_pc w = WtGone \<and> wr_ctx w = None \<and> i < wr_next w"

lemma queue_step_others:
  assumes "w' \<in> set (queue_step w j)"
  shows "\<exists>q. wr_calls w' = (wr_calls w)(j \<mapsto> q) \<and> wr_acked w' = wr_acked w \<and> wr_pc w' = wr_pc w \<and> wr_ctx w' = wr_ctx w
    \<and> wr_next w' = wr_next w"
proof (cases "wr_calls w j")
  case (Some q)
  with assms show ?thesis by (cases q) (auto simp: queue_step_def set_call_def split: if_splits)
qed (use assms in \<open>simp add: queue_step_def\<close>)

lemma queue_hangs_after_shutdown:
  assumes "runs writer_outcomes w evs w'" and "stuck i f w" and "\<forall>e. WeCancel e \<notin> set evs"
  shows "stuck i f w'"
proof (rule runs_invariant [OF assms(1), of "stuck i f"])
  show "stuck i f w" by (rule assms(2))
  fix w1 w2 ev
  assume st: "stuck i f w1" and ev: "ev \<in> set evs" and w2: "w2 \<in> set (writer_outcomes w1 ev)"
  show "stuck i f w2"
  proof (cases ev)
    case (WeCall j)
    then have step: "w2 \<in> set (queue_step w1 j)" using w2 by (simp add: writer_outcomes_def)
    then have "j \<noteq> i" using st by (auto simp: stuck_def queue_step_def)
    then show ?thesis using queue_step_others [OF step] st by (auto simp: stuck_def)
  next
    case (WeCancel e)
    then show ?thesis using ev assms(3) by blast
  qed (use st w2 in \<open>auto simp: stuck_def writer_outcomes_def queue_start_def writer_select_def writer_sent_def
      mux_shutdown_def\<close>)
qed

text \<open>
  It happens in a connection whose context lives on: a handler queues a frame, the connection is lost, and the writer
  takes the case of \<open>m.done\<close> while the frame is in the channel. The frame is never sent and the call never returns.
\<close>

definition stuck_run :: "(writer_event \<times> nat) list" where
  "stuck_run = [(WeQueue demo_response, 0), (WeCall 0, 0), (WeShutdown, 0), (WeWriter, 1)]"

lemma queue_can_hang: "\<exists>w. play writer_outcomes (new_writer None) stuck_run = Some w \<and> stuck 0 demo_response w"
  by (simp add: stuck_run_def writer_eval stuck_def)

text \<open>Without shutdown and cancellation no call is stuck: while it waits, its frame is in the channel or being sent.\<close>

lemma waiting_is_served:
  assumes "runs writer_outcomes (new_writer ctx) evs w" and "wr_calls w i = Some (QcWait f)" and "i \<notin> wr_acked w"
  shows "(i, f) \<in> set (wr_out w) \<or> wr_pc w = WtSend i f"
proof -
  have inv: "writer_inv w" by (rule writer_run_inv [OF assms(1)])
  have e: "(i, f) \<in> set (entered w)" using writer_invD(3) [OF inv assms(2)] by simp
  have a: "(i, f) \<notin> set (finished w)" using assms(3) writer_invD(5) [OF inv] by force
  show ?thesis
  proof (cases "wr_pc w")
    case (WtSend j g)
    then have "wr_tried w = finished w @ [(j, g)]"
      using writer_invD(4) [OF inv WtSend] by (simp add: finished_def) (metis append_butlast_last_id)
    with e a WtSend show ?thesis by (auto simp: entered_def)
  qed (use e a in \<open>auto simp: entered_def finished_def\<close>)
qed

end
