(* ===== verification/Rpc_Drain.thy ===== *)
theory Rpc_Drain
  imports Handler_Runs Rpc_Client_Laws "HOL-Library.Sublist"
begin

text \<open>
  The loop in which a caller reads a stream to its end: \<open>ClientStream.Recv\<close> (\<open>rpc/client.go\<close>) until \<open>io.EOF\<close>, as the
  examples have it, interleaved with the frames of the answer and the loss of the connection.
\<close>

section \<open>The loop\<close>

text \<open>
  Before the first \<open>select\<close> of \<open>Recv\<close>, before its second, and after the loop: \<open>None\<close> is the \<open>break\<close>. \<open>dr_wire\<close> are the
  response frames still on their way.
\<close>

datatype drain_pc = DrPoll | DrWait | DrOver "go_error option"

record drain =
  dr_client :: client
  dr_wire :: "response_frame list"
  dr_pc :: drain_pc
  dr_read :: "bytes list"

definition drain_result :: "(go_error \<Rightarrow> bool) \<Rightarrow> nat \<Rightarrow> drain \<Rightarrow> client_stream \<times> recv_result \<Rightarrow> drain" where
  "drain_result is_eof sid d x =
     (let d1 = d\<lparr>dr_client := set_cs (dr_client d) sid (fst x)\<rparr> in
      case snd x of
        (dat, None) \<Rightarrow> d1\<lparr>dr_pc := DrPoll, dr_read := dr_read d @ [dat]\<rparr>
      | (dat, Some e) \<Rightarrow> d1\<lparr>dr_pc := DrOver (if is_eof e then None else Some e)\<rparr>)"

definition drain_step :: "(go_error \<Rightarrow> bool) \<Rightarrow> nat \<Rightarrow> ctx_err option \<Rightarrow> drain \<Rightarrow> drain list" where
  "drain_step is_eof sid ctx_done d =
     (case cl_heap (dr_client d) sid of
        None \<Rightarrow> []
      | Some cs \<Rightarrow>
          (case dr_pc d of
             DrPoll \<Rightarrow> map (\<lambda>x. case x of None \<Rightarrow> d\<lparr>dr_pc := DrWait\<rparr> | Some y \<Rightarrow> drain_result is_eof sid d y) (cs_Recv_poll cs)
           | DrWait \<Rightarrow> map (drain_result is_eof sid d) (cs_Recv_wait cs ctx_done)
           | DrOver e \<Rightarrow> []))"

text \<open>
  \<open>Attach\<close> dispatches the frames in the order of their arrival until the channel fails; \<open>failAll\<close> then runs once.
\<close>

datatype drain_event = DvFrame | DvLost go_error | DvStep "ctx_err option"

definition drain_outcomes :: "(go_error \<Rightarrow> bool) \<Rightarrow> nat \<Rightarrow> drain \<Rightarrow> drain_event \<Rightarrow> drain list" where
  "drain_outcomes is_eof sid d ev =
     (case ev of
        DvFrame \<Rightarrow>
          if cl_failed (dr_client d) \<or> cl_crashed (dr_client d) \<noteq> None then []
          else (case dr_wire d of
                  [] \<Rightarrow> []
                | f # fs \<Rightarrow> map (\<lambda>c. d\<lparr>dr_client := c, dr_wire := fs\<rparr>) (dispatch (dr_client d) f))
      | DvLost err \<Rightarrow> if cl_failed (dr_client d) then [] else [d\<lparr>dr_client := failAll (dr_client d) err\<rparr>]
      | DvStep ctx_done \<Rightarrow> drain_step is_eof sid ctx_done d)"

definition start_drain :: "client \<Rightarrow> response_frame list \<Rightarrow> drain" where
  "start_drain c fs = \<lparr>dr_client = c, dr_wire = fs, dr_pc = DrPoll, dr_read = []\<rparr>"

section \<open>The invariant\<close>

definition queued :: "client_stream \<Rightarrow> bytes list" where
  "queued cs = map ir_data (cs_inbound cs)"

definition small_frames :: "int \<Rightarrow> bytes list \<Rightarrow> rpc_status \<Rightarrow> response_frame list" where
  "small_frames seq bs status =
     map (\<lambda>b. data_frame seq (Data_Message b)) bs @ [end_frame seq (end_with status Map.empty)]"

lemma small_reply:
  "\<forall>b \<in> set outs. length b \<le> MessageMax \<Longrightarrow>
     reply_frames seq outs status = begin_frame seq Map.empty # small_frames seq outs status"
  by (induction outs) (auto simp: reply_frames_def message_frames_def small_frames_def payload_contents_def)

text \<open>What the stream looks like before its end, when the server has ended it, and when the connection was lost.\<close>

fun drain_phase :: "int \<Rightarrow> nat \<Rightarrow> bytes list \<Rightarrow> rpc_status \<Rightarrow> go_error set \<Rightarrow> drain \<Rightarrow> client_stream \<Rightarrow> bool" where
  "drain_phase seq sid outs status losses d cs \<longleftrightarrow>
     \<not> cs_end cs \<and> \<not> cl_failed (dr_client d) \<and> cl_streams (dr_client d) seq = Some sid
       \<and> (\<exists>rest. outs = dr_read d @ queued cs @ rest
            \<and> (dr_wire d = small_frames seq rest status
               \<or> dr_wire d = begin_frame seq Map.empty # small_frames seq rest status))
     \<or> cs_end cs \<and> dr_wire d = [] \<and> outs = dr_read d @ queued cs
       \<and> cs_result cs = \<lparr>er_status = status, er_err = status_Err (Some status)\<rparr>
     \<or> cs_end cs \<and> cl_failed (dr_client d) \<and> prefix (dr_read d @ queued cs) outs
       \<and> (\<exists>e \<in> losses. cs_result cs = \<lparr>er_status = Err 14 (Some e), er_err = Some e\<rparr>)"

fun drain_said :: "(go_error \<Rightarrow> bool) \<Rightarrow> rpc_status \<Rightarrow> go_error set \<Rightarrow> ctx_err set \<Rightarrow> client_stream \<Rightarrow> drain_pc \<Rightarrow> bool" where
  "drain_said is_eof status losses cancels cs (DrOver None) \<longleftrightarrow>
     cs_end cs \<and> (st_code status = 0 \<and> cs_result cs = \<lparr>er_status = status, er_err = status_Err (Some status)\<rparr>)"
| "drain_said is_eof status losses cancels cs (DrOver (Some e)) \<longleftrightarrow>
     st_code status \<noteq> 0 \<and> status_Err (Some status) = Some e \<or> e \<in> losses \<or> e \<in> CtxErr ` cancels"
| "drain_said is_eof status losses cancels cs pc \<longleftrightarrow> True"

definition drain_inv ::
  "(go_error \<Rightarrow> bool) \<Rightarrow> int \<Rightarrow> nat \<Rightarrow> bytes list \<Rightarrow> rpc_status \<Rightarrow> go_error set \<Rightarrow> ctx_err set \<Rightarrow> drain \<Rightarrow> bool" where
  "drain_inv is_eof seq sid outs status losses cancels d \<longleftrightarrow>
     cl_crashed (dr_client d) = None
     \<and> (\<exists>cs. cl_heap (dr_client d) sid = Some cs \<and> (\<forall>r \<in> set (cs_inbound cs). ir_err r = None)
          \<and> length (cs_inbound cs) \<le> respCap
          \<and> drain_phase seq sid outs status losses d cs \<and> drain_said is_eof status losses cancels cs (dr_pc d))"

text \<open>The tests for the end of the stream in the examples, \<open>err == io.EOF\<close> and \<open>errors.Is(err, io.EOF)\<close>.\<close>

definition eof_tests :: "(go_error \<Rightarrow> bool) set" where
  "eof_tests = {\<lambda>e. e = EOF, \<lambda>e. errors_Is e EOF}"

lemma eof_testsD:
  assumes "is_eof \<in> eof_tests"
  shows "is_eof EOF" and "\<not> is_eof (ErrNew m)" and "\<not> is_eof (CtxErr c)"
  using assms by (auto simp: eof_tests_def)


section \<open>Every step keeps it\<close>

lemma dispatch_begin:
  assumes "int32 seq = seq" and "cl_streams c seq = Some sid" and "cl_heap c sid = Some cs"
  shows "dispatch c (begin_frame seq Map.empty) = [set_cs c sid (cs\<lparr>cs_header := mergeIn (cs_header cs) Map.empty\<rparr>)]"
  using assms by (simp add: dispatch_def begin_frame_def resp_frame_def)

lemma dispatch_message:
  assumes "int32 seq = seq" and "cl_streams c seq = Some sid" and "cl_heap c sid = Some cs" and "\<not> cs_end cs"
  shows "dispatch c (data_frame seq (Data_Message b)) =
    (if length (cs_inbound cs) < respCap
     then [set_cs c sid (cs\<lparr>cs_inbound := cs_inbound cs @ [\<lparr>ir_data = b, ir_err = None\<rparr>]\<rparr>)] else [])"
  using assms by (simp add: dispatch_def data_frame_def resp_frame_def client_data_def client_deliver_def)

lemma dispatch_end:
  assumes "int32 seq = seq" and "cl_streams c seq = Some sid" and "cl_heap c sid = Some cs" and "\<not> cs_end cs"
  shows "\<exists>c'. dispatch c (end_frame seq (end_with status Map.empty)) = [c'] \<and> cl_crashed c' = cl_crashed c
    \<and> cl_heap c' sid = Some (cs\<lparr>cs_trailer := mergeIn (cs_trailer cs) Map.empty,
        cs_result := \<lparr>er_status = status, er_err = status_Err (Some status)\<rparr>, cs_end := True\<rparr>)"
  using assms
  by (simp add: dispatch_def end_frame_def resp_frame_def client_end_def end_with_def finish_cs_def set_cs_def Let_def)

lemma said_mono:
  assumes "drain_said is_eof status losses cancels cs pc"
    and "cs_end cs \<Longrightarrow> cs_end cs' \<and> cs_result cs' = cs_result cs"
  shows "drain_said is_eof status losses cancels cs' pc"
  using assms by (cases "(is_eof, status, losses, cancels, cs, pc)" rule: drain_said.cases) auto

lemma frame_keeps:
  assumes seq: "int32 seq = seq" and inv: "drain_inv is_eof seq sid outs status losses cancels d" and d': "d' \<in> set (drain_outcomes is_eof sid d DvFrame)"
  shows "drain_inv is_eof seq sid outs status losses cancels d'"
proof -
  let ?c = "dr_client d"
  from d' obtain f fs c' where w: "dr_wire d = f # fs" "c' \<in> set (dispatch ?c f)" "d' = d\<lparr>dr_client := c', dr_wire := fs\<rparr>"
    and nf: "\<not> cl_failed ?c"
    by (cases "dr_wire d") (auto simp: drain_outcomes_def split: if_splits)
  from inv obtain cs where cs: "cl_crashed ?c = None" "cl_heap ?c sid = Some cs" "\<forall>r \<in> set (cs_inbound cs). ir_err r = None"
    "length (cs_inbound cs) \<le> respCap" "drain_phase seq sid outs status losses d cs"
    "drain_said is_eof status losses cancels cs (dr_pc d)"
    by (auto simp: drain_inv_def)
  from cs(5) w(1) nf obtain rest where live: "\<not> cs_end cs" "cl_streams ?c seq = Some sid" "outs = dr_read d @ queued cs @ rest"
    and wire: "dr_wire d = small_frames seq rest status \<or> dr_wire d = begin_frame seq Map.empty # small_frames seq rest status"
    by auto
  note st = seq live(2) cs(2)
  from wire show ?thesis
  proof
    assume b: "dr_wire d = begin_frame seq Map.empty # small_frames seq rest status"
    let ?cs = "cs\<lparr>cs_header := mergeIn (cs_header cs) Map.empty\<rparr>"
    have c': "c' = set_cs ?c sid ?cs" using w b dispatch_begin [OF st] by simp
    have "drain_said is_eof status losses cancels ?cs (dr_pc d)" by (rule said_mono [OF cs(6)]) simp
    then show ?thesis using cs live b w nf by (auto simp: drain_inv_def c' set_cs_def queued_def)
  next
    assume s: "dr_wire d = small_frames seq rest status"
    show ?thesis
    proof (cases rest)
      case (Cons b bs)
      have f: "f = data_frame seq (Data_Message b)" "fs = small_frames seq bs status"
        using s w(1) by (simp_all add: Cons small_frames_def)
      let ?cs = "cs\<lparr>cs_inbound := cs_inbound cs @ [\<lparr>ir_data = b, ir_err = None\<rparr>]\<rparr>"
      have c': "c' = set_cs ?c sid ?cs" "length (cs_inbound cs) < respCap"
        using w(2) f(1) dispatch_message [OF st live(1), of b] by (auto split: if_splits)
      have "drain_said is_eof status losses cancels ?cs (dr_pc d)" by (rule said_mono [OF cs(6)]) simp
      then show ?thesis using cs live f w nf c'(2) by (auto simp: drain_inv_def c'(1) set_cs_def queued_def Cons)
    next
      case Nil
      have f: "f = end_frame seq (end_with status Map.empty)" "fs = []" using s w(1) by (simp_all add: Nil small_frames_def)
      let ?cs = "cs\<lparr>cs_trailer := mergeIn (cs_trailer cs) Map.empty,
        cs_result := \<lparr>er_status = status, er_err = status_Err (Some status)\<rparr>, cs_end := True\<rparr>"
      have c': "cl_crashed c' = None" "cl_heap c' sid = Some ?cs"
        using w(2) f(1) dispatch_end [OF st live(1), of status] cs(1) by auto
      have "drain_said is_eof status losses cancels ?cs (dr_pc d)" by (rule said_mono [OF cs(6)]) (use live(1) in simp)
      then show ?thesis using cs live f w c' by (simp add: drain_inv_def queued_def Nil)
    qed
  qed
qed

lemma lost_keeps:
  assumes inv: "drain_inv is_eof seq sid outs status losses cancels d" and d': "d' \<in> set (drain_outcomes is_eof sid d (DvLost err))" and err: "err \<in> losses"
  shows "drain_inv is_eof seq sid outs status losses cancels d'"
proof -
  let ?c = "dr_client d"
  from d' have w: "d' = d\<lparr>dr_client := failAll ?c err\<rparr>" "\<not> cl_failed ?c"
    by (auto simp: drain_outcomes_def split: if_splits)
  from inv obtain cs where cs: "cl_crashed ?c = None" "cl_heap ?c sid = Some cs" "\<forall>r \<in> set (cs_inbound cs). ir_err r = None"
    "length (cs_inbound cs) \<le> respCap" "drain_phase seq sid outs status losses d cs"
    "drain_said is_eof status losses cancels cs (dr_pc d)"
    by (auto simp: drain_inv_def)
  let ?f = "finish_cs cs \<lparr>er_status = Err 14 (Some err), er_err = Some err\<rparr>"
  have said: "drain_said is_eof status losses cancels ?f (dr_pc d)"
    by (rule said_mono [OF cs(6)]) (simp add: finish_cs_def)
  show ?thesis
  proof (cases "cs_end cs")
    case True
    then have "cl_heap (failAll ?c err) sid = Some cs" using cs(2) by (simp add: failAll_def finish_cs_def)
    then show ?thesis using cs w True err by (auto simp: drain_inv_def failAll_def)
  next
    case False
    with cs(5) have "cl_streams ?c seq = Some sid" and p: "prefix (dr_read d @ queued cs) outs" by auto
    then have "cl_heap (failAll ?c err) sid = Some ?f" using cs(2) w(2) by (auto simp: failAll_def intro: ranI)
    then show ?thesis using cs w(2) False err p said
      by (auto simp: drain_inv_def w(1) failAll_def finish_cs_def queued_def)
  qed
qed

lemma result_keeps:
  assumes eof: "is_eof \<in> eof_tests" and losses: "\<forall>e \<in> losses. \<not> is_eof e"
    and inv: "drain_inv is_eof seq sid outs status losses cancels d" and heap: "cl_heap (dr_client d) sid = Some cs"
    and x: "x = take_resp cs \<and> cs_inbound cs \<noteq> [] \<or> x \<in> set (cs_Recv_wait cs ctx_done)"
    and cancel: "\<And>e. ctx_done = Some e \<Longrightarrow> e \<in> cancels"
  shows "drain_inv is_eof seq sid outs status losses cancels (drain_result is_eof sid d x)"
proof -
  from inv heap have cs: "cl_crashed (dr_client d) = None" "\<forall>r \<in> set (cs_inbound cs). ir_err r = None"
    "length (cs_inbound cs) \<le> respCap" "drain_phase seq sid outs status losses d cs"
    by (auto simp: drain_inv_def)
  from x consider (msg) "x = take_resp cs" "cs_inbound cs \<noteq> []"
    | (fin) "cs_end cs" "x = (cs, [], if er_err (cs_result cs) \<noteq> None \<and> st_code (er_status (cs_result cs)) \<noteq> 0
         then er_err (cs_result cs) else Some EOF)"
    | (ctx) e where "ctx_done = Some e" "x = (cs, [], Some (CtxErr e))"
    by (auto simp: cs_Recv_wait_def split: if_split_asm)
  then show ?thesis
  proof cases
    case msg
    obtain r rs where r: "cs_inbound cs = r # rs" "ir_err r = None" using msg(2) cs(2) by (cases "cs_inbound cs") auto
    have "drain_result is_eof sid d x = d\<lparr>dr_client := set_cs (dr_client d) sid (cs\<lparr>cs_inbound := rs\<rparr>), dr_pc := DrPoll,
        dr_read := dr_read d @ [ir_data r]\<rparr>"
      using msg(1) r by (simp add: drain_result_def take_resp_def)
    then show ?thesis using cs r by (auto simp: drain_inv_def set_cs_def queued_def)
  next
    case fin
    have same: "set_cs (dr_client d) sid cs = dr_client d" using heap by (simp add: set_cs_def map_upd_triv)
    show ?thesis
    proof (cases "cs_result cs = \<lparr>er_status = status, er_err = status_Err (Some status)\<rparr>")
      case True
      have "drain_result is_eof sid d x =
          d\<lparr>dr_pc := DrOver (if st_code status = 0 then None else status_Err (Some status))\<rparr>"
        using True fin eof_testsD [OF eof] by (simp add: drain_result_def same status_Err_def Let_def)
      then show ?thesis using cs heap True fin(1)
        by (auto simp: drain_inv_def status_Err_def simp del: drain_phase.simps split: if_splits) auto
    next
      case False
      with cs(4) fin(1) obtain e where e: "e \<in> losses" "cs_result cs = \<lparr>er_status = Err 14 (Some e), er_err = Some e\<rparr>"
        by auto
      then have "drain_result is_eof sid d x = d\<lparr>dr_pc := DrOver (Some e)\<rparr>"
        using fin losses by (simp add: drain_result_def same Err_def Let_def)
      then show ?thesis using cs heap e by (auto simp: drain_inv_def)
    qed
  next
    case ctx
    have same: "set_cs (dr_client d) sid cs = dr_client d" using heap by (simp add: set_cs_def map_upd_triv)
    have "drain_result is_eof sid d x = d\<lparr>dr_pc := DrOver (Some (CtxErr e))\<rparr>"
      using ctx eof_testsD [OF eof] by (simp add: drain_result_def same)
    then show ?thesis using cs heap cancel [OF ctx(1)] by (auto simp: drain_inv_def)
  qed
qed

lemma step_keeps:
  assumes eof: "is_eof \<in> eof_tests" and losses: "\<forall>e \<in> losses. \<not> is_eof e"
    and inv: "drain_inv is_eof seq sid outs status losses cancels d" and d': "d' \<in> set (drain_outcomes is_eof sid d (DvStep ctx_done))"
    and cancel: "\<And>e. ctx_done = Some e \<Longrightarrow> e \<in> cancels"
  shows "drain_inv is_eof seq sid outs status losses cancels d'"
proof -
  from inv obtain cs where cs: "cl_heap (dr_client d) sid = Some cs" by (auto simp: drain_inv_def)
  show ?thesis
  proof (cases "dr_pc d")
    case DrPoll
    show ?thesis
    proof (cases "cs_inbound cs = []")
      case True
      then have "d' = d\<lparr>dr_pc := DrWait\<rparr>"
        using d' cs DrPoll by (simp add: drain_outcomes_def drain_step_def cs_Recv_poll_def select_default_def)
      then show ?thesis using inv DrPoll by (auto simp: drain_inv_def)
    next
      case False
      then have "d' = drain_result is_eof sid d (take_resp cs)"
        using d' cs DrPoll by (simp add: drain_outcomes_def drain_step_def cs_Recv_poll_def select_default_def)
      then show ?thesis using result_keeps [OF eof losses inv cs, of "take_resp cs" ctx_done] cancel False by simp
    qed
  next
    case DrWait
    then obtain x where "x \<in> set (cs_Recv_wait cs ctx_done)" "d' = drain_result is_eof sid d x"
      using d' cs by (auto simp: drain_outcomes_def drain_step_def)
    then show ?thesis using result_keeps [OF eof losses inv cs, of x ctx_done] cancel by simp
  next
    case (DrOver e)
    then show ?thesis using d' cs by (simp add: drain_outcomes_def drain_step_def)
  qed
qed


section \<open>What every step uses up\<close>

fun pc_left :: "drain_pc \<Rightarrow> nat" where
  "pc_left DrPoll = 2"
| "pc_left DrWait = 1"
| "pc_left (DrOver e) = 0"

definition drain_left :: "nat \<Rightarrow> drain \<Rightarrow> nat" where
  "drain_left sid d = 3 * length (dr_wire d) + pc_left (dr_pc d) + (if cl_failed (dr_client d) then 0 else 1)
     + (case cl_heap (dr_client d) sid of None \<Rightarrow> 0 | Some cs \<Rightarrow> 2 * length (cs_inbound cs))"

definition grown :: "nat \<Rightarrow> client_stream \<Rightarrow> client \<Rightarrow> client \<Rightarrow> bool" where
  "grown sid cs c c' \<longleftrightarrow> cl_failed c' = cl_failed c
     \<and> (\<exists>cs'. cl_heap c' sid = Some cs' \<and> length (cs_inbound cs') \<le> Suc (length (cs_inbound cs)))"

lemma deliver_growth:
  assumes "c' \<in> set (client_deliver c sid1 b)" and "cl_heap c sid = Some cs"
  shows "grown sid cs c c'"
  using assms by (auto simp: client_deliver_def grown_def set_cs_def split: option.splits if_splits)

lemma data_growth:
  assumes "c' \<in> set (client_data c sid1 seq x)" and "cl_heap c sid = Some cs"
  shows "grown sid cs c c'"
proof -
  have same: "grown sid cs c c" "grown sid cs c (c\<lparr>cl_crashed := e\<rparr>)" "grown sid cs c (c\<lparr>cl_reasm := r\<rparr>)" for e r
    using assms(2) by (auto simp: grown_def)
  have full: "grown sid cs c c'" if "c' \<in> set (client_deliver (c\<lparr>cl_reasm := r\<rparr>) sid1 b)" for r b
    using deliver_growth [OF that, of sid cs] assms(2) by (simp add: grown_def)
  show ?thesis
    using assms(1) same full deliver_growth [OF _ assms(2), of c']
    by (auto simp: client_data_def split: option.splits data_content.splits go.splits)
qed

lemma dispatch_growth:
  assumes "c' \<in> set (dispatch c f)" and cs: "cl_heap c sid = Some cs"
  shows "grown sid cs c c'"
proof -
  have same: "grown sid cs c c" using cs by (auto simp: grown_def)
  show ?thesis
  proof (cases "Option.bind (cl_streams c (routing_seq (r_routing f))) (cl_heap c)")
    case None
    then show ?thesis using assms(1) same by (auto simp: dispatch_def Let_def bind_eq_None_conv split: option.splits)
  next
    case (Some cs1)
    then obtain sid1 where s1: "cl_streams c (routing_seq (r_routing f)) = Some sid1" "cl_heap c sid1 = Some cs1"
      by (auto simp: bind_eq_Some_conv)
    have header: "grown sid cs c (set_cs c sid1 (cs1\<lparr>cs_header := h\<rparr>))" for h
      using cs s1(2) by (auto simp: grown_def set_cs_def)
    have inline: "grown sid cs c c'" if "c' \<in> set (client_deliver (set_cs c sid1 (cs1\<lparr>cs_header := h\<rparr>)) sid1 b)" for h b
    proof (cases "sid1 = sid")
      case True
      then show ?thesis
        using deliver_growth [OF that, of sid "cs1\<lparr>cs_header := h\<rparr>"] cs s1(2) by (simp add: grown_def set_cs_def)
    next
      case False
      then show ?thesis using deliver_growth [OF that, of sid cs] cs by (simp add: grown_def set_cs_def)
    qed
    have ended: "grown sid cs c (client_end c sid1 cs1 seq e)" for seq e
      using cs s1(2) by (auto simp: grown_def client_end_def finish_cs_def set_cs_def Let_def split: option.split)
    show ?thesis
      using assms(1) s1 same header inline ended data_growth [OF _ cs, of c'] deliver_growth [OF _ cs, of c']
      by (auto simp: dispatch_def Let_def split: option.splits response_type.splits if_splits)
  qed
qed

lemma drain_result_left:
  assumes "cl_heap (dr_client d) sid = Some cs" and "\<forall>r \<in> set (cs_inbound cs). ir_err r = None"
    and "x = take_resp cs \<and> cs_inbound cs \<noteq> [] \<or> x \<in> set (cs_Recv_wait cs ctx_done)" and "\<forall>r. dr_pc d \<noteq> DrOver r"
  shows "drain_left sid (drain_result is_eof sid d x) < drain_left sid d"
proof -
  have pos: "0 < pc_left (dr_pc d)" using assms(4) by (cases "dr_pc d") auto
  from assms(3) consider "x = take_resp cs" "cs_inbound cs \<noteq> []" | e where "x = (cs, [], Some e)"
    by (auto simp: cs_Recv_wait_def split: if_split_asm)
  then show ?thesis
  proof cases
    case 1
    then obtain r rs where "cs_inbound cs = r # rs" "ir_err r = None" using assms(2) by (cases "cs_inbound cs") auto
    with 1 assms(1) pos show ?thesis by (simp add: drain_left_def drain_result_def take_resp_def set_cs_def)
  next
    case 2
    with assms(1) pos show ?thesis by (simp add: drain_left_def drain_result_def set_cs_def)
  qed
qed

lemma drain_progress:
  assumes inv: "drain_inv is_eof seq sid outs status losses cancels d"
    and d': "d' \<in> set (drain_outcomes is_eof sid d ev)"
  shows "drain_left sid d' < drain_left sid d"
proof -
  from inv obtain cs where cs: "cl_heap (dr_client d) sid = Some cs" "\<forall>r \<in> set (cs_inbound cs). ir_err r = None"
    by (auto simp: drain_inv_def)
  show ?thesis
  proof (cases ev)
    case DvFrame
    with d' obtain f fs c' where w: "dr_wire d = f # fs" "c' \<in> set (dispatch (dr_client d) f)"
      "d' = d\<lparr>dr_client := c', dr_wire := fs\<rparr>"
      by (cases "dr_wire d") (auto simp: drain_outcomes_def split: if_splits)
    from dispatch_growth [OF w(2) cs(1)] w cs(1) show ?thesis by (auto simp: drain_left_def grown_def)
  next
    case (DvLost err)
    with d' have "d' = d\<lparr>dr_client := failAll (dr_client d) err\<rparr>" "\<not> cl_failed (dr_client d)"
      by (auto simp: drain_outcomes_def split: if_splits)
    then show ?thesis using cs(1) by (auto simp: drain_left_def failAll_def finish_cs_def)
  next
    case (DvStep ctx_done)
    show ?thesis
    proof (cases "dr_pc d")
      case DrPoll
      show ?thesis
      proof (cases "cs_inbound cs = []")
        case True
        then have "d' = d\<lparr>dr_pc := DrWait\<rparr>"
          using d' cs DrPoll DvStep by (simp add: drain_outcomes_def drain_step_def cs_Recv_poll_def select_default_def)
        then show ?thesis using DrPoll by (simp add: drain_left_def)
      next
        case False
        then have "d' = drain_result is_eof sid d (take_resp cs)"
          using d' cs DrPoll DvStep by (simp add: drain_outcomes_def drain_step_def cs_Recv_poll_def select_default_def)
        then show ?thesis using drain_result_left [OF cs, of "take_resp cs"] False DrPoll by simp
      qed
    next
      case DrWait
      then obtain x where "x \<in> set (cs_Recv_wait cs ctx_done)" "d' = drain_result is_eof sid d x"
        using d' cs DvStep by (auto simp: drain_outcomes_def drain_step_def)
      then show ?thesis using drain_result_left [OF cs, of x ctx_done] DrWait by simp
    next
      case (DrOver e)
      then show ?thesis using d' cs DvStep by (simp add: drain_outcomes_def drain_step_def)
    qed
  qed
qed

lemma drain_not_stuck:
  assumes inv: "drain_inv is_eof seq sid outs status losses cancels d" and seq: "int32 seq = seq"
    and run: "\<forall>r. dr_pc d \<noteq> DrOver r"
  shows "drain_outcomes is_eof sid d DvFrame \<noteq> [] \<or> drain_outcomes is_eof sid d (DvStep None) \<noteq> []"
proof -
  from inv obtain cs where cs: "cl_crashed (dr_client d) = None" "cl_heap (dr_client d) sid = Some cs"
    "drain_phase seq sid outs status losses d cs"
    by (auto simp: drain_inv_def simp del: drain_phase.simps)
  show ?thesis
  proof (cases "dr_pc d = DrWait \<and> cs_inbound cs = [] \<and> \<not> cs_end cs")
    case True
    with cs(3) obtain rest where live: "\<not> cl_failed (dr_client d)" "cl_streams (dr_client d) seq = Some sid"
      and wire: "dr_wire d = small_frames seq rest status \<or> dr_wire d = begin_frame seq Map.empty # small_frames seq rest status"
      by auto
    note st = seq live(2) cs(2)
    have "\<exists>f fs. dr_wire d = f # fs \<and> dispatch (dr_client d) f \<noteq> []"
      using wire dispatch_begin [OF st] dispatch_message [OF st] dispatch_end [OF st, of status] True
      by (cases rest) (auto simp: small_frames_def respCap_def)
    then show ?thesis using cs(1) live(1) by (auto simp: drain_outcomes_def)
  next
    case False
    then have "drain_outcomes is_eof sid d (DvStep None) \<noteq> []"
      using run cs(2) by (cases "dr_pc d")
        (auto simp: drain_outcomes_def drain_step_def cs_Recv_poll_def cs_Recv_wait_def select_default_def)
    then show ?thesis by blast
  qed
qed

section \<open>What the loop reads\<close>

text \<open>A stream that was just opened, to be answered with messages that need no chunks.\<close>

definition drain_ready :: "client \<Rightarrow> int \<Rightarrow> nat \<Rightarrow> bytes list \<Rightarrow> bool" where
  "drain_ready c seq sid outs \<longleftrightarrow>
     int32 seq = seq \<and> cl_streams c seq = Some sid \<and> \<not> cl_failed c \<and> cl_crashed c = None
     \<and> (case cl_heap c sid of None \<Rightarrow> False | Some cs \<Rightarrow> cs_inbound cs = [] \<and> \<not> cs_end cs)
     \<and> (\<forall>b \<in> set outs. length b \<le> MessageMax)"

definition lost_in :: "drain_event list \<Rightarrow> go_error set" where
  "lost_in evs = {e. DvLost e \<in> set evs}"

definition cancelled_in :: "drain_event list \<Rightarrow> ctx_err set" where
  "cancelled_in evs = {e. DvStep (Some e) \<in> set evs}"

lemma start_drain_inv:
  assumes "drain_ready c seq sid outs"
  shows "drain_inv is_eof seq sid outs status losses cancels (start_drain c (reply_frames seq outs status))"
  using assms small_reply [of outs seq status]
  by (auto simp: drain_ready_def drain_inv_def start_drain_def queued_def split: option.splits)

lemma drain_run:
  assumes "runs (drain_outcomes is_eof sid) d0 evs d" and "drain_inv is_eof seq sid outs status losses cancels d0"
    and "int32 seq = seq" and "is_eof \<in> eof_tests" and "\<forall>e \<in> losses. \<not> is_eof e"
    and "lost_in evs \<subseteq> losses" and "cancelled_in evs \<subseteq> cancels"
  shows "drain_inv is_eof seq sid outs status losses cancels d \<and> length evs + drain_left sid d \<le> drain_left sid d0"
  using assms
proof (induction rule: runs.induct)
  case (run_step s evs s1 s2 ev)
  have "drain_inv is_eof seq sid outs status losses cancels s1 \<and> length evs + drain_left sid s1 \<le> drain_left sid s"
    by (rule run_step.IH) (use run_step.prems in \<open>auto simp: lost_in_def cancelled_in_def\<close>)
  then have IH: "drain_inv is_eof seq sid outs status losses cancels s1" "length evs + drain_left sid s1 \<le> drain_left sid s"
    by simp_all
  have "drain_inv is_eof seq sid outs status losses cancels s2"
  proof (cases ev)
    case DvFrame
    then show ?thesis using frame_keeps [OF run_step.prems(2) IH(1)] run_step.hyps(2) by simp
  next
    case (DvLost err)
    then show ?thesis using lost_keeps [OF IH(1)] run_step.hyps(2) run_step.prems(5) by (auto simp: lost_in_def)
  next
    case (DvStep ctx_done)
    have "\<And>e. ctx_done = Some e \<Longrightarrow> e \<in> cancels" using run_step.prems(6) DvStep by (auto simp: cancelled_in_def)
    with step_keeps [OF run_step.prems(3,4) IH(1)] run_step.hyps(2) show ?thesis by (simp add: DvStep)
  qed
  with drain_progress [OF IH(1) run_step.hyps(2)] IH(2) show ?case by simp
qed simp

lemmas drain_runs = drain_run [OF _ start_drain_inv _ _ _ order_refl order_refl]

text \<open>
  C39: What a caller gets who reads a stream until \<open>io.EOF\<close>, in every interleaving with the arrival of the answer, the loss of
  the connection and the cancellation of its context: a prefix of the messages sent. The loop ends without an error only
  if the server has ended the stream with status OK, and then the messages it has missed are those still queued, at most
  16; it ends with an error only for the status of the server, for the loss, or for the context. The client starts with
  the open, empty stream of the call (\<open>drain_ready\<close>), the messages of the answer are at most \<open>MessageMax\<close> bytes long, so
  that each is one frame and none is sent in chunks, and a loss is not reported as \<open>io.EOF\<close>.
\<close>

theorem drain_messages:
  assumes "runs (drain_outcomes is_eof sid) (start_drain c (reply_frames seq outs status)) evs d"
    and "drain_ready c seq sid outs" and "is_eof \<in> eof_tests" and "\<forall>e \<in> lost_in evs. \<not> is_eof e"
  shows "prefix (dr_read d) outs
    \<and> (dr_pc d = DrOver None \<longrightarrow> st_code status = 0 \<and> dr_wire d = []
        \<and> (\<exists>cs. cl_heap (dr_client d) sid = Some cs \<and> outs = dr_read d @ queued cs \<and> length (queued cs) \<le> 16))
    \<and> (\<forall>e. dr_pc d = DrOver (Some e) \<longrightarrow>
        st_code status \<noteq> 0 \<and> status_Err (Some status) = Some e \<or> e \<in> lost_in evs \<or> e \<in> CtxErr ` cancelled_in evs)"
proof -
  from drain_runs [OF assms(1,2) _ assms(3,4)] assms(2) obtain cs where cs: "cl_heap (dr_client d) sid = Some cs"
    "length (cs_inbound cs) \<le> respCap" "drain_phase seq sid outs status (lost_in evs) d cs"
    "drain_said is_eof status (lost_in evs) (cancelled_in evs) cs (dr_pc d)"
    by (auto simp: drain_inv_def drain_ready_def simp del: drain_phase.simps)
  have "prefix (dr_read d) outs" using cs(3) by (auto simp: prefix_def)
  moreover have "st_code status = 0 \<and> dr_wire d = [] \<and> outs = dr_read d @ queued cs" if "dr_pc d = DrOver None"
  proof -
    have "cs_end cs" "st_code status = 0" "cs_result cs = \<lparr>er_status = status, er_err = status_Err (Some status)\<rparr>"
      using cs(4) that by auto
    with cs(3) show ?thesis by (auto simp: Err_def status_Err_def)
  qed
  moreover have "length (queued cs) \<le> 16" using cs(2) by (simp add: queued_def respCap_def)
  ultimately show ?thesis using cs(1,4) by auto
qed

text \<open>
  Messages are lost when the loop has found the queue empty and enters the second \<open>select\<close> of \<open>Recv\<close>, and the messages
  and the end arrive before it does: then \<open>select\<close> may take the end of the stream. So the whole answer can be lost.
\<close>

lemma frames_arrive:
  assumes "int32 seq = seq" and "\<not> cl_failed (dr_client d)" and "cl_crashed (dr_client d) = None"
    and "cl_streams (dr_client d) seq = Some sid" and "cl_heap (dr_client d) sid = Some cs" and "\<not> cs_end cs"
    and "dr_wire d = small_frames seq rest status" and "length (cs_inbound cs) + length rest \<le> respCap"
  shows "\<exists>d' cs'. runs (drain_outcomes is_eof sid) d (replicate (Suc (length rest)) DvFrame) d'
    \<and> cl_heap (dr_client d') sid = Some cs' \<and> cs_end cs' \<and> queued cs' = queued cs @ rest
    \<and> cs_result cs' = \<lparr>er_status = status, er_err = status_Err (Some status)\<rparr>
    \<and> dr_pc d' = dr_pc d \<and> dr_read d' = dr_read d \<and> dr_wire d' = []"
  using assms(2-)
proof (induction rest arbitrary: d cs)
  case Nil
  obtain c' where c': "dispatch (dr_client d) (end_frame seq (end_with status Map.empty)) = [c']"
    "cl_heap c' sid = Some (cs\<lparr>cs_trailer := mergeIn (cs_trailer cs) Map.empty,
        cs_result := \<lparr>er_status = status, er_err = status_Err (Some status)\<rparr>, cs_end := True\<rparr>)"
    using dispatch_end [OF assms(1) Nil(3,4,5), of status] by blast
  then have "d\<lparr>dr_client := c', dr_wire := []\<rparr> \<in> set (drain_outcomes is_eof sid d DvFrame)"
    using Nil by (simp add: drain_outcomes_def small_frames_def)
  from runs_one [of _ "drain_outcomes is_eof sid", OF this] c'(2) show ?case
    by (intro exI conjI) (assumption | simp add: queued_def)+
next
  case (Cons b rest)
  let ?cs = "cs\<lparr>cs_inbound := cs_inbound cs @ [\<lparr>ir_data = b, ir_err = None\<rparr>]\<rparr>"
  let ?d = "d\<lparr>dr_client := set_cs (dr_client d) sid ?cs, dr_wire := small_frames seq rest status\<rparr>"
  have step: "?d \<in> set (drain_outcomes is_eof sid d DvFrame)"
    using Cons.prems dispatch_message [OF assms(1) Cons.prems(3,4,5), of b] by (simp add: drain_outcomes_def small_frames_def)
  have "\<exists>d' cs'. runs (drain_outcomes is_eof sid) ?d (replicate (Suc (length rest)) DvFrame) d'
    \<and> cl_heap (dr_client d') sid = Some cs' \<and> cs_end cs' \<and> queued cs' = queued ?cs @ rest
    \<and> cs_result cs' = \<lparr>er_status = status, er_err = status_Err (Some status)\<rparr>
    \<and> dr_pc d' = dr_pc ?d \<and> dr_read d' = dr_read ?d \<and> dr_wire d' = []"
    by (rule Cons.IH) (use Cons.prems in \<open>simp_all add: set_cs_def\<close>)
  then obtain d' cs' where r: "runs (drain_outcomes is_eof sid) ?d (replicate (Suc (length rest)) DvFrame) d'"
    "cl_heap (dr_client d') sid = Some cs'" "cs_end cs'" "queued cs' = queued ?cs @ rest"
    "cs_result cs' = \<lparr>er_status = status, er_err = status_Err (Some status)\<rparr>"
    "dr_pc d' = dr_pc ?d" "dr_read d' = dr_read ?d" "dr_wire d' = []"
    by (elim exE conjE) (rule that, assumption+)
  from runs_Cons [OF r(1) step] r(2-) show ?case
    by (intro exI [where x = d'] exI [where x = cs']) (simp add: queued_def)
qed

lemma answer_lost:
  assumes ready: "drain_ready c seq sid outs" and eof: "is_eof \<in> eof_tests" and ok: "st_code status = 0"
    and "length outs \<le> respCap"
  shows "\<exists>evs d. runs (drain_outcomes is_eof sid) (start_drain c (reply_frames seq outs status)) evs d
    \<and> lost_in evs = {} \<and> cancelled_in evs = {} \<and> dr_pc d = DrOver None \<and> dr_read d = []"
proof -
  let ?d0 = "start_drain c (reply_frames seq outs status)"
  from ready obtain cs where c: "int32 seq = seq" "cl_streams c seq = Some sid" "\<not> cl_failed c" "cl_crashed c = None"
    "cl_heap c sid = Some cs" "cs_inbound cs = []" "\<not> cs_end cs" "\<forall>b \<in> set outs. length b \<le> MessageMax"
    by (auto simp: drain_ready_def split: option.splits)
  let ?d1 = "?d0\<lparr>dr_pc := DrWait\<rparr>"
  let ?cs = "cs\<lparr>cs_header := mergeIn (cs_header cs) Map.empty\<rparr>"
  let ?d2 = "?d1\<lparr>dr_client := set_cs c sid ?cs, dr_wire := small_frames seq outs status\<rparr>"
  have s1: "?d1 \<in> set (drain_outcomes is_eof sid ?d0 (DvStep None))"
    using c by (simp add: drain_outcomes_def drain_step_def start_drain_def cs_Recv_poll_def select_default_def)
  have s2: "?d2 \<in> set (drain_outcomes is_eof sid ?d1 DvFrame)"
    using c dispatch_begin [OF c(1,2,5)] by (simp add: drain_outcomes_def start_drain_def small_reply)
  obtain d3 cs3 where s3: "runs (drain_outcomes is_eof sid) ?d2 (replicate (Suc (length outs)) DvFrame) d3"
    "cl_heap (dr_client d3) sid = Some cs3" "cs_end cs3"
    "cs_result cs3 = \<lparr>er_status = status, er_err = status_Err (Some status)\<rparr>" "dr_pc d3 = DrWait" "dr_read d3 = []"
    using frames_arrive [OF c(1), of ?d2 sid ?cs outs status is_eof] c assms(4)
    by (fastforce simp: set_cs_def start_drain_def)
  have "d3\<lparr>dr_pc := DrOver None\<rparr> \<in> set (drain_outcomes is_eof sid d3 (DvStep None))"
    using s3(2-) ok eof_testsD(1) [OF eof]
    by (simp add: drain_outcomes_def drain_step_def cs_Recv_wait_def drain_result_def set_cs_def map_upd_triv status_Err_def)
  from runs_Cons [OF runs_Cons [OF run_step [OF s3(1) this] s2] s1] s3(6)
  show ?thesis by (intro exI conjI) (assumption | simp add: lost_in_def cancelled_in_def)+
qed

definition drain_client :: "client" where
  "drain_client = fst (InvokeServerStreaming NewClient demo_ctx ''/echo.Echo/Stream'' [1] None)"

lemma drain_client_ready:
  "\<forall>b \<in> set outs. length b \<le> MessageMax \<Longrightarrow> drain_ready drain_client 3 0 outs"
  by (simp add: drain_ready_def drain_client_def InvokeServerStreaming_def client_eval int32_id sendPayload_def)

text \<open>An answer of two messages that arrives between the two \<open>select\<close>s; the second takes the end of the stream.\<close>

theorem drain_messages_witness:
  "\<exists>evs (d :: drain). drain_ready drain_client 3 0 [[7], [8]]
     \<and> runs (drain_outcomes (\<lambda>e. e = EOF) 0) (start_drain drain_client (reply_frames 3 [[7], [8]] status_OK)) evs d
     \<and> lost_in evs = {} \<and> dr_pc d = DrOver None \<and> dr_read d = [] \<and> dr_wire d = []
     \<and> (\<exists>cs. cl_heap (dr_client d) 0 = Some cs \<and> queued cs = [[7], [8]])"
proof -
  let ?eof = "\<lambda>e. e = EOF"
  have ready: "drain_ready drain_client 3 0 [[7], [8]]" by (rule drain_client_ready) (simp add: thresholds)
  have eof: "?eof \<in> eof_tests" by (simp add: eof_tests_def)
  obtain evs d where d: "runs (drain_outcomes ?eof 0) (start_drain drain_client (reply_frames 3 [[7], [8]] status_OK)) evs d"
    "lost_in evs = {}" "dr_pc d = DrOver None" "dr_read d = []"
    using answer_lost [OF ready eof, of status_OK] by (auto simp: status_OK_def respCap_def)
  from drain_messages [OF d(1) ready eof] d(2-) obtain cs where
    "cl_heap (dr_client d) 0 = Some cs" "queued cs = [[7], [8]]" "dr_wire d = []" by auto
  with ready d show ?thesis by blast
qed

text \<open>
  C40: A loop that reads a stream to its end does end. Whatever is interleaved, at most \<open>3 n + 9\<close> steps are possible in all
  for an answer of \<open>n\<close> messages, and as long as the loop has not ended, either it or the arrival of the next frame can go
  on, even when the stream's queue is full, the connection is lost or the loop is between the two \<open>select\<close>s of \<open>Recv\<close>.
  As before, the client starts with the open, empty stream of the call, the messages are at most \<open>MessageMax\<close> bytes
  long, none in chunks, and a loss is not reported as \<open>io.EOF\<close>.
\<close>

theorem drain_ends:
  assumes "runs (drain_outcomes is_eof sid) (start_drain c (reply_frames seq outs status)) evs d"
    and "drain_ready c seq sid outs" and "is_eof \<in> eof_tests" and "\<forall>e \<in> lost_in evs. \<not> is_eof e"
  shows "length evs \<le> 3 * length outs + 9
    \<and> ((\<forall>r. dr_pc d \<noteq> DrOver r) \<longrightarrow>
        drain_outcomes is_eof sid d DvFrame \<noteq> [] \<or> drain_outcomes is_eof sid d (DvStep None) \<noteq> [])"
proof -
  let ?d0 = "start_drain c (reply_frames seq outs status)"
  have seq: "int32 seq = seq" using assms(2) by (simp add: drain_ready_def)
  from drain_runs [OF assms(1,2) seq assms(3,4)]
  have run: "drain_inv is_eof seq sid outs status (lost_in evs) (cancelled_in evs) d"
    "length evs + drain_left sid d \<le> drain_left sid ?d0" by simp_all
  have "drain_left sid ?d0 = 3 * length outs + 9"
    using assms(2) by (auto simp: drain_left_def start_drain_def drain_ready_def small_reply small_frames_def split: option.splits)
  with run(2) drain_not_stuck [OF run(1) seq] show ?thesis by simp
qed

text \<open>A run of such a loop, to its end; and its start, where it can go on.\<close>

theorem drain_ends_witness:
  "drain_ready drain_client 3 0 [[7], [8]]
   \<and> (\<exists>evs (d :: drain).
        runs (drain_outcomes (\<lambda>e. e = EOF) 0) (start_drain drain_client (reply_frames 3 [[7], [8]] status_OK)) evs d
        \<and> dr_pc d = DrOver None \<and> evs \<noteq> [] \<and> length evs \<le> 15)
   \<and> (let d0 = start_drain drain_client (reply_frames 3 [[7], [8]] status_OK)
      in runs (drain_outcomes (\<lambda>e. e = EOF) 0) d0 [] d0 \<and> dr_pc d0 = DrPoll
         \<and> (drain_outcomes (\<lambda>e. e = EOF) 0 d0 DvFrame \<noteq> [] \<or> drain_outcomes (\<lambda>e. e = EOF) 0 d0 (DvStep None) \<noteq> []))"
proof -
  let ?eof = "\<lambda>e. e = EOF"
  let ?d0 = "start_drain drain_client (reply_frames 3 [[7], [8]] status_OK)"
  have ready: "drain_ready drain_client 3 0 [[7], [8]]" by (rule drain_client_ready) (simp add: thresholds)
  have eof: "?eof \<in> eof_tests" by (simp add: eof_tests_def)
  obtain evs d where d: "runs (drain_outcomes ?eof 0) ?d0 evs d" "lost_in evs = {}" "dr_pc d = DrOver None"
    using answer_lost [OF ready eof, of status_OK] by (auto simp: status_OK_def respCap_def)
  have "evs \<noteq> []" using d(1,3) by (auto simp: start_drain_def elim: runs.cases)
  moreover have "length evs \<le> 15" using drain_ends [OF d(1) ready eof] d(2) by simp
  moreover have start: "runs (drain_outcomes ?eof 0) ?d0 [] ?d0" "dr_pc ?d0 = DrPoll" "lost_in [] = {}"
    by (simp_all add: runs.intros start_drain_def lost_in_def)
  moreover have "drain_outcomes ?eof 0 ?d0 DvFrame \<noteq> [] \<or> drain_outcomes ?eof 0 ?d0 (DvStep None) \<noteq> []"
    using drain_ends [OF start(1) ready eof] start(2,3) by simp
  ultimately show ?thesis using ready d(1,3) unfolding Let_def by blast
qed

end
