(* ===== verification/Signal_WS_Frames.thy ===== *)
theory Signal_WS_Frames
  imports Signal_WS
begin

text \<open>
  The server's own copy of the signaling frames (\<open>readFrame\<close> and \<open>writeFrame\<close> of \<open>signalserver/ws.go\<close>), with the slice
  bounds written out in the \<open>uint32\<close> arithmetic of the code, and its agreement with the client's copy of \<open>signal/ws.go\<close>
  (\<open>Signal_WS\<close>).
\<close>

text \<open>
  What \<open>conn.ReadMessage\<close> yields: a message, or an error, which may be a regular close of the WebSocket.
\<close>

datatype ws_message = WsData bytes | WsError go_error bool

text \<open>\<open>data[4:4+length]\<close> has a 32-bit upper bound, which can wrap below 4; then the slice expression panics.\<close>

definition sv_readFrame ::
  "(nat \<Rightarrow> string) \<Rightarrow> (bytes \<Rightarrow> go_error + 'p) \<Rightarrow> ws_message \<Rightarrow> (go_error + 'p) go" where
  "sv_readFrame fmt unmarshal msg =
     (case msg of
        WsError err normal_close \<Rightarrow> Returns (Inl (if normal_close then EOF else err))
      | WsData dat \<Rightarrow>
          if length dat < 4 then Returns (Inl (ErrNew (''ws frame too short: '' @ fmt (length dat) @ '' bytes'')))
          else let len = get_be32 dat; upper = unat (4 + len)
               in if (word_of_nat (length dat - 4) :: 32 word) < len
                  then Returns (Inl (ErrNew (''ws frame truncated: want '' @ fmt (unat len) @ '' payload bytes, got '' @
                         fmt (length dat - 4))))
                  else if upper < 4 then Panics ''slice bounds out of range''
                  else (case unmarshal (drop 4 (take upper dat)) of
                          Inl e \<Rightarrow> Returns (Inl (Errorf ''ws unmarshal: '' e))
                        | Inr p \<Rightarrow> Returns (Inr p)))"

definition sv_writeFrame :: "('p \<Rightarrow> go_error + bytes) \<Rightarrow> 'p \<Rightarrow> go_error + bytes" where
  "sv_writeFrame marshal msg =
     (case marshal msg of
        Inl e \<Rightarrow> Inl (Errorf ''ws marshal: '' e)
      | Inr payload \<Rightarrow> Inr (put_be32 (word_of_nat (length payload)) @ payload))"

text \<open>The upper bound, for an announced length: it wraps exactly for the four largest.\<close>

lemma unat_upper: "unat (4 + len :: 32 word) = (if unat len < 2 ^ 32 - 4 then 4 + unat len else unat len - (2 ^ 32 - 4))"
proof -
  have "unat (4 + len) = (4 + unat len) mod 2 ^ 32" by (simp add: unat_word_ariths)
  moreover have "unat len < 2 ^ 32" using unsigned_less [of len] by simp
  ultimately show ?thesis by (auto simp: mod_if)
qed

text \<open>Only a message of 4 GiB reaches the wrap-around.\<close>

lemma sv_readFrame_panics:
  assumes "sv_readFrame fmt unmarshal (WsData dat) = Panics e"
  shows "2 ^ 32 \<le> length dat"
proof (rule ccontr)
  assume small: "\<not> 2 ^ 32 \<le> length dat"
  let ?len = "get_be32 dat"
  have p: "4 \<le> length dat" "\<not> (word_of_nat (length dat - 4) :: 32 word) < ?len" "unat (4 + ?len) < 4"
    using assms by (auto simp: sv_readFrame_def Let_def split: if_splits sum.splits)
  have "unat (word_of_nat (length dat - 4) :: 32 word) = length dat - 4"
    using small by (intro unat_be32_nat) simp
  then have "unat ?len \<le> length dat - 4" using p(2) by (simp add: word_less_nat_alt)
  moreover have "2 ^ 32 - 4 \<le> unat ?len" using p(3) by (simp add: unat_upper split: if_splits)
  ultimately show False using small p(1) by simp
qed

text \<open>Both copies of the reader agree on every message the other can take in memory, and both writers always.\<close>

theorem readers_agree:
  assumes "length dat < 2 ^ 32"
  shows "sv_readFrame fmt unmarshal (WsData dat) = Returns (ws_readFrame fmt unmarshal dat)"
proof -
  let ?len = "get_be32 dat"
  have "drop 4 (take (unat (4 + ?len)) dat) = take (unat ?len) (drop 4 dat) \<and> \<not> unat (4 + ?len) < 4"
    if "4 \<le> length dat" and le: "\<not> (word_of_nat (length dat - 4) :: 32 word) < ?len"
  proof -
    have "unat (word_of_nat (length dat - 4) :: 32 word) = length dat - 4"
      using assms by (intro unat_be32_nat) simp
    then have "unat ?len \<le> length dat - 4" using le by (simp add: word_less_nat_alt)
    then have "unat (4 + ?len) = 4 + unat ?len" using assms that(1) by (simp add: unat_upper)
    then show ?thesis by (simp add: drop_take)
  qed
  then show ?thesis by (auto simp: sv_readFrame_def ws_readFrame_def Let_def split: sum.split)
qed

lemma writers_agree: "sv_writeFrame = ws_writeFrame"
  by (simp add: fun_eq_iff sv_writeFrame_def ws_writeFrame_def)

text \<open>So what either side writes the other reads, up to the largest payload whose frame is below 4 GiB.\<close>

lemma cross_roundtrip:
  assumes "marshal pb = Inr b" and "unmarshal b = Inr pb" and "length b < 2 ^ 32 - 4"
  shows "\<exists>f. ws_writeFrame marshal pb = Inr f \<and> sv_readFrame fmt unmarshal (WsData f) = Returns (Inr pb)"
    and "\<exists>f. sv_writeFrame marshal pb = Inr f \<and> ws_readFrame fmt unmarshal f = Inr pb"
proof -
  obtain f where f: "ws_writeFrame marshal pb = Inr f" "length f < 2 ^ 32" "ws_readFrame fmt unmarshal f = Inr pb"
    using assms by (simp add: ws_writeFrame_def ws_readFrame_def Let_def unat_be32_nat)
  then show "\<exists>f. ws_writeFrame marshal pb = Inr f \<and> sv_readFrame fmt unmarshal (WsData f) = Returns (Inr pb)"
    using readers_agree [OF f(2), of fmt unmarshal] by simp
  show "\<exists>f. sv_writeFrame marshal pb = Inr f \<and> ws_readFrame fmt unmarshal f = Inr pb"
    using f by (simp add: writers_agree)
qed

end
