(* ===== verification/Vectors.thy ===== *)
theory Vectors
  imports Rpc_Typing
begin

text \<open>
  The generator of the golden vectors (\<open>cmd/gen-vectors\<close>): the table of messages whose encodings the ports of the
  protocol are tested against, and the loop that writes them. The encoders and the file system are parameters.
\<close>

section \<open>Helpers\<close>

definition repeatByte :: "byte \<Rightarrow> nat \<Rightarrow> bytes" where
  "repeatByte v n = replicate n v"

definition statusRPC :: "int \<Rightarrow> string \<Rightarrow> rpc_status" where
  "statusRPC code msg = \<lparr>st_code = code, st_message = msg\<rparr>"

fun equal_loop :: "bytes \<Rightarrow> bytes \<Rightarrow> bool" where
  "equal_loop (x # xs) (y # ys) = (if x \<noteq> y then False else equal_loop xs ys)"
| "equal_loop _ _ = True"

definition equalBytes :: "bytes \<Rightarrow> bytes \<Rightarrow> bool" where
  "equalBytes a b = (if length a \<noteq> length b then False else equal_loop a b)"

lemma equalBytes_iff: "equalBytes a b \<longleftrightarrow> a = b"
proof -
  have "length a = length b \<Longrightarrow> equal_loop a b \<longleftrightarrow> a = b"
    by (induction a b rule: list_induct2) auto
  then show ?thesis by (auto simp: equalBytes_def)
qed

text \<open>
  \<open>repoRoot\<close> looks for \<open>buf.yaml\<close> in at most twelve directories, from that of the source file upwards; \<open>dir_of\<close> is
  \<open>filepath.Dir\<close>, which maps the root to itself.
\<close>

fun root_loop :: "(string \<Rightarrow> bool) \<Rightarrow> (string \<Rightarrow> string) \<Rightarrow> (string \<Rightarrow> string \<Rightarrow> string) \<Rightarrow> string \<Rightarrow> nat \<Rightarrow> string \<Rightarrow> string option" where
  "root_loop has_marker dir_of join_path relPath 0 dir = None"
| "root_loop has_marker dir_of join_path relPath (Suc n) dir =
     (if has_marker dir then Some (join_path dir relPath)
      else if dir_of dir = dir then None
      else root_loop has_marker dir_of join_path relPath n (dir_of dir))"

definition repoRoot ::
  "(string \<Rightarrow> bool) \<Rightarrow> (string \<Rightarrow> string) \<Rightarrow> (string \<Rightarrow> string \<Rightarrow> string) \<Rightarrow> string option \<Rightarrow> string \<Rightarrow> string option" where
  "repoRoot has_marker dir_of join_path caller relPath =
     (case caller of None \<Rightarrow> None | Some file \<Rightarrow> root_loop has_marker dir_of join_path relPath 12 (dir_of file))"

lemma root_loop_nearest:
  "root_loop has_marker dir_of join_path relPath n dir = Some p \<longleftrightarrow>
     (\<exists>i < n. p = join_path ((dir_of ^^ i) dir) relPath \<and> has_marker ((dir_of ^^ i) dir)
        \<and> (\<forall>j < i. \<not> has_marker ((dir_of ^^ j) dir) \<and> dir_of ((dir_of ^^ j) dir) \<noteq> (dir_of ^^ j) dir))"
proof (induction n arbitrary: dir)
  case (Suc n)
  have shift: "(dir_of ^^ i) (dir_of dir) = (dir_of ^^ Suc i) dir" for i by (simp add: funpow_swap1)
  show ?case
  proof (cases "has_marker dir")
    case True
    have first: "i = 0" if "\<forall>j < i. \<not> has_marker ((dir_of ^^ j) dir) \<and> dir_of ((dir_of ^^ j) dir) \<noteq> (dir_of ^^ j) dir" for i
      using spec [OF that, of 0] True by (cases i) simp_all
    show ?thesis (is "?l \<longleftrightarrow> (\<exists>i < Suc n. ?r i)")
    proof
      assume ?l
      then have "?r 0" using True by simp
      then show "\<exists>i < Suc n. ?r i" by blast
    next
      assume "\<exists>i < Suc n. ?r i"
      then obtain i where "?r i" by blast
      then show ?l using first [of i] True by simp
    qed
  next
    case False
    show ?thesis
    proof (cases "dir_of dir = dir")
      case True
      with False show ?thesis by (metis funpow_0 gr0I root_loop.simps(2) option.distinct(1))
    next
      case go: False
      have "root_loop has_marker dir_of join_path relPath (Suc n) dir = Some p \<longleftrightarrow>
          root_loop has_marker dir_of join_path relPath n (dir_of dir) = Some p"
        using False go by simp
      also have "\<dots> \<longleftrightarrow> (\<exists>i < Suc n. p = join_path ((dir_of ^^ i) dir) relPath \<and> has_marker ((dir_of ^^ i) dir)
        \<and> (\<forall>j < i. \<not> has_marker ((dir_of ^^ j) dir) \<and> dir_of ((dir_of ^^ j) dir) \<noteq> (dir_of ^^ j) dir))"
        unfolding Suc.IH shift Ex_less_Suc2 All_less_Suc2 using False go by simp
      finally show ?thesis .
    qed
  qed
qed simp

section \<open>The table\<close>

definition text_bytes :: "string \<Rightarrow> bytes" where
  "text_bytes s = map of_char s"

definition frame_vectors :: "(string \<times> frame) list" where
  "frame_vectors =
     [(''frame_unary_call'', \<lparr>f_routing = Some 1, f_type = Some (Frame_Call (Some
         \<lparr>c_method = ''/echo.Echo/Echo'', c_metadata = None, c_deadline_ms = 0,
          c_inline_data = Some (text_bytes ''hi''), c_protocol_version = 1\<rparr>))\<rparr>),
      (''frame_unary_call_with_deadline'', \<lparr>f_routing = Some 3, f_type = Some (Frame_Call (Some
         \<lparr>c_method = ''/echo.Echo/Echo'',
          c_metadata = Some [''authorization'' \<mapsto> [''Bearer token-abc''], ''trace-id'' \<mapsto> [''abcdef0123456789'']],
          c_deadline_ms = 5000, c_inline_data = Some (text_bytes ''with-deadline''), c_protocol_version = 1\<rparr>))\<rparr>),
      (''frame_streaming_data_small'', \<lparr>f_routing = Some 5, f_type = Some (Frame_Data (Some (Some
         (Data_Message (repeatByte (of_char (CHR ''a'')) 100)))))\<rparr>),
      (''frame_streaming_data_100k'', \<lparr>f_routing = Some 7, f_type = Some (Frame_Data (Some (Some
         (Data_Message (repeatByte (of_char (CHR ''b'')) (100 * 1024))))))\<rparr>),
      (''frame_chunked_data'', \<lparr>f_routing = Some 9, f_type = Some (Frame_Data (Some (Some (Data_Chunk
         \<lparr>ch_total_size = 1024 * 1024, ch_offset = 0, ch_data = repeatByte (of_char (CHR ''c'')) (256 * 1024)\<rparr>))))\<rparr>),
      (''frame_end_close_send'', \<lparr>f_routing = Some 11, f_type = Some (Frame_End (Some
         \<lparr>e_close_send = True, e_status = None, e_trailer = None\<rparr>))\<rparr>),
      (''frame_end_cancelled'', \<lparr>f_routing = Some 13, f_type = Some (Frame_End (Some
         \<lparr>e_close_send = False, e_status = Some (statusRPC 1 ''cancelled by client''), e_trailer = None\<rparr>))\<rparr>)]"

definition response_vectors :: "(string \<times> response_frame) list" where
  "response_vectors =
     [(''response_begin_with_inline'', \<lparr>r_routing = Some 1, r_type = Some (ResponseFrame_Begin (Some
         \<lparr>b_header = Some [''x-response-id'' \<mapsto> [''resp-001'']], b_inline_data = Some (text_bytes ''echo:hi'')\<rparr>))\<rparr>),
      (''response_data_stream'', \<lparr>r_routing = Some 3, r_type = Some (ResponseFrame_Data (Some (Some
         (Data_Message (text_bytes ''stream-chunk-1'')))))\<rparr>),
      (''response_end_ok'', \<lparr>r_routing = Some 1, r_type = Some (ResponseFrame_End (Some
         \<lparr>e_close_send = False, e_status = Some (statusRPC 0 []), e_trailer = Some [''x-consumed'' \<mapsto> [''42'']]\<rparr>))\<rparr>),
      (''response_end_unavailable'', \<lparr>r_routing = Some 5, r_type = Some (ResponseFrame_End (Some
         \<lparr>e_close_send = False, e_status = Some (statusRPC 14 ''datachannel closed''), e_trailer = None\<rparr>))\<rparr>)]"

datatype vector_msg = VecFrame frame | VecResponse response_frame

definition buildVectors :: "(string \<times> vector_msg) list" where
  "buildVectors = map (map_prod id VecFrame) frame_vectors @ map (map_prod id VecResponse) response_vectors"

section \<open>Writing them\<close>

text \<open>
  The libraries \<open>main\<close> calls. \<open>ge_marshal i\<close> is the \<open>i\<close>-th call of the encoder, which need not be a function of the
  message; \<open>ge_parse\<close> is \<open>json.Unmarshal\<close> into a value, \<open>ge_indent\<close> is \<open>json.MarshalIndent\<close> of the descriptors.
\<close>

record 'j vector_desc =
  vd_type :: string
  vd_size :: nat
  vd_sha256 :: string
  vd_protojson :: 'j
  vd_hex :: "bytes option"

record 'j gen_env =
  ge_marshal :: "nat \<Rightarrow> vector_msg \<Rightarrow> go_error + bytes"
  ge_write :: "string \<Rightarrow> bytes \<Rightarrow> go_error option"
  ge_join :: "string \<Rightarrow> string \<Rightarrow> string"
  ge_protojson :: "vector_msg \<Rightarrow> go_error + bytes"
  ge_parse :: "bytes \<Rightarrow> go_error + 'j"
  ge_type :: "vector_msg \<Rightarrow> string"
  ge_sha256hex :: "bytes \<Rightarrow> string"
  ge_indent :: "(string \<rightharpoonup> 'j vector_desc) \<Rightarrow> go_error + bytes"

text \<open>The descriptor of a vector; only a small one holds the bytes, as hexadecimal text.\<close>

definition describe :: "'j gen_env \<Rightarrow> vector_msg \<Rightarrow> bytes \<Rightarrow> 'j \<Rightarrow> 'j vector_desc" where
  "describe env msg bin pretty =
     \<lparr>vd_type = ge_type env msg, vd_size = length bin, vd_sha256 = ge_sha256hex env bin, vd_protojson = pretty,
      vd_hex = (if length bin \<le> 1024 then Some bin else None)\<rparr>"

text \<open>One round of the loop of \<open>main\<close>: the file it has written, if any, and the descriptor or the text of \<open>log.Fatalf\<close>.\<close>

definition gen_vector ::
  "'j gen_env \<Rightarrow> string \<Rightarrow> nat \<Rightarrow> string \<Rightarrow> vector_msg \<Rightarrow> (string \<times> bytes) list \<times> (string + 'j vector_desc)" where
  "gen_vector env outDir i name msg =
     (case ge_marshal env i msg of
        Inl err \<Rightarrow> ([], Inl (''marshal '' @ name @ '': '' @ error_string err))
      | Inr bin \<Rightarrow>
          (let binPath = ge_join env outDir (name @ ''.bin'') in
           case ge_write env binPath bin of
             Some err \<Rightarrow> ([], Inl (''write '' @ binPath @ '': '' @ error_string err))
           | None \<Rightarrow> ([(binPath, bin)],
               (case ge_marshal env (i + 1) msg of
                  Inl _ \<Rightarrow> Inl (''non-deterministic encode for '' @ name)
                | Inr round \<Rightarrow>
                    if \<not> equalBytes round bin then Inl (''non-deterministic encode for '' @ name)
                    else (case ge_protojson env msg of
                            Inl err \<Rightarrow> Inl (''protojson '' @ name @ '': '' @ error_string err)
                          | Inr j \<Rightarrow>
                              (case ge_parse env j of
                                 Inl err \<Rightarrow> Inl (''unmarshal protojson '' @ name @ '': '' @ error_string err)
                               | Inr pretty \<Rightarrow> Inr (describe env msg bin pretty)))))))"

fun gen_loop ::
  "'j gen_env \<Rightarrow> string \<Rightarrow> nat \<Rightarrow> (string \<times> vector_msg) list
     \<Rightarrow> (string \<times> bytes) list \<times> (string + (string \<times> 'j vector_desc) list)" where
  "gen_loop env outDir i [] = ([], Inr [])"
| "gen_loop env outDir i ((name, msg) # vs) =
     (case gen_vector env outDir i name msg of
        (written, Inl e) \<Rightarrow> (written, Inl e)
      | (written, Inr desc) \<Rightarrow>
          (case gen_loop env outDir (i + 2) vs of
             (files, Inl e) \<Rightarrow> (written @ files, Inl e)
           | (files, Inr descs) \<Rightarrow> (written @ files, Inr ((name, desc) # descs))))"

text \<open>\<open>main\<close>: the files written, and None or the text of the failure it exits with.\<close>

definition gen_main :: "'j gen_env \<Rightarrow> string option \<Rightarrow> (string \<times> bytes) list \<times> string option" where
  "gen_main env root =
     (case root of
        None \<Rightarrow> ([], Some ''locate vectors dir: file does not exist'')
      | Some outDir \<Rightarrow>
          (case gen_loop env outDir 0 buildVectors of
             (files, Inl e) \<Rightarrow> (files, Some e)
           | (files, Inr descs) \<Rightarrow>
               (case ge_indent env (map_of (rev descs)) of
                  Inl err \<Rightarrow> (files, Some (''marshal expected.json: '' @ error_string err))
                | Inr raw \<Rightarrow>
                    (let path = ge_join env outDir ''expected.json''; raw' = raw @ [10] in
                     case ge_write env path raw' of
                       Some err \<Rightarrow> (files, Some (''write expected.json: '' @ error_string err))
                     | None \<Rightarrow> (files @ [(path, raw')], None)))))"

text \<open>A run that succeeds has written every vector, each with an encoding that two calls agreed on.\<close>

lemma gen_vector_success:
  assumes "gen_vector env outDir i name msg = (written, Inr d)"
  obtains bin where "ge_marshal env i msg = Inr bin" and "ge_marshal env (i + 1) msg = Inr bin"
    and "written = [(ge_join env outDir (name @ ''.bin''), bin)]" and "vd_size d = length bin"
  using assms by (auto simp: gen_vector_def describe_def Let_def equalBytes_iff split: sum.splits option.splits if_splits)

lemma gen_loop_success:
  assumes "gen_loop env outDir i vs = (files, Inr descs)"
  shows "map fst files = map (\<lambda>v. ge_join env outDir (fst v @ ''.bin'')) vs \<and> map fst descs = map fst vs
    \<and> (\<forall>k < length vs. ge_marshal env (i + 2 * k) (snd (vs ! k)) = Inr (snd (files ! k))
         \<and> ge_marshal env (i + 2 * k + 1) (snd (vs ! k)) = Inr (snd (files ! k))
         \<and> vd_size (snd (descs ! k)) = length (snd (files ! k)))"
  using assms
proof (induction vs arbitrary: i files descs)
  case (Cons v vs)
  obtain name msg where v: "v = (name, msg)" by (cases v)
  from Cons.prems obtain written d files' descs' where step: "gen_vector env outDir i name msg = (written, Inr d)"
    "gen_loop env outDir (i + 2) vs = (files', Inr descs')" "files = written @ files'" "descs = (name, d) # descs'"
    by (auto simp: v split: sum.splits prod.splits)
  obtain bin where bin: "ge_marshal env i msg = Inr bin" "ge_marshal env (i + 1) msg = Inr bin"
    "written = [(ge_join env outDir (name @ ''.bin''), bin)]" "vd_size d = length bin"
    using gen_vector_success [OF step(1)] by blast
  note IH = Cons.IH [OF step(2)]
  show ?case
  proof (intro conjI allI impI)
    show "map fst files = map (\<lambda>v. ge_join env outDir (fst v @ ''.bin'')) (v # vs)" "map fst descs = map fst (v # vs)"
      using IH step bin v by simp_all
    fix k assume k: "k < length (v # vs)"
    show "ge_marshal env (i + 2 * k) (snd ((v # vs) ! k)) = Inr (snd (files ! k))"
      "ge_marshal env (i + 2 * k + 1) (snd ((v # vs) ! k)) = Inr (snd (files ! k))"
      "vd_size (snd (descs ! k)) = length (snd (files ! k))"
      using IH step bin k v by (cases k; auto)+
  qed
qed simp

text \<open>
  The file of the expectations is written only after all eleven vectors, and then the run has succeeded. The check in the
  loop compares two encodings of one message: nothing is decoded, so bytes that decode to another message pass.
\<close>

lemma gen_main_complete:
  assumes "gen_main env (Some outDir) = (files, None)"
  shows "map fst files = map (\<lambda>v. ge_join env outDir (fst v @ ''.bin'')) buildVectors @ [ge_join env outDir ''expected.json'']
    \<and> (\<forall>k < length buildVectors. ge_marshal env (2 * k) (snd (buildVectors ! k)) = Inr (snd (files ! k)))"
proof -
  from assms obtain fs descs raw where step: "gen_loop env outDir 0 buildVectors = (fs, Inr descs)"
    "files = fs @ [(ge_join env outDir ''expected.json'', raw)]"
    by (auto simp: gen_main_def Let_def split: sum.splits prod.splits option.splits)
  note all = gen_loop_success [OF step(1)]
  have "length fs = length buildVectors" using all by (metis length_map)
  then show ?thesis using all step(2) by (simp add: nth_append)
qed

section \<open>What the table covers\<close>

text \<open>
  Every arm of the three unions occurs, and every row of the truth table of \<open>End\<close>: half-close, cancellation, success
  and failure.
\<close>

datatype arm = ArmCall | ArmMessage | ArmChunk | ArmHalfClose | ArmCancel | ArmBegin | ArmSuccess | ArmFailure

fun frame_arm :: "frame_type option \<Rightarrow> arm option" where
  "frame_arm (Some (Frame_Call (Some c))) = Some ArmCall"
| "frame_arm (Some (Frame_Data (Some (Some (Data_Message b))))) = Some ArmMessage"
| "frame_arm (Some (Frame_Data (Some (Some (Data_Chunk k))))) = Some ArmChunk"
| "frame_arm (Some (Frame_End (Some e))) =
     (case e_status e of
        None \<Rightarrow> if e_close_send e then Some ArmHalfClose else None
      | Some s \<Rightarrow> if \<not> e_close_send e \<and> st_code s = 1 then Some ArmCancel else None)"
| "frame_arm _ = None"

fun response_arm :: "response_type option \<Rightarrow> arm option" where
  "response_arm (Some (ResponseFrame_Begin (Some b))) = Some ArmBegin"
| "response_arm (Some (ResponseFrame_Data (Some (Some (Data_Message b))))) = Some ArmMessage"
| "response_arm (Some (ResponseFrame_Data (Some (Some (Data_Chunk k))))) = Some ArmChunk"
| "response_arm (Some (ResponseFrame_End (Some e))) =
     (case e_status e of
        None \<Rightarrow> None
      | Some s \<Rightarrow> if e_close_send e then None else Some (if st_code s = 0 then ArmSuccess else ArmFailure))"
| "response_arm _ = None"

lemma vectors_cover:
  "map (frame_arm \<circ> f_type \<circ> snd) frame_vectors =
     map Some [ArmCall, ArmCall, ArmMessage, ArmMessage, ArmChunk, ArmHalfClose, ArmCancel]"
  "map (response_arm \<circ> r_type \<circ> snd) response_vectors = map Some [ArmBegin, ArmMessage, ArmSuccess, ArmFailure]"
  by (simp_all add: frame_vectors_def response_vectors_def statusRPC_def)

text \<open>
  Which vectors are frames this implementation can produce, by the types of \<open>Rpc_Typing\<close>: all but two. The chunk of 256
  KiB is larger than a chunk may be, and a server never puts data into Begin.
\<close>

lemma typed_vectors:
  "map fst (filter (typed_frame \<circ> snd) frame_vectors) =
     [''frame_unary_call'', ''frame_unary_call_with_deadline'', ''frame_streaming_data_small'', ''frame_streaming_data_100k'',
      ''frame_end_close_send'', ''frame_end_cancelled'']"
  "map fst (filter (typed_response \<circ> snd) response_vectors) =
     [''response_data_stream'', ''response_end_ok'', ''response_end_unavailable'']"
  by (simp_all add: frame_vectors_def response_vectors_def typed_frame_def typed_response_def typed_seq_def typed_call_def
      typed_chunk_def typed_end_def thresholds repeatByte_def text_bytes_def statusRPC_def)

text \<open>An encoding of that chunk holds its data and more, so a reader of the stream codec refuses it.\<close>

lemma chunk_vector_refused:
  assumes "(''frame_chunked_data'', \<lparr>f_routing = x, f_type = Some (Frame_Data (Some (Some (Data_Chunk k))))\<rparr>) \<in> set frame_vectors"
    and "length (ch_data k) < length b" and "length b < 2 ^ 32" and "rd_bytes r = fst (WriteFrame buf_write [] b) @ rest"
  shows "\<exists>e. ReadFrame fmt r = (r\<lparr>rd_bytes := b @ rest\<rparr>, Inl e) \<and> errors_Is e ErrOversizedFrame"
proof -
  have "ch_data k = repeatByte (of_char (CHR ''c'')) (256 * 1024)"
    using assms(1) by (auto simp: frame_vectors_def)
  then have "MaxFrameSize < length b" using assms(2) by (simp add: MaxFrameSize_def repeatByte_def)
  from ReadFrame_oversized [OF this assms(3,4)] show ?thesis by blast
qed

end
