(* ===== verification/Demos.thy ===== *)
theory Demos
  imports Echo Facade Rpc_Drain
begin

text \<open>
  The main functions of the examples: \<open>examples/facade-go\<close> and \<open>examples/echo-go\<close> with a unary and a streaming call
  in one process, and the accept loop of \<open>examples/echo-server-go\<close>. What the calls they make return is a parameter
  where it depends on the connection; what they do with it is the code.
\<close>

section \<open>The facade example\<close>

text \<open>The handler of \<open>Stream\<close> sends \<open>n\<close> equal messages; \<open>Unary\<close> is that of the echo server.\<close>

fun send_same :: "bytes \<Rightarrow> nat \<Rightarrow> handler" where
  "send_same b 0 = HReturn (Some status_OK)"
| "send_same b (Suc n) = HSend b (\<lambda>err. case err of Some e \<Rightarrow> failed 13 e | None \<Rightarrow> send_same b n)"

definition facade_Stream :: handler where
  "facade_Stream = recv_optional (\<lambda>_. send_same (bytes_of ''chunk'') 5)"

definition facade_service :: service_desc where
  "facade_service = \<lparr>sd_ServiceName = ''echo.Echo'', sd_Methods =
     [\<lparr>md_Method = ''Unary'', md_Kind = MethodKindUnary, md_Handler = echo_Echo\<rparr>,
      \<lparr>md_Method = ''Stream'', md_Kind = MethodKindServerStreaming, md_Handler = facade_Stream\<rparr>]\<rparr>"

text \<open>
  \<open>main\<close>: \<open>os.Exit(1)\<close> after one of five log lines, or the answer of the unary call and the number of chunks.
  \<open>unary\<close> is what \<open>InvokeUnary\<close> returns on a connection, \<open>drained\<close> the result and the messages of the loop over
  \<open>stream.Recv\<close>, with the test \<open>err == io.EOF\<close>.
\<close>

datatype demo_exit = DemoExit string | DemoComplete "bytes option" nat

definition status_failed :: "rpc_status option \<Rightarrow> bool" where
  "status_failed st = (case st of None \<Rightarrow> False | Some s \<Rightarrow> st_code s \<noteq> 0)"

definition facade_target :: string where
  "facade_target = ''peerrpc+local:///echo.Echo''"

definition facade_main ::
  "('w, 'sess, 'ch) facade_env \<Rightarrow> string \<Rightarrow> 'w \<Rightarrow> (('sess, 'ch) facade_conn \<Rightarrow> bytes option \<times> rpc_status option)
     \<Rightarrow> (('sess, 'ch) facade_conn \<Rightarrow> go_error option \<times> bytes list) \<Rightarrow> demo_exit" where
  "facade_main env uuid w unary drained =
     (case (Listen (fe_quote env) (fe_registry env) facade_target ([] :: (unit, unit, unit) facade_option list)
              :: go_error + (unit, unit) listen_config) of
        Inl err \<Rightarrow> DemoExit ''Listen''
      | Inr ln \<Rightarrow>
          (case Dial env uuid facade_target ([] :: (unit, unit, unit) facade_option list) w of
             (w1, es, Inl err) \<Rightarrow> DemoExit ''Dial''
           | (w1, es, Inr conn) \<Rightarrow>
               (case unary conn of
                  (resp, status) \<Rightarrow>
                    if status_failed status then DemoExit ''Unary status''
                    else if status_failed (Some status_OK) then DemoExit ''Stream status''
                    else (case drained conn of
                            (Some err, _) \<Rightarrow> DemoExit ''Stream Recv''
                          | (None, chunks) \<Rightarrow> DemoComplete resp (length chunks)))))"

section \<open>The first example\<close>

text \<open>\<open>must\<close> and \<open>mustStatus\<close>: \<open>Some\<close> the log line before \<open>os.Exit(1)\<close>.\<close>

definition must :: "string \<Rightarrow> go_error option \<Rightarrow> string option" where
  "must what err = (case err of Some _ \<Rightarrow> Some (what @ '' failed'') | None \<Rightarrow> None)"

definition mustStatus :: "string \<Rightarrow> rpc_status option \<Rightarrow> string option" where
  "mustStatus what s = (if status_failed s then Some (what @ '' non-OK'') else None)"

text \<open>The first check that fails ends the program; the calls behind it are not made.\<close>

fun first_exit :: "(unit \<Rightarrow> string option) list \<Rightarrow> string option" where
  "first_exit [] = None"
| "first_exit (check # checks) = (case check () of Some line \<Rightarrow> Some line | None \<Rightarrow> first_exit checks)"

record echo_calls =
  ec_offerer_signaling :: "go_error option"
  ec_answerer_signaling :: "go_error option"
  ec_offerer_New :: "go_error option"
  ec_answerer_New :: "go_error option"
  ec_Dial :: "go_error option"
  ec_accepted :: "go_error option option"
  ec_unary :: "bytes option \<times> rpc_status option"
  ec_drained :: "go_error option \<times> bytes list"

text \<open>
  \<open>ec_accepted\<close> is the result of \<open>Accept\<close> if it comes within five seconds. The loop over \<open>Recv\<close> tests
  \<open>errors.Is(err, io.EOF)\<close>.
\<close>

definition echo_main :: "echo_calls \<Rightarrow> demo_exit" where
  "echo_main ec =
     (case first_exit
        [\<lambda>_. must ''offerer signaling'' (ec_offerer_signaling ec),
         \<lambda>_. must ''answerer signaling'' (ec_answerer_signaling ec),
         \<lambda>_. must ''offerer New'' (ec_offerer_New ec),
         \<lambda>_. must ''answerer New'' (ec_answerer_New ec),
         \<lambda>_. must ''offerer Dial'' (ec_Dial ec),
         \<lambda>_. (case ec_accepted ec of
                Some err \<Rightarrow> must ''answerer Accept'' err
              | None \<Rightarrow> Some ''answerer Accept timed out''),
         \<lambda>_. mustStatus ''Unary status'' (snd (ec_unary ec)),
         \<lambda>_. mustStatus ''Stream status'' (Some status_OK),
         \<lambda>_. (case fst (ec_drained ec) of Some err \<Rightarrow> Some ''Stream Recv failed'' | None \<Rightarrow> None)] of
        Some line \<Rightarrow> DemoExit line
      | None \<Rightarrow> DemoComplete (fst (ec_unary ec)) (length (snd (ec_drained ec))))"

section \<open>The echo server\<close>

text \<open>The builder calls of \<open>main\<close>; a duration is in nanoseconds.\<close>

definition echo_server_calls :: "string \<Rightarrow> string \<Rightarrow> ('i, 'u, 's) listen_call list" where
  "echo_server_calls signalAddr service =
     [LbSignalAt signalAddr, LbService service, LbOver SchemeWS, LbNegotiationTimeout (60 * 10 ^ 9)]"

definition echo_server_listen ::
  "(string \<Rightarrow> string) \<Rightarrow> ('w, 'sess) registry_map \<Rightarrow> string \<Rightarrow> string \<Rightarrow> go_error + (unit, unit) listen_config" where
  "echo_server_listen quote reg signalAddr service =
     (let (t, opts) = Listen_args (foldl listen_apply BuilderContext (echo_server_calls signalAddr service))
      in ListenTarget quote reg t (opts :: (unit, unit, unit) facade_option list))"

text \<open>
  The accept loop. A round is whether the context is done, the result of \<open>Accept\<close>, and whether the context is done after
  it. The result are the connections handed to goroutines, the failures logged, and whether the loop has ended.
\<close>

fun accept_loop :: "(bool \<times> (go_error + 'c) \<times> bool) list \<Rightarrow> 'c list \<times> go_error list \<times> bool" where
  "accept_loop [] = ([], [], False)"
| "accept_loop ((done1, r, done2) # rounds) =
     (if done1 then ([], [], True)
      else case r of
             Inl err \<Rightarrow>
               if done2 then ([], [], True)
               else (case accept_loop rounds of (served, warned, over) \<Rightarrow> (served, err # warned, over))
           | Inr c \<Rightarrow> (case accept_loop rounds of (served, warned, over) \<Rightarrow> (c # served, warned, over)))"

text \<open>
  A failure never ends the loop: while the context lives every accepted connection is served, whatever fails in between.
  Nothing is waited for after a failure either: \<open>n\<close> failures of \<open>Accept\<close> are \<open>n\<close> rounds.
\<close>

lemma accept_loop_serves:
  assumes "\<forall>x \<in> set rounds. \<not> fst x \<and> \<not> snd (snd x)"
  shows "accept_loop rounds =
    ([c. Inr c \<leftarrow> map (fst \<circ> snd) rounds], [err. Inl err \<leftarrow> map (fst \<circ> snd) rounds], False)"
  using assms
proof (induction rounds)
  case (Cons x rounds)
  then show ?case by (cases x; cases "fst (snd x)") auto
qed simp

text \<open>\<open>Listen\<close> accepts every address and service, so a wrong one shows up only as a failure of every \<open>Accept\<close>.\<close>

lemma echo_server_starts:
  "\<exists>cfg. echo_server_listen quote (defaultRegistry quote localBackend ws) signalAddr service = Inr cfg
     \<and> tg_Signal (lc_target cfg) = signalAddr \<and> tg_Service (lc_target cfg) = service
     \<and> tg_Role (lc_target cfg) = RoleHintServer \<and> lc_negotiationTO cfg = 60000000000"
  by (simp add: echo_server_listen_def echo_server_calls_def Listen_args_def ListenTarget_def listen_effective_def
      resolveProbe_def defaultRegistry_def RegisterResolver_def BuilderContext_def empty_target_def SchemeWS_def
      RoleHintServer_def derivePeerID_def Let_def)

section \<open>What the streaming example shows\<close>

lemma says_send_same: "says (send_same b n) ins (replicate n b) status_OK"
  by (induction n) auto

lemma facade_stream_says: "says facade_Stream ins (replicate 5 (bytes_of ''chunk'')) status_OK"
  unfolding facade_Stream_def by (intro says_optional says_send_same)

text \<open>
  The example's stream, from the server's handler to the log line. The frames the server answers make the loop end, and
  it ends without an error with any number of chunks from none to five.
\<close>

lemma facade_stream_counts:
  assumes "drain_ready c seq sid (replicate 5 (bytes_of ''chunk''))"
    and "runs (drain_outcomes (\<lambda>e. e = EOF) sid)
           (start_drain c (reply_frames seq (replicate 5 (bytes_of ''chunk'')) status_OK)) evs d"
    and "lost_in evs = {}"
  shows "\<exists>n \<le> 5. dr_read d = replicate n (bytes_of ''chunk'')"
proof -
  have eof: "(\<lambda>e. e = EOF) \<in> eof_tests" by (simp add: eof_tests_def)
  have "int32 seq = seq" using assms(1) by (simp add: drain_ready_def)
  from drain_runs [OF assms(2,1) this eof] assms(3)
  have "prefix (dr_read d) (replicate 5 (bytes_of ''chunk''))"
    by (auto simp: drain_inv_def prefix_def)
  then obtain zs where "replicate 5 (bytes_of ''chunk'') = dr_read d @ zs" by (auto simp: prefix_def)
  then have "set (dr_read d @ zs) \<subseteq> {bytes_of ''chunk''}" "length (dr_read d @ zs) = 5"
    by (metis set_replicate_conv_if subset_singletonD order_refl empty_subsetI, metis length_replicate)
  then have "dr_read d = replicate (length (dr_read d)) (bytes_of ''chunk'')" "length (dr_read d) \<le> 5"
    by (auto intro: replicate_eqI)
  then show ?thesis by blast
qed

lemma facade_target_parses:
  "ParseTarget quote facade_target = Inr (empty_target\<lparr>tg_Scheme := SchemeLocal, tg_Service := ''echo.Echo''\<rparr>)"
  by (simp add: ParseTarget_def facade_target_def empty_target_def SchemeLocal_def Let_def)

text \<open>
  The whole example over the in-process backend: it listens and dials on one service. If the unary call succeeds, the server
  answers the stream with its five chunks, and the loop ends without an error, then the example reports success, and so
  it does when the loop has read none of the chunks.
\<close>

lemma facade_demo_reports:
  assumes "fe_registry env = defaultRegistry (fe_quote env) backend ws"
    and "Dial env uuid facade_target ([] :: (unit, unit, unit) facade_option list) w = (w1, es, Inr conn)"
    and "unary conn = (resp, Some status_OK)"
  shows "drained conn = (None, dr_read d) \<Longrightarrow> facade_main env uuid w unary drained = DemoComplete resp (length (dr_read d))"
    and "drained conn = (Some e, msgs) \<Longrightarrow> facade_main env uuid w unary drained = DemoExit ''Stream Recv''"
proof -
  have "\<exists>ln. (Listen (fe_quote env) (fe_registry env) facade_target ([] :: (unit, unit, unit) facade_option list)
      :: go_error + (unit, unit) listen_config) = Inr ln"
    by (simp add: Listen_def facade_target_parses ListenTarget_def resolveProbe_def assms(1) defaultRegistry_def
        RegisterResolver_def listen_effective_def derivePeerID_def empty_target_def SchemeLocal_def SchemeWS_def Let_def)
  then show "drained conn = (None, dr_read d) \<Longrightarrow> facade_main env uuid w unary drained = DemoComplete resp (length (dr_read d))"
    and "drained conn = (Some e, msgs) \<Longrightarrow> facade_main env uuid w unary drained = DemoExit ''Stream Recv''"
    using assms(2,3) by (auto simp: facade_main_def status_failed_def status_OK_def)
qed

lemma facade_demo_may_see_nothing:
  assumes "drain_ready c seq sid (replicate 5 (bytes_of ''chunk''))"
  shows "\<exists>evs d. runs (drain_outcomes (\<lambda>e. e = EOF) sid)
      (start_drain c (reply_frames seq (replicate 5 (bytes_of ''chunk'')) status_OK)) evs d
    \<and> lost_in evs = {} \<and> dr_pc d = DrOver None \<and> dr_read d = []"
proof -
  have "(\<lambda>e. e = EOF) \<in> eof_tests" by (simp add: eof_tests_def)
  from answer_lost [OF assms this, of status_OK] show ?thesis by (auto simp: status_OK_def respCap_def)
qed

text \<open>In the first example every check before the calls must pass; the loop decides the rest.\<close>

lemma echo_main_complete_iff:
  "echo_main ec = DemoComplete resp n \<longleftrightarrow>
     ec_offerer_signaling ec = None \<and> ec_answerer_signaling ec = None \<and> ec_offerer_New ec = None \<and> ec_answerer_New ec = None
     \<and> ec_Dial ec = None \<and> ec_accepted ec = Some None \<and> \<not> status_failed (snd (ec_unary ec)) \<and> fst (ec_unary ec) = resp
     \<and> fst (ec_drained ec) = None \<and> length (snd (ec_drained ec)) = n"
  by (auto simp: echo_main_def must_def mustStatus_def status_failed_def status_OK_def split: option.splits if_splits)

end
