(* ===== verification/Spec2Isabelle.thy ===== *)
theory Spec2Isabelle
  imports Rpc_EndToEnd Rpc_Server_Laws Signal_WS Base58 Target Crypto Auth Peer_Room Relay Bridge Facade Conn
    Listener Observability Echo Signal_WS_Net Telemetry Rpc_Typing Command Signal_Stats
    Rpc_Writer Rpc_Drain Signal_WS_Frames Vectors Demos
begin

text \<open>
  A model of PeerRPC, an RPC framework over WebRTC DataChannels, as its Go implementation
  (\<open>src/peerrpc-go\<close>) has it, and the theorems that make it correct. File and function names below are
  those of \<open>src/peerrpc-go\<close> unless said otherwise.

  The program. A client and a server reach each other in four stages. A target URI or builder options
  (\<open>peerrpc/\<close>) name a service and a resolver; the resolver joins a signaling room, either in the same
  process (\<open>signal/local.go\<close>) or through a WebSocket server (\<open>signal/ws.go\<close>,
  \<open>signalserver/\<close>, gated by \<open>auth/\<close>); over the room the peers exchange an offer, an answer
  and candidates (\<open>peer/\<close>) until a DataChannel opens; on the channel (\<open>transport/\<close>,
  \<open>protocol/\<close>, optionally \<open>crypto/\<close>) a client and a server multiplex RPC streams by sequence
  number (\<open>rpc/\<close>). Around this core stand a relay that forwards frames between two peers
  (\<open>relay/\<close>), a bridge that serves RPCs by calling a Connect service over HTTP
  (\<open>grpcbridge/\<close>), interceptors for logs, metrics and traces (\<open>observability/\<close>), the
  \<open>peerrpc\<close> command (\<open>cmd/peerrpc\<close>), the generator of test vectors
  (\<open>cmd/gen-vectors\<close>) and three examples (\<open>examples/echo-server-go\<close>, \<open>echo-go\<close>
  and \<open>facade-go\<close>, beside \<open>peerrpc-go\<close>).

  How Go is modelled.

    \<^item> A struct is a \<open>record\<close>, a protobuf oneof or an enumeration a \<open>datatype\<close>,
      \<open>[]byte\<close> a list of \<open>8 word\<close>s, a map a partial function, an error a value of
      \<open>go_error\<close> (\<open>errors.Is\<close> is \<open>errors_Is\<close>).
    \<^item> A panic is a result: \<open>Panics e\<close> of the type \<open>'a go\<close>, or a field that remembers
      that the process has died.
    \<^item> An \<open>int32\<close> conversion is \<open>int32\<close>, wrap-around written out; lengths are
      \<open>nat\<close>; the client's sequence counter is a \<open>32 word\<close>.
    \<^item> A goroutine is a list of events over one state. Each event is a critical section or one channel operation
      of the code, except where a theory says that it joins several, so that interleaving is the order of events; an
      \<open>outcomes\<close> function gives the list of possible next states, empty where the goroutine blocks.
      \<open>runs\<close> (\<open>Go_Prelude\<close>) is the inductive relation of runs, with
      \<open>runs_invariant\<close> and its companions for rule induction; \<open>play\<close> and
      \<open>finals\<close> evaluate a concrete run. A \<open>select\<close> is the list of its ready cases
      (\<open>select\<close>, \<open>select_default\<close>).
    \<^item> Loops are \<open>fun\<close> or \<open>function\<close> with a termination proof. The one loop that
      depends on what a library reader yields, \<open>stream_loop\<close> of \<open>Bridge\<close>, is a
      \<open>partial_function\<close>, and its termination is a theorem. No definition uses fuel.

  The theories, in the order of the program.

    \<^item> \<open>Go_Prelude\<close>: bytes, errors, panics, \<open>select\<close>, \<open>int32\<close>, big-endian
      numbers, runs and their lemmas.
    \<^item> \<open>Wire\<close>: the messages of \<open>protocol\<close> (\<open>call\<close>, \<open>chunk\<close>,
      \<open>end_msg\<close>, \<open>frame\<close>, \<open>response_frame\<close>), \<open>WriteFrame\<close> and
      \<open>ReadFrame\<close> of \<open>protocol/codec.go\<close> and the length prefix of the transport.
      \<open>ReadFrame_iff_WriteFrame\<close> is the round trip with the limit of 256 KiB.
    \<^item> \<open>Transport\<close>: \<open>transport/channel.go\<close>, the state \<open>channel\<close> (queue of
      256 frames, close reason, low-watermark signal), its callbacks and operations, \<open>assembler\<close> and
      \<open>Reassemble\<close>, and the fragmentation loop \<open>chunk_loop\<close>. Reassembly is shown exact for
      any order of the chunks and undisturbed by other streams; sending respects the high watermark.
    \<^item> \<open>Rpc_Types\<close>: \<open>rpc/types.go\<close>, the metadata holders of
      \<open>rpc/stream.go\<close>, and the three chain builders of \<open>rpc/interceptor.go\<close>, whose common
      loop is the locale \<open>interceptor_loop\<close>, interpreted on each of them.
    \<^item> \<open>Rpc_Server\<close>: \<open>rpc/server.go\<close> and \<open>rpc/stream.go\<close>. The state
      \<open>mux\<close> holds the stream table, the response frames sent, the reassembler and the handler goroutines
      (programs over their \<open>ServerStream\<close>, inbound queue of 16); \<open>mux_outcomes\<close> are its
      events. \<open>Rpc_Server_Trace\<close> proves the grammar of the response frames from the invariant
      \<open>mux_inv\<close>; \<open>Rpc_Server_Laws\<close> registration, the exit of \<open>Serve\<close>, reuse of
      numbers, metadata and half-close. \<open>Rpc_Writer\<close> has the outbound side in detail, any number of
      goroutines in \<open>queue\<close>, the channel of 256 frames and \<open>runWriter\<close>, and shows that it
      refines the one step \<open>queue\<close> of \<open>Rpc_Server\<close>, and when a call of it never returns.
    \<^item> \<open>Rpc_Client\<close>: \<open>rpc/client.go\<close> and \<open>rpc/context.go\<close>, the state
      \<open>client\<close> (stream table, heap of streams with queues of 16, sequence counter, frames sent) and one
      definition per operation; the waits of a unary call are \<open>unary_step\<close>.
      \<open>Rpc_Client_Laws\<close> has the sequence numbers across the wrap-around, the table invariant
      \<open>client_wf\<close> over \<open>client_outcomes\<close>, the finality of results, and what hangs after a
      lost connection. \<open>Rpc_Drain\<close> is the loop that reads a stream to \<open>io.EOF\<close>, interleaved
      with the answer: what it reads, what it can miss, and that it ends.
    \<^item> \<open>Rpc_EndToEnd\<close>: the two sides together. The locale \<open>content_sink\<close> states once
      how Data contents are consumed and is interpreted on server and client. \<open>Handler_Runs\<close> relates a
      handler's conversation (\<open>talk\<close>) to the runs of a live server, and \<open>Rpc_Typing\<close> is a
      type system for frames: typed frames never panic a peer, and both sides send typed frames as long as payloads
      stay below 2 GiB.
    \<^item> \<open>Rendezvous\<close>: the registry of services and peers that store and in-process backend share,
      its critical sections, and the locale \<open>rendezvous\<close>: from the laws of joining, leaving, sending
      through a sender that has been handed out (which outlives its peer's membership) and reading follows that a
      member's inbox is a bounded queue of what the others send. \<open>Signal_Store\<close>
      (\<open>signalserver/store/memory.go\<close>) interprets it and adds the interleaving of critical sections of
      concurrent callers; \<open>Signal_Local\<close> (\<open>signal/local.go\<close>) interprets it and adds the
      session pumps. An inbox holds 32 messages and drops what does not fit; a service has at most 10 peers.
      \<open>Signal_Stats\<close> has the statistics of both.
    \<^item> \<open>Signal_WS\<close>: the message types and conversions of \<open>signal/\<close> and the handler of
      \<open>signalserver/ws.go\<close> as a state machine per connection. \<open>Signal_WS_Client\<close>: the
      session of \<open>signal/ws.go\<close>. \<open>Signal_WS_Net\<close>: sessions, connections and the server in
      one system, with the provenance of every delivered message. \<open>Signal_WS_Frames\<close>: the server's own
      reader and writer of frames, with their 32-bit slice bounds, and their agreement with the client's.
    \<^item> \<open>Url\<close>, \<open>Base64\<close>, \<open>Strconv\<close>: what the sources use of
      \<open>strings\<close>, \<open>net/url\<close>, \<open>encoding/base64\<close> and \<open>strconv\<close>.
      \<open>Base58\<close>, \<open>Target\<close>: \<open>peerrpc/base58.go\<close> and
      \<open>peerrpc/target.go\<close> with their round trips.
    \<^item> \<open>Crypto\<close>: \<open>crypto/crypto.go\<close>. \<open>Auth\<close>: \<open>auth/\<close> and the
      validators of \<open>cmd/peerrpc/signal.go\<close>.
    \<^item> \<open>Ice\<close>, \<open>Peer\<close>, \<open>Peer_Room\<close>: the tiers of
      \<open>peer/ice.go\<close> (an instance of \<open>linorder\<close>), \<open>Dial\<close> and
      \<open>Accept\<close> of \<open>peer/peer.go\<close> as step machines, and any number of them in one in-process
      room.
    \<^item> \<open>Relay\<close>: \<open>relay/server.go\<close>, the slots and the four forwarding goroutines
      (buffer of 256 frames by default).
    \<^item> \<open>Bridge\<close>: \<open>grpcbridge/\<close>. \<open>Command\<close>: the \<open>bridge\<close>,
      \<open>relay\<close> and \<open>signal\<close> commands of \<open>cmd/peerrpc\<close>.
    \<^item> \<open>Facade\<close>, \<open>Conn\<close>, \<open>Listener\<close>: package \<open>peerrpc\<close>, the
      paths of dialing and accepting with what they open and release, the pump and \<open>Close\<close> of a
      connection, and the table of a listener.
    \<^item> \<open>Observability\<close>, \<open>Telemetry\<close>: the labels, counters and carriers of
      \<open>observability/\<close>, and its six interceptors.
    \<^item> \<open>Echo\<close>, \<open>Demos\<close>: the handlers and size parsers of the example services, and
      what the main functions of the examples do with the results of their calls.
    \<^item> \<open>Vectors\<close>: the table of golden vectors, which arms of the protocol it covers, which of its
      frames the types of \<open>Rpc_Typing\<close> admit, and what a successful run of the generator has written.

  Interfaces. Where one part relies on another, the contract is a locale and the parts interpret it:
  \<open>rendezvous\<close> (two signaling backends), \<open>content_sink\<close> (server and client consuming Data
  contents), \<open>interceptor_loop\<close> (the three chain builders). The peers of \<open>Peer_Room\<close> call
  the sessions of \<open>Signal_Local\<close>, the connections of \<open>Signal_WS_Net\<close> the store of
  \<open>Signal_Store\<close>, the pump of \<open>Conn\<close> the dispatch of \<open>Rpc_Client\<close>, the relay
  the channels of \<open>Transport\<close>, the handlers of \<open>Bridge\<close> and \<open>Echo\<close> run on the
  server of \<open>Rpc_Server\<close>, and \<open>Command\<close> composes bridge, server, peer and signaling.

  Parameters. Code that is not in the repository is an argument of the definitions that use it: the protobuf encoding
  (\<open>marshal\<close>, \<open>unmarshal\<close>), the WebRTC library (the record \<open>pion\<close> of its
  results, its callbacks as events), the WebSocket connection, the HTTP client, JSON, AES-GCM, X25519, HKDF and HMAC,
  URL parsing in the WebSocket client, OpenTelemetry and Prometheus. What a theorem relies on of them stands in its
  hypotheses (for instance that decryption inverts encryption under the same key and nonce), and a witness
  instantiates them.

  What the theorems show. The first group is the RPC core: a unary call end to end, the grammar of responses,
  fragmentation, the stability of results, typing. The second is signaling: the two backends refine one broadcast
  specification, concurrent callers keep the store's invariant, WebSocket messages come from where they say. Then
  negotiation, encryption, authentication, relay, bridge, facade, telemetry and the echo service. Each theorem about
  runs holds for every interleaving of events. Where the code falls short of what a reader expects, the theorem states
  what it does: a unary call may lose its data in a race, a call made after the connection is lost never returns, a
  loop over \<open>Recv\<close> can end without an error before it has read every message, \<open>Close\<close> of a
  connection can wait for a stream nobody reads, the two directions of an encrypted channel can share nonces.

  Not modelled. Generated protobuf code and the protobuf encoding, which the program only calls; logging and the text
  of log lines; clocks and timers beyond their firing as an event; the values of random peer ids and keys; the parsing
  of flags, certificates, signals and HTTP servers, which are calls into libraries; the benchmarks and tests; the Rust
  and TypeScript ports, which are other programs. Memory is not bounded, so allocation never fails, except that
  \<open>Signal_WS_Frames\<close> has the slice bounds of a message of 4 GiB; the client's copy of that reader in
  \<open>Signal_WS\<close> is for messages below that size.
\<close>
end
